(* ===== verification/Prelude.thy ===== *)
theory Prelude
  imports Main "HOL-Library.Word"
begin

section \<open>Shared types, byte encodings and ordered maps\<close>

text \<open>
  Bytes and machine integers of the client core, the little-endian object representation
  that the code copies in and out of its buffers, the interface of a self-delimiting byte
  codec, and the part of \<open>std::map\<close> the code uses (a list of pairs in key order), with the
  interface its clients rely on. Integers are kept at their width as words; a size or a
  cursor of type \<open>uint32_t\<close> is a natural number whose arithmetic is wrapped by \<open>u32\<close>.
\<close>

unbundle bit_operations_syntax

type_synonym byte = "8 word"
type_synonym bytes = "byte list"
type_synonym str = "byte list"
type_synonym u32w = "32 word"
type_synonym i32w = "32 word"
type_synonym u64w = "64 word"
type_synonym i64w = "64 word"

named_theorems codec_simps "facts that evaluate an encoder or a decoder"
named_theorems stream_simps "facts about the unread content of a byte stream"

definition u32 :: "nat \<Rightarrow> nat" where
  "u32 n = n mod 2 ^ 32"

lemma u32_id [simp]: "n < 2 ^ 32 \<Longrightarrow> u32 n = n"
  by (simp add: u32_def)

lemma u32_less [simp]: "u32 n < 2 ^ 32"
  by (simp add: u32_def)

lemma u32_less_num [simp]: "u32 n < 4294967296"
  by (simp add: u32_def)

definition ascii :: "string \<Rightarrow> str" where
  "ascii s = map (\<lambda>c. word_of_nat (of_char c)) s"

subsection \<open>Little-endian object representation\<close>

primrec le_bytes :: "nat \<Rightarrow> nat \<Rightarrow> bytes" where
  "le_bytes 0 n = []"
| "le_bytes (Suc k) n = word_of_nat n # le_bytes k (n div 256)"

primrec le_nat :: "bytes \<Rightarrow> nat" where
  "le_nat [] = 0"
| "le_nat (b # bs) = unat b + 256 * le_nat bs"

lemma length_le_bytes [simp]: "length (le_bytes k n) = k"
  by (induction k arbitrary: n) auto

lemma le_bytes_eq_Nil [simp]: "le_bytes k n = [] \<longleftrightarrow> k = 0"
  by (cases k) auto

lemma le_nat_le_bytes: "le_nat (le_bytes k n) = n mod 256 ^ k"
proof (induction k arbitrary: n)
  case 0
  then show ?case by simp
next
  case (Suc k)
  have "unat (word_of_nat n :: byte) = n mod 256"
    by (simp add: unat_of_nat)
  with Suc show ?case
    by (simp add: mod_mult2_eq add.commute)
qed

definition mem_of :: "nat \<Rightarrow> 'a::len word \<Rightarrow> bytes" where
  "mem_of n w = le_bytes n (unat w)"

definition val_of :: "bytes \<Rightarrow> 'a::len word" where
  "val_of bs = word_of_nat (le_nat bs)"

lemma length_mem_of [simp]: "length (mem_of n w) = n"
  by (simp add: mem_of_def)

lemma mem_of_eq_Nil [simp]: "mem_of n w = [] \<longleftrightarrow> n = 0"
  by (simp add: mem_of_def)

lemma val_of_mem_of:
  fixes w :: "'a::len word"
  assumes "8 * n = LENGTH('a)"
  shows "val_of (mem_of n w) = w"
proof -
  have "(256::nat) ^ n = 2 ^ (8 * n)"
    by (simp add: power_mult)
  then have pow: "(256::nat) ^ n = 2 ^ LENGTH('a)"
    by (simp only: assms)
  show ?thesis
    by (simp add: val_of_def mem_of_def le_nat_le_bytes pow)
qed

lemma val_of_mem_of_8 [codec_simps]: "val_of (mem_of 1 (w::byte)) = w"
  by (rule val_of_mem_of) simp

lemma val_of_mem_of_8' [codec_simps]: "val_of (mem_of (Suc 0) (w::byte)) = w"
  using val_of_mem_of_8 by simp

lemma val_of_mem_of_32 [codec_simps]: "val_of (mem_of 4 (w::u32w)) = w"
  by (rule val_of_mem_of) simp

lemma val_of_mem_of_64 [codec_simps]: "val_of (mem_of 8 (w::u64w)) = w"
  by (rule val_of_mem_of) simp

text \<open>A \<open>bool\<close> is one byte; any byte but 0 reads as true.\<close>

definition mem_of_bool :: "bool \<Rightarrow> bytes" where
  "mem_of_bool b = [if b then 1 else 0]"

definition bool_of :: "bytes \<Rightarrow> bool" where
  "bool_of bs = (bs \<noteq> [] \<and> hd bs \<noteq> 0)"

lemma bool_of_mem_of_bool [simp, codec_simps]: "bool_of (mem_of_bool b) = b"
  by (simp add: bool_of_def mem_of_bool_def)

lemma length_mem_of_bool [simp]: "length (mem_of_bool b) = 1"
  by (simp add: mem_of_bool_def)

lemma mem_of_bool_neq_Nil [simp]: "mem_of_bool b \<noteq> []"
  by (simp add: mem_of_bool_def)

subsection \<open>Buffers\<close>

text \<open>\<open>std::vector::resize\<close> with a fill value, and \<open>memcpy\<close> into a buffer at an offset.\<close>

definition resize :: "nat \<Rightarrow> 'a \<Rightarrow> 'a list \<Rightarrow> 'a list" where
  "resize n x xs = take n xs @ replicate (n - length xs) x"

definition overwrite :: "nat \<Rightarrow> 'a list \<Rightarrow> 'a list \<Rightarrow> 'a list" where
  "overwrite p d xs = take p xs @ d @ drop (p + length d) xs"

lemma length_resize [simp]: "length (resize n x xs) = n"
  by (simp add: resize_def)

lemma take_resize: "k \<le> length xs \<Longrightarrow> k \<le> n \<Longrightarrow> take k (resize n x xs) = take k xs"
  by (simp add: resize_def min_def)

lemma length_overwrite [simp]:
  "p + length d \<le> length xs \<Longrightarrow> length (overwrite p d xs) = length xs"
  by (simp add: overwrite_def)

lemma take_overwrite:
  "p \<le> length xs \<Longrightarrow> take (p + length d) (overwrite p d xs) = take p xs @ d"
  by (simp add: overwrite_def min_def)

lemma overwrite_end: "p = length xs \<Longrightarrow> overwrite p d xs = xs @ d"
  by (simp add: overwrite_def)

subsection \<open>Self-delimiting codecs\<close>

text \<open>
  The law every record format of the archive obeys: decoding what was encoded gives the
  value back and leaves exactly the bytes that follow it.
\<close>

locale codec =
  fixes enc :: "'a \<Rightarrow> bytes"
    and dec :: "bytes \<Rightarrow> ('a \<times> bytes) option"
    and ok :: "'a \<Rightarrow> bool"
  assumes dec_enc: "ok a \<Longrightarrow> dec (enc a @ rest) = Some (a, rest)"
begin

lemma enc_append_inject:
  assumes "ok a" and "ok b" and "enc a @ r = enc b @ s"
  shows "a = b \<and> r = s"
proof -
  have "Some (a, r) = dec (enc a @ r)"
    by (rule dec_enc [OF assms(1), symmetric])
  also have "\<dots> = dec (enc b @ s)"
    by (simp only: assms(3))
  also have "\<dots> = Some (b, s)"
    by (rule dec_enc [OF assms(2)])
  finally show ?thesis by simp
qed

lemma enc_inject: "ok a \<Longrightarrow> ok b \<Longrightarrow> enc a = enc b \<Longrightarrow> a = b"
  by (rule enc_append_inject [of a b "[]" "[]", THEN conjunct1]) simp_all

end

text \<open>
  A sequence of records is read until the input is empty or a record does not parse: the
  records read, and whether all of the input was read.
\<close>

function decode_all :: "(bytes \<Rightarrow> ('a \<times> bytes) option) \<Rightarrow> bytes \<Rightarrow> 'a list \<times> bool" where
  "decode_all dec bs =
     (if bs = [] then ([], True)
      else case dec bs of
        None \<Rightarrow> ([], False)
      | Some (a, rest) \<Rightarrow>
          if length rest < length bs then apfst ((#) a) (decode_all dec rest) else ([], False))"
  by pat_completeness auto
termination
  by (relation "measure (\<lambda>(dec, bs). length bs)") auto

declare decode_all.simps [simp del]

lemma decode_all_Nil [simp]: "decode_all dec [] = ([], True)"
  by (simp add: decode_all.simps)

locale stream_codec = codec +
  assumes enc_neq_Nil: "ok a \<Longrightarrow> enc a \<noteq> []"
begin

lemma decode_all_append:
  "(\<And>a. a \<in> set xs \<Longrightarrow> ok a) \<Longrightarrow>
     decode_all dec (concat (map enc xs) @ rest) = apfst ((@) xs) (decode_all dec rest)"
proof (induction xs)
  case Nil
  then show ?case by (simp add: apfst_def map_prod_def split_beta)
next
  case (Cons a xs)
  then have ok: "ok a" by simp
  have IH: "decode_all dec (concat (map enc xs) @ rest) = apfst ((@) xs) (decode_all dec rest)"
    by (rule Cons.IH) (simp add: Cons.prems)
  show ?case
    by (simp add: decode_all.simps [of dec "enc a @ concat (map enc xs) @ rest"]
        dec_enc [OF ok] enc_neq_Nil [OF ok] IH apfst_def map_prod_def split_beta)
qed

lemma decode_all_concat:
  "(\<And>a. a \<in> set xs \<Longrightarrow> ok a) \<Longrightarrow> decode_all dec (concat (map enc xs)) = (xs, True)"
  using decode_all_append [of xs "[]"] by simp

lemma concat_enc_inject:
  assumes "\<And>a. a \<in> set xs \<Longrightarrow> ok a" and "\<And>b. b \<in> set ys \<Longrightarrow> ok b"
    and "concat (map enc xs) = concat (map enc ys)"
  shows "xs = ys"
proof -
  have "(xs, True) = decode_all dec (concat (map enc xs))"
    by (rule decode_all_concat [OF assms(1), symmetric])
  also have "\<dots> = (ys, True)"
    unfolding assms(3) by (rule decode_all_concat [OF assms(2)])
  finally show ?thesis by simp
qed

end

subsection \<open>Ordered maps\<close>

text \<open>
  \<open>std::map\<close>: \<open>find\<close>, \<open>insert\<close>/\<open>emplace\<close> (an existing entry stays), \<open>operator[] =\<close>
  (an existing entry is overwritten), \<open>erase\<close> and iteration in key order. The keys are
  strictly increasing.
\<close>

definition map_find :: "('k \<times> 'v) list \<Rightarrow> 'k \<Rightarrow> 'v option" where
  "map_find m k = map_of m k"

fun map_emplace :: "'k::linorder \<Rightarrow> 'v \<Rightarrow> ('k \<times> 'v) list \<Rightarrow> ('k \<times> 'v) list" where
  "map_emplace k v [] = [(k, v)]"
| "map_emplace k v ((a, b) # m) =
     (if k < a then (k, v) # (a, b) # m else if k = a then (a, b) # m
      else (a, b) # map_emplace k v m)"

fun map_put :: "'k::linorder \<Rightarrow> 'v \<Rightarrow> ('k \<times> 'v) list \<Rightarrow> ('k \<times> 'v) list" where
  "map_put k v [] = [(k, v)]"
| "map_put k v ((a, b) # m) =
     (if k < a then (k, v) # (a, b) # m else if k = a then (a, v) # m
      else (a, b) # map_put k v m)"

fun map_erase :: "'k \<Rightarrow> ('k \<times> 'v) list \<Rightarrow> ('k \<times> 'v) list" where
  "map_erase k [] = []"
| "map_erase k ((a, b) # m) = (if k = a then m else (a, b) # map_erase k m)"

definition ordered :: "('k::linorder \<times> 'v) list \<Rightarrow> bool" where
  "ordered m \<longleftrightarrow> sorted_wrt (<) (map fst m)"

text \<open>The entries before and from \<open>lower_bound(k)\<close>.\<close>

definition before_lb :: "'k::linorder \<Rightarrow> ('k \<times> 'v) list \<Rightarrow> ('k \<times> 'v) list" where
  "before_lb k m = takeWhile (\<lambda>e. fst e < k) m"

definition from_lb :: "'k::linorder \<Rightarrow> ('k \<times> 'v) list \<Rightarrow> ('k \<times> 'v) list" where
  "from_lb k m = dropWhile (\<lambda>e. fst e < k) m"

lemma ordered_Nil [simp]: "ordered []"
  by (simp add: ordered_def)

lemma ordered_Cons [simp]: "ordered (e # m) \<longleftrightarrow> (\<forall>x \<in> fst ` set m. fst e < x) \<and> ordered m"
  by (auto simp: ordered_def)

lemma map_find_None_if_below:
  fixes k :: "'k::linorder"
  shows "\<forall>x \<in> fst ` set m. k < x \<Longrightarrow> map_find m k = None"
  by (fastforce simp: map_find_def map_of_eq_None_iff)

lemma keys_emplace [simp]: "fst ` set (map_emplace k v m) = insert k (fst ` set m)"
  by (induction k v m rule: map_emplace.induct) auto

lemma keys_put [simp]: "fst ` set (map_put k v m) = insert k (fst ` set m)"
  by (induction k v m rule: map_put.induct) auto

lemma set_put_subset: "set (map_put k v m) \<subseteq> insert (k, v) (set m)"
  by (induction k v m rule: map_put.induct) auto

lemma set_erase_subset: "set (map_erase k m) \<subseteq> set m"
  by (induction k m rule: map_erase.induct) auto

lemma ordered_emplace: "ordered m \<Longrightarrow> ordered (map_emplace k v m)"
  by (induction k v m rule: map_emplace.induct) auto

lemma ordered_put: "ordered m \<Longrightarrow> ordered (map_put k v m)"
  by (induction k v m rule: map_put.induct) auto

lemma ordered_erase: "ordered m \<Longrightarrow> ordered (map_erase k m)"
  by (induction k m rule: map_erase.induct) (auto dest: set_erase_subset [THEN subsetD])

lemma find_emplace:
  "ordered m \<Longrightarrow> map_find (map_emplace k v m) =
     (map_find m)(k := (case map_find m k of None \<Rightarrow> Some v | Some w \<Rightarrow> Some w))"
proof (induction k v m rule: map_emplace.induct)
  case (1 k v)
  then show ?case by (simp add: map_find_def fun_eq_iff)
next
  case (2 k v a b m)
  have "k < a \<Longrightarrow> map_of m k = None"
    using 2(2) map_find_None_if_below [of m k] by (fastforce simp: map_find_def)
  with 2 show ?case by (auto simp: map_find_def fun_eq_iff)
qed

lemma find_put: "ordered m \<Longrightarrow> map_find (map_put k v m) = (map_find m)(k := Some v)"
  by (induction k v m rule: map_put.induct) (auto simp: map_find_def fun_eq_iff)

lemma find_erase: "ordered m \<Longrightarrow> map_find (map_erase k m) = (map_find m)(k := None)"
proof (induction k m rule: map_erase.induct)
  case (1 k)
  then show ?case by (simp add: map_find_def fun_eq_iff)
next
  case (2 k a b m)
  have "k = a \<Longrightarrow> map_of m k = None"
    using 2(2) map_find_None_if_below [of m k] by (auto simp: map_find_def)
  with 2 show ?case by (auto simp: map_find_def fun_eq_iff)
qed

locale ordered_map =
  fixes find :: "'m \<Rightarrow> 'k::linorder \<Rightarrow> 'v option"
    and emplace :: "'k \<Rightarrow> 'v \<Rightarrow> 'm \<Rightarrow> 'm"
    and put :: "'k \<Rightarrow> 'v \<Rightarrow> 'm \<Rightarrow> 'm"
    and erase :: "'k \<Rightarrow> 'm \<Rightarrow> 'm"
    and inv :: "'m \<Rightarrow> bool"
  assumes find_after_emplace: "inv m \<Longrightarrow> find (emplace k v m) =
        (find m)(k := (case find m k of None \<Rightarrow> Some v | Some w \<Rightarrow> Some w))"
    and find_after_put: "inv m \<Longrightarrow> find (put k v m) = (find m)(k := Some v)"
    and find_after_erase: "inv m \<Longrightarrow> find (erase k m) = (find m)(k := None)"
    and inv_emplace: "inv m \<Longrightarrow> inv (emplace k v m)"
    and inv_put: "inv m \<Longrightarrow> inv (put k v m)"
    and inv_erase: "inv m \<Longrightarrow> inv (erase k m)"
begin

lemma emplace_existing: "inv m \<Longrightarrow> find m k = Some w \<Longrightarrow> find (emplace k v m) = find m"
  by (simp add: find_after_emplace fun_upd_idem)

lemma inv_fold_emplace: "inv m \<Longrightarrow> inv (fold (\<lambda>(k, v). emplace k v) es m)"
  by (induction es arbitrary: m) (auto simp: inv_emplace)

lemma find_fold_emplace:
  "inv m \<Longrightarrow> find (fold (\<lambda>(k, v). emplace k v) es m) k =
     (case find m k of Some v \<Rightarrow> Some v | None \<Rightarrow> map_of es k)"
  by (induction es arbitrary: m)
    (auto simp: inv_emplace find_after_emplace split: option.splits)

lemma inv_fold_put: "inv m \<Longrightarrow> inv (fold (\<lambda>(k, v). put k v) es m)"
  by (induction es arbitrary: m) (auto simp: inv_put)

lemma find_fold_put:
  "inv m \<Longrightarrow> find (fold (\<lambda>(k, v). put k v) es m) k =
     (case map_of (rev es) k of Some v \<Rightarrow> Some v | None \<Rightarrow> find m k)"
  by (induction es arbitrary: m)
    (auto simp: inv_put find_after_put map_add_def split: option.splits)

end

interpretation smap: ordered_map map_find map_emplace map_put map_erase ordered
  by unfold_locales
    (simp_all add: find_emplace find_put find_erase ordered_emplace ordered_put ordered_erase)

lemma before_lb_append_from_lb [simp]: "before_lb k m @ from_lb k m = m"
  by (simp add: before_lb_def from_lb_def)

lemma before_lb_less: "e \<in> set (before_lb k m) \<Longrightarrow> fst e < k"
  by (auto simp: before_lb_def dest: set_takeWhileD)

lemma from_lb_ge: "ordered m \<Longrightarrow> e \<in> set (from_lb k m) \<Longrightarrow> k \<le> fst e"
  by (induction m) (force simp: from_lb_def split: if_splits)+

lemma ordered_append: "ordered (xs @ ys) \<longleftrightarrow>
    ordered xs \<and> ordered ys \<and> (\<forall>x \<in> set xs. \<forall>y \<in> set ys. fst x < fst y)"
  by (auto simp: ordered_def sorted_wrt_append)

lemma ordered_from_lb: "ordered m \<Longrightarrow> ordered (from_lb k m)"
  using ordered_append [of "before_lb k m" "from_lb k m"] by simp

lemma ordered_before_lb: "ordered m \<Longrightarrow> ordered (before_lb k m)"
  using ordered_append [of "before_lb k m" "from_lb k m"] by simp

lemma map_find_Some_iff: "ordered m \<Longrightarrow> map_find m k = Some v \<longleftrightarrow> (k, v) \<in> set m"
  by (auto simp: map_find_def ordered_def strict_sorted_iff
      intro: map_of_is_SomeI dest: map_of_SomeD)

end
