(* ===== verification/Binary_Stream.thy ===== *)
theory Binary_Stream
  imports Prelude
begin

section \<open>The byte stream: core/tools/binary\_stream\<close>

text \<open>
  A \<open>binary_stream\<close> is a growable buffer with two \<open>uint32_t\<close> cursors: bytes are written at
  the input cursor and read at the output cursor. The model keeps the buffer with the slack
  that resizing leaves behind the input cursor, and wraps the cursors at 32 bits. The field
  \<open>ub\<close> records an access outside the buffer or through the null pointer that a failed read
  returns, which is undefined behaviour in the code: it starts false, nothing resets it, and
  the theorems show where it stays false.
\<close>

record binary_stream =
  buffer :: bytes
  input_cursor :: nat
  output_cursor :: nat
  ub :: bool

definition empty_stream :: binary_stream where
  "empty_stream = \<lparr>buffer = [], input_cursor = 0, output_cursor = 0, ub = False\<rparr>"

definition available :: "binary_stream \<Rightarrow> nat" where
  "available s = nat ((int (input_cursor s) - int (output_cursor s)) mod 2 ^ 32)"

definition all_size :: "binary_stream \<Rightarrow> nat" where
  "all_size s = u32 (length (buffer s))"

definition reserve :: "binary_stream \<Rightarrow> nat \<Rightarrow> binary_stream" where
  "reserve s n = (if length (buffer s) < n then s\<lparr>buffer := resize n 0 (buffer s)\<rparr> else s)"

definition bs_resize :: "binary_stream \<Rightarrow> nat \<Rightarrow> binary_stream" where
  "bs_resize s n = s\<lparr>buffer := resize n 0 (buffer s)\<rparr>"

definition reset :: "binary_stream \<Rightarrow> binary_stream" where
  "reset s = s\<lparr>input_cursor := 0, output_cursor := 0\<rparr>"

definition reset_out :: "binary_stream \<Rightarrow> binary_stream" where
  "reset_out s = s\<lparr>output_cursor := 0\<rparr>"

definition set_output :: "binary_stream \<Rightarrow> nat \<Rightarrow> binary_stream" where
  "set_output s v = s\<lparr>output_cursor := u32 v\<rparr>"

definition set_input :: "binary_stream \<Rightarrow> nat \<Rightarrow> binary_stream" where
  "set_input s v = s\<lparr>input_cursor := u32 v\<rparr>"

text \<open>Copying into the buffer at an offset, and reading from it.\<close>

definition put_at :: "nat \<Rightarrow> bytes \<Rightarrow> binary_stream \<Rightarrow> binary_stream" where
  "put_at p d s =
     (if p + length d \<le> length (buffer s) then s\<lparr>buffer := overwrite p d (buffer s)\<rparr>
      else s\<lparr>ub := True\<rparr>)"

definition get_at :: "nat \<Rightarrow> nat \<Rightarrow> binary_stream \<Rightarrow> bytes" where
  "get_at p n s = take n (drop p (buffer s))"

definition bs_write :: "binary_stream \<Rightarrow> bytes \<Rightarrow> binary_stream" where
  "bs_write s d =
     (if d = [] then s
      else
        let size_need = u32 (input_cursor s + length d);
            s1 = (if size_need > length (buffer s)
                  then s\<lparr>buffer := resize (u32 (size_need + 1)) 0 (buffer s)\<rparr> else s);
            s2 = put_at (input_cursor s) d s1
        in s2\<lparr>input_cursor := u32 (input_cursor s + length d)\<rparr>)"

text \<open>\<open>alloc_buffer\<close> returns the offset of the region; the caller fills it with \<open>put_at\<close>.\<close>

definition alloc_buffer :: "binary_stream \<Rightarrow> nat \<Rightarrow> nat \<times> binary_stream" where
  "alloc_buffer s n =
     (let size_need = u32 (input_cursor s + n);
          s1 = (if size_need > length (buffer s)
                then s\<lparr>buffer := resize (u32 (size_need * 2)) 0 (buffer s)\<rparr> else s)
      in (input_cursor s, s1\<lparr>input_cursor := u32 (input_cursor s + n)\<rparr>))"

definition write_stream :: "binary_stream \<Rightarrow> bytes \<Rightarrow> binary_stream" where
  "write_stream s source =
     s\<lparr>buffer := buffer s @ source, input_cursor := u32 (input_cursor s + length source)\<rparr>"

text \<open>\<open>read\<close> returns a pointer to the bytes, or null when they are not available.\<close>

definition adv :: "nat \<Rightarrow> binary_stream \<Rightarrow> binary_stream" where
  "adv n s = s\<lparr>output_cursor := u32 (output_cursor s + n),
               ub := ub s \<or> length (buffer s) < output_cursor s + n\<rparr>"

definition bs_read :: "binary_stream \<Rightarrow> nat \<Rightarrow> bytes option \<times> binary_stream" where
  "bs_read s n =
     (if n = 0 then (None, s)
      else if available s < n then (None, s)
      else (Some (get_at (output_cursor s) n s), adv n s))"

definition read_available :: "binary_stream \<Rightarrow> bytes option \<times> binary_stream" where
  "read_available s =
     (let available_size = available s
      in if available_size = 0 then (None, s)
         else (Some (get_at (output_cursor s) available_size s), adv available_size s))"

text \<open>\<open>*((t_*) read(sizeof(t_)))\<close>: a null pointer is dereferenced when too few bytes are left.\<close>

definition read_t :: "binary_stream \<Rightarrow> nat \<Rightarrow> bytes \<times> binary_stream" where
  "read_t s n =
     (case bs_read s n of
        (Some d, s') \<Rightarrow> (d, s')
      | (None, s') \<Rightarrow> (replicate n 0, s'\<lparr>ub := True\<rparr>))"

definition read_u8 :: "binary_stream \<Rightarrow> byte \<times> binary_stream" where
  "read_u8 s = apfst val_of (read_t s 1)"

definition read_u32 :: "binary_stream \<Rightarrow> u32w \<times> binary_stream" where
  "read_u32 s = apfst val_of (read_t s 4)"

definition read_u64 :: "binary_stream \<Rightarrow> u64w \<times> binary_stream" where
  "read_u64 s = apfst val_of (read_t s 8)"

definition read_bool :: "binary_stream \<Rightarrow> bool \<times> binary_stream" where
  "read_bool s = apfst bool_of (read_t s 1)"

definition write_string :: "binary_stream \<Rightarrow> str \<Rightarrow> binary_stream" where
  "write_string s val = (if val \<noteq> [] then bs_write s (take (u32 (length val)) val) else s)"

definition read_string :: "binary_stream \<Rightarrow> str \<times> binary_stream" where
  "read_string s =
     (let sz = available s
      in if sz = 0 then ([], s) else read_t s sz)"

definition is_compressed :: "binary_stream \<Rightarrow> bool" where
  "is_compressed s \<longleftrightarrow>
     all_size s > 2 \<and>
       (buffer s ! 0 = 0x78 \<and>
          (buffer s ! 1 = 0x9C \<or> buffer s ! 1 = 0x01 \<or> buffer s ! 1 = 0xDA \<or> buffer s ! 1 = 0x5E) \<or>
        buffer s ! 0 = 0x1F \<and> buffer s ! 1 = 0x8B)"

text \<open>
  The AES routines of \<open>utils::aes\<close> call OpenSSL; they are a parameter that gives the result
  flag and the output bytes.
\<close>

definition encrypt_aes256 ::
    "(bytes \<Rightarrow> str \<Rightarrow> bool \<times> bytes) \<Rightarrow> str \<Rightarrow> binary_stream \<Rightarrow> bool \<times> binary_stream" where
  "encrypt_aes256 aes_encrypt key s =
     (if buffer s = [] then (False, s)
      else
        let s1 = reset s;
            (result, encrypted) = aes_encrypt (butlast (buffer s1)) key;
            s2 = s1\<lparr>buffer := []\<rparr>
        in (result, bs_write s2 encrypted))"

definition decrypt_aes256 ::
    "(bytes \<Rightarrow> str \<Rightarrow> bool \<times> bytes) \<Rightarrow> str \<Rightarrow> binary_stream \<Rightarrow> bool \<times> binary_stream" where
  "decrypt_aes256 aes_decrypt key s =
     (if buffer s = [] then (False, s)
      else
        let s1 = reset s;
            (result, decrypted) = aes_decrypt (butlast (buffer s1)) key;
            s2 = s1\<lparr>buffer := []\<rparr>
        in (result, bs_write s2 decrypted))"

text \<open>
  The loop of \<open>load_from_file\<close> over the bytes of an opened file: blocks of 64 KiB, the last
  one shorter.
\<close>

definition mem_block_size :: nat where
  "mem_block_size = 1024 * 64"

function load_blocks :: "bytes \<Rightarrow> binary_stream \<Rightarrow> binary_stream" where
  "load_blocks file s =
     (if file = [] then s
      else
        let bytes_to_read = (if length file < mem_block_size then length file else mem_block_size)
        in load_blocks (drop bytes_to_read file) (bs_write s (take bytes_to_read file)))"
  by pat_completeness auto
termination
  by (relation "measure (\<lambda>(file, s). length file)") (auto simp: mem_block_size_def)

declare load_blocks.simps [simp del]

definition load_from_file :: "bytes option \<Rightarrow> binary_stream \<Rightarrow> bool \<times> binary_stream" where
  "load_from_file file s =
     (case file of None \<Rightarrow> (False, s) | Some bytes \<Rightarrow> (True, load_blocks bytes s))"

subsection \<open>Reading shrinks what is available\<close>

lemma available_less [simp]: "available s < 2 ^ 32"
  by (simp add: available_def)

lemma available_adv:
  assumes "n \<le> available s"
  shows "available (adv n s) = available s - n"
proof -
  define d where "d = int (input_cursor s) - int (output_cursor s)"
  have av: "int (available s) = d mod 2 ^ 32"
    by (simp add: available_def d_def)
  have "int (available (adv n s)) = (int (input_cursor s) - int (output_cursor s + n) mod 2 ^ 32) mod 2 ^ 32"
    by (simp add: available_def adv_def u32_def zmod_int)
  also have "\<dots> = (d mod 2 ^ 32 - int n) mod 2 ^ 32"
    by (simp add: d_def mod_simps algebra_simps)
  also have "\<dots> = d mod 2 ^ 32 - int n"
    using assms av available_less [of s] by (intro mod_pos_pos_trivial) auto
  finally show ?thesis
    using av by linarith
qed

lemma available_read:
  "bs_read s n = (Some d, s') \<Longrightarrow> available s' + n = available s \<and> 0 < n"
  by (auto simp: bs_read_def available_adv split: if_splits)

subsection \<open>The unread content and the stream invariant\<close>

text \<open>
  Abstractly a stream is the queue of the bytes written and not yet read. The invariant puts
  the cursors in order inside the buffer; \<open>room\<close> is how much more can be written before a
  32-bit cursor would wrap.
\<close>

definition content :: "binary_stream \<Rightarrow> bytes" where
  "content s = drop (output_cursor s) (take (input_cursor s) (buffer s))"

definition bs_wf :: "binary_stream \<Rightarrow> bool" where
  "bs_wf s \<longleftrightarrow> output_cursor s \<le> input_cursor s \<and> input_cursor s \<le> length (buffer s) \<and>
     length (buffer s) < 2 ^ 32 \<and> \<not> ub s"

definition room :: "binary_stream \<Rightarrow> nat" where
  "room s = 2 ^ 32 - 2 - input_cursor s"

lemma available_content [stream_simps]: "bs_wf s \<Longrightarrow> available s = length (content s)"
  by (auto simp: available_def content_def bs_wf_def mod_pos_pos_trivial nat_diff_distrib min_def)

lemma length_content_less [simp]: "bs_wf s \<Longrightarrow> length (content s) < 2 ^ 32"
  by (auto simp: content_def bs_wf_def)

lemma bs_wf_empty [simp, stream_simps]: "bs_wf empty_stream"
  by (simp add: bs_wf_def empty_stream_def)

lemma content_empty [simp, stream_simps]: "content empty_stream = []"
  by (simp add: content_def empty_stream_def)

lemma cursors_empty [simp]: "output_cursor empty_stream = 0" "input_cursor empty_stream = 0"
  by (simp_all add: empty_stream_def)

lemma room_empty [simp, stream_simps]: "room empty_stream = 2 ^ 32 - 2"
  by (simp add: room_def empty_stream_def)

lemma bs_wf_reset [simp, stream_simps]: "bs_wf s \<Longrightarrow> bs_wf (reset s)"
  by (simp add: bs_wf_def reset_def)

lemma content_reset [simp, stream_simps]: "content (reset s) = []"
  by (simp add: content_def reset_def)

lemma room_reset [simp, stream_simps]: "room (reset s) = 2 ^ 32 - 2"
  by (simp add: room_def reset_def)

lemma write_facts:
  assumes "bs_wf s" and "length d \<le> room s"
  shows content_write [stream_simps]: "content (bs_write s d) = content s @ d"
    and bs_wf_write [stream_simps]: "bs_wf (bs_write s d)"
    and room_write [stream_simps]: "room (bs_write s d) = room s - length d"
    and input_write: "input_cursor (bs_write s d) = input_cursor s + length d"
    and output_write [simp]: "output_cursor (bs_write s d) = output_cursor s"
proof -
  define b where "b = (if input_cursor s + length d > length (buffer s)
      then resize (input_cursor s + length d + 1) 0 (buffer s) else buffer s)"
  have wf: "output_cursor s \<le> input_cursor s" "input_cursor s \<le> length (buffer s)"
    "length (buffer s) < 2 ^ 32" "\<not> ub s"
    using assms(1) by (auto simp: bs_wf_def)
  have all: "content (bs_write s d) = content s @ d \<and> bs_wf (bs_write s d) \<and>
      room (bs_write s d) = room s - length d \<and>
      input_cursor (bs_write s d) = input_cursor s + length d \<and>
      output_cursor (bs_write s d) = output_cursor s"
  proof (cases "d = []")
    case True
    then show ?thesis using assms by (simp add: bs_write_def)
  next
    case False
    have small: "input_cursor s + length d + 1 < 2 ^ 32"
      using assms(2) False by (cases d) (auto simp: room_def)
    have len: "input_cursor s + length d \<le> length b" "length b < 2 ^ 32"
      using wf small by (auto simp: b_def)
    have tk: "take (input_cursor s) b = take (input_cursor s) (buffer s)"
      using wf by (simp add: b_def take_resize)
    have w: "bs_write s d = s\<lparr>buffer := overwrite (input_cursor s) d b,
        input_cursor := input_cursor s + length d\<rparr>"
      using False small len by (auto simp: bs_write_def Let_def put_at_def b_def)
    have "take (input_cursor s + length d) (overwrite (input_cursor s) d b) =
        take (input_cursor s) (buffer s) @ d"
      using len by (simp add: take_overwrite tk)
    then show ?thesis
      using wf len small by (simp add: w content_def bs_wf_def room_def)
  qed
  then show "content (bs_write s d) = content s @ d" "bs_wf (bs_write s d)"
    "room (bs_write s d) = room s - length d"
    "input_cursor (bs_write s d) = input_cursor s + length d"
    "output_cursor (bs_write s d) = output_cursor s"
    by blast+
qed

lemma adv_facts:
  assumes "bs_wf s" and "n \<le> length (content s)"
  shows content_adv [stream_simps]: "content (adv n s) = drop n (content s)"
    and bs_wf_adv [stream_simps]: "bs_wf (adv n s)"
    and room_adv [stream_simps]: "room (adv n s) = room s"
    and output_adv: "output_cursor (adv n s) = output_cursor s + n"
  using assms by (auto simp: content_def bs_wf_def adv_def room_def add.commute)

lemma get_at_content:
  "bs_wf s \<Longrightarrow> n \<le> length (content s) \<Longrightarrow> get_at (output_cursor s) n s = take n (content s)"
  by (auto simp: get_at_def content_def bs_wf_def drop_take min_absorb1)

lemma read_content [stream_simps]:
  "bs_wf s \<Longrightarrow> 0 < n \<Longrightarrow> n \<le> length (content s) \<Longrightarrow>
     bs_read s n = (Some (take n (content s)), adv n s)"
  by (simp add: bs_read_def available_content get_at_content)

lemma read_short [stream_simps]:
  "bs_wf s \<Longrightarrow> length (content s) < n \<Longrightarrow> bs_read s n = (None, s)"
  by (simp add: bs_read_def available_content)

lemma read_t_content [stream_simps]:
  "bs_wf s \<Longrightarrow> 0 < n \<Longrightarrow> n \<le> length (content s) \<Longrightarrow>
     read_t s n = (take n (content s), adv n s)"
  by (simp add: read_t_def read_content)

lemma bs_wf_reset_out [stream_simps]: "bs_wf s \<Longrightarrow> bs_wf (reset_out s)"
  by (simp add: bs_wf_def reset_out_def)

lemma room_reset_out [simp]: "room (reset_out s) = room s"
  by (simp add: room_def reset_out_def)

text \<open>Reads of the given sizes, one after the other.\<close>

primrec get_many ::
    "('s \<Rightarrow> nat \<Rightarrow> bytes option \<times> 's) \<Rightarrow> nat list \<Rightarrow> 's \<Rightarrow> bytes option list \<times> 's" where
  "get_many get [] s = ([], s)"
| "get_many get (n # ns) s =
     (let (r, s1) = get s n; (rs, s2) = get_many get ns s1 in (r # rs, s2))"

text \<open>What the clients of a stream rely on, whatever the buffer looks like.\<close>

locale byte_queue =
  fixes queue :: "'s \<Rightarrow> bytes"
    and put :: "'s \<Rightarrow> bytes \<Rightarrow> 's"
    and get :: "'s \<Rightarrow> nat \<Rightarrow> bytes option \<times> 's"
    and capacity :: "'s \<Rightarrow> nat"
    and inv :: "'s \<Rightarrow> bool"
  assumes queue_put: "inv s \<Longrightarrow> length d \<le> capacity s \<Longrightarrow> queue (put s d) = queue s @ d"
    and inv_put: "inv s \<Longrightarrow> length d \<le> capacity s \<Longrightarrow> inv (put s d)"
    and capacity_put: "inv s \<Longrightarrow> length d \<le> capacity s \<Longrightarrow>
        capacity (put s d) = capacity s - length d"
    and get_queue: "inv s \<Longrightarrow> 0 < n \<Longrightarrow> n \<le> length (queue s) \<Longrightarrow>
        fst (get s n) = Some (take n (queue s)) \<and> queue (snd (get s n)) = drop n (queue s) \<and>
        inv (snd (get s n))"
    and get_short: "inv s \<Longrightarrow> length (queue s) < n \<Longrightarrow> get s n = (None, s)"
begin

lemma fold_put:
  "inv s \<Longrightarrow> length (concat ds) \<le> capacity s \<Longrightarrow>
     queue (fold (\<lambda>d s. put s d) ds s) = queue s @ concat ds \<and>
     inv (fold (\<lambda>d s. put s d) ds s) \<and>
     capacity (fold (\<lambda>d s. put s d) ds s) = capacity s - length (concat ds)"
proof (induction ds arbitrary: s)
  case Nil
  then show ?case by simp
next
  case (Cons d ds)
  then have d: "length d \<le> capacity s" by simp
  show ?case
    using Cons.prems Cons.IH [of "put s d"]
    by (simp add: queue_put [OF _ d] inv_put [OF _ d] capacity_put [OF _ d])
qed

lemma get_written:
  assumes "inv s" and "queue s = d @ rest" and "d \<noteq> []"
  shows "fst (get s (length d)) = Some d" "queue (snd (get s (length d))) = rest"
    "inv (snd (get s (length d)))"
  using get_queue [of s "length d"] assms by simp_all

lemma get_many_written:
  "inv s \<Longrightarrow> queue s = concat ds @ rest \<Longrightarrow> [] \<notin> set ds \<Longrightarrow>
     fst (get_many get (map length ds) s) = map Some ds \<and>
     queue (snd (get_many get (map length ds) s)) = rest"
proof (induction ds arbitrary: s)
  case Nil
  then show ?case by simp
next
  case (Cons d ds)
  then have "fst (get s (length d)) = Some d" "queue (snd (get s (length d))) = concat ds @ rest"
    "inv (snd (get s (length d)))"
    using get_written [of s d "concat ds @ rest"] by auto
  then show ?case
    using Cons.IH [of "snd (get s (length d))"] Cons.prems
    by (auto simp: Let_def split_beta)
qed

end

interpretation bq: byte_queue content bs_write bs_read room bs_wf
  by unfold_locales (simp_all add: stream_simps)

end
