(* ===== verification/Storage.thy ===== *)
theory Storage
  imports Binary_Stream
begin

section \<open>Block files: core/archive/storage\<close>

text \<open>
  A \<open>storage\<close> is one file of framed data blocks (size, size, data, size, size) and the
  \<open>std::fstream\<close> open on it, if any. The file's bytes are part of the model's state; the
  stream keeps its position and its sticky \<open>eofbit\<close> and \<open>failbit\<close>. The environment decides
  whether the directory exists or can be created and whether opening is permitted; the medium
  has \<open>free_space\<close> bytes left.

  The stream buffers its output: what was written and has not gone to the medium yet is its
  \<open>unwritten\<close> part. How much of the output a write leaves in the buffer is up to the
  implementation of the library, and so a function of the environment (\<open>buffer_keeps\<close>, of the
  number of bytes that were in the buffer and the number of bytes that are written). The medium takes
  what fits; only when it refuses bytes during a write does the write fail. \<open>close\<close> hands over
  the rest of the buffer; that it did not fit goes unnoticed, since the code does not look at the
  stream after closing it. Bytes the medium refused are dropped from the buffer; a library that
  kept them would offer them to a full medium again.
\<close>

datatype archive_error = ok | end_of_file | file_not_exist | create_directory_error
  | open_file_error | parse_headers

record storage_mode =
  sm_read :: bool
  sm_write :: bool
  sm_append :: bool
  sm_truncate :: bool

definition no_mode :: storage_mode where
  "no_mode = \<lparr>sm_read = False, sm_write = False, sm_append = False, sm_truncate = False\<rparr>"

record fstream =
  fs_pos :: nat
  eofbit :: bool
  failbit :: bool
  appmode :: bool
  unwritten :: bytes

record storage =
  file_data :: "bytes option"
  free_space :: nat
  file_stream :: "fstream option"
  last_error :: archive_error

record fs_env =
  dir_exists :: bool
  create_dir_ok :: bool
  open_ok :: bool
  os_errno :: int
  buffer_keeps :: "nat \<Rightarrow> nat \<Rightarrow> nat"

record result_type =
  result :: bool
  error_code :: int

definition max_data_block_size :: nat where
  "max_data_block_size = 1024 * 1024"

definition storage_new :: storage where
  "storage_new = \<lparr>file_data = None, free_space = 0, file_stream = None, last_error = ok\<rparr>"

definition file_bytes :: "storage \<Rightarrow> bytes" where
  "file_bytes st = (case file_data st of None \<Rightarrow> [] | Some f \<Rightarrow> f)"

subsection \<open>The file stream\<close>

text \<open>
  The content of the file right after \<open>std::fstream\<close> opened it in the given mode (the
  standard's table of open modes), or \<open>None\<close> when the mode or the file does not allow it.
\<close>

definition std_open :: "storage_mode \<Rightarrow> bytes option \<Rightarrow> bytes option" where
  "std_open m f =
     (if sm_truncate m then
        (if sm_write m \<and> \<not> sm_append m then Some [] else None)
      else if sm_append m then Some (case f of None \<Rightarrow> [] | Some b \<Rightarrow> b)
      else if sm_read m then f
      else if sm_write m then Some []
      else None)"

definition fs_good :: "fstream \<Rightarrow> bool" where
  "fs_good s \<longleftrightarrow> \<not> eofbit s \<and> \<not> failbit s"

definition fs_seekp :: "int \<Rightarrow> fstream \<Rightarrow> fstream" where
  "fs_seekp off s =
     (if failbit s then s
      else if off < 0 then s\<lparr>failbit := True\<rparr>
      else s\<lparr>fs_pos := nat off\<rparr>)"

text \<open>\<open>peek\<close>: whether it returned EOF, and the stream afterwards.\<close>

definition fs_peek :: "bytes \<Rightarrow> fstream \<Rightarrow> bool \<times> fstream" where
  "fs_peek f s =
     (if \<not> fs_good s then (True, s\<lparr>failbit := True\<rparr>)
      else if length f \<le> fs_pos s then (True, s\<lparr>eofbit := True\<rparr>)
      else (False, s))"

definition fs_read :: "bytes \<Rightarrow> nat \<Rightarrow> fstream \<Rightarrow> bytes \<times> fstream" where
  "fs_read f n s =
     (if \<not> fs_good s then ([], s\<lparr>failbit := True\<rparr>)
      else
        let d = take n (drop (fs_pos s) f);
            s1 = s\<lparr>fs_pos := fs_pos s + length d\<rparr>
        in if length d < n then (d, s1\<lparr>eofbit := True, failbit := True\<rparr>) else (d, s1))"

definition put_bytes :: "nat \<Rightarrow> bytes \<Rightarrow> bytes \<Rightarrow> bytes" where
  "put_bytes p d f = overwrite p d (f @ replicate (p - length f) 0)"

text \<open>
  \<open>fs_flush n\<close> hands the first \<open>n\<close> bytes of the buffered output to the medium, at the position of
  the file or, in append mode, at its end.
\<close>

definition fs_flush :: "nat \<Rightarrow> storage \<Rightarrow> fstream \<Rightarrow> storage" where
  "fs_flush n st s =
     (let d = take n (unwritten s)
      in if d = [] then st\<lparr>file_stream := Some s\<rparr>
         else
           let f = file_bytes st;
               p = (if appmode s then length f else fs_pos s);
               d' = take (length f + free_space st - p) d;
               f' = (if d' = [] then f else put_bytes p d' f);
               refused = length d' < length d
           in st\<lparr>file_data := Some f', free_space := free_space st - (length f' - length f),
                 file_stream := Some (s\<lparr>fs_pos := p + length d', failbit := failbit s \<or> refused,
                   unwritten := if refused then [] else drop n (unwritten s)\<rparr>)\<rparr>)"

definition fs_write :: "fs_env \<Rightarrow> bytes \<Rightarrow> storage \<Rightarrow> fstream \<Rightarrow> storage" where
  "fs_write env d st s =
     (if \<not> fs_good s then st\<lparr>file_stream := Some (s\<lparr>failbit := True\<rparr>)\<rparr>
      else
        let out = unwritten s @ d;
            kept = buffer_keeps env (length (unwritten s)) (length d)
        in fs_flush (length out - kept) st (s\<lparr>unwritten := out\<rparr>))"

subsection \<open>Opening and closing\<close>

definition storage_open :: "fs_env \<Rightarrow> storage_mode \<Rightarrow> storage \<Rightarrow> bool \<times> storage" where
  "storage_open env m st0 =
     (let st = st0\<lparr>last_error := ok\<rparr>
      in if file_stream st \<noteq> None then (False, st)
         else if sm_read m \<and> \<not> sm_write m \<and> file_data st = None
         then (False, st\<lparr>last_error := file_not_exist\<rparr>)
         else if \<not> dir_exists env \<and> \<not> create_dir_ok env
         then (False, st\<lparr>last_error := create_directory_error\<rparr>)
         else case (if open_ok env then std_open m (file_data st) else None) of
           None \<Rightarrow> (False, st\<lparr>last_error := open_file_error\<rparr>)
         | Some f \<Rightarrow>
             (True, st\<lparr>file_data := Some f,
                free_space := free_space st + (length (file_bytes st) - length f),
                file_stream := Some \<lparr>fs_pos = (if sm_append m \<and> sm_write m then length f else 0),
                  eofbit = False, failbit = False, appmode = sm_append m, unwritten = []\<rparr>\<rparr>))"

definition storage_close :: "storage \<Rightarrow> storage" where
  "storage_close st =
     (case file_stream st of
        None \<Rightarrow> st
      | Some s \<Rightarrow> (fs_flush (length (unwritten s)) st s)\<lparr>file_stream := None\<rparr>)"

subsection \<open>Writing a block\<close>

definition st_write :: "fs_env \<Rightarrow> bytes \<Rightarrow> storage \<Rightarrow> storage" where
  "st_write env d st = (case file_stream st of None \<Rightarrow> st | Some s \<Rightarrow> fs_write env d st s)"

definition st_fail :: "storage \<Rightarrow> bool" where
  "st_fail st = (case file_stream st of None \<Rightarrow> True | Some s \<Rightarrow> failbit s)"

definition tellp :: "storage \<Rightarrow> int" where
  "tellp st =
     (case file_stream st of
        None \<Rightarrow> -1
      | Some s \<Rightarrow> if failbit s then -1 else int (fs_pos s + length (unwritten s)))"

text \<open>
  The result, the offset handed back, the storage and the data stream after the call. A
  failed write reports the operating system's error number.
\<close>

definition write_data_block ::
    "fs_env \<Rightarrow> storage \<Rightarrow> binary_stream \<Rightarrow> int \<Rightarrow> result_type \<times> int \<times> storage \<times> binary_stream" where
  "write_data_block env st data offset =
     (if file_stream st = None then (\<lparr>result = False, error_code = 0\<rparr>, offset, st, data)
      else
        let off = tellp st;
            data_size = available data;
            sz = mem_of 4 (word_of_nat data_size :: u32w);
            failed = \<lparr>result = False, error_code = os_errno env\<rparr>
        in if data_size = 0 then (\<lparr>result = False, error_code = 2 ^ 31 - 1\<rparr>, off, st, data)
           else let st1 = st_write env sz st in
             if st_fail st1 then (failed, off, st1, data)
             else let st2 = st_write env sz st1 in
               if st_fail st2 then (failed, off, st2, data)
               else let (d, data1) = read_t data data_size; st3 = st_write env d st2 in
                 if st_fail st3 then (failed, off, st3, data1)
                 else let st4 = st_write env sz st3 in
                   if st_fail st4 then (failed, off, st4, data1)
                   else let st5 = st_write env sz st4 in
                     if st_fail st5 then (failed, off, st5, data1)
                     else (\<lparr>result = True, error_code = 0\<rparr>, off, st5, data1))"

subsection \<open>Reading a block\<close>

definition set_stream :: "storage \<Rightarrow> fstream \<Rightarrow> storage" where
  "set_stream st s = st\<lparr>file_stream := Some s\<rparr>"

text \<open>
  Reading and moving the position write the buffered output first, unless the state of the stream
  keeps them from doing anything.
\<close>

definition sync_output :: "int \<Rightarrow> storage \<Rightarrow> storage" where
  "sync_output offset st =
     (case file_stream st of
        None \<Rightarrow> st
      | Some s \<Rightarrow>
          if (if offset \<noteq> -1 then failbit s else \<not> fs_good s) then st
          else fs_flush (length (unwritten s)) st s)"

text \<open>
  \<open>read_size\<close> reads one of the four copies of the size: \<open>None\<close> when the stream is not good
  afterwards.
\<close>

definition read_size :: "bytes \<Rightarrow> fstream \<Rightarrow> nat option \<times> fstream" where
  "read_size f s =
     (let (d, s1) = fs_read f 4 s
      in (if fs_good s1 then Some (unat (val_of d :: u32w)) else None, s1))"

definition read_data_block ::
    "storage \<Rightarrow> int \<Rightarrow> binary_stream \<Rightarrow> bool \<times> storage \<times> binary_stream" where
  "read_data_block st0 offset data =
     (let st = sync_output offset st0 in
      case file_stream st of
        None \<Rightarrow> (False, st, data)
      | Some s \<Rightarrow>
          let f = file_bytes st;
              s0 = (if offset \<noteq> -1 then fs_seekp offset s else s);
              (eof, s1) = fs_peek f s0
          in if eof then (False, (set_stream st s1)\<lparr>last_error := end_of_file\<rparr>, data)
             else let (sz1, s2) = read_size f s1 in
               if sz1 = None then (False, set_stream st s2, data)
               else let (sz2, s3) = read_size f s2 in
                 if sz2 = None then (False, set_stream st s3, data)
                 else if sz1 \<noteq> sz2 \<or> max_data_block_size < the sz1
                 then (False, set_stream st s3, data)
                 else
                   let n = the sz1;
                       (off, data0) = alloc_buffer data n;
                       (d, s4) = fs_read f n s3;
                       (data1, s5) = (if n \<noteq> 0 then (put_at off d data0, s4) else (data, s3))
                   in if \<not> fs_good s5 then (False, set_stream st s5, data1)
                      else let (sz3, s6) = read_size f s5 in
                        if sz3 = None then (False, set_stream st s6, data1)
                        else let (sz4, s7) = read_size f s6 in
                          if sz4 = None then (False, set_stream st s7, data1)
                          else (sz1 = sz3 \<and> sz1 = sz4, set_stream st s7, data1))"

subsection \<open>Searching blocks in a buffer\<close>

text \<open>
  \<open>fast_read_data_block\<close> looks for the next block in a buffer that holds a part of a file,
  skipping bytes that are not the start of one. Positions are not negative.
\<close>

definition read32_at :: "binary_stream \<Rightarrow> nat \<Rightarrow> nat" where
  "read32_at s p = unat (val_of (get_at p 4 s) :: u32w)"

function fast_scan :: "binary_stream \<Rightarrow> nat \<Rightarrow> nat \<Rightarrow> (nat \<times> nat) option \<times> nat" where
  "fast_scan s current_pos end_pos =
     (if end_pos \<le> current_pos + 4 * 4 then (None, current_pos)
      else
        let sz1 = read32_at s current_pos; sz2 = read32_at s (current_pos + 4)
        in if sz1 = 0 \<or> sz1 \<noteq> sz2 \<or> max_data_block_size < sz1
           then fast_scan s (current_pos + 1) end_pos
           else if current_pos + 4 * 4 + sz1 \<le> end_pos then
             let sz3 = read32_at s (current_pos + 2 * 4 + sz1);
                 sz4 = read32_at s (current_pos + 3 * 4 + sz1)
             in if sz3 \<noteq> sz1 \<or> sz3 \<noteq> sz4 then fast_scan s (current_pos + 1) end_pos
                else (Some (current_pos, sz1), current_pos)
           else (None, current_pos))"
  by pat_completeness auto
termination
  by (relation "measure (\<lambda>(s, p, e). e - p)") auto

declare fast_scan.simps [simp del]

text \<open>The result flag, the stream with its cursors set on the block, the new position and the
  start of the block's data.\<close>

definition fast_read_data_block ::
    "binary_stream \<Rightarrow> nat \<Rightarrow> nat \<Rightarrow> nat \<Rightarrow> bool \<times> binary_stream \<times> nat \<times> nat" where
  "fast_read_data_block s current_pos begin_pos end_pos =
     (if all_size s \<le> current_pos + 4 * 4 then (False, s, current_pos, begin_pos)
      else case fast_scan s current_pos end_pos of
        (None, p) \<Rightarrow> (False, s, p, begin_pos)
      | (Some (_, sz1), p) \<Rightarrow>
          let p1 = p + 2 * 4;
              s1 = set_input (set_output s p1) (p1 + sz1)
          in (True, s1, p1 + (sz1 + 2 * 4), p1))"

subsection \<open>The block format\<close>

definition block_size :: "bytes \<Rightarrow> bytes" where
  "block_size d = mem_of 4 (word_of_nat (length d) :: u32w)"

definition block_bytes :: "bytes \<Rightarrow> bytes" where
  "block_bytes d = block_size d @ block_size d @ d @ block_size d @ block_size d"

definition block_ok :: "bytes \<Rightarrow> bool" where
  "block_ok d \<longleftrightarrow> length d \<le> max_data_block_size"

definition size_of :: "bytes \<Rightarrow> nat" where
  "size_of bs = unat (val_of (take 4 bs) :: u32w)"

definition dec_block :: "bytes \<Rightarrow> (bytes \<times> bytes) option" where
  "dec_block bs =
     (if length bs < 8 \<or> size_of bs \<noteq> size_of (drop 4 bs) \<or> max_data_block_size < size_of bs
      then None
      else
        let n = size_of bs; r = drop 8 bs
        in if length r < n + 8 \<or> n \<noteq> size_of (drop n r) \<or> n \<noteq> size_of (drop (n + 4) r)
           then None else Some (take n r, drop (n + 8) r))"

lemma length_block_size [simp]: "length (block_size d) = 4"
  by (simp add: block_size_def)

lemma length_block_bytes [simp]: "length (block_bytes d) = length d + 16"
  by (simp add: block_bytes_def)

lemma size_of_block_size: "block_ok d \<Longrightarrow> size_of (block_size d @ r) = length d"
  by (simp add: size_of_def block_size_def codec_simps unat_of_nat block_ok_def
      max_data_block_size_def)

lemma dec_block_block_bytes:
  assumes "block_ok d"
  shows "dec_block (block_bytes d @ rest) = Some (d, rest)"
proof -
  have "drop 4 (block_bytes d @ rest) = block_size d @ d @ block_size d @ block_size d @ rest"
    "drop 8 (block_bytes d @ rest) = d @ block_size d @ block_size d @ rest"
    "block_bytes d @ rest = block_size d @ block_size d @ d @ block_size d @ block_size d @ rest"
    by (simp_all add: block_bytes_def)
  moreover have "drop (length d + 4) (d @ block_size d @ block_size d @ rest) = block_size d @ rest"
    by simp
  moreover have "length d \<le> max_data_block_size"
    using assms by (simp add: block_ok_def)
  ultimately show ?thesis
    by (simp add: dec_block_def size_of_block_size [OF assms] Let_def)
qed

interpretation block: stream_codec block_bytes dec_block block_ok
proof unfold_locales
  show "dec_block (block_bytes d @ rest) = Some (d, rest)" if "block_ok d" for d rest
    using that by (rule dec_block_block_bytes)
  show "block_bytes d \<noteq> []" for d
    by (simp add: block_bytes_def block_size_def)
qed

lemma dec_block_length:
  "dec_block bs = Some (d, rest) \<Longrightarrow>
     length bs = length d + 16 + length rest \<and> rest = drop (length d + 16) bs"
  by (auto simp: dec_block_def Let_def add.commute split: if_splits)

lemma dec_block_ok: "dec_block bs = Some (d, rest) \<Longrightarrow> block_ok d"
  by (auto simp: dec_block_def block_ok_def Let_def split: if_splits)

lemma length_eq_size_of_torn:
  assumes "block_ok d" and "8 \<le> k" "k < length (block_bytes d)"
  shows "size_of (take k (block_bytes d)) = length d"
proof -
  have "take k (block_bytes d) = block_size d @ take (k - 4) (block_size d @ d @ block_size d @ block_size d)"
    using assms(2) by (simp add: block_bytes_def)
  then show ?thesis
    using assms(1) by (simp only: size_of_block_size)
qed

text \<open>A block that was not written to its end is never read back.\<close>

lemma dec_block_torn:
  assumes "block_ok d" and "k < length (block_bytes d)"
  shows "dec_block (take k (block_bytes d)) = None"
proof (cases "k < 8")
  case True
  then show ?thesis by (simp add: dec_block_def)
next
  case False
  then have sz: "size_of (take k (block_bytes d)) = length d"
    using length_eq_size_of_torn assms by simp
  have len: "length (drop 8 (take k (block_bytes d))) < length d + 8"
    using assms(2) by simp
  show ?thesis
    unfolding dec_block_def Let_def sz using len by (simp only: simp_thms if_True split: if_split)
qed

subsection \<open>Reading refines the block format\<close>

lemma fs_read_good:
  "fs_good s \<Longrightarrow> fs_pos s + n \<le> length f \<Longrightarrow>
     fs_read f n s = (take n (drop (fs_pos s) f), s\<lparr>fs_pos := fs_pos s + n\<rparr>)"
  by (simp add: fs_read_def)

lemma fs_read_short:
  "fs_good s \<Longrightarrow> 0 < n \<Longrightarrow> length f < fs_pos s + n \<Longrightarrow> \<not> fs_good (snd (fs_read f n s))"
  by (auto simp: fs_read_def fs_good_def Let_def)

lemma fs_good_pos [simp]: "fs_good (s\<lparr>fs_pos := p\<rparr>) = fs_good s"
  by (simp add: fs_good_def)

text \<open>A stream that can be read: nothing went wrong and no output waits in its buffer.\<close>

definition ready :: "fstream \<Rightarrow> bool" where
  "ready s \<longleftrightarrow> fs_good s \<and> unwritten s = []"

lemma ready_good: "ready s \<Longrightarrow> fs_good s" "ready s \<Longrightarrow> unwritten s = []"
  by (simp_all add: ready_def)

lemma ready_pos [simp]: "ready (s\<lparr>fs_pos := p\<rparr>) = ready s"
  by (simp add: ready_def)

lemma fs_flush_nothing:
  assumes "file_stream st = Some s" and "unwritten s = []"
  shows "fs_flush n st s = st"
proof -
  have "fs_flush n st s = st\<lparr>file_stream := file_stream st\<rparr>"
    by (simp add: fs_flush_def assms(2)) (simp add: assms(1))
  then show ?thesis by simp
qed

lemma sync_output_nothing:
  "file_stream st = Some s \<Longrightarrow> unwritten s = [] \<Longrightarrow> sync_output offset st = st"
  using fs_flush_nothing [of st s "length (unwritten s)"]
  by (simp only: sync_output_def option.case if_cancel simp_thms)

lemma sync_output_None [simp]: "file_stream st = None \<Longrightarrow> sync_output offset st = st"
  by (simp add: sync_output_def)

lemma read_size_eq:
  assumes "fs_good s"
  shows "read_size f s =
     (if fs_pos s + 4 \<le> length f
      then (Some (size_of (drop (fs_pos s) f)), s\<lparr>fs_pos := fs_pos s + 4\<rparr>)
      else (None, snd (fs_read f 4 s)))"
  using assms fs_read_short [of s 4 f]
  by (simp add: read_size_def fs_read_good size_of_def split_beta)

definition start_pos :: "fstream \<Rightarrow> int \<Rightarrow> nat" where
  "start_pos s offset = (if offset = -1 then fs_pos s else nat offset)"

lemma alloc_put:
  assumes "bs_wf data" and "input_cursor data \<le> 2 ^ 30" and "length d \<le> max_data_block_size"
  shows "content (put_at (fst (alloc_buffer data (length d))) d (snd (alloc_buffer data (length d)))) =
      content data @ d"
    and "bs_wf (put_at (fst (alloc_buffer data (length d))) d (snd (alloc_buffer data (length d))))"
    and "input_cursor (put_at (fst (alloc_buffer data (length d))) d (snd (alloc_buffer data (length d)))) =
      input_cursor data + length d"
    and "output_cursor (put_at (fst (alloc_buffer data (length d))) d (snd (alloc_buffer data (length d)))) =
      output_cursor data"
proof -
  define n where "n = input_cursor data + length d"
  define b where "b = (if n > length (buffer data) then resize (n * 2) 0 (buffer data) else buffer data)"
  have wf: "output_cursor data \<le> input_cursor data" "input_cursor data \<le> length (buffer data)"
    "length (buffer data) < 2 ^ 32" "\<not> ub data"
    using assms(1) by (auto simp: bs_wf_def)
  have n: "n * 2 < 2 ^ 32" "n < 2 ^ 32"
    using assms(2,3) by (simp_all add: n_def max_data_block_size_def)
  have len: "n \<le> length b" "length b < 2 ^ 32"
    using wf n by (auto simp: b_def n_def)
  have tk: "take (input_cursor data) b = take (input_cursor data) (buffer data)"
    using wf by (simp add: b_def n_def take_resize)
  have al: "alloc_buffer data (length d) = (input_cursor data, data\<lparr>buffer := b, input_cursor := n\<rparr>)"
    using n by (simp add: alloc_buffer_def Let_def b_def flip: n_def)
  have pt: "put_at (input_cursor data) d (data\<lparr>buffer := b, input_cursor := n\<rparr>) =
      data\<lparr>buffer := overwrite (input_cursor data) d b, input_cursor := n\<rparr>"
    using len by (simp add: put_at_def n_def)
  have eq: "put_at (fst (alloc_buffer data (length d))) d (snd (alloc_buffer data (length d))) =
      data\<lparr>buffer := overwrite (input_cursor data) d b, input_cursor := n\<rparr>"
    by (simp add: al pt)
  have tkn: "take n (overwrite (input_cursor data) d b) = take (input_cursor data) (buffer data) @ d"
    using len by (simp add: n_def take_overwrite tk)
  have ov: "length (overwrite (input_cursor data) d b) = length b"
    using len by (simp add: n_def)
  show "content (put_at (fst (alloc_buffer data (length d))) d (snd (alloc_buffer data (length d)))) =
      content data @ d"
    unfolding eq using wf by (simp add: content_def tkn)
  show "bs_wf (put_at (fst (alloc_buffer data (length d))) d (snd (alloc_buffer data (length d))))"
    unfolding eq using wf len by (simp add: bs_wf_def ov) (simp add: n_def)
  show "input_cursor (put_at (fst (alloc_buffer data (length d))) d (snd (alloc_buffer data (length d)))) =
      input_cursor data + length d"
    "output_cursor (put_at (fst (alloc_buffer data (length d))) d (snd (alloc_buffer data (length d)))) =
      output_cursor data"
    unfolding eq by (simp_all add: n_def)
qed

lemma read_data_block_good:
  assumes st: "file_stream st = Some s" "ready s" and off: "-1 \<le> offset"
    and data: "bs_wf data" "input_cursor data \<le> 2 ^ 30"
    and dec: "dec_block (drop (start_pos s offset) (file_bytes st)) = Some (d, rest)"
  shows "\<exists>data'. read_data_block st offset data =
        (True, set_stream st (s\<lparr>fs_pos := start_pos s offset + length d + 16\<rparr>), data') \<and>
      content data' = content data @ d \<and> bs_wf data' \<and>
      input_cursor data' = input_cursor data + length d \<and>
      output_cursor data' = output_cursor data"
proof -
  note sync = sync_output_nothing [OF st(1) ready_good(2) [OF st(2)]]
  define p where "p = start_pos s offset"
  define f where "f = file_bytes st"
  define s0 where "s0 = s\<lparr>fs_pos := p\<rparr>"
  have good: "fs_good s0" using ready_good(1) [OF st(2)] by (simp add: s0_def)
  have seek: "(if offset \<noteq> -1 then fs_seekp offset s else s) = s0"
    using off ready_good(1) [OF st(2)] by (auto simp: s0_def p_def start_pos_def fs_seekp_def fs_good_def)
  have dec': "dec_block (drop p f) = Some (d, rest)"
    using dec by (simp add: p_def f_def)
  have len: "p + length d + 16 + length rest = length f" and d_max: "length d \<le> max_data_block_size"
    using dec_block_length [OF dec'] dec_block_ok [OF dec'] by (auto simp: block_ok_def)
  have szs: "size_of (drop p f) = length d" "size_of (drop (p + 4) f) = length d"
    "size_of (drop (p + 8 + length d) f) = length d" "size_of (drop (p + 12 + length d) f) = length d"
    and d: "d = take (length d) (drop (p + 8) f)"
    using dec' by (auto simp: dec_block_def Let_def add_ac min_def split: if_splits)
  have peek: "fs_peek f s0 = (False, s0)"
    using good len by (simp add: fs_peek_def s0_def)
  define q where "q k = s\<lparr>fs_pos := p + k\<rparr>" for k
  have gq: "fs_good (q k)" for k using ready_good(1) [OF st(2)] by (simp add: q_def)
  have s0q: "s0 = q 0" by (simp add: s0_def q_def)
  have r1: "read_size f (q 0) = (Some (length d), q 4)"
    using gq len szs by (simp add: read_size_eq) (simp add: q_def)
  have r2: "read_size f (q 4) = (Some (length d), q 8)"
    using gq len szs by (simp add: read_size_eq) (simp add: q_def)
  have r3: "read_size f (q (8 + length d)) = (Some (length d), q (12 + length d))"
    using gq len szs by (simp add: read_size_eq) (simp add: q_def add_ac)
  have r4: "read_size f (q (12 + length d)) = (Some (length d), q (16 + length d))"
    using gq len szs by (simp add: read_size_eq) (simp add: q_def add_ac)
  have rd: "fs_read f (length d) (q 8) = (d, q (8 + length d))"
    using fs_read_good [OF gq, of 8 "length d" f] len
    by (simp add: q_def add_ac flip: d)
  have fin: "q (16 + length d) = s\<lparr>fs_pos := start_pos s offset + length d + 16\<rparr>"
    by (simp add: q_def p_def add_ac)
  note al = alloc_put [OF data d_max]
  have nmax: "\<not> max_data_block_size < length d" using d_max by simp
  show ?thesis
  proof (cases "d = []")
    case True
    then have r: "read_size f (q 0) = (Some 0, q 4)" "read_size f (q 4) = (Some 0, q 8)"
      "read_size f (q 8) = (Some 0, q 12)" "read_size f (q 12) = (Some 0, q 16)"
      using r1 r2 r3 r4 by simp_all
    have "read_data_block st offset data = (True, set_stream st (q 16), data)"
      by (simp add: read_data_block_def sync st(1) seek f_def [symmetric] peek s0q r gq Let_def split_beta
          peek [unfolded s0q])
    then show ?thesis
      using True data fin by simp
  next
    case False
    have "read_data_block st offset data = (True, set_stream st (q (16 + length d)),
        put_at (fst (alloc_buffer data (length d))) d (snd (alloc_buffer data (length d))))"
      by (simp add: read_data_block_def sync st(1) seek f_def [symmetric] s0q r1 r2 r3 r4 rd gq nmax
          False Let_def split_beta peek [unfolded s0q])
    then show ?thesis
      using al fin by simp
  qed
qed

lemma read_data_block_True:
  assumes st: "file_stream st = Some s" "ready s" and off: "-1 \<le> offset"
    and res: "fst (read_data_block st offset data)"
  shows "dec_block (drop (start_pos s offset) (file_bytes st)) \<noteq> None"
proof -
  note sync = sync_output_nothing [OF st(1) ready_good(2) [OF st(2)]]
  define p where "p = start_pos s offset"
  define f where "f = file_bytes st"
  define q where "q k = s\<lparr>fs_pos := p + k\<rparr>" for k
  have gq: "fs_good (q k)" for k using ready_good(1) [OF st(2)] by (simp add: q_def)
  have seek: "(if offset \<noteq> -1 then fs_seekp offset s else s) = q 0"
    using off ready_good(1) [OF st(2)] by (auto simp: q_def p_def start_pos_def fs_seekp_def fs_good_def)
  have rs: "read_size f (q k) = (if p + k + 4 \<le> length f
      then (Some (size_of (drop (p + k) f)), q (k + 4)) else (None, snd (fs_read f 4 (q k))))" for k
    using gq by (simp add: read_size_eq) (simp add: q_def add_ac)
  have pk: "\<not> fst (fs_peek f (q 0))"
    using res by (auto simp: read_data_block_def sync st(1) seek Let_def split_beta simp flip: f_def
        split: if_splits)
  then have pk': "fs_peek f (q 0) = (False, q 0)"
    by (auto simp: fs_peek_def split: if_splits)
  have l4: "p + 8 \<le> length f \<and> size_of (drop p f) = size_of (drop (p + 4) f) \<and>
      size_of (drop p f) \<le> max_data_block_size"
    using res pk'
    by (auto simp: read_data_block_def sync st(1) seek Let_def split_beta rs simp flip: f_def
        split: if_splits)
  define n where "n = size_of (drop p f)"
  have r12: "read_size f (q 0) = (Some n, q 4)" "read_size f (q 4) = (Some n, q 8)"
    using l4 by (simp_all add: rs n_def)
  define s5 where "s5 = (if n \<noteq> 0 then snd (fs_read f n (q 8)) else q 8)"
  have nmax: "\<not> max_data_block_size < n" using l4 by (simp add: n_def)
  have res5: "fs_good s5 \<and> fst (read_size f s5) = Some n \<and>
      fst (read_size f (snd (read_size f s5))) = Some n"
    using res
    by (auto simp: read_data_block_def sync st(1) seek Let_def split_beta pk' r12 nmax s5_def
        simp flip: f_def split: if_splits)
  have ln: "p + 8 + n \<le> length f"
  proof (cases "n = 0")
    case False
    then show ?thesis
      using res5 fs_read_short [OF gq, of n f 8] by (force simp: s5_def q_def)
  qed (use l4 in simp)
  have s5: "s5 = q (8 + n)"
    using fs_read_good [OF gq, of 8 n f] ln by (cases "n = 0") (auto simp: s5_def q_def add_ac)
  have sz3: "p + (8 + n) + 4 \<le> length f" "size_of (drop (p + (8 + n)) f) = n"
    using res5 by (auto simp: s5 rs split: if_splits)
  have sz4: "p + (8 + n + 4) + 4 \<le> length f" "size_of (drop (p + (8 + n + 4)) f) = n"
    using res5 sz3 by (auto simp: s5 rs split: if_splits)
  have "dec_block (drop p f) = Some (take n (drop (p + 8) f), drop (p + 16 + n) f)"
    using l4 sz3 sz4 nmax by (simp add: dec_block_def Let_def add_ac flip: n_def) arith
  then show ?thesis by (simp add: p_def f_def)
qed

text \<open>
  Once the end of the file was hit, the sticky bits make every later read on the open stream
  fail, at any offset, until the file is opened again.
\<close>

lemma read_data_block_sticky:
  assumes "file_stream st = Some s" and "\<not> fs_good s" and "unwritten s = []"
  shows "\<exists>s'. read_data_block st offset data =
      (False, (set_stream st s')\<lparr>last_error := end_of_file\<rparr>, data) \<and> \<not> fs_good s' \<and> unwritten s' = []"
proof -
  define s0 where "s0 = (if offset \<noteq> -1 then fs_seekp offset s else s)"
  have out: "unwritten s0 = []"
    using assms(3) by (simp add: s0_def fs_seekp_def)
  have bad: "\<not> fs_good s0"
    using assms(2) by (auto simp: s0_def fs_seekp_def fs_good_def)
  have pk: "fs_peek f s0 = (True, s0\<lparr>failbit := True\<rparr>)" for f
    using bad by (simp add: fs_peek_def)
  have "read_data_block st offset data =
      (False, (set_stream st (s0\<lparr>failbit := True\<rparr>))\<lparr>last_error := end_of_file\<rparr>, data)"
    by (simp add: read_data_block_def sync_output_nothing [OF assms(1,3)] assms(1) Let_def pk flip: s0_def)
  moreover have "\<not> fs_good (s0\<lparr>failbit := True\<rparr>)"
    by (simp add: fs_good_def)
  moreover have "unwritten (s0\<lparr>failbit := True\<rparr>) = []" using out by simp
  ultimately show ?thesis by blast
qed

subsection \<open>Reading all blocks\<close>

text \<open>
  The loop \<open>while (storage->read_data_block(-1, data)) { step; data.reset(); }\<close> of the files
  that are read whole: it stops when no block can be read or when a step fails. The flag tells
  whether all steps succeeded.
\<close>

definition remaining :: "storage \<Rightarrow> nat" where
  "remaining st = (case file_stream st of None \<Rightarrow> 0 | Some s \<Rightarrow> length (file_bytes st) - fs_pos s)"

lemma file_bytes_set_stream [simp]: "file_bytes (set_stream st s) = file_bytes st"
  by (simp add: set_stream_def file_bytes_def)

lemma file_stream_set_stream [simp]: "file_stream (set_stream st s) = Some s"
  by (simp add: set_stream_def)

lemma read_data_block_data_irrelevant:
  "fst (read_data_block st off data) = fst (read_data_block st off data') \<and>
   fst (snd (read_data_block st off data)) = fst (snd (read_data_block st off data'))"
proof (cases "file_stream (sync_output off st)")
  case None
  then show ?thesis by (simp add: read_data_block_def)
next
  case (Some s)
  define f where "f = file_bytes (sync_output off st)"
  define s0 where "s0 = (if off \<noteq> -1 then fs_seekp off s else s)"
  obtain e s1 where p: "fs_peek f s0 = (e, s1)" by (cases "fs_peek f s0")
  obtain z1 s2 where r1: "read_size f s1 = (z1, s2)" by (cases "read_size f s1")
  obtain z2 s3 where r2: "read_size f s2 = (z2, s3)" by (cases "read_size f s2")
  obtain d s4 where r3: "fs_read f (the z1) s3 = (d, s4)" by (cases "fs_read f (the z1) s3")
  define s5 where "s5 = (if the z1 \<noteq> 0 then s4 else s3)"
  obtain z3 s6 where r4: "read_size f s5 = (z3, s6)" by (cases "read_size f s5")
  obtain z4 s7 where r5: "read_size f s6 = (z4, s7)" by (cases "read_size f s6")
  have "\<exists>x1 x2. read_data_block st off data =
      (if e then (False, (set_stream (sync_output off st) s1)\<lparr>last_error := end_of_file\<rparr>, data)
       else if z1 = None then (False, set_stream (sync_output off st) s2, data)
       else if z2 = None then (False, set_stream (sync_output off st) s3, data)
       else if z1 \<noteq> z2 \<or> max_data_block_size < the z1 then (False, set_stream (sync_output off st) s3, data)
       else if \<not> fs_good s5 then (False, set_stream (sync_output off st) s5, x1)
       else if z3 = None then (False, set_stream (sync_output off st) s6, x1)
       else if z4 = None then (False, set_stream (sync_output off st) s7, x1)
       else (z1 = z3 \<and> z1 = z4, set_stream (sync_output off st) s7, x1))" (is "?P data")
    for data
  proof -
    obtain n data0 where al: "alloc_buffer data (the z1) = (n, data0)"
      by (cases "alloc_buffer data (the z1)")
    define x where "x = (if the z1 \<noteq> 0 then put_at n d data0 else data)"
    have i: "(if the z1 \<noteq> 0 then (put_at n d data0, s4) else (data, s3)) = (x, s5)"
      by (simp add: x_def s5_def)
    show ?thesis
      unfolding read_data_block_def Let_def Some option.case f_def [symmetric] s0_def [symmetric]
        p split r1 r2 al r3 i r4 r5
      by blast
  qed
  from this [of data] this [of data'] show ?thesis by (auto split: if_splits)
qed

lemma fs_flush_facts [simp]:
  "file_stream (fs_flush n st s) \<noteq> None"
  "last_error (fs_flush n st s) = last_error st"
  by (simp_all add: fs_flush_def Let_def)

lemma sync_output_facts:
  "file_stream (sync_output off st) = None \<longleftrightarrow> file_stream st = None"
  "last_error (sync_output off st) = last_error st"
  by (cases "file_stream st"; simp add: sync_output_def del: not_None_eq)+

lemma fs_flush_stream:
  "\<exists>s'. file_stream (fs_flush n st s) = Some s' \<and> (length (unwritten s) \<le> n \<longrightarrow> unwritten s' = [])"
  by (simp add: fs_flush_def Let_def)

lemma flush_leaves_nothing:
  "file_stream (fs_flush (length (unwritten s)) st s) = Some s' \<Longrightarrow> unwritten s' = []"
  using fs_flush_stream [of "length (unwritten s)" st s]
  by (metis option.inject order_refl)

lemma length_put_bytes: "length (put_bytes p d f) = max (length f) (p + length d)"
  by (simp add: put_bytes_def overwrite_def)

lemma remaining_flush:
  assumes "file_stream st = Some s"
  shows "remaining (fs_flush n st s) \<le> remaining st"
proof (cases "take n (unwritten s) = []")
  case True
  then show ?thesis using assms by (simp add: remaining_def fs_flush_def file_bytes_def)
next
  case False
  define p where "p = (if appmode s then length (file_bytes st) else fs_pos s)"
  define d where "d = take (length (file_bytes st) + free_space st - p) (take n (unwritten s))"
  have "remaining (fs_flush n st s) =
      length (if d = [] then file_bytes st else put_bytes p d (file_bytes st)) - (p + length d)"
    using False unfolding fs_flush_def Let_def p_def [symmetric] d_def [symmetric]
    by (simp add: remaining_def file_bytes_def)
  also have "\<dots> \<le> length (file_bytes st) - p" by (auto simp: length_put_bytes max_def)
  finally show ?thesis using assms by (simp add: remaining_def p_def split: if_splits)
qed

lemma remaining_sync: "remaining (sync_output off st) \<le> remaining st"
  by (auto simp: sync_output_def remaining_flush split: option.split)

lemma read_data_block_sync:
  "read_data_block st offset data = read_data_block (sync_output offset st) offset data"
proof (cases "file_stream st")
  case (Some s)
  have "sync_output offset (sync_output offset st) = sync_output offset st"
  proof (cases "if offset \<noteq> -1 then failbit s else \<not> fs_good s")
    case True
    then have "sync_output offset st = st" using Some by (simp add: sync_output_def)
    then show ?thesis by simp
  next
    case False
    then have eq: "sync_output offset st = fs_flush (length (unwritten s)) st s"
      using Some by (auto simp: sync_output_def)
    then obtain s' where s': "file_stream (sync_output offset st) = Some s'" by fastforce
    show ?thesis
      using sync_output_nothing [OF s'] flush_leaves_nothing s' eq by simp
  qed
  then show ?thesis by (simp only: read_data_block_def [of st] read_data_block_def [of "sync_output offset st"])
qed (simp add: sync_output_def)

lemma read_data_block_progress:
  assumes "read_data_block st (-1) data = (True, st', data')"
  obtains s d where "file_stream (sync_output (-1) st) = Some s" "ready s"
    "dec_block (drop (fs_pos s) (file_bytes (sync_output (-1) st))) =
      Some (d, drop (fs_pos s + length d + 16) (file_bytes (sync_output (-1) st)))"
    "st' = set_stream (sync_output (-1) st) (s\<lparr>fs_pos := fs_pos s + length d + 16\<rparr>)"
proof -
  let ?st = "sync_output (-1) st"
  have eq: "read_data_block ?st (-1) data = (True, st', data')"
    using assms by (simp only: read_data_block_sync [symmetric])
  obtain s where s: "file_stream ?st = Some s"
    using eq by (cases "file_stream ?st") (simp_all add: read_data_block_def)
  have good: "fs_good s"
  proof (rule ccontr)
    assume bad: "\<not> fs_good s"
    have "sync_output (-1) ?st = ?st" using s bad by (simp add: sync_output_def)
    then show False
      using eq s bad by (simp add: read_data_block_def fs_peek_def Let_def)
  qed
  have "unwritten s = []"
  proof (cases "file_stream st")
    case (Some s1)
    have "fs_good s1" using s Some good by (simp add: sync_output_def split: if_splits)
    then show ?thesis
      using s Some flush_leaves_nothing by (simp add: sync_output_def)
  qed (use s in \<open>simp add: sync_output_def\<close>)
  then have rdy: "ready s" using good by (simp add: ready_def)
  obtain d rest where d: "dec_block (drop (fs_pos s) (file_bytes ?st)) = Some (d, rest)"
    using read_data_block_True [OF s rdy, of "-1" data] eq by (auto simp: start_pos_def)
  have "st' = set_stream ?st (s\<lparr>fs_pos := fs_pos s + length d + 16\<rparr>)"
    using read_data_block_good [OF s rdy, of "-1" empty_stream d rest] d eq
      read_data_block_data_irrelevant [of ?st "-1" data empty_stream]
    by (auto simp: start_pos_def)
  moreover have "rest = drop (fs_pos s + length d + 16) (file_bytes ?st)"
    using dec_block_length [OF d] by (simp add: add_ac)
  ultimately show thesis using that s rdy d by simp
qed

lemma remaining_less:
  assumes "read_data_block st (-1) data = (True, st', data')"
  shows "remaining st' < remaining st"
proof -
  from assms have "remaining st' < remaining (sync_output (-1) st)"
    by (rule read_data_block_progress, drule_tac dec_block_length) (simp add: remaining_def)
  then show ?thesis using remaining_sync [of "-1" st] by simp
qed

function read_loop ::
    "(binary_stream \<Rightarrow> 'a \<Rightarrow> bool \<times> 'a) \<Rightarrow> storage \<Rightarrow> binary_stream \<Rightarrow> 'a \<Rightarrow> bool \<times> storage \<times> 'a" where
  "read_loop step st data a =
     (case read_data_block st (-1) data of
        (False, st1, data1) \<Rightarrow> (True, st1, a)
      | (True, st1, data1) \<Rightarrow>
          (case step data1 a of
             (False, a1) \<Rightarrow> (False, st1, a1)
           | (True, a1) \<Rightarrow> read_loop step st1 (reset data1) a1))"
  by pat_completeness auto
termination
  by (relation "measure (\<lambda>(step, st, data, a). remaining st)") (auto dest: remaining_less [OF sym])

declare read_loop.simps [simp del]

text \<open>The same over the list of blocks.\<close>

primrec run_blocks :: "(bytes \<Rightarrow> 'a \<Rightarrow> bool \<times> 'a) \<Rightarrow> bytes list \<Rightarrow> 'a \<Rightarrow> bool \<times> 'a" where
  "run_blocks g [] a = (True, a)"
| "run_blocks g (d # ds) a =
     (case g d a of (False, a1) \<Rightarrow> (False, a1) | (True, a1) \<Rightarrow> run_blocks g ds a1)"

lemma close_nothing:
  assumes "file_stream st = Some s" and "unwritten s = []"
  shows "storage_close st = st\<lparr>file_stream := None\<rparr>"
  using fs_flush_nothing [OF assms] by (simp add: storage_close_def assms(1))

lemma unwritten_reads [simp]:
  "unwritten (fs_seekp off s) = unwritten s" "unwritten (snd (fs_peek f s)) = unwritten s"
  "unwritten (snd (fs_read f n s)) = unwritten s" "unwritten (snd (read_size f s)) = unwritten s"
  by (simp_all add: fs_seekp_def fs_peek_def fs_read_def read_size_def Let_def split_beta)

lemma read_data_block_keeps:
  assumes "file_stream st = Some s" and "unwritten s = []"
  shows "\<exists>s' e. fst (snd (read_data_block st off data)) = (set_stream st s')\<lparr>last_error := e\<rparr> \<and> unwritten s' = []"
proof -
  define K where "K x \<longleftrightarrow> (\<exists>s' e. x = (set_stream st s')\<lparr>last_error := e\<rparr> \<and> unwritten s' = [])" for x
  have k: "K ((set_stream st s')\<lparr>last_error := e\<rparr>)" if "unwritten s' = []" for s' e
    using that by (auto simp: K_def)
  have k': "K (set_stream st s')" if "unwritten s' = []" for s'
    using k [OF that, of "last_error st"] by (simp add: set_stream_def)
  have "K (fst (snd (read_data_block st off data)))"
    by (simp add: read_data_block_def sync_output_nothing [OF assms] assms Let_def split_beta k k')
  then show ?thesis by (simp add: K_def)
qed

lemma close_set_stream:
  "unwritten s = [] \<Longrightarrow> file_bytes (storage_close ((set_stream st s)\<lparr>last_error := e\<rparr>)) = file_bytes st"
  using close_nothing [of "(set_stream st s)\<lparr>last_error := e\<rparr>" s] by (simp add: set_stream_def file_bytes_def)

lemma read_data_block_stop:
  assumes "file_stream st = Some s" and "ready s"
    and "dec_block (drop (fs_pos s) (file_bytes st)) = None"
  shows "\<exists>st' data'. read_data_block st (-1) data = (False, st', data') \<and>
    file_bytes st' = file_bytes st \<and> file_bytes (storage_close st') = file_bytes st \<and>
    file_stream st' \<noteq> None \<and>
    last_error st' = (if length (file_bytes st) \<le> fs_pos s then end_of_file else last_error st)"
proof -
  have f: "fst (read_data_block st (-1) data) = False"
    using read_data_block_True [OF assms(1,2), of "-1" data] assms(3) by (auto simp: start_pos_def)
  obtain s' e where k: "fst (snd (read_data_block st (-1) data)) = (set_stream st s')\<lparr>last_error := e\<rparr>" "unwritten s' = []"
    using read_data_block_keeps [OF assms(1) ready_good(2) [OF assms(2)]] by blast
  have "last_error (fst (snd (read_data_block st (-1) data))) =
      (if length (file_bytes st) \<le> fs_pos s then end_of_file else last_error st)"
    using f assms(1) ready_good [OF assms(2)]
    by (auto simp: read_data_block_def sync_output_nothing Let_def split_beta fs_peek_def set_stream_def
        split: if_splits)
  then show ?thesis
    using f k(1) close_set_stream [OF k(2)]
    by (cases "read_data_block st (-1) data") (auto simp: set_stream_def file_bytes_def)
qed

definition fresh_data :: "binary_stream \<Rightarrow> bool" where
  "fresh_data data \<longleftrightarrow> bs_wf data \<and> input_cursor data = 0"

lemma fresh_data_empty [simp]: "fresh_data empty_stream"
  by (simp add: fresh_data_def)

lemma fresh_data_reset [simp]: "bs_wf data \<Longrightarrow> fresh_data (reset data)"
  by (simp add: fresh_data_def) (simp add: reset_def)

definition holds_block :: "bytes \<Rightarrow> binary_stream \<Rightarrow> bool" where
  "holds_block d data \<longleftrightarrow> bs_wf data \<and> content data = d \<and> output_cursor data = 0"

lemma fresh_content: "fresh_data data \<Longrightarrow> content data = [] \<and> output_cursor data = 0"
  by (auto simp: fresh_data_def bs_wf_def content_def)

text \<open>
  Reading a file that holds whole blocks and then bytes that are no block: every block is
  given to the step once, in order; the end of the file is reported only when nothing is left
  over.
\<close>

lemma read_loop_blocks:
  assumes tail: "dec_block tail = None"
  shows "(\<And>data d a. d \<in> set ds \<Longrightarrow> holds_block d data \<Longrightarrow> step data a = g d a) \<Longrightarrow>
     file_stream st = Some s \<Longrightarrow> ready s \<Longrightarrow>
     drop (fs_pos s) (file_bytes st) = concat (map block_bytes ds) @ tail \<Longrightarrow>
     (\<And>d. d \<in> set ds \<Longrightarrow> block_ok d) \<Longrightarrow> fresh_data data \<Longrightarrow>
     \<exists>st'. read_loop step st data a = (fst (run_blocks g ds a), st', snd (run_blocks g ds a)) \<and>
       file_bytes st' = file_bytes st \<and> file_bytes (storage_close st') = file_bytes st \<and>
       file_stream st' \<noteq> None \<and>
       (fst (run_blocks g ds a) \<longrightarrow>
         last_error st' = (if tail = [] then end_of_file else last_error st))"
proof (induction ds arbitrary: st s data a)
  case Nil
  have len: "length (file_bytes st) \<le> fs_pos s \<longleftrightarrow> tail = []"
    using Nil.prems(4) by (metis append_Nil concat.simps(1) drop_eq_Nil2 list.simps(8))
  obtain st' data' where r: "read_data_block st (-1) data = (False, st', data')"
    "file_bytes st' = file_bytes st" "file_bytes (storage_close st') = file_bytes st" "file_stream st' \<noteq> None"
    "last_error st' = (if tail = [] then end_of_file else last_error st)"
    using read_data_block_stop [OF Nil.prems(2,3), of data] Nil.prems(4) tail len by auto
  then show ?case
    by (simp add: read_loop.simps [of step st data a])
next
  case (Cons d ds)
  have ok: "block_ok d" using Cons.prems(5) by simp
  have dec: "dec_block (drop (start_pos s (-1)) (file_bytes st)) =
      Some (d, concat (map block_bytes ds) @ tail)"
    by (simp add: start_pos_def Cons.prems(4) dec_block_block_bytes [OF ok])
  have fd: "bs_wf data" "input_cursor data \<le> 2 ^ 30" "content data = []" "output_cursor data = 0"
    using Cons.prems(6) fresh_content by (auto simp: fresh_data_def)
  obtain data1 where r: "read_data_block st (-1) data =
      (True, set_stream st (s\<lparr>fs_pos := start_pos s (-1) + length d + 16\<rparr>), data1)"
    and d1: "content data1 = d" "bs_wf data1" "output_cursor data1 = 0"
    using read_data_block_good [OF Cons.prems(2,3) _ fd(1,2) dec] fd(3,4) by auto
  define s1 where "s1 = s\<lparr>fs_pos := start_pos s (-1) + length d + 16\<rparr>"
  have st1: "file_stream (set_stream st s1) = Some s1" "ready s1"
    using Cons.prems(3) by (simp_all add: s1_def)
  have "drop (fs_pos s1) (file_bytes st) = drop (length d + 16) (drop (fs_pos s) (file_bytes st))"
    by (simp add: s1_def start_pos_def add_ac)
  also have "\<dots> = concat (map block_bytes ds) @ tail"
    by (simp add: Cons.prems(4))
  finally have dr: "drop (fs_pos s1) (file_bytes (set_stream st s1)) = concat (map block_bytes ds) @ tail"
    by simp
  have stp: "step data1 a = g d a"
    by (rule Cons.prems(1)) (simp_all add: holds_block_def d1)
  have le: "last_error (set_stream st s1) = last_error st" by (simp add: set_stream_def)
  have unf: "read_loop step st data a =
      (case g d a of (False, a1) \<Rightarrow> (False, set_stream st s1, a1)
        | (True, a1) \<Rightarrow> read_loop step (set_stream st s1) (reset data1) a1)"
    by (subst read_loop.simps) (simp add: r stp flip: s1_def)
  show ?case
  proof (cases "g d a")
    case (Pair b a1)
    show ?thesis
    proof (cases b)
      case False
      have "file_bytes (storage_close (set_stream st s1)) = file_bytes st"
        using close_set_stream [OF ready_good(2) [OF st1(2)], where st = st and e = "last_error (set_stream st s1)"] by simp
      then show ?thesis using False by (simp add: unf Pair)
    next
      case True
      have step': "\<And>data e a. e \<in> set ds \<Longrightarrow> holds_block e data \<Longrightarrow> step data a = g e a"
        by (rule Cons.prems(1)) simp_all
      have ok': "\<And>d. d \<in> set ds \<Longrightarrow> block_ok d" using Cons.prems(5) by simp
      show ?thesis
        using Cons.IH [OF step' st1 dr ok' fresh_data_reset [OF d1(2)], of a1] True
        unfolding unf Pair le by (simp only: run_blocks.simps Pair prod.case bool.case file_bytes_set_stream)
    qed
  qed
qed

subsection \<open>Writing refines the block format\<close>

text \<open>
  What a file holds together with the output that still waits in the buffer of its stream, and how
  many bytes the medium can give it. Writing at the end of the file adds to the former and leaves the
  latter alone; closing cuts the former to the latter.
\<close>

definition logical :: "storage \<Rightarrow> bytes" where
  "logical st = file_bytes st @ (case file_stream st of None \<Rightarrow> [] | Some s \<Rightarrow> unwritten s)"

definition capacity :: "storage \<Rightarrow> nat" where
  "capacity st = length (file_bytes st) + free_space st"

definition at_end :: "storage \<Rightarrow> bool" where
  "at_end st \<longleftrightarrow> file_data st \<noteq> None \<and>
     (\<exists>s. file_stream st = Some s \<and> fs_good s \<and> fs_pos s = length (file_bytes st))"

text \<open>The two extremes of a library: one that does not buffer, and one that keeps all it is given.\<close>

definition unbuffered :: "fs_env \<Rightarrow> bool" where
  "unbuffered env \<longleftrightarrow> (\<forall>p n. buffer_keeps env p n = 0)"

definition keeps_all :: "fs_env \<Rightarrow> bool" where
  "keeps_all env \<longleftrightarrow> (\<forall>p n. p + n \<le> buffer_keeps env p n)"

lemma file_data_of_bytes: "file_bytes st \<noteq> [] \<Longrightarrow> file_data st = Some (file_bytes st)"
  by (simp add: file_bytes_def split: option.splits)

lemma file_data_bytes: "file_data st \<noteq> None \<Longrightarrow> file_data st = Some (file_bytes st)"
  by (auto simp: file_bytes_def)

lemma length_file_le_capacity: "length (file_bytes st) \<le> capacity st"
  by (simp add: capacity_def)

text \<open>
  Handing over output at the end of the file: either it fits and moves from the buffer to the file,
  or the file is filled up and the stream fails.
\<close>

lemma flush_at_end:
  assumes "file_data st \<noteq> None" and "fs_good s" and "fs_pos s = length (file_bytes st)"
    and "length (take n (unwritten s)) \<le> free_space st"
  shows "at_end (fs_flush n st s)"
    and "file_bytes (fs_flush n st s) = file_bytes st @ take n (unwritten s)"
    and "free_space (fs_flush n st s) = free_space st - length (take n (unwritten s))"
    and "logical (fs_flush n st s) = file_bytes st @ unwritten s"
    and "\<not> st_fail (fs_flush n st s)"
proof -
  have g: "\<not> failbit s" "\<not> eofbit s" using assms(2) by (simp_all add: fs_good_def)
  define st' where "st' = fs_flush n st s"
  define d where "d = take n (unwritten s)"
  have p: "(if appmode s then length (file_bytes st) else fs_pos s) = length (file_bytes st)" using assms(3) by simp
  have d: "take (length (file_bytes st) + free_space st - length (file_bytes st)) d = d"
    using assms(4) by (simp flip: d_def)
  have "file_bytes st' = file_bytes st @ d \<and> file_data st' \<noteq> None \<and> free_space st' = free_space st - length d \<and>
      (\<exists>s'. file_stream st' = Some s' \<and> fs_good s' \<and> fs_pos s' = length (file_bytes st) + length d \<and>
        unwritten s' = drop n (unwritten s))"
  proof (cases "d = []")
    case True
    then have "drop n (unwritten s) = unwritten s" by (auto simp: d_def)
    then show ?thesis using True assms(1-3) by (simp add: st'_def fs_flush_def Let_def file_bytes_def flip: d_def)
  next
    case False
    then have st': "st' = st\<lparr>file_data := Some (file_bytes st @ d), free_space := free_space st - length d,
        file_stream := Some (s\<lparr>fs_pos := length (file_bytes st) + length d, failbit := failbit s \<or> False,
          unwritten := drop n (unwritten s)\<rparr>)\<rparr>"
      unfolding st'_def fs_flush_def Let_def d_def [symmetric] p d by (simp add: put_bytes_def overwrite_def)
    show ?thesis unfolding st' using g by (simp add: file_bytes_def fs_good_def)
  qed
  then obtain s' where f: "file_bytes st' = file_bytes st @ take n (unwritten s)" "file_data st' \<noteq> None"
    "free_space st' = free_space st - length (take n (unwritten s))" "file_stream st' = Some s'"
    and s': "fs_good s'" "fs_pos s' = length (file_bytes st) + length (take n (unwritten s))"
      "unwritten s' = drop n (unwritten s)"
    unfolding d_def by blast
  show "file_bytes (fs_flush n st s) = file_bytes st @ take n (unwritten s)"
    "free_space (fs_flush n st s) = free_space st - length (take n (unwritten s))"
    using f by (simp_all add: st'_def)
  show "logical (fs_flush n st s) = file_bytes st @ unwritten s"
    by (simp add: logical_def f s' flip: st'_def)
  show "at_end (fs_flush n st s)" using f(2) s'(1,2) by (simp add: at_end_def f(1,4) flip: st'_def)
  show "\<not> st_fail (fs_flush n st s)" using s'(1) by (simp add: st_fail_def f(4) fs_good_def flip: st'_def)
qed

lemma flush_overflow:
  assumes "fs_good s" and "fs_pos s = length (file_bytes st)"
    and "free_space st < length (take n (unwritten s))"
  shows "file_bytes (fs_flush n st s) = take (capacity st) (file_bytes st @ unwritten s)"
    and "free_space (fs_flush n st s) = 0" and "st_fail (fs_flush n st s)"
    and "logical (fs_flush n st s) = file_bytes (fs_flush n st s)"
    and "file_data st \<noteq> None \<Longrightarrow> file_data (fs_flush n st s) \<noteq> None"
proof -
  have ne: "take n (unwritten s) \<noteq> []" using assms(3) by auto
  have m: "min (free_space st) n = free_space st" "free_space st < length (unwritten s)" "free_space st < n" using assms(3) by auto
  define st' where "st' = fs_flush n st s"
  have p: "put_bytes (length (file_bytes st)) d (file_bytes st) = file_bytes st @ d" for d
    by (simp add: put_bytes_def overwrite_def)
  have *: "file_bytes st' = file_bytes st @ take (free_space st) (unwritten s) \<and> free_space st' = 0 \<and>
      (\<exists>s'. file_stream st' = Some s' \<and> failbit s' \<and> unwritten s' = [])"
    using ne m assms(2,3)
    by (auto simp: st'_def fs_flush_def Let_def p file_bytes_def [of "storage.file_stream_update _ _"])
  then show "file_bytes (fs_flush n st s) = take (capacity st) (file_bytes st @ unwritten s)"
    "free_space (fs_flush n st s) = 0" "st_fail (fs_flush n st s)"
    "logical (fs_flush n st s) = file_bytes (fs_flush n st s)"
    by (auto simp: capacity_def st_fail_def logical_def simp flip: st'_def)
  show "file_data st \<noteq> None \<Longrightarrow> file_data (fs_flush n st s) \<noteq> None"
    by (simp add: fs_flush_def Let_def)
qed

lemma storage_close_fields [simp]:
  "file_stream (storage_close st) = None" "last_error (storage_close st) = last_error st"
  by (simp_all add: storage_close_def split: option.split)

lemma file_bytes_no_stream [simp]: "file_bytes (st\<lparr>file_stream := x\<rparr>) = file_bytes st"
  by (simp add: file_bytes_def)

text \<open>Closing a file at its end: what does not fit is lost, and nobody is told.\<close>

lemma close_at_end:
  assumes "at_end st"
  shows "file_bytes (storage_close st) = take (capacity st) (logical st)"
    and "capacity (storage_close st) = capacity st"
    and "file_data (storage_close st) = Some (file_bytes (storage_close st))"
proof -
  obtain s where s: "file_stream st = Some s" "fs_good s" "fs_pos s = length (file_bytes st)" "file_data st \<noteq> None"
    using assms by (auto simp: at_end_def)
  define n where "n = length (unwritten s)"
  have c: "storage_close st = (fs_flush n st s)\<lparr>file_stream := None\<rparr>" by (simp add: storage_close_def s(1) n_def)
  have l: "logical st = file_bytes st @ unwritten s" by (simp add: logical_def s(1))
  have "file_bytes (fs_flush n st s) = take (capacity st) (logical st) \<and> file_data (fs_flush n st s) \<noteq> None \<and>
      capacity (fs_flush n st s) = capacity st"
  proof (cases "length (take n (unwritten s)) \<le> free_space st")
    case True
    note f = flush_at_end [OF s(4,2,3) True]
    then show ?thesis using True by (auto simp: capacity_def l n_def at_end_def)
  next
    case False
    then have "free_space st < length (take n (unwritten s))" by (simp only: not_le)
    note f = flush_overflow [OF s(2,3) this]
    then show ?thesis using False s(4) by (simp add: l) (simp add: capacity_def n_def)
  qed
  then have f: "file_bytes (fs_flush n st s) = take (capacity st) (logical st)" "file_data (fs_flush n st s) \<noteq> None"
    "capacity (fs_flush n st s) = capacity st"
    by simp_all
  show "file_bytes (storage_close st) = take (capacity st) (logical st)" using f(1) by (simp add: c)
  show "capacity (storage_close st) = capacity st" using f(3) by (simp add: c capacity_def)
  show "file_data (storage_close st) = Some (file_bytes (storage_close st))"
    using file_data_bytes [OF f(2)] by (simp add: c)
qed

text \<open>One write at the end of the file.\<close>

lemma st_write_at_end:
  assumes "at_end st"
  shows "capacity (st_write env d st) = capacity st"
    and "file_bytes (storage_close (st_write env d st)) = take (capacity st) (logical st @ d)"
    and "\<not> st_fail (st_write env d st) \<Longrightarrow> at_end (st_write env d st) \<and> logical (st_write env d st) = logical st @ d"
    and "st_fail (st_write env d st) \<Longrightarrow> capacity st < length (logical st @ d)"
    and "file_data (storage_close (st_write env d st)) = Some (take (capacity st) (logical st @ d))"
    and "capacity (storage_close (st_write env d st)) = capacity st"
proof -
  obtain s where s: "file_stream st = Some s" "fs_good s" "fs_pos s = length (file_bytes st)" "file_data st \<noteq> None"
    using assms by (auto simp: at_end_def)
  define n where "n = length (unwritten s @ d) - buffer_keeps env (length (unwritten s)) (length d)"
  define s1 where "s1 = s\<lparr>unwritten := unwritten s @ d\<rparr>"
  have s1: "fs_good s1" "fs_pos s1 = length (file_bytes st)" "unwritten s1 = unwritten s @ d"
    using s by (simp_all add: s1_def fs_good_def)
  have w: "st_write env d st = fs_flush n st s1"
    by (simp add: st_write_def fs_write_def s(1,2) Let_def n_def s1_def)
  have l: "logical st @ d = file_bytes st @ unwritten s1" by (simp add: logical_def s(1) s1(3))
  let ?w = "st_write env d st"
  have "capacity ?w = capacity st \<and> file_data (storage_close ?w) = Some (take (capacity st) (logical st @ d)) \<and>
      capacity (storage_close ?w) = capacity st \<and>
      (\<not> st_fail ?w \<longrightarrow> at_end ?w \<and> logical ?w = logical st @ d) \<and> (st_fail ?w \<longrightarrow> capacity st < length (logical st @ d))"
  proof (cases "length (take n (unwritten s1)) \<le> free_space st")
    case True
    note f = flush_at_end [OF s(4) s1(1,2) True]
    have c: "capacity (fs_flush n st s1) = capacity st" using f(2,3) True by (simp add: capacity_def)
    note cl = close_at_end [OF f(1)]
    show ?thesis unfolding w l using f(1,4,5) cl c by simp
  next
    case False
    then have "free_space st < length (take n (unwritten s1))" by (simp only: not_le)
    note f = flush_overflow [OF s1(1,2) this]
    obtain s2 where s2: "file_stream (fs_flush n st s1) = Some s2" using fs_flush_stream by blast
    then have u: "unwritten s2 = []" using f(4) by (simp add: logical_def)
    have cl: "storage_close (fs_flush n st s1) = (fs_flush n st s1)\<lparr>file_stream := None\<rparr>"
      by (rule close_nothing [OF s2 u])
    have len: "capacity st < length (file_bytes st @ unwritten s1)"
      using False by (simp add: capacity_def)
    then have c: "capacity (fs_flush n st s1) = capacity st"
      using f(1,2) by (simp add: capacity_def [of "fs_flush n st s1"])
    then have "capacity (storage_close (fs_flush n st s1)) = capacity st"
      unfolding cl by (simp add: capacity_def)
    moreover have "file_data (storage_close (fs_flush n st s1)) = Some (take (capacity st) (file_bytes st @ unwritten s1))"
      using file_data_bytes [OF f(5) [OF s(4)]] f(1) by (simp add: cl)
    ultimately show ?thesis unfolding w l using f(3) c len by simp
  qed
  then show "capacity ?w = capacity st" "file_data (storage_close ?w) = Some (take (capacity st) (logical st @ d))"
    "capacity (storage_close ?w) = capacity st"
    "\<not> st_fail ?w \<Longrightarrow> at_end ?w \<and> logical ?w = logical st @ d" "st_fail ?w \<Longrightarrow> capacity st < length (logical st @ d)"
    by simp_all
  then show "file_bytes (storage_close ?w) = take (capacity st) (logical st @ d)"
    by (simp add: file_bytes_def)
qed

primrec write_all :: "fs_env \<Rightarrow> bytes list \<Rightarrow> storage \<Rightarrow> bool \<times> storage" where
  "write_all env [] st = (True, st)"
| "write_all env (c # cs) st =
     (let st1 = st_write env c st in if st_fail st1 then (False, st1) else write_all env cs st1)"

lemma not_fail_at_end: "at_end st \<Longrightarrow> \<not> st_fail st"
  by (auto simp: at_end_def st_fail_def fs_good_def)

text \<open>
  What a sequence of writes comes to, when its outcome is \<open>b\<close>, the storage afterwards \<open>st'\<close> and the
  bytes written \<open>d\<close>.
\<close>

definition wrote :: "storage \<Rightarrow> bytes \<Rightarrow> bool \<Rightarrow> storage \<Rightarrow> bool" where
  "wrote st d b st' \<longleftrightarrow>
     file_data (storage_close st') = Some (take (capacity st) (logical st @ d)) \<and>
     capacity (storage_close st') = capacity st \<and> capacity st' = capacity st \<and>
     (if b then at_end st' \<and> logical st' = logical st @ d else capacity st < length (logical st @ d))"

lemma wrote_nothing: "at_end st \<Longrightarrow> wrote st [] True st"
  using close_at_end [of st] by (simp add: wrote_def)

lemma wrote_trans: "wrote st c True st1 \<Longrightarrow> wrote st1 d b st2 \<Longrightarrow> wrote st (c @ d) b st2"
  by (auto simp: wrote_def)

lemma wrote_more:
  assumes "wrote st c False st1"
  shows "wrote st (c @ d) False st1"
proof -
  have "take (capacity st) (logical st @ c @ d) = take (capacity st) (logical st @ c)"
    using assms by (simp add: wrote_def flip: append_assoc)
  then show ?thesis using assms by (simp add: wrote_def)
qed

lemma wrote_fits: "wrote st d b st' \<Longrightarrow> length (logical st @ d) \<le> capacity st \<Longrightarrow> b"
  by (auto simp: wrote_def split: if_splits)

lemma wrote_file:
  assumes "wrote st d b st'"
  shows "file_bytes (storage_close st') = take (capacity st) (logical st @ d)"
    and "length (logical st @ d) \<le> capacity st \<Longrightarrow> file_bytes (storage_close st') = logical st @ d"
    and "length (logical st @ d) \<le> capacity st \<Longrightarrow> file_data (storage_close st') = Some (logical st @ d)"
  using assms by (simp_all add: wrote_def file_bytes_def)

lemma wrote_st_write: "at_end st \<Longrightarrow> wrote st d (\<not> st_fail (st_write env d st)) (st_write env d st)"
  using st_write_at_end [of st env d] by (simp add: wrote_def)

lemma wrote_write_all: "at_end st \<Longrightarrow> wrote st (concat cs) (fst (write_all env cs st)) (snd (write_all env cs st))"
proof (induction cs arbitrary: st)
  case Nil
  then show ?case by (simp add: wrote_nothing)
next
  case (Cons c cs)
  note w = wrote_st_write [OF Cons.prems, of c env]
  show ?case
  proof (cases "st_fail (st_write env c st)")
    case True
    then show ?thesis using w by (simp add: wrote_more)
  next
    case False
    then have "at_end (st_write env c st)" using w by (simp add: wrote_def)
    then show ?thesis using False w Cons.IH wrote_trans by (simp add: Let_def)
  qed
qed

text \<open>What the extremes mean for the outcome.\<close>

definition settled :: "storage \<Rightarrow> bool" where
  "settled st \<longleftrightarrow> logical st = file_bytes st"

lemma settled_st_write:
  assumes "unbuffered env" and "at_end st"
  shows "settled (st_write env d st)"
proof -
  obtain s where s: "file_stream st = Some s" "fs_good s" using assms(2) by (auto simp: at_end_def)
  define s1 where "s1 = s\<lparr>unwritten := unwritten s @ d\<rparr>"
  have "st_write env d st = fs_flush (length (unwritten s1)) st s1"
    using assms(1) s by (simp add: st_write_def fs_write_def unbuffered_def s1_def)
  then show ?thesis
    using fs_flush_stream [of "length (unwritten s1)" st s1] by (auto simp: settled_def logical_def)
qed

lemma settled_write_all: "unbuffered env \<Longrightarrow> at_end st \<Longrightarrow> settled st \<Longrightarrow> settled (snd (write_all env cs st))"
proof (induction cs arbitrary: st)
  case (Cons c cs)
  then show ?case
    using settled_st_write [of env st c] wrote_st_write [of st c env] by (simp add: Let_def wrote_def)
qed simp

lemma settled_wrote: "wrote st d True st' \<Longrightarrow> settled st' \<Longrightarrow> length (logical st @ d) \<le> capacity st"
  using length_file_le_capacity [of st'] by (simp add: wrote_def settled_def)

lemma keeps_all_st_write:
  assumes "keeps_all env" and "at_end st"
  shows "\<not> st_fail (st_write env d st)"
proof -
  obtain s where s: "file_stream st = Some s" "fs_good s" "fs_pos s = length (file_bytes st)" "file_data st \<noteq> None"
    using assms(2) by (auto simp: at_end_def)
  have k: "length (unwritten s @ d) - buffer_keeps env (length (unwritten s)) (length d) = 0"
    using assms(1) by (simp add: keeps_all_def)
  have "st_write env d st = fs_flush 0 st (s\<lparr>unwritten := unwritten s @ d\<rparr>)"
    unfolding st_write_def s(1) option.case fs_write_def Let_def k using s(2) by simp
  then show ?thesis
    using flush_at_end(5) [of st "s\<lparr>unwritten := unwritten s @ d\<rparr>" 0] s by (simp add: fs_good_def)
qed

lemma keeps_all_write_all: "keeps_all env \<Longrightarrow> at_end st \<Longrightarrow> fst (write_all env cs st)"
proof (induction cs arbitrary: st)
  case (Cons c cs)
  then show ?case
    using keeps_all_st_write [of env st c] wrote_st_write [of st c env] by (simp add: Let_def wrote_def)
qed simp

definition block_chunks :: "bytes \<Rightarrow> bytes list" where
  "block_chunks d = [block_size d, block_size d, d, block_size d, block_size d]"

lemma concat_block [simp]: "concat (block_chunks d) = block_bytes d"
  by (simp add: block_chunks_def block_bytes_def)

lemma write_data_block_chunks:
  assumes "file_stream st = Some s" and "bs_wf data" and "content data \<noteq> []"
  shows "result (fst (write_data_block env st data off)) =
      fst (write_all env (block_chunks (content data)) st)"
    and "fst (snd (snd (write_data_block env st data off))) =
      snd (write_all env (block_chunks (content data)) st)"
    and "fst (snd (write_data_block env st data off)) = tellp st"
    and "fst (write_all env (block_chunks (content data)) st) \<Longrightarrow>
      fst (write_data_block env st data off) = \<lparr>result = True, error_code = 0\<rparr>"
proof -
  have av: "available data = length (content data)" using assms by (simp add: available_content)
  have sz: "mem_of 4 (word_of_nat (length (content data)) :: u32w) = block_size (content data)"
    by (simp add: block_size_def)
  have rd: "read_t data (length (content data)) = (content data, adv (length (content data)) data)"
    using assms by (simp add: read_t_content)
  note defs = write_data_block_def block_chunks_def write_all.simps Let_def av sz rd split
  show "result (fst (write_data_block env st data off)) =
      fst (write_all env (block_chunks (content data)) st)"
    "fst (snd (snd (write_data_block env st data off))) =
      snd (write_all env (block_chunks (content data)) st)"
    "fst (snd (write_data_block env st data off)) = tellp st"
    "fst (write_all env (block_chunks (content data)) st) \<Longrightarrow>
      fst (write_data_block env st data off) = \<lparr>result = True, error_code = 0\<rparr>"
    unfolding defs using assms(1,3) by (simp_all split: if_splits)
qed

text \<open>
  A block written at the end of a file. Its outcome tells nothing about the disk when the library
  keeps the output in its buffer, and everything when it does not.
\<close>

lemma write_data_block_at_end:
  assumes "at_end st" and "bs_wf data" and "content data \<noteq> []"
    and "write_data_block env st data off = (r, off', st', data')"
  shows "off' = int (length (logical st))"
    and "wrote st (block_bytes (content data)) (result r) st'"
    and "result r \<Longrightarrow> r = \<lparr>result = True, error_code = 0\<rparr>"
    and "keeps_all env \<Longrightarrow> result r"
    and "unbuffered env \<Longrightarrow> settled st \<Longrightarrow> settled st'"
    and "length (logical st) + length (block_bytes (content data)) \<le> capacity st \<Longrightarrow>
      r = \<lparr>result = True, error_code = 0\<rparr> \<and> at_end st' \<and>
      logical st' = logical st @ block_bytes (content data) \<and> capacity st' = capacity st"
proof -
  obtain s where s: "file_stream st = Some s" "fs_good s" "fs_pos s = length (file_bytes st)"
    using assms(1) by (auto simp: at_end_def)
  note ch = write_data_block_chunks [OF s(1) assms(2,3), of env off, unfolded assms(4) fst_conv snd_conv]
  have "tellp st = int (length (logical st))"
    using s by (simp add: tellp_def fs_good_def logical_def)
  then show "off' = int (length (logical st))" using ch(3) by simp
  show w: "wrote st (block_bytes (content data)) (result r) st'"
    using wrote_write_all [OF assms(1), of "block_chunks (content data)" env] ch(1,2) by simp
  show r: "result r \<Longrightarrow> r = \<lparr>result = True, error_code = 0\<rparr>" using ch(1,4) by simp
  show "keeps_all env \<Longrightarrow> result r" using keeps_all_write_all [OF _ assms(1)] ch(1) by simp
  show "unbuffered env \<Longrightarrow> settled st \<Longrightarrow> settled st'" using settled_write_all [OF _ assms(1)] ch(2) by simp
  show "r = \<lparr>result = True, error_code = 0\<rparr> \<and> at_end st' \<and>
      logical st' = logical st @ block_bytes (content data) \<and> capacity st' = capacity st"
    if "length (logical st) + length (block_bytes (content data)) \<le> capacity st"
    using r w wrote_fits [OF w] that by (simp add: wrote_def)
qed

lemma write_data_block_data:
  assumes "bs_wf data" and "content data \<noteq> []"
  shows "bs_wf (snd (snd (snd (write_data_block env st data off))))"
proof -
  have rd: "read_t data (available data) = (content data, adv (length (content data)) data)"
    using assms by (simp add: available_content read_t_content)
  have wf: "bs_wf (adv (length (content data)) data)"
    using assms(1) by (simp add: stream_simps)
  show ?thesis
    unfolding write_data_block_def Let_def rd split using assms(1) wf
    by (simp split: if_split)
qed

subsection \<open>Opening and closing around a block\<close>

definition can_open :: "fs_env \<Rightarrow> bool" where
  "can_open env \<longleftrightarrow> (dir_exists env \<or> create_dir_ok env) \<and> open_ok env"

lemma can_openD: "can_open env \<Longrightarrow> open_ok env" "can_open env \<Longrightarrow> \<not> dir_exists env \<Longrightarrow> create_dir_ok env"
  by (auto simp: can_open_def)

definition opened :: "storage_mode \<Rightarrow> bytes \<Rightarrow> storage \<Rightarrow> storage" where
  "opened m f st = st\<lparr>last_error := ok, file_data := Some f,
     free_space := free_space st + (length (file_bytes st) - length f),
     file_stream := Some \<lparr>fs_pos = (if sm_append m \<and> sm_write m then length f else 0),
       eofbit = False, failbit = False, appmode = sm_append m, unwritten = []\<rparr>\<rparr>"

lemma file_bytes_last_error [simp]: "file_bytes (st\<lparr>last_error := e\<rparr>) = file_bytes st"
  by (simp add: file_bytes_def)

lemma storage_open_opened:
  "can_open env \<Longrightarrow> file_stream st = None \<Longrightarrow> std_open m (file_data st) = Some f \<Longrightarrow>
     \<not> (sm_read m \<and> \<not> sm_write m \<and> file_data st = None) \<Longrightarrow>
     storage_open env m st = (True, opened m f st)"
  by (auto simp: storage_open_def Let_def opened_def can_open_def)

lemma opened_fields [simp]:
  "file_bytes (opened m f st) = f" "last_error (opened m f st) = ok"
  "free_space (opened m f st) = free_space st + (length (file_bytes st) - length f)"
  "file_stream (opened m f st) \<noteq> None" "logical (opened m f st) = f" "settled (opened m f st)"
  by (simp_all add: opened_def logical_def settled_def) (simp_all add: file_bytes_def)

lemma capacity_opened [simp]:
  "capacity (opened m (file_bytes st) st) = capacity st" "capacity (opened m [] st) = capacity st"
  by (simp_all add: capacity_def)

definition append_mode :: storage_mode where
  "append_mode = no_mode\<lparr>sm_write := True, sm_append := True\<rparr>"

definition truncate_mode :: storage_mode where
  "truncate_mode = no_mode\<lparr>sm_write := True, sm_truncate := True\<rparr>"

definition read_mode :: storage_mode where
  "read_mode = no_mode\<lparr>sm_read := True\<rparr>"

lemma open_append:
  assumes "can_open env" and "file_stream st = None"
  shows "storage_open env append_mode st = (True, opened append_mode (file_bytes st) st)"
    and "at_end (opened append_mode (file_bytes st) st)"
proof -
  have so: "std_open append_mode (file_data st) = Some (file_bytes st)"
    by (simp add: std_open_def append_mode_def no_mode_def file_bytes_def split: option.split)
  show "storage_open env append_mode st = (True, opened append_mode (file_bytes st) st)"
    by (rule storage_open_opened [OF assms so]) (simp add: append_mode_def no_mode_def)
  show "at_end (opened append_mode (file_bytes st) st)"
    by (simp add: at_end_def) (simp add: opened_def fs_good_def append_mode_def no_mode_def)
qed

lemma open_truncate:
  assumes "can_open env" and "file_stream st = None"
  shows "storage_open env truncate_mode st = (True, opened truncate_mode [] st)"
    and "at_end (opened truncate_mode [] st)"
proof -
  have so: "std_open truncate_mode (file_data st) = Some []"
    by (simp add: std_open_def truncate_mode_def no_mode_def)
  show "storage_open env truncate_mode st = (True, opened truncate_mode [] st)"
    by (rule storage_open_opened [OF assms so]) (simp add: truncate_mode_def no_mode_def)
  show "at_end (opened truncate_mode [] st)"
    by (simp add: at_end_def) (simp add: opened_def fs_good_def truncate_mode_def no_mode_def)
qed

lemma open_read:
  assumes "can_open env" and "file_stream st = None" and "file_data st = Some f"
  shows "storage_open env read_mode st = (True, opened read_mode f st)"
    and "\<exists>s. file_stream (opened read_mode f st) = Some s \<and> ready s \<and> fs_pos s = 0"
proof -
  have so: "std_open read_mode (file_data st) = Some f"
    by (simp add: std_open_def read_mode_def no_mode_def assms(3))
  show "storage_open env read_mode st = (True, opened read_mode f st)"
    by (rule storage_open_opened [OF assms(1,2) so]) (simp add: assms(3))
  show "\<exists>s. file_stream (opened read_mode f st) = Some s \<and> ready s \<and> fs_pos s = 0"
    by (simp add: opened_def ready_def fs_good_def read_mode_def no_mode_def)
qed

text \<open>
  Open for append, write one block, close: what the updates of every file of the archive do.
\<close>

lemma append_block:
  assumes "can_open env" and "file_stream st = None" and "bs_wf data" and "content data \<noteq> []"
    and "storage_open env append_mode st = (True, st1)"
    and "write_data_block env st1 data off = (r, off', st2, data')"
  shows "off' = int (length (file_bytes st))"
    and "file_bytes (storage_close st2) = take (capacity st) (file_bytes st @ block_bytes (content data))"
    and "capacity (storage_close st2) = capacity st"
    and "length (content data) + 16 \<le> free_space st \<Longrightarrow> r = \<lparr>result = True, error_code = 0\<rparr> \<and>
      file_bytes (storage_close st2) = file_bytes st @ block_bytes (content data) \<and>
      file_data (storage_close st2) = Some (file_bytes st @ block_bytes (content data))"
    and "keeps_all env \<Longrightarrow> result r"
    and "unbuffered env \<Longrightarrow> result r \<Longrightarrow> length (content data) + 16 \<le> free_space st"
proof -
  have st1: "st1 = opened append_mode (file_bytes st) st" and e: "at_end st1"
    using open_append [OF assms(1,2)] assms(5) by simp_all
  note w = write_data_block_at_end [OF e assms(3,4,6)]
  note f = wrote_file [OF w(2)]
  show "off' = int (length (file_bytes st))" using w(1) by (simp add: st1)
  show "file_bytes (storage_close st2) = take (capacity st) (file_bytes st @ block_bytes (content data))"
    using f(1) by (simp add: st1)
  show "capacity (storage_close st2) = capacity st" using w(2) by (simp add: wrote_def st1)
  show "r = \<lparr>result = True, error_code = 0\<rparr> \<and>
      file_bytes (storage_close st2) = file_bytes st @ block_bytes (content data) \<and>
      file_data (storage_close st2) = Some (file_bytes st @ block_bytes (content data))"
    if "length (content data) + 16 \<le> free_space st"
    using w(6) f(2,3) that by (simp add: st1) (simp add: capacity_def)
  show "keeps_all env \<Longrightarrow> result r" by (rule w(4))
  show "length (content data) + 16 \<le> free_space st" if "unbuffered env" "result r"
    using settled_wrote [of st1 "block_bytes (content data)" st2] w(2) w(5) [OF that(1)] that(2)
    by (simp add: st1) (simp add: capacity_def)
qed

subsection \<open>Files of one block\<close>

text \<open>A file that is rewritten with one block, and reading it.\<close>

lemma rewrite_file:
  assumes "can_open env" and "file_stream st = None" and "bs_wf data" and "content data \<noteq> []"
    and "length (content data) + 16 \<le> capacity st"
  shows "\<exists>st1 st2 off data'. storage_open env truncate_mode st = (True, st1) \<and>
    write_data_block env st1 data 0 = (\<lparr>result = True, error_code = 0\<rparr>, off, st2, data') \<and>
    file_data (storage_close st2) = Some (block_bytes (content data))"
proof -
  note o = open_truncate [OF assms(1,2)]
  let ?st = "opened truncate_mode [] st"
  obtain r off st2 data' where w: "write_data_block env ?st data 0 = (r, off, st2, data')" by (metis prod_cases4)
  have "length (logical ?st) + length (block_bytes (content data)) \<le> capacity ?st" using assms(5) by simp
  with write_data_block_at_end(2,6) [OF o(2) assms(3,4) w] wrote_file(3)
  have "r = \<lparr>result = True, error_code = 0\<rparr>" "file_data (storage_close st2) = Some (block_bytes (content data))"
    by fastforce+
  then show ?thesis using o(1) w by auto
qed

lemma empty_file:
  assumes "can_open env" and "file_stream st = None"
  shows "file_data (storage_close (opened truncate_mode [] st)) = Some []"
  using close_at_end(1,3) [OF open_truncate(2) [OF assms]] by simp

lemma read_one_block:
  assumes "can_open env" and "file_stream st = None" and "file_data st = Some (block_bytes d)" and "block_ok d"
  shows "\<exists>st1 st2 data. storage_open env read_mode st = (True, st1) \<and>
    read_data_block st1 (-1) empty_stream = (True, st2, data) \<and> content data = d \<and> bs_wf data"
proof -
  let ?st = "opened read_mode (block_bytes d) st"
  note o = open_read [OF assms(1-3)]
  obtain fs where fs: "file_stream ?st = Some fs" "ready fs" "fs_pos fs = 0" using o(2) by blast
  have "dec_block (drop (start_pos fs (-1)) (file_bytes ?st)) = Some (d, [])"
    using fs(3) dec_block_block_bytes [OF assms(4), of "[]"] by (simp add: start_pos_def)
  from read_data_block_good [OF fs(1,2) _ bs_wf_empty _ this] show ?thesis
    using o(1) by auto
qed

lemma read_empty_file:
  assumes "can_open env" and "file_stream st = None" and "file_data st = Some []"
  shows "\<exists>st1 st2 data. storage_open env read_mode st = (True, st1) \<and>
    read_data_block st1 (-1) empty_stream = (False, st2, data)"
proof -
  note o = open_read [OF assms]
  obtain fs where "file_stream (opened read_mode [] st) = Some fs" "ready fs" using o(2) by blast
  from read_data_block_stop [OF this, of empty_stream] show ?thesis
    using o(1) by (auto simp: dec_block_def)
qed

end
