(* ===== verification/Message_Header.thy ===== *)
theory Message_Header
  imports Storage
begin

section \<open>Message headers: versions, flags, patches, history_message.cpp (message_header)\<close>

text \<open>
  A message header is the index entry of one message: its identifiers, flags, time, the place
  of its data in the data file, and the patch version of its last update. Headers of the same
  message are merged as patches arrive. This theory holds the patch versions and their order,
  the bit flags, the patch types, the header with its serialization, and its merge operation.
\<close>

subsection \<open>Patch versions\<close>

record patch_version =
  version_string :: str
  offline_version :: i32w

definition patch_version_new :: patch_version where
  "patch_version_new = \<lparr>version_string = [], offline_version = 0\<rparr>"

definition patch_version_of :: "str \<Rightarrow> patch_version" where
  "patch_version_of s = \<lparr>version_string = s, offline_version = 0\<rparr>"

definition set_version :: "str \<Rightarrow> patch_version \<Rightarrow> patch_version" where
  "set_version s v = v\<lparr>version_string := s\<rparr>"

definition set_offline_version :: "i32w \<Rightarrow> patch_version \<Rightarrow> patch_version" where
  "set_offline_version n v = v\<lparr>offline_version := n\<rparr>"

definition pv_is_empty :: "patch_version \<Rightarrow> bool" where
  "pv_is_empty v \<longleftrightarrow> version_string v = []"

definition increment_offline :: "patch_version \<Rightarrow> patch_version" where
  "increment_offline v = v\<lparr>offline_version := offline_version v + 1\<rparr>"

text \<open>\<open>std::lexicographical_compare\<close> on strings; \<open>char\<close> is signed.\<close>

fun lex_less :: "str \<Rightarrow> str \<Rightarrow> bool" where
  "lex_less _ [] = False"
| "lex_less [] (b # bs) = True"
| "lex_less (a # as) (b # bs) =
     (if sint a < sint b then True else if sint b < sint a then False else lex_less as bs)"

definition less_than :: "str \<Rightarrow> str \<Rightarrow> bool" where
  "less_than lhs rhs =
     (if length lhs = length rhs then lex_less lhs rhs else length lhs < length rhs)"

definition pv_eq :: "patch_version \<Rightarrow> patch_version \<Rightarrow> bool" where
  "pv_eq v w \<longleftrightarrow> version_string v = version_string w"

definition pv_less :: "patch_version \<Rightarrow> patch_version \<Rightarrow> bool" where
  "pv_less v w \<longleftrightarrow> less_than (version_string v) (version_string w)"

definition pv_greater :: "patch_version \<Rightarrow> patch_version \<Rightarrow> bool" where
  "pv_greater v w \<longleftrightarrow> pv_less w v"

definition pv_ge :: "patch_version \<Rightarrow> patch_version \<Rightarrow> bool" where
  "pv_ge v w \<longleftrightarrow> \<not> pv_less v w"

text \<open>The order on version strings is linear: shorter strings first, then lexicographic.\<close>

datatype version_key = Version_Key (key_string: str)

lemma lex_less_irrefl [simp]: "\<not> lex_less s s"
  by (induction s) auto

lemma lex_less_trans: "lex_less a b \<Longrightarrow> lex_less b c \<Longrightarrow> lex_less a c"
proof (induction a b arbitrary: c rule: lex_less.induct)
  case (3 a as b bs)
  then show ?case by (cases c) (auto split: if_splits)
qed (auto elim: lex_less.elims)

lemma lex_less_total: "lex_less a b \<or> a = b \<or> lex_less b a"
proof (induction a b rule: lex_less.induct)
  case (3 a as b bs)
  then show ?case
    by (cases "sint a" "sint b" rule: linorder_cases) (auto intro: signed_word_eqI)
next
  case (1 uu)
  then show ?case by (cases uu) auto
qed auto

lemma less_than_irrefl [simp]: "\<not> less_than s s"
  by (simp add: less_than_def)

lemma less_than_trans: "less_than a b \<Longrightarrow> less_than b c \<Longrightarrow> less_than a c"
  by (auto simp: less_than_def intro: lex_less_trans split: if_splits)

lemma less_than_total: "less_than a b \<or> a = b \<or> less_than b a"
  using lex_less_total [of a b] by (auto simp: less_than_def)

instantiation version_key :: linorder
begin

definition less_version_key :: "version_key \<Rightarrow> version_key \<Rightarrow> bool" where
  "less_version_key v w \<longleftrightarrow> less_than (key_string v) (key_string w)"

definition less_eq_version_key :: "version_key \<Rightarrow> version_key \<Rightarrow> bool" where
  "less_eq_version_key v w \<longleftrightarrow> less_than (key_string v) (key_string w) \<or> v = w"

instance
proof
  fix x y z :: version_key
  show "(x < y) = (x \<le> y \<and> \<not> y \<le> x)"
    unfolding less_version_key_def less_eq_version_key_def
    using less_than_trans less_than_irrefl by blast
  show "x \<le> x"
    by (simp add: less_eq_version_key_def)
  show "x \<le> y \<Longrightarrow> y \<le> z \<Longrightarrow> x \<le> z"
    unfolding less_eq_version_key_def using less_than_trans by blast
  show "x \<le> y \<Longrightarrow> y \<le> x \<Longrightarrow> x = y"
    unfolding less_eq_version_key_def using less_than_trans less_than_irrefl by blast
  show "x \<le> y \<or> y \<le> x"
    unfolding less_eq_version_key_def
    using less_than_total [of "key_string x" "key_string y"] version_key.expand by auto
qed

end

abbreviation pv_key :: "patch_version \<Rightarrow> version_key" where
  "pv_key v \<equiv> Version_Key (version_string v)"

lemma pv_less_key: "pv_less v w \<longleftrightarrow> pv_key v < pv_key w"
  by (simp add: pv_less_def less_version_key_def)

lemma pv_greater_key: "pv_greater v w \<longleftrightarrow> pv_key w < pv_key v"
  by (simp add: pv_greater_def pv_less_key)

subsection \<open>Message flags\<close>

text \<open>The bit fields of \<open>message_flags\<close>, from the least significant bit.\<close>

type_synonym message_flags = u32w

definition f_unread :: nat where "f_unread = 1"
definition f_outgoing :: nat where "f_outgoing = 2"
definition f_invisible :: nat where "f_invisible = 3"
definition f_patch :: nat where "f_patch = 4"
definition f_deleted :: nat where "f_deleted = 5"
definition f_modified :: nat where "f_modified = 6"
definition f_updated :: nat where "f_updated = 7"
definition f_clear :: nat where "f_clear = 8"

lemmas flag_bits = f_unread_def f_outgoing_def f_invisible_def f_patch_def f_deleted_def
  f_modified_def f_updated_def f_clear_def

definition flag :: "nat \<Rightarrow> message_flags \<Rightarrow> bool" where
  "flag i v = bit v i"

definition set_flag :: "nat \<Rightarrow> bool \<Rightarrow> message_flags \<Rightarrow> message_flags" where
  "set_flag i b v = (if b then set_bit i v else unset_bit i v)"

lemma flag_set_flag [simp]: "i < 32 \<Longrightarrow> flag j (set_flag i b v) = (if j = i then b else flag j v)"
  by (auto simp: flag_def set_flag_def bit_simps)

lemma flag_bits_less [simp]: "f_unread < 32" "f_outgoing < 32" "f_invisible < 32" "f_patch < 32"
  "f_deleted < 32" "f_modified < 32" "f_updated < 32" "f_clear < 32"
  by (simp_all add: flag_bits)

lemma set_flag_idem: "i < 32 \<Longrightarrow> flag i v = b \<Longrightarrow> set_flag i b v = v"
  by (rule bit_word_eqI) (auto simp: set_flag_def flag_def bit_simps)

lemma set_flag_word_eqI: "(\<And>j. j < 32 \<Longrightarrow> flag j v = flag j w) \<Longrightarrow> v = w"
  by (rule bit_word_eqI) (simp add: flag_def)

subsection \<open>History patches\<close>

datatype patch_type = Pt_min | Deleted | Modified | Pinned | Unpinned | Updated | Clear | Pt_max

record history_patch =
  hp_type :: patch_type
  hp_archive_id :: i64w
  hp_new_text :: str

definition is_valid_type :: "patch_type \<Rightarrow> bool" where
  "is_valid_type t = (case t of
     Deleted \<Rightarrow> True | Modified \<Rightarrow> True | Pinned \<Rightarrow> True | Unpinned \<Rightarrow> True
   | Updated \<Rightarrow> True | Clear \<Rightarrow> True | _ \<Rightarrow> False)"

definition type_to_string :: "patch_type \<Rightarrow> str" where
  "type_to_string t = (case t of
     Deleted \<Rightarrow> ascii ''deleted''
   | Modified \<Rightarrow> ascii ''modified''
   | Pinned \<Rightarrow> ascii ''pinned''
   | Unpinned \<Rightarrow> ascii ''unpinned''
   | Updated \<Rightarrow> ascii ''updated''
   | _ \<Rightarrow> ascii ''unknown type'')"

definition make_patch :: "patch_type \<Rightarrow> i64w \<Rightarrow> history_patch" where
  "make_patch t archive_id = \<lparr>hp_type = t, hp_archive_id = archive_id, hp_new_text = []\<rparr>"

subsection \<open>The header\<close>

text \<open>
  The scalar fields of a header, and the header itself: it owns the headers of the
  modifications merged into it. Signed 64-bit fields are read with \<open>sint\<close>.
\<close>

record header_fields =
  hid :: i64w
  hversion :: byte
  hflags :: message_flags
  htime :: u64w
  hprev_id :: i64w
  hdata_offset :: i64w
  hdata_size :: u32w
  hpatch_version :: patch_version
  hshared_contact_sn :: bool

datatype message_header = Message_Header (hdr: header_fields) (modifications: "message_header list")

definition header_version :: byte where
  "header_version = 2"

definition header_fields_new :: header_fields where
  "header_fields_new = \<lparr>hid = -1, hversion = header_version, hflags = 0, htime = 0, hprev_id = -1,
     hdata_offset = -1, hdata_size = 0, hpatch_version = patch_version_new,
     hshared_contact_sn = False\<rparr>"

definition message_header_new :: message_header where
  "message_header_new = Message_Header header_fields_new []"

definition message_header_make ::
    "message_flags \<Rightarrow> u64w \<Rightarrow> i64w \<Rightarrow> i64w \<Rightarrow> i64w \<Rightarrow> u32w \<Rightarrow> patch_version \<Rightarrow> bool \<Rightarrow> message_header" where
  "message_header_make flags time msgid prev_id data_offset data_size patch shared =
     Message_Header \<lparr>hid = msgid, hversion = header_version, hflags = flags, htime = time,
       hprev_id = prev_id, hdata_offset = data_offset, hdata_size = data_size,
       hpatch_version = patch, hshared_contact_sn = shared\<rparr> []"

definition update_hdr :: "(header_fields \<Rightarrow> header_fields) \<Rightarrow> message_header \<Rightarrow> message_header" where
  "update_hdr f h = Message_Header (f (hdr h)) (modifications h)"

definition get_id :: "message_header \<Rightarrow> int" where
  "get_id h = sint (hid (hdr h))"

definition has_id :: "message_header \<Rightarrow> bool" where
  "has_id h \<longleftrightarrow> get_id h > 0"

definition get_prev_msgid :: "message_header \<Rightarrow> int" where
  "get_prev_msgid h = sint (hprev_id (hdr h))"

definition set_prev_msgid :: "i64w \<Rightarrow> message_header \<Rightarrow> message_header" where
  "set_prev_msgid v = update_hdr (\<lambda>f. f\<lparr>hprev_id := v\<rparr>)"

definition is_deleted :: "message_header \<Rightarrow> bool" where
  "is_deleted h = flag f_deleted (hflags (hdr h))"

definition is_modified :: "message_header \<Rightarrow> bool" where
  "is_modified h = flag f_modified (hflags (hdr h))"

definition is_updated :: "message_header \<Rightarrow> bool" where
  "is_updated h = flag f_updated (hflags (hdr h))"

definition is_patch :: "message_header \<Rightarrow> bool" where
  "is_patch h = flag f_patch (hflags (hdr h))"

definition is_updated_message :: "message_header \<Rightarrow> bool" where
  "is_updated_message h \<longleftrightarrow> \<not> is_patch h \<and> is_updated h"

definition is_outgoing :: "message_header \<Rightarrow> bool" where
  "is_outgoing h = flag f_outgoing (hflags (hdr h))"

definition set_updated :: "bool \<Rightarrow> message_header \<Rightarrow> message_header" where
  "set_updated value = update_hdr (\<lambda>f. f\<lparr>hflags := set_flag f_updated True (hflags f)\<rparr>)"

definition invalid_offset :: i64w where
  "invalid_offset = word_of_int (2 ^ 63 - 1)"

definition invalidate_data_offset :: "message_header \<Rightarrow> message_header" where
  "invalidate_data_offset = update_hdr (\<lambda>f. f\<lparr>hdata_offset := invalid_offset\<rparr>)"

definition is_message_data_valid :: "message_header \<Rightarrow> bool" where
  "is_message_data_valid h \<longleftrightarrow> hdata_offset (hdr h) \<noteq> invalid_offset"

definition get_modifications :: "message_header \<Rightarrow> message_header list" where
  "get_modifications h = modifications h"

definition has_modifications :: "message_header \<Rightarrow> bool" where
  "has_modifications h \<longleftrightarrow> is_modified h \<and> modifications h \<noteq> []"

definition min_data_sizeof :: "byte \<Rightarrow> nat" where
  "min_data_sizeof v =
     (let version0 = 1 + 4 + 8 + 8 + 8 + 8 + 4; version1 = version0 + 4; version2 = version1 + 1
      in if v = 0 then version0 else if v = 1 then version1 else if v = 2 then version2
         else version0)"

definition header_serialize :: "header_fields \<Rightarrow> binary_stream \<Rightarrow> binary_stream" where
  "header_serialize h s =
     (let s1 = bs_write s (mem_of 1 (hversion h));
          s2 = bs_write s1 (mem_of 4 (hflags h));
          s3 = bs_write s2 (mem_of 8 (htime h));
          s4 = bs_write s3 (mem_of 8 (hid h));
          s5 = bs_write s4 (mem_of 8 (hprev_id h));
          s6 = bs_write s5 (mem_of 8 (hdata_offset h));
          s7 = bs_write s6 (mem_of 4 (hdata_size h));
          patch_str = version_string (hpatch_version h);
          s8 = (if hversion h > 0 then
                  bs_write (bs_write s7 (mem_of 4 (word_of_nat (length patch_str) :: u32w)))
                    (take (u32 (length patch_str)) patch_str)
                else s7)
      in if hversion h > 1 then bs_write s8 (mem_of_bool (hshared_contact_sn h)) else s8)"

definition header_unserialize ::
    "header_fields \<Rightarrow> binary_stream \<Rightarrow> bool \<times> header_fields \<times> binary_stream" where
  "header_unserialize h0 s0 =
     (if available s0 < 1 then (False, h0, s0)
      else
        let (v, s1) = read_u8 s0; h1 = h0\<lparr>hversion := v\<rparr>
        in if v > header_version then (False, h1, s1)
           else if available s1 < min_data_sizeof v - 1 then (False, h1, s1)
           else
             let (fl, s2) = read_u32 s1; (tm, s3) = read_u64 s2; (i, s4) = read_u64 s3;
                 h2 = h1\<lparr>hflags := fl, htime := tm, hid := i\<rparr>
             in if sint i \<le> 0 then (False, h2, s4)
                else
                  let (prev, s5) = read_u64 s4; (off, s6) = read_u64 s5; (sz, s7) = read_u32 s6;
                      h3 = h2\<lparr>hprev_id := prev, hdata_offset := off, hdata_size := sz\<rparr>;
                      (len, s8) = (if v > 0 then read_u32 s7 else (0, s7))
                  in if len \<noteq> 0 \<and> available s8 < unat len then (False, h3, s8)
                     else
                       let (str, s9) = (if len \<noteq> 0 then read_t s8 (unat len) else ([], s8));
                           h4 = (if len \<noteq> 0 then h3\<lparr>hpatch_version := patch_version_of str\<rparr> else h3)
                       in if v > 1 then
                            let (b, s10) = read_bool s9
                            in (True, h4\<lparr>hshared_contact_sn := b\<rparr>, s10)
                          else (True, h4, s9))"

subsection \<open>Merging\<close>

definition merge_with :: "message_header \<Rightarrow> message_header \<Rightarrow> message_header" where
  "merge_with h rhs =
     (let mods = (if is_modified rhs \<and> is_patch rhs then modifications h @ [rhs]
                  else modifications h);
          f = hdr h; r = hdr rhs;
          f1 = f\<lparr>hversion := hversion r, htime := htime r,
                 hshared_contact_sn := hshared_contact_sn r\<rparr>;
          updateOffset = (sint (hdata_offset r) \<noteq> -1 \<and> \<not> is_patch rhs);
          f2 = (if updateOffset then f1\<lparr>hdata_offset := hdata_offset r, hdata_size := hdata_size r\<rparr>
                else f1);
          updatePrevId = (sint (hprev_id r) \<noteq> -1);
          f3 = (if updatePrevId \<or> \<not> is_patch rhs then f2\<lparr>hprev_id := hprev_id r\<rparr> else f2);
          reset_patch_flag = (\<not> is_patch h \<or> \<not> is_patch rhs);
          set_deleted_flag = is_deleted h;
          set_modified_flag = is_modified h;
          set_updated_flag = is_updated h;
          f4 = f3\<lparr>hflags := hflags r\<rparr>;
          f5 = (if pv_greater (hpatch_version r) (hpatch_version f4)
                then f4\<lparr>hpatch_version := hpatch_version r\<rparr> else f4);
          fl1 = (if reset_patch_flag then set_flag f_patch False (hflags f5) else hflags f5);
          fl2 = (if set_deleted_flag then set_flag f_deleted True fl1 else fl1);
          fl3 = (if set_modified_flag then set_flag f_modified True fl2 else fl2);
          fl4 = (if set_updated_flag \<and> is_patch rhs then set_flag f_updated True fl3 else fl3)
      in Message_Header (f5\<lparr>hflags := fl4\<rparr>) mods)"

subsection \<open>The stored form of a header\<close>

definition header_tail :: "header_fields \<Rightarrow> bytes" where
  "header_tail h = mem_of 4 (hflags h) @ mem_of 8 (htime h) @ mem_of 8 (hid h) @
     mem_of 8 (hprev_id h) @ mem_of 8 (hdata_offset h) @ mem_of 4 (hdata_size h)"

definition header_version_bytes :: "header_fields \<Rightarrow> bytes" where
  "header_version_bytes h =
     (if hversion h > 0 then
        mem_of 4 (word_of_nat (length (version_string (hpatch_version h))) :: u32w) @
        version_string (hpatch_version h)
      else []) @
     (if hversion h > 1 then mem_of_bool (hshared_contact_sn h) else [])"

definition header_bytes :: "header_fields \<Rightarrow> bytes" where
  "header_bytes h = mem_of 1 (hversion h) @ header_tail h @ header_version_bytes h"

text \<open>
  Headers that can be written: a known version, a positive identifier, a version string of
  at most \<open>2 ^ 32 - 1\<close> bytes, and nothing that the version does not store.
\<close>

definition header_ok :: "header_fields \<Rightarrow> bool" where
  "header_ok h \<longleftrightarrow> hversion h \<le> header_version \<and> 0 < sint (hid h) \<and>
     length (version_string (hpatch_version h)) < 2 ^ 32 \<and>
     offline_version (hpatch_version h) = 0 \<and>
     (hversion h = 0 \<longrightarrow> version_string (hpatch_version h) = []) \<and>
     (hversion h < 2 \<longrightarrow> \<not> hshared_contact_sn h)"

definition dec_header :: "bytes \<Rightarrow> (header_fields \<times> bytes) option" where
  "dec_header bs =
     (let v = val_of (take 1 bs); r = drop 1 bs; r7 = drop 40 r;
          len = (if v > 0 then unat (val_of (take 4 r7) :: u32w) else 0);
          r8 = (if v > 0 then drop 4 r7 else r7);
          flag_len = (if v > 1 then 1 else 0)
      in if bs = [] \<or> v > header_version \<or> length r < min_data_sizeof v - 1 \<or>
            sint (val_of (take 8 (drop 12 r)) :: i64w) \<le> 0 \<or> length r8 < len + flag_len
         then None
         else Some (\<lparr>hid = val_of (take 8 (drop 12 r)), hversion = v,
             hflags = val_of (take 4 r), htime = val_of (take 8 (drop 4 r)),
             hprev_id = val_of (take 8 (drop 20 r)), hdata_offset = val_of (take 8 (drop 28 r)),
             hdata_size = val_of (take 4 (drop 36 r)),
             hpatch_version = patch_version_of (take len r8),
             hshared_contact_sn = (v > 1 \<and> bool_of (take 1 (drop len r8)))\<rparr>,
           drop (len + flag_len) r8))"

lemma min_data_sizeof_simps [simp]:
  "min_data_sizeof 0 = 41" "min_data_sizeof 1 = 45" "min_data_sizeof 2 = 46"
  by (simp_all add: min_data_sizeof_def)

lemma version_cases: "v \<le> header_version \<Longrightarrow> v = 0 \<or> v = 1 \<or> v = 2"
  for v :: byte
proof -
  assume "v \<le> header_version"
  then have "unat v \<le> 2" by (simp add: header_version_def word_le_nat_alt)
  then have "unat v = 0 \<or> unat v = 1 \<or> unat v = 2" by auto
  then show ?thesis by (auto simp: word_unat_eq_iff)
qed

lemma length_header_tail [simp]: "length (header_tail h) = 40"
  by (simp add: header_tail_def)

lemma header_tail_fields:
  "val_of (take 4 (header_tail h @ r)) = hflags h"
  "val_of (take 8 (drop 4 (header_tail h @ r))) = htime h"
  "val_of (take 8 (drop 12 (header_tail h @ r))) = hid h"
  "val_of (take 8 (drop 20 (header_tail h @ r))) = hprev_id h"
  "val_of (take 8 (drop 28 (header_tail h @ r))) = hdata_offset h"
  "val_of (take 4 (drop 36 (header_tail h @ r))) = hdata_size h"
  by (simp_all add: header_tail_def codec_simps)

lemma dec_header_header_bytes:
  assumes "header_ok h"
  shows "dec_header (header_bytes h @ rest) = Some (h, rest)"
proof -
  define r where "r = header_tail h @ header_version_bytes h @ rest"
  have bs: "header_bytes h @ rest = mem_of 1 (hversion h) @ r"
    by (simp add: header_bytes_def r_def)
  have v: "val_of (take 1 (header_bytes h @ rest)) = hversion h"
    by (simp add: bs codec_simps)
  have dr: "drop 1 (header_bytes h @ rest) = r" "drop 40 r = header_version_bytes h @ rest"
    by (simp add: bs) (simp add: r_def)
  note f = header_tail_fields [of h "header_version_bytes h @ rest", folded r_def]
  have i: "\<not> sint (hid h) \<le> 0" using assms by (simp add: header_ok_def)
  have n: "unat (word_of_nat (length (version_string (hpatch_version h))) :: u32w) =
      length (version_string (hpatch_version h))"
    using assms by (simp add: header_ok_def unat_of_nat)
  have pv: "patch_version_of (version_string (hpatch_version h)) = hpatch_version h"
    using assms by (simp add: header_ok_def patch_version_of_def)
  have ne: "header_bytes h @ rest \<noteq> []" by (simp add: bs)
  have vv: "hversion h = 0 \<or> hversion h = 1 \<or> hversion h = 2"
    using assms version_cases [of "hversion h"] by (simp add: header_ok_def)
  have lr: "length r = 40 + length (header_version_bytes h @ rest)"
    by (simp add: r_def)
  show ?thesis
    unfolding dec_header_def Let_def v dr f
    using vv assms ne i pv lr
    by (elim disjE)
      (simp_all add: header_version_bytes_def codec_simps n header_ok_def header_version_def
        mem_of_bool_def bool_of_def)
qed

interpretation header: stream_codec header_bytes dec_header header_ok
proof unfold_locales
  show "dec_header (header_bytes h @ rest) = Some (h, rest)" if "header_ok h" for h rest
    using that by (rule dec_header_header_bytes)
  show "header_bytes h \<noteq> []" for h
    by (simp add: header_bytes_def)
qed

lemma header_serialize_fold:
  assumes "length (version_string (hpatch_version h)) < 2 ^ 32"
  shows "header_serialize h s = fold (\<lambda>d s. bs_write s d)
     ([mem_of 1 (hversion h), mem_of 4 (hflags h), mem_of 8 (htime h), mem_of 8 (hid h),
       mem_of 8 (hprev_id h), mem_of 8 (hdata_offset h), mem_of 4 (hdata_size h)] @
      (if hversion h > 0
       then [mem_of 4 (word_of_nat (length (version_string (hpatch_version h))) :: u32w),
             version_string (hpatch_version h)]
       else []) @
      (if hversion h > 1 then [mem_of_bool (hshared_contact_sn h)] else [])) s"
  using assms by (simp add: header_serialize_def Let_def)

lemma header_serialize_facts:
  assumes "bs_wf s" and "length (version_string (hpatch_version h)) < 2 ^ 32"
    and "length (header_bytes h) \<le> room s"
  shows "content (header_serialize h s) = content s @ header_bytes h"
    and "bs_wf (header_serialize h s)"
    and "room (header_serialize h s) = room s - length (header_bytes h)"
proof -
  define cs where "cs = [mem_of 1 (hversion h), mem_of 4 (hflags h), mem_of 8 (htime h), mem_of 8 (hid h),
       mem_of 8 (hprev_id h), mem_of 8 (hdata_offset h), mem_of 4 (hdata_size h)] @
      (if hversion h > 0
       then [mem_of 4 (word_of_nat (length (version_string (hpatch_version h))) :: u32w),
             version_string (hpatch_version h)]
       else []) @
      (if hversion h > 1 then [mem_of_bool (hshared_contact_sn h)] else [])"
  have hb: "concat cs = header_bytes h"
    by (simp add: cs_def header_bytes_def header_tail_def header_version_bytes_def)
  have hs: "header_serialize h s = fold (\<lambda>d s. bs_write s d) cs s"
    unfolding cs_def by (rule header_serialize_fold [OF assms(2)])
  show "content (header_serialize h s) = content s @ header_bytes h"
    "bs_wf (header_serialize h s)"
    "room (header_serialize h s) = room s - length (header_bytes h)"
    using bq.fold_put [OF assms(1), of cs] assms(3) by (simp_all add: hs hb)
qed

text \<open>Reads of scalars from the content of a stream.\<close>

lemma read_scalar_content:
  assumes "bs_wf s"
  shows "1 \<le> length (content s) \<Longrightarrow> read_u8 s = (val_of (take 1 (content s)), adv 1 s)"
    and "1 \<le> length (content s) \<Longrightarrow> read_bool s = (bool_of (take 1 (content s)), adv 1 s)"
    and "4 \<le> length (content s) \<Longrightarrow> read_u32 s = (val_of (take 4 (content s)), adv 4 s)"
    and "8 \<le> length (content s) \<Longrightarrow> read_u64 s = (val_of (take 8 (content s)), adv 8 s)"
  using assms by (simp_all add: read_u8_def read_bool_def read_u32_def read_u64_def read_t_content)

lemma read_bool_empty: "bs_wf s \<Longrightarrow> content s = [] \<Longrightarrow> ub (snd (read_bool s))"
  by (simp add: read_bool_def read_t_def bs_read_def available_content)

definition skipped :: "nat \<Rightarrow> binary_stream \<Rightarrow> binary_stream \<Rightarrow> bool" where
  "skipped n s s' \<longleftrightarrow> bs_wf s' \<and> content s' = drop n (content s)"

lemma skipped_adv:
  "skipped n s s' \<Longrightarrow> n + k \<le> length (content s) \<Longrightarrow> skipped (n + k) s (adv k s')"
  by (simp add: skipped_def stream_simps add.commute)

lemma skipped_reads:
  assumes "skipped n s s'"
  shows "n + 1 \<le> length (content s) \<Longrightarrow> read_u8 s' = (val_of (take 1 (drop n (content s))), adv 1 s')"
    and "n + 1 \<le> length (content s) \<Longrightarrow> read_bool s' = (bool_of (take 1 (drop n (content s))), adv 1 s')"
    and "n + 4 \<le> length (content s) \<Longrightarrow> read_u32 s' = (val_of (take 4 (drop n (content s))), adv 4 s')"
    and "n + 8 \<le> length (content s) \<Longrightarrow> read_u64 s' = (val_of (take 8 (drop n (content s))), adv 8 s')"
    and "0 < k \<Longrightarrow> n + k \<le> length (content s) \<Longrightarrow> read_t s' k = (take k (drop n (content s)), adv k s')"
    and "available s' = length (content s) - n"
  using assms read_scalar_content [of s'] by (simp_all add: skipped_def read_t_content available_content)

lemma skipped_0: "bs_wf s \<Longrightarrow> skipped 0 s s"
  by (simp add: skipped_def)

text \<open>
  \<open>header_unserialize\<close> refines \<open>dec_header\<close> on any bytes: it fails when the bytes are not a
  header, with one exception, a version 2 header cut right after its version string, where the
  code reads a flag through a null pointer.
\<close>

lemma header_unserialize_content:
  assumes "bs_wf s"
  shows "(case dec_header (content s) of
      Some (h, rest) \<Rightarrow> \<exists>s'. header_unserialize header_fields_new s = (True, h, s') \<and>
        bs_wf s' \<and> content s' = rest
    | None \<Rightarrow> fst (header_unserialize header_fields_new s) \<longrightarrow>
        ub (snd (snd (header_unserialize header_fields_new s))))"
proof (cases "content s = []")
  case True
  then show ?thesis
    using assms by (auto simp: dec_header_def header_unserialize_def available_content)
next
  case ne: False
  define bs where "bs = content s"
  define v :: byte where "v = val_of (take 1 bs)"
  have k0: "skipped 0 s s" by (rule skipped_0 [OF assms])
  have len1: "0 + 1 \<le> length bs" using ne by (cases bs) (simp_all add: bs_def)
  define s1 where "s1 = adv 1 s"
  have k1: "skipped 1 s s1" using skipped_adv [OF k0, of 1] len1 by (simp add: bs_def s1_def)
  have r1: "read_u8 s = (v, s1)"
    using skipped_reads(1) [OF k0] len1 by (simp add: v_def bs_def s1_def)
  have av: "available s = length bs" "available s1 = length bs - 1"
    using skipped_reads(6) [OF k0] skipped_reads(6) [OF k1] by (simp_all add: bs_def)
  show ?thesis
  proof (cases "v > header_version \<or> length bs - 1 < min_data_sizeof v - 1")
    case True
    then have "dec_header bs = None"
      unfolding dec_header_def Let_def v_def [symmetric] by auto
    moreover have "fst (header_unserialize header_fields_new s) = False"
      using True len1 by (auto simp: header_unserialize_def Let_def r1 av)
    ultimately show ?thesis
      by (simp flip: bs_def)
  next
    case False
    then have vle: "v \<le> header_version" and long: "min_data_sizeof v \<le> length bs"
      using len1 by (auto simp: not_less)
    have vc: "v = 0 \<or> v = 1 \<or> v = 2" by (rule version_cases [OF vle])
    have l41: "41 \<le> length bs" using long vc by auto
    define s2 where "s2 = adv 4 s1"
    define s3 where "s3 = adv 8 s2"
    define s4 where "s4 = adv 8 s3"
    define s5 where "s5 = adv 8 s4"
    define s6 where "s6 = adv 8 s5"
    define s7 where "s7 = adv 4 s6"
    have k2: "skipped 5 s s2" using skipped_adv [OF k1, of 4] l41 by (simp add: s2_def bs_def)
    have k3: "skipped 13 s s3" using skipped_adv [OF k2, of 8] l41 by (simp add: s3_def bs_def)
    have k4: "skipped 21 s s4" using skipped_adv [OF k3, of 8] l41 by (simp add: s4_def bs_def)
    have k5: "skipped 29 s s5" using skipped_adv [OF k4, of 8] l41 by (simp add: s5_def bs_def)
    have k6: "skipped 37 s s6" using skipped_adv [OF k5, of 8] l41 by (simp add: s6_def bs_def)
    have k7: "skipped 41 s s7" using skipped_adv [OF k6, of 4] l41 by (simp add: s7_def bs_def)
    have rd: "read_u32 s1 = (val_of (take 4 (drop 1 bs)), s2)"
      "read_u64 s2 = (val_of (take 8 (drop 5 bs)), s3)"
      "read_u64 s3 = (val_of (take 8 (drop 13 bs)), s4)"
      "read_u64 s4 = (val_of (take 8 (drop 21 bs)), s5)"
      "read_u64 s5 = (val_of (take 8 (drop 29 bs)), s6)"
      "read_u32 s6 = (val_of (take 4 (drop 37 bs)), s7)"
      using skipped_reads(3) [OF k1] skipped_reads(4) [OF k2] skipped_reads(4) [OF k3]
        skipped_reads(4) [OF k4] skipped_reads(4) [OF k5] skipped_reads(3) [OF k6] l41
      by (simp_all add: s2_def s3_def s4_def s5_def s6_def s7_def flip: bs_def)
    have dh: "drop 12 (drop 1 bs) = drop 13 bs" "drop 4 (drop 1 bs) = drop 5 bs"
      "drop 20 (drop 1 bs) = drop 21 bs" "drop 28 (drop 1 bs) = drop 29 bs"
      "drop 36 (drop 1 bs) = drop 37 bs" "drop 40 (drop 1 bs) = drop 41 bs"
      by simp_all
    note unfold_simps = dec_header_def header_unserialize_def Let_def r1 av rd dh split
    show ?thesis
    proof (cases "sint (val_of (take 8 (drop 13 bs)) :: i64w) \<le> 0")
      case True
      then show ?thesis
        using False ne unfolding bs_def [symmetric] unfold_simps v_def [symmetric] by auto
    next
      case pos: False
      show ?thesis
      proof (cases "v = 0")
        case v0: True
        then show ?thesis
          using False ne pos k7
          unfolding bs_def [symmetric] unfold_simps v_def [symmetric]
          by (simp add: skipped_def header_fields_new_def patch_version_of_def
              patch_version_new_def flip: bs_def)
      next
        case v0: False
        define lw :: u32w where "lw = val_of (take 4 (drop 41 bs))"
        define n where "n = unat lw"
        define s8 where "s8 = adv 4 s7"
        define s9 where "s9 = (if n = 0 then s8 else adv n s8)"
        have l45: "45 \<le> length bs" using long vc v0 by auto
        have k8: "skipped 45 s s8" using skipped_adv [OF k7, of 4] l45 by (simp add: s8_def bs_def)
        have r8: "read_u32 s7 = (lw, s8)"
          using skipped_reads(3) [OF k7] l45 by (simp add: s8_def lw_def flip: bs_def)
        have n0: "lw = 0 \<longleftrightarrow> n = 0"
          by (simp add: n_def unsigned_eq_0_iff)
        have av8: "available s8 = length bs - 45"
          using skipped_reads(6) [OF k8] by (simp add: bs_def)
        have vpos: "v > 0" using v0 by (simp add: word_gt_0)
        show ?thesis
        proof (cases "45 + n \<le> length bs")
          case short: False
          then have "n \<noteq> 0" using l45 by auto
          then show ?thesis
            using False ne pos short vpos l45
            unfolding bs_def [symmetric] unfold_simps v_def [symmetric] r8 lw_def [symmetric] n_def [symmetric]
            by (auto simp: n0 av8 simp flip: n_def)
        next
          case long_n: True
          have k9: "skipped (45 + n) s s9"
            using skipped_adv [OF k8, of n] k8 long_n by (simp add: s9_def bs_def)
          have r9: "(if n \<noteq> 0 then read_t s8 n else ([], s8)) = (take n (drop 45 bs), s9)"
            using skipped_reads(5) [OF k8, of n] long_n by (simp add: s9_def bs_def)
          have pv: "patch_version_new = patch_version_of []"
            by (simp add: patch_version_new_def patch_version_of_def)
          have cond: "bs \<noteq> []" "\<not> header_version < v" "0 < v" "\<not> length bs - 1 < min_data_sizeof v - 1"
            "\<not> length bs - 45 < n"
            using ne False vpos long_n by (simp_all add: bs_def)
          have rt: "n \<noteq> 0 \<Longrightarrow> read_t s8 n = (take n (drop 45 bs), s9)" "n = 0 \<Longrightarrow> s9 = s8"
            using r9 by (simp_all add: s9_def)
          have s9: "bs_wf s9" "content s9 = drop (45 + n) bs"
            using k9 by (simp_all add: skipped_def bs_def)
          show ?thesis
          proof (cases "v > 1 \<and> length bs = 45 + n")
            case True
            have e: "ub (snd (read_bool s9))"
              using True s9 by (simp add: read_bool_empty)
            show ?thesis
              unfolding bs_def [symmetric] unfold_simps v_def [symmetric] r8 lw_def [symmetric] n_def [symmetric]
              using cond pos True rt e by (cases "n = 0") (simp_all add: n0 av8 split_beta flip: n_def)
          next
            case long1: False
            have rb: "v > 1 \<Longrightarrow> read_bool s9 = (bool_of (take 1 (drop (45 + n) bs)), adv 1 s9)"
              using read_scalar_content(2) [OF s9(1)] s9(2) long_n long1 by simp
            have ad: "v > 1 \<Longrightarrow> bs_wf (adv 1 s9) \<and> content (adv 1 s9) = drop (46 + n) bs"
              using s9 long_n long1 by (simp add: stream_simps)
            show ?thesis
              unfolding bs_def [symmetric] unfold_simps v_def [symmetric] r8 lw_def [symmetric] n_def [symmetric]
              using cond pos long1 long_n l45 rt rb ad s9 pv
              by (cases "n = 0"; cases "v > 1")
                (simp_all add: n0 av8 header_fields_new_def add_ac flip: n_def)
          qed
        qed
      qed
    qed
  qed
qed

subsection \<open>What a merge keeps\<close>

lemma flag_set_flag_f [simp]:
  "flag j (set_flag f_patch b v) = (if j = f_patch then b else flag j v)"
  "flag j (set_flag f_deleted b v) = (if j = f_deleted then b else flag j v)"
  "flag j (set_flag f_modified b v) = (if j = f_modified then b else flag j v)"
  "flag j (set_flag f_updated b v) = (if j = f_updated then b else flag j v)"
  "flag j (set_flag f_outgoing b v) = (if j = f_outgoing then b else flag j v)"
  "flag j (set_flag f_clear b v) = (if j = f_clear then b else flag j v)"
  by simp_all

lemma flag_bits_distinct [simp]:
  "f_patch \<noteq> f_deleted" "f_patch \<noteq> f_modified" "f_patch \<noteq> f_updated" "f_patch \<noteq> f_outgoing"
  "f_deleted \<noteq> f_patch" "f_deleted \<noteq> f_modified" "f_deleted \<noteq> f_updated" "f_deleted \<noteq> f_outgoing"
  "f_modified \<noteq> f_patch" "f_modified \<noteq> f_deleted" "f_modified \<noteq> f_updated" "f_modified \<noteq> f_outgoing"
  "f_updated \<noteq> f_patch" "f_updated \<noteq> f_deleted" "f_updated \<noteq> f_modified" "f_updated \<noteq> f_outgoing"
  "f_outgoing \<noteq> f_patch" "f_outgoing \<noteq> f_deleted" "f_outgoing \<noteq> f_modified" "f_outgoing \<noteq> f_updated"
  by (simp_all add: flag_bits)

lemmas header_flags = is_patch_def is_deleted_def is_modified_def is_updated_def is_outgoing_def

lemma flag_merge_with:
  "flag i (hflags (hdr (merge_with h r))) =
     (if i = f_patch then is_patch h \<and> is_patch r
      else if i = f_deleted then is_deleted h \<or> is_deleted r
      else if i = f_modified then is_modified h \<or> is_modified r
      else if i = f_updated then is_updated r \<or> (is_updated h \<and> is_patch r)
      else flag i (hflags (hdr r)))"
  by (auto simp: merge_with_def Let_def header_flags)

lemma flags_merge_with [simp]:
  "is_patch (merge_with h r) \<longleftrightarrow> is_patch h \<and> is_patch r"
  "is_deleted (merge_with h r) \<longleftrightarrow> is_deleted h \<or> is_deleted r"
  "is_modified (merge_with h r) \<longleftrightarrow> is_modified h \<or> is_modified r"
  "is_updated (merge_with h r) \<longleftrightarrow> is_updated r \<or> (is_updated h \<and> is_patch r)"
  "is_outgoing (merge_with h r) \<longleftrightarrow> is_outgoing r"
  using flag_merge_with [of f_patch h r] flag_merge_with [of f_deleted h r]
    flag_merge_with [of f_modified h r] flag_merge_with [of f_updated h r]
    flag_merge_with [of f_outgoing h r]
  by (simp_all add: header_flags)

lemma fields_merge_with:
  "hid (hdr (merge_with h r)) = hid (hdr h)"
  "hversion (hdr (merge_with h r)) = hversion (hdr r)"
  "htime (hdr (merge_with h r)) = htime (hdr r)"
  "hshared_contact_sn (hdr (merge_with h r)) = hshared_contact_sn (hdr r)"
  "hprev_id (hdr (merge_with h r)) =
     (if sint (hprev_id (hdr r)) \<noteq> -1 \<or> \<not> is_patch r then hprev_id (hdr r) else hprev_id (hdr h))"
  "hdata_offset (hdr (merge_with h r)) =
     (if sint (hdata_offset (hdr r)) \<noteq> -1 \<and> \<not> is_patch r then hdata_offset (hdr r)
      else hdata_offset (hdr h))"
  "hdata_size (hdr (merge_with h r)) =
     (if sint (hdata_offset (hdr r)) \<noteq> -1 \<and> \<not> is_patch r then hdata_size (hdr r)
      else hdata_size (hdr h))"
  "hpatch_version (hdr (merge_with h r)) =
     (if pv_greater (hpatch_version (hdr r)) (hpatch_version (hdr h)) then hpatch_version (hdr r)
      else hpatch_version (hdr h))"
  "modifications (merge_with h r) =
     (if is_modified r \<and> is_patch r then modifications h @ [r] else modifications h)"
  by (simp_all add: merge_with_def Let_def)

lemma get_id_merge_with [simp]: "get_id (merge_with h r) = get_id h"
  by (simp add: get_id_def fields_merge_with)

lemma pv_key_merge_with:
  "pv_key (hpatch_version (hdr (merge_with h r))) =
     max (pv_key (hpatch_version (hdr h))) (pv_key (hpatch_version (hdr r)))"
  by (auto simp: fields_merge_with pv_greater_key max_def)

lemma header_fields_eqI:
  fixes f g :: header_fields
  assumes "hid f = hid g" "hversion f = hversion g" "hflags f = hflags g" "htime f = htime g"
    "hprev_id f = hprev_id g" "hdata_offset f = hdata_offset g" "hdata_size f = hdata_size g"
    "hpatch_version f = hpatch_version g" "hshared_contact_sn f = hshared_contact_sn g"
  shows "f = g"
  using assms by (cases f; cases g) simp

text \<open>Merging a header again changes nothing but the list of modifications.\<close>

lemma merge_with_again: "hdr (merge_with (merge_with h r) r) = hdr (merge_with h r)"
proof (rule header_fields_eqI)
  show "hflags (hdr (merge_with (merge_with h r) r)) = hflags (hdr (merge_with h r))"
    by (rule set_flag_word_eqI) (auto simp: flag_merge_with)
qed (auto simp: fields_merge_with pv_greater_key)

text \<open>A sequence of merges.\<close>

definition merge_all :: "message_header \<Rightarrow> message_header list \<Rightarrow> message_header" where
  "merge_all h rs = foldl merge_with h rs"

lemma merge_all_simps [simp]:
  "merge_all h [] = h" "merge_all h (r # rs) = merge_all (merge_with h r) rs"
  by (simp_all add: merge_all_def)

lemma merge_all_flags:
  "is_deleted (merge_all h rs) \<longleftrightarrow> is_deleted h \<or> (\<exists>r \<in> set rs. is_deleted r)"
  "is_modified (merge_all h rs) \<longleftrightarrow> is_modified h \<or> (\<exists>r \<in> set rs. is_modified r)"
  "is_patch (merge_all h rs) \<longleftrightarrow> is_patch h \<and> (\<forall>r \<in> set rs. is_patch r)"
  "get_id (merge_all h rs) = get_id h"
  by (induction rs arbitrary: h) auto

lemma merge_all_version:
  "pv_key (hpatch_version (hdr (merge_all h rs))) =
     Max (insert (pv_key (hpatch_version (hdr h))) ((\<lambda>r. pv_key (hpatch_version (hdr r))) ` set rs))"
proof (induction rs arbitrary: h)
  case (Cons r rs)
  then show ?case
    by (cases "rs = []") (simp_all add: pv_key_merge_with max.assoc)
qed simp

lemma merge_all_modifications:
  "modifications (merge_all h rs) =
     modifications h @ filter (\<lambda>r. is_modified r \<and> is_patch r) rs"
  by (induction rs arbitrary: h) (auto simp: fields_merge_with)

end
