(* ===== verification/Tlv.thy ===== *)
theory Tlv
  imports Binary_Stream
begin

section \<open>Type-length-value packs: core/tools/tlv\<close>

text \<open>
  Every record of the archive is a pack of TLV fields: a 32-bit type, a 32-bit length and the
  value. A \<open>tlv\<close> keeps its value in a stream of its own; reading it moves that stream's
  output cursor (the field is \<open>mutable\<close>), so the readers return the changed field. A pack is
  a vector of shared fields with an iterator, kept as an index.
\<close>

record tlv =
  tlv_type :: u32w
  value_stream :: binary_stream

record tlvpack =
  tlvlist :: "tlv list"
  cursor :: nat

definition tlv_new :: tlv where
  "tlv_new = \<lparr>tlv_type = 0, value_stream = empty_stream\<rparr>"

definition empty_pack :: tlvpack where
  "empty_pack = \<lparr>tlvlist = [], cursor = 0\<rparr>"

subsection \<open>Packs of fields\<close>

definition push_child :: "tlvpack \<Rightarrow> tlv \<Rightarrow> tlvpack" where
  "push_child p t = p\<lparr>tlvlist := tlvlist p @ [t]\<rparr>"

definition get_item :: "tlvpack \<Rightarrow> u32w \<Rightarrow> tlv option" where
  "get_item p ty = find (\<lambda>x. tlv_type x = ty) (tlvlist p)"

definition get_first :: "tlvpack \<Rightarrow> tlv option \<times> tlvpack" where
  "get_first p =
     (if tlvlist p = [] then (None, p) else (Some (tlvlist p ! 0), p\<lparr>cursor := 0\<rparr>))"

definition get_next :: "tlvpack \<Rightarrow> tlv option \<times> tlvpack" where
  "get_next p =
     (if tlvlist p = [] \<or> cursor p = length (tlvlist p) then (None, p)
      else
        let p1 = p\<lparr>cursor := cursor p + 1\<rparr>
        in if length (tlvlist p1) = cursor p1 then (None, p1)
           else (Some (tlvlist p1 ! cursor p1), p1))"

definition pack_size :: "tlvpack \<Rightarrow> nat" where
  "pack_size p = u32 (length (tlvlist p))"

definition copy_pack :: "tlvpack \<Rightarrow> tlvpack" where
  "copy_pack p = empty_pack\<lparr>tlvlist := tlvlist p\<rparr>"

subsection \<open>Serialization of one field and of a pack\<close>

definition tlv_serialize :: "tlv \<Rightarrow> binary_stream \<Rightarrow> tlv \<times> binary_stream" where
  "tlv_serialize t s =
     (let s1 = bs_write s (mem_of 4 (tlv_type t));
          s2 = bs_write s1 (mem_of 4 (word_of_nat (available (value_stream t)) :: u32w))
      in if available (value_stream t) \<noteq> 0 then
           let size = available (value_stream t);
               (d, vs) = read_t (value_stream t) size
           in (t\<lparr>value_stream := reset_out vs\<rparr>, bs_write s2 d)
         else (t, s2))"

definition tlv_unserialize :: "tlv \<Rightarrow> binary_stream \<Rightarrow> bool \<times> tlv \<times> binary_stream" where
  "tlv_unserialize t s =
     (if available s < 4 * 2 then (False, t, s)
      else
        let (ty, s1) = read_u32 s;
            t1 = t\<lparr>tlv_type := ty\<rparr>;
            (len, s2) = read_u32 s1
        in if len = 0 then (True, t1, s2)
           else if available s2 < unat len then (False, t1, s2)
           else
             let (d, s3) = read_t s2 (unat len)
             in (True, t1\<lparr>value_stream := bs_write (value_stream t1) d\<rparr>, s3))"

definition try_get_field_with_type :: "binary_stream \<Rightarrow> u32w \<Rightarrow> bool \<times> u32w \<times> binary_stream" where
  "try_get_field_with_type s ty =
     (if available s < 4 * 2 then (False, 0, s)
      else
        let (ty', s1) = read_u32 s;
            (len, s2) = read_u32 s1
        in if len = 0 then (True, 0, s2)
           else if available s2 < unat len then (False, 0, s2)
           else if ty' = ty then (True, len, s2)
           else (True, 0, snd (bs_read s2 (unat len))))"

primrec tlvs_serialize :: "tlv list \<Rightarrow> binary_stream \<Rightarrow> tlv list \<times> binary_stream" where
  "tlvs_serialize [] s = ([], s)"
| "tlvs_serialize (x # xs) s =
     (let (x', s1) = tlv_serialize x s; (xs', s2) = tlvs_serialize xs s1 in (x' # xs', s2))"

definition tlvpack_serialize :: "tlvpack \<Rightarrow> binary_stream \<Rightarrow> tlvpack \<times> binary_stream" where
  "tlvpack_serialize p s =
     (let (ts, s') = tlvs_serialize (tlvlist p) s in (p\<lparr>tlvlist := ts\<rparr>, s'))"

lemma available_ub [simp]: "available (s\<lparr>ub := b\<rparr>) = available s"
  by (simp add: available_def)

lemma available_read_t: "n \<le> available s \<Longrightarrow> available (snd (read_t s n)) = available s - n"
  by (auto simp: read_t_def bs_read_def available_adv)

lemma available_tlv_unserialize:
  "tlv_unserialize t s = (True, t', s') \<Longrightarrow> available s' < available s"
  by (auto simp: tlv_unserialize_def read_u32_def Let_def split_beta apfst_def map_prod_def
      available_read_t split: if_splits)

function tlvpack_unserialize :: "tlvpack \<Rightarrow> binary_stream \<Rightarrow> bool \<times> tlvpack \<times> binary_stream" where
  "tlvpack_unserialize p s =
     (if available s \<noteq> 0 then
        (case tlv_unserialize tlv_new s of
           (False, _, s1) \<Rightarrow> (False, p, s1)
         | (True, t, s1) \<Rightarrow> tlvpack_unserialize (push_child p t) s1)
      else (True, p, s))"
  by pat_completeness auto
termination
  by (relation "measure (\<lambda>(p, s). available s)") (auto dest!: available_tlv_unserialize [OF sym])

declare tlvpack_unserialize.simps [simp del]

subsection \<open>Values of a field\<close>

text \<open>
  \<open>set_value\<close> and the constructors of a field from a scalar (its object representation), a
  string, a stream and a pack; \<open>get_value\<close> of a scalar of \<open>n\<close> bytes, a string, a pack and a
  stream. The default given for a scalar is not used when the value is too short: the zero
  value is returned.
\<close>

definition set_value_scalar :: "tlv \<Rightarrow> bytes \<Rightarrow> tlv" where
  "set_value_scalar t d = t\<lparr>value_stream := bs_write (reset (value_stream t)) d\<rparr>"

definition set_value_string :: "tlv \<Rightarrow> str \<Rightarrow> tlv" where
  "set_value_string t v =
     (let t1 = t\<lparr>value_stream := reset (value_stream t)\<rparr>
      in if v = [] then t1
         else t1\<lparr>value_stream := bs_write (value_stream t1) (take (u32 (length v)) v)\<rparr>)"

definition set_value_stream :: "tlv \<Rightarrow> binary_stream \<Rightarrow> tlv" where
  "set_value_stream t v = t\<lparr>value_stream := v\<rparr>"

definition set_value_pack :: "tlv \<Rightarrow> tlvpack \<Rightarrow> tlv" where
  "set_value_pack t v = t\<lparr>value_stream := snd (tlvpack_serialize v (value_stream t))\<rparr>"

definition tlv_scalar :: "u32w \<Rightarrow> bytes \<Rightarrow> tlv" where
  "tlv_scalar ty d = set_value_scalar (tlv_new\<lparr>tlv_type := ty\<rparr>) d"

definition tlv_string :: "u32w \<Rightarrow> str \<Rightarrow> tlv" where
  "tlv_string ty v = set_value_string (tlv_new\<lparr>tlv_type := ty\<rparr>) v"

definition tlv_stream :: "u32w \<Rightarrow> binary_stream \<Rightarrow> tlv" where
  "tlv_stream ty v = set_value_stream (tlv_new\<lparr>tlv_type := ty\<rparr>) v"

definition tlv_pack :: "u32w \<Rightarrow> tlvpack \<Rightarrow> tlv" where
  "tlv_pack ty v = set_value_pack (tlv_new\<lparr>tlv_type := ty\<rparr>) v"

definition get_scalar :: "nat \<Rightarrow> tlv \<Rightarrow> bytes \<times> tlv" where
  "get_scalar n t =
     (if available (value_stream t) < n then (replicate n 0, t)
      else
        let (d, vs) = read_t (value_stream t) n
        in (d, t\<lparr>value_stream := reset_out vs\<rparr>))"

definition get_string :: "str \<Rightarrow> tlv \<Rightarrow> str \<times> tlv" where
  "get_string default_value t =
     (let size = available (value_stream t)
      in if size > 0 then
           let (chars, vs) = bs_read (value_stream t) size;
               val = (case chars of Some d \<Rightarrow> d | None \<Rightarrow> default_value)
           in (val, t\<lparr>value_stream := reset_out vs\<rparr>)
         else (default_value, t))"

definition get_pack :: "tlv \<Rightarrow> tlvpack \<times> tlv" where
  "get_pack t =
     (let (_, p, vs) = tlvpack_unserialize empty_pack (value_stream t)
      in (p, t\<lparr>value_stream := vs\<rparr>))"

definition get_stream :: "tlv \<Rightarrow> binary_stream" where
  "get_stream t = value_stream t"

subsection \<open>The wire format\<close>

text \<open>
  Abstractly a field is a pair of its type and the unread bytes of its value, and a pack the
  list of these pairs. \<open>item_bytes\<close> is the documented layout of a field and \<open>dec_item\<close> its
  reader on byte lists; the stream operations above refine both.
\<close>

type_synonym item = "u32w \<times> bytes"

definition item_bytes :: "item \<Rightarrow> bytes" where
  "item_bytes i = mem_of 4 (fst i) @ mem_of 4 (word_of_nat (length (snd i)) :: u32w) @ snd i"

definition item_ok :: "item \<Rightarrow> bool" where
  "item_ok i \<longleftrightarrow> length (snd i) < 2 ^ 32"

definition dec_item :: "bytes \<Rightarrow> (item \<times> bytes) option" where
  "dec_item bs =
     (if length bs < 8 then None
      else
        let ty = val_of (take 4 bs);
            len = unat (val_of (take 4 (drop 4 bs)) :: u32w);
            r = drop 8 bs
        in if length r < len then None else Some ((ty, take len r), drop len r))"

definition pack_bytes :: "item list \<Rightarrow> bytes" where
  "pack_bytes is = concat (map item_bytes is)"

definition tlv_value :: "tlv \<Rightarrow> bytes" where
  "tlv_value t = content (value_stream t)"

definition item_of :: "tlv \<Rightarrow> item" where
  "item_of t = (tlv_type t, tlv_value t)"

definition items_of :: "tlvpack \<Rightarrow> item list" where
  "items_of p = map item_of (tlvlist p)"

definition tlv_wf :: "tlv \<Rightarrow> bool" where
  "tlv_wf t \<longleftrightarrow> bs_wf (value_stream t) \<and> output_cursor (value_stream t) = 0"

definition pack_wf :: "tlvpack \<Rightarrow> bool" where
  "pack_wf p \<longleftrightarrow> (\<forall>t \<in> set (tlvlist p). tlv_wf t)"

definition tlv_make :: "item \<Rightarrow> tlv" where
  "tlv_make i = \<lparr>tlv_type = fst i, value_stream = bs_write empty_stream (snd i)\<rparr>"

definition pack_of :: "item list \<Rightarrow> tlvpack" where
  "pack_of is = \<lparr>tlvlist = map tlv_make is, cursor = 0\<rparr>"

lemma length_item_bytes [simp]: "length (item_bytes i) = 8 + length (snd i)"
  by (simp add: item_bytes_def)

lemma pack_bytes_simps [simp]:
  "pack_bytes [] = []"
  "pack_bytes (i # is) = item_bytes i @ pack_bytes is"
  "pack_bytes (is @ js) = pack_bytes is @ pack_bytes js"
  by (simp_all add: pack_bytes_def)

lemma dec_item_item_bytes:
  assumes "item_ok i"
  shows "dec_item (item_bytes i @ rest) = Some (i, rest)"
proof -
  obtain ty d where i: "i = (ty, d)" by (cases i)
  have u: "unat (word_of_nat (length d) :: u32w) = length d"
    using assms by (simp add: i item_ok_def unat_of_nat)
  show ?thesis
    by (simp add: i item_bytes_def dec_item_def Let_def codec_simps u)
qed

interpretation item: stream_codec item_bytes dec_item item_ok
proof unfold_locales
  show "dec_item (item_bytes i @ rest) = Some (i, rest)" if "item_ok i" for i rest
    using that by (rule dec_item_item_bytes)
  show "item_bytes i \<noteq> []" for i
    by (simp add: item_bytes_def)
qed

lemma dec_item_length: "dec_item bs = Some (i, rest) \<Longrightarrow> length rest + 8 + length (snd i) = length bs"
  by (auto simp: dec_item_def Let_def split: if_splits)

lemma dec_item_ok: "dec_item bs = Some (i, rest) \<Longrightarrow> item_ok i"
  using unsigned_less [of "val_of (take 4 (drop 4 bs)) :: u32w"]
  by (auto simp: dec_item_def item_ok_def Let_def split: if_splits)

text \<open>A field can be read exactly when a whole field is at the front of the stream.\<close>

lemma read_u32_content:
  "bs_wf s \<Longrightarrow> 4 \<le> length (content s) \<Longrightarrow>
     read_u32 s = (val_of (take 4 (content s)), adv 4 s)"
  by (simp add: read_u32_def stream_simps)

lemma header_read:
  assumes "bs_wf s" and "8 \<le> length (content s)"
  shows "read_u32 s = (val_of (take 4 (content s)), adv 4 s)"
    and "read_u32 (adv 4 s) = (val_of (take 4 (drop 4 (content s))), adv 4 (adv 4 s))"
    and "bs_wf (adv 4 (adv 4 s))"
    and "content (adv 4 (adv 4 s)) = drop 8 (content s)"
proof -
  have wf: "bs_wf (adv 4 s)" "content (adv 4 s) = drop 4 (content s)"
    using assms by (simp_all add: stream_simps)
  show "read_u32 s = (val_of (take 4 (content s)), adv 4 s)"
    using assms by (simp add: read_u32_content)
  show "read_u32 (adv 4 s) = (val_of (take 4 (drop 4 (content s))), adv 4 (adv 4 s))"
    using assms wf by (simp add: read_u32_content)
  show "bs_wf (adv 4 (adv 4 s))" "content (adv 4 (adv 4 s)) = drop 8 (content s)"
    using assms wf by (simp_all add: bs_wf_adv content_adv)
qed

lemma tlv_unserialize_eq:
  assumes "bs_wf s" and "8 \<le> length (content s)"
    and "ty = val_of (take 4 (content s))"
    and "len = unat (val_of (take 4 (drop 4 (content s))) :: u32w)"
  shows "tlv_unserialize t s =
    (if len = 0 then (True, t\<lparr>tlv_type := ty\<rparr>, adv 4 (adv 4 s))
     else if length (drop 8 (content s)) < len then (False, t\<lparr>tlv_type := ty\<rparr>, adv 4 (adv 4 s))
     else (True, t\<lparr>tlv_type := ty,
        value_stream := bs_write (value_stream t) (take len (drop 8 (content s)))\<rparr>,
        adv len (adv 4 (adv 4 s))))"
proof -
  note h = header_read [OF assms(1,2)]
  have av: "available s = length (content s)"
    "available (adv 4 (adv 4 s)) = length (drop 8 (content s))"
    using assms(1) h(3,4) by (simp_all add: available_content)
  have rd: "0 < len \<Longrightarrow> len \<le> length (drop 8 (content s)) \<Longrightarrow>
      read_t (adv 4 (adv 4 s)) len = (take len (drop 8 (content s)), adv len (adv 4 (adv 4 s)))"
    using h(3,4) by (simp add: read_t_content)
  have z: "(val_of (take 4 (drop 4 (content s))) :: u32w) = 0 \<longleftrightarrow> len = 0"
    by (simp add: assms(4) unat_eq_0)
  show ?thesis
    using assms(2,3) rd
    by (simp add: tlv_unserialize_def h(1,2) av z flip: assms(4))
qed

lemma tlv_unserialize_None:
  assumes "bs_wf s" and "dec_item (content s) = None"
  shows "\<exists>t' s'. tlv_unserialize t s = (False, t', s') \<and> bs_wf s'"
proof (cases "length (content s) < 8")
  case True
  then show ?thesis
    using assms by (simp add: tlv_unserialize_def stream_simps)
next
  case False
  then have len: "8 \<le> length (content s)" by simp
  then show ?thesis
    using assms(2) header_read(3) [OF assms(1) len]
    by (auto simp: tlv_unserialize_eq [OF assms(1) len refl refl] dec_item_def Let_def
        split: if_splits)
qed

lemma tlv_unserialize_Some:
  assumes "bs_wf s" and "dec_item (content s) = Some (i, rest)"
  shows "\<exists>s'. tlv_unserialize t s =
      (True, t\<lparr>tlv_type := fst i, value_stream := bs_write (value_stream t) (snd i)\<rparr>, s') \<and>
      bs_wf s' \<and> content s' = rest"
proof -
  have len: "8 \<le> length (content s)"
    using assms(2) by (auto simp: dec_item_def split: if_splits)
  note h = header_read(3,4) [OF assms(1) len]
  define n where "n = unat (val_of (take 4 (drop 4 (content s))) :: u32w)"
  have n: "n \<le> length (drop 8 (content s))"
    and i: "i = (val_of (take 4 (content s)), take n (drop 8 (content s)))"
    and r: "rest = drop n (drop 8 (content s))"
    using assms(2) len by (auto simp: dec_item_def Let_def n_def split: if_splits)
  show ?thesis
    using n h by (auto simp: tlv_unserialize_eq [OF assms(1) len refl n_def] i r bs_write_def
        bs_wf_adv content_adv)
qed

lemma tlvpack_unserialize_content:
  "bs_wf s \<Longrightarrow>
     \<exists>s'. tlvpack_unserialize p s =
        (snd (decode_all dec_item (content s)),
         p\<lparr>tlvlist := tlvlist p @ map tlv_make (fst (decode_all dec_item (content s)))\<rparr>, s') \<and>
      bs_wf s' \<and> (snd (decode_all dec_item (content s)) \<longrightarrow> content s' = [])"
proof (induction p s rule: tlvpack_unserialize.induct)
  case (1 p s)
  show ?case
  proof (cases "content s = []")
    case True
    then show ?thesis
      using 1(2) by (simp add: tlvpack_unserialize.simps [of p s] stream_simps)
  next
    case ne: False
    then have av: "available s \<noteq> 0"
      using 1(2) by (simp add: stream_simps)
    show ?thesis
    proof (cases "dec_item (content s)")
      case None
      with 1(2) obtain t' s' where "tlv_unserialize tlv_new s = (False, t', s')" "bs_wf s'"
        using tlv_unserialize_None by blast
      then show ?thesis
        using ne av None
        by (simp add: tlvpack_unserialize.simps [of p s] decode_all.simps [of _ "content s"])
    next
      case (Some a)
      then obtain i rest where a: "dec_item (content s) = Some (i, rest)" by (cases a) auto
      obtain s' where s': "tlv_unserialize tlv_new s = (True, tlv_make i, s')" "bs_wf s'"
        "content s' = rest"
        using tlv_unserialize_Some [OF 1(2) a, of tlv_new]
        by (auto simp: tlv_new_def tlv_make_def)
      have less: "length rest < length (content s)"
        using dec_item_length [OF a] by simp
      show ?thesis
        using 1(1) [OF av s'(1) [symmetric] refl refl] s' ne av less
        by (auto simp: tlvpack_unserialize.simps [of p s] decode_all.simps [of _ "content s"] a
            push_child_def split_beta apfst_def map_prod_def)
    qed
  qed
qed

subsection \<open>Constructed fields and their wire image\<close>

lemma room_ge: "length d \<le> 2 ^ 32 - 2 \<Longrightarrow> input_cursor s = 0 \<Longrightarrow> length d \<le> room s"
  by (simp add: room_def)

lemma item_of_tlv_make [simp]: "length (snd i) \<le> 2 ^ 32 - 2 \<Longrightarrow> item_of (tlv_make i) = i"
  by (cases i) (simp add: item_of_def tlv_make_def tlv_value_def stream_simps)

lemma tlv_wf_make [simp]: "length (snd i) \<le> 2 ^ 32 - 2 \<Longrightarrow> tlv_wf (tlv_make i)"
  by (simp add: tlv_wf_def tlv_make_def stream_simps)

lemma reset_empty [simp]: "reset empty_stream = empty_stream"
  by (simp add: reset_def empty_stream_def)

lemma tlv_scalar_make [codec_simps]: "tlv_scalar ty d = tlv_make (ty, d)"
  by (simp add: tlv_scalar_def set_value_scalar_def tlv_new_def tlv_make_def)

lemma tlv_string_make [codec_simps]: "length v < 2 ^ 32 \<Longrightarrow> tlv_string ty v = tlv_make (ty, v)"
  by (simp add: tlv_string_def set_value_string_def tlv_new_def tlv_make_def Let_def bs_write_def)

lemma tlv_type_simps [simp]:
  "tlv_type (tlv_make i) = fst i" "tlv_type (tlv_string ty v) = ty"
  "tlv_type (tlv_stream ty b) = ty" "tlv_type (tlv_pack ty p) = ty"
  by (simp_all add: tlv_make_def tlv_string_def tlv_stream_def tlv_pack_def set_value_string_def
      set_value_stream_def set_value_pack_def Let_def)

lemma item_of_stream [codec_simps]: "item_of (tlv_stream ty b) = (ty, content b)"
  by (simp add: item_of_def tlv_value_def tlv_stream_def set_value_stream_def)

lemma tlv_wf_stream: "bs_wf b \<Longrightarrow> output_cursor b = 0 \<Longrightarrow> tlv_wf (tlv_stream ty b)"
  by (simp add: tlv_wf_def tlv_stream_def set_value_stream_def)

lemma reset_out_read:
  assumes "bs_wf s" and "output_cursor s = 0" and "content s \<noteq> []"
  shows "read_t s (length (content s)) = (content s, adv (length (content s)) s)"
    and "content (reset_out (adv (length (content s)) s)) = content s"
    and "bs_wf (reset_out (adv (length (content s)) s))"
    and "output_cursor (reset_out (adv (length (content s)) s)) = 0"
  using assms
  by (simp_all add: read_t_content bs_wf_reset_out bs_wf_adv)
    (simp_all add: reset_out_def content_def adv_def)

lemma reset_out_content:
  "output_cursor s = 0 \<Longrightarrow> content (reset_out (adv n s)) = content s"
  by (simp add: reset_out_def content_def adv_def)

lemma tlv_serialize_facts:
  assumes "bs_wf s" and "tlv_wf t" and "length (item_bytes (item_of t)) \<le> room s"
  shows "content (snd (tlv_serialize t s)) = content s @ item_bytes (item_of t) \<and>
     bs_wf (snd (tlv_serialize t s)) \<and>
     room (snd (tlv_serialize t s)) = room s - length (item_bytes (item_of t)) \<and>
     output_cursor (snd (tlv_serialize t s)) = output_cursor s \<and>
     item_of (fst (tlv_serialize t s)) = item_of t \<and> tlv_wf (fst (tlv_serialize t s))"
proof -
  define d where "d = content (value_stream t)"
  have vs: "bs_wf (value_stream t)" "output_cursor (value_stream t) = 0"
    using assms(2) by (auto simp: tlv_wf_def)
  have av: "available (value_stream t) = length d"
    using vs by (simp add: available_content d_def)
  define s1 where "s1 = bs_write s (mem_of 4 (tlv_type t))"
  define s2 where "s2 = bs_write s1 (mem_of 4 (word_of_nat (length d) :: u32w))"
  have len: "length d + 8 \<le> room s"
    using assms(3) by (simp add: item_of_def tlv_value_def d_def)
  have s1: "bs_wf s1" "content s1 = content s @ mem_of 4 (tlv_type t)" "room s1 = room s - 4"
    "output_cursor s1 = output_cursor s"
    using assms(1) len by (simp_all add: s1_def stream_simps)
  have s2: "bs_wf s2" "content s2 = content s1 @ mem_of 4 (word_of_nat (length d) :: u32w)"
    "room s2 = room s - 8" "output_cursor s2 = output_cursor s"
    using s1 len by (simp_all add: s2_def stream_simps)
  have eq: "tlv_serialize t s =
      (if d = [] then (t, s2)
       else (t\<lparr>value_stream := reset_out (snd (read_t (value_stream t) (length d)))\<rparr>,
             bs_write s2 (fst (read_t (value_stream t) (length d)))))"
    by (simp add: tlv_serialize_def av s1_def s2_def split_beta Let_def)
  have w: "item_bytes (item_of t) = mem_of 4 (tlv_type t) @ mem_of 4 (word_of_nat (length d) :: u32w) @ d"
    by (simp add: item_bytes_def item_of_def tlv_value_def d_def)
  show ?thesis
  proof (cases "d = []")
    case True
    then show ?thesis
      using assms s1 s2 by (simp add: eq w)
  next
    case False
    note r = reset_out_read [OF vs False [unfolded d_def], folded d_def]
    have "content (bs_write s2 d) = content s2 @ d" "bs_wf (bs_write s2 d)"
      "room (bs_write s2 d) = room s2 - length d" "output_cursor (bs_write s2 d) = output_cursor s2"
      using s2 len by (simp_all add: write_facts)
    then show ?thesis
      using s1 s2 False r len
      by (simp add: eq w) (simp add: item_of_def tlv_value_def tlv_wf_def d_def)
  qed
qed

lemma tlvs_serialize_facts:
  "bs_wf s \<Longrightarrow> (\<And>t. t \<in> set ts \<Longrightarrow> tlv_wf t) \<Longrightarrow> length (pack_bytes (map item_of ts)) \<le> room s \<Longrightarrow>
     content (snd (tlvs_serialize ts s)) = content s @ pack_bytes (map item_of ts) \<and>
     bs_wf (snd (tlvs_serialize ts s)) \<and>
     room (snd (tlvs_serialize ts s)) = room s - length (pack_bytes (map item_of ts)) \<and>
     output_cursor (snd (tlvs_serialize ts s)) = output_cursor s \<and>
     map item_of (fst (tlvs_serialize ts s)) = map item_of ts"
proof (induction ts arbitrary: s)
  case Nil
  then show ?case by simp
next
  case (Cons t ts)
  then have t: "tlv_wf t" "length (item_bytes (item_of t)) \<le> room s" by auto
  note f = tlv_serialize_facts [OF Cons.prems(1) t]
  show ?case
    using Cons.IH [of "snd (tlv_serialize t s)"] Cons.prems f
    by (simp add: split_beta Let_def)
qed

lemma tlvpack_serialize_facts:
  assumes "bs_wf s" and "pack_wf p" and "length (pack_bytes (items_of p)) \<le> room s"
  shows "content (snd (tlvpack_serialize p s)) = content s @ pack_bytes (items_of p)"
    and "bs_wf (snd (tlvpack_serialize p s))"
    and "room (snd (tlvpack_serialize p s)) = room s - length (pack_bytes (items_of p))"
    and "output_cursor (snd (tlvpack_serialize p s)) = output_cursor s"
    and "items_of (fst (tlvpack_serialize p s)) = items_of p"
  using tlvs_serialize_facts [OF assms(1), of "tlvlist p"] assms(2,3)
  by (simp_all add: tlvpack_serialize_def items_of_def pack_wf_def split_beta)

lemma item_of_pack [codec_simps]:
  assumes "pack_wf p" and "length (pack_bytes (items_of p)) \<le> 2 ^ 32 - 2"
  shows "item_of (tlv_pack ty p) = (ty, pack_bytes (items_of p))" and "tlv_wf (tlv_pack ty p)"
  using tlvpack_serialize_facts [of empty_stream p] assms
  by (simp_all add: tlv_pack_def set_value_pack_def tlv_new_def item_of_def tlv_value_def tlv_wf_def)

lemma items_of_simps [simp, codec_simps]:
  "items_of empty_pack = []"
  "items_of (push_child p t) = items_of p @ [item_of t]"
  by (simp_all add: items_of_def empty_pack_def push_child_def)

lemma pack_wf_simps [simp, codec_simps]:
  "pack_wf empty_pack"
  "pack_wf (push_child p t) \<longleftrightarrow> pack_wf p \<and> tlv_wf t"
  by (auto simp: pack_wf_def empty_pack_def push_child_def)

subsection \<open>Reading the fields of an unserialized pack\<close>

lemma get_item_pack_of [codec_simps]:
  "get_item (pack_of is) ty = map_option (\<lambda>d. tlv_make (ty, d)) (map_of is ty)"
proof -
  have "find (\<lambda>x. tlv_type x = ty) (map tlv_make is) = map_option (\<lambda>d. tlv_make (ty, d)) (map_of is ty)"
    by (induction "is") auto
  then show ?thesis by (simp add: get_item_def pack_of_def)
qed

lemma tlv_make_stream:
  assumes "length d \<le> 2 ^ 32 - 2"
  shows "bs_wf (value_stream (tlv_make (ty, d)))" "content (value_stream (tlv_make (ty, d))) = d"
    "available (value_stream (tlv_make (ty, d))) = length d"
    "output_cursor (value_stream (tlv_make (ty, d))) = 0"
  using tlv_wf_make [of "(ty, d)"] item_of_tlv_make [of "(ty, d)"] assms
  by (simp_all add: tlv_wf_def item_of_def tlv_value_def available_content)

lemma get_scalar_make [codec_simps]:
  "length d \<le> 2 ^ 32 - 2 \<Longrightarrow> 0 < n \<Longrightarrow>
     fst (get_scalar n (tlv_make (ty, d))) = (if length d < n then replicate n 0 else take n d)"
  using tlv_make_stream [of d ty] by (simp add: get_scalar_def read_t_content)

lemma get_string_make [codec_simps]:
  "length d \<le> 2 ^ 32 - 2 \<Longrightarrow>
     fst (get_string v (tlv_make (ty, d))) = (if d = [] then v else d)"
  using tlv_make_stream [of d ty] by (simp add: get_string_def read_content Let_def)

lemma get_pack_make [codec_simps]:
  "length d \<le> 2 ^ 32 - 2 \<Longrightarrow>
     fst (get_pack (tlv_make (ty, d))) = pack_of (fst (decode_all dec_item d))"
  using tlvpack_unserialize_content [of "value_stream (tlv_make (ty, d))" empty_pack]
    tlv_make_stream [of d ty]
  by (auto simp: get_pack_def pack_of_def empty_pack_def)

lemma get_stream_make [codec_simps]:
  assumes "length d \<le> 2 ^ 32 - 2"
  shows "content (get_stream (tlv_make (ty, d))) = d" "bs_wf (get_stream (tlv_make (ty, d)))"
  using tlv_make_stream [of d ty] assms by (simp_all add: get_stream_def)

text \<open>Reading a value does not change what the field holds.\<close>

lemma item_of_get_scalar:
  assumes "tlv_wf t" and "0 < n"
  shows "item_of (snd (get_scalar n t)) = item_of t"
proof (cases "available (value_stream t) < n")
  case True
  then show ?thesis by (simp add: get_scalar_def)
next
  case False
  then show ?thesis
    using assms
    by (simp add: get_scalar_def tlv_wf_def item_of_def tlv_value_def read_t_content
        available_content reset_out_content)
qed

lemma pack_items_ok:
  "length (pack_bytes is) \<le> 2 ^ 32 - 2 \<Longrightarrow> i \<in> set is \<Longrightarrow> length (snd i) \<le> 2 ^ 32 - 2"
  by (induction "is") auto

lemma decode_pack_bytes:
  assumes "length (pack_bytes is) \<le> 2 ^ 32 - 2"
  shows "decode_all dec_item (pack_bytes is) = (is, True)"
proof -
  have "item_ok i" if "i \<in> set is" for i
    using pack_items_ok [OF assms that] by (simp add: item_ok_def)
  then show ?thesis
    unfolding pack_bytes_def by (rule item.decode_all_concat)
qed

lemma tlvpack_unserialize_pack_bytes:
  assumes "bs_wf s" and "content s = pack_bytes is" and "length (pack_bytes is) \<le> 2 ^ 32 - 2"
  shows "\<exists>s'. tlvpack_unserialize empty_pack s = (True, pack_of is, s') \<and> bs_wf s' \<and> content s' = []"
  using tlvpack_unserialize_content [OF assms(1), of empty_pack]
  by (simp add: assms(2) decode_pack_bytes [OF assms(3)] pack_of_def empty_pack_def)

subsection \<open>Iteration\<close>

primrec iterate_next :: "nat \<Rightarrow> tlvpack \<Rightarrow> tlv option \<times> tlvpack" where
  "iterate_next 0 p = get_first p"
| "iterate_next (Suc k) p = get_next (snd (iterate_next k p))"

lemma iterate_next_state:
  "tlvlist p \<noteq> [] \<Longrightarrow> snd (iterate_next k p) = p\<lparr>cursor := min k (length (tlvlist p))\<rparr>"
  by (induction k) (auto simp: get_first_def get_next_def Let_def min_def)

lemma iterate_next_nth:
  "fst (iterate_next k p) = (if k < length (tlvlist p) then Some (tlvlist p ! k) else None)"
proof (cases "tlvlist p = []")
  case True
  have "iterate_next k p = (None, p)"
    by (induction k) (auto simp: True get_first_def get_next_def)
  then show ?thesis by (simp add: True)
next
  case False
  then show ?thesis
    by (cases k) (auto simp: get_first_def get_next_def Let_def iterate_next_state min_def)
qed

end
