(* ===== verification/Archive_Index.thy ===== *)
theory Archive_Index
  imports Message_Header Tlv
begin

section \<open>The index of an archive: core/archive/archive_index\<close>

text \<open>
  The index maps the identifier of every known message to its header and is kept in a block
  file: each update appends a block of headers, a rewrite (\<open>save_all\<close>) writes all of them, and
  loading replays the file through the same merge as the updates. \<open>headers_index\<close> is the
  \<open>std::map<int64_t, message_header>\<close>; notifications to the core are recorded in \<open>notified\<close>.
  The time of the insertions and the environment of the file are arguments.
\<close>

subsection \<open>State\<close>

record archive_index =
  ai_last_error :: archive_error
  headers_index :: "(int \<times> message_header) list"
  ai_storage :: storage
  outgoing_count :: int
  loaded_from_local :: bool
  merged_count :: int
  notified :: "int list"

record archive_hole =
  hole_from :: int
  hole_to :: int
  hole_depth :: int

definition hole_new :: archive_hole where
  "hole_new = \<lparr>hole_from = -1, hole_to = -1, hole_depth = 0\<rparr>"

definition archive_index_new :: archive_index where
  "archive_index_new = \<lparr>ai_last_error = ok, headers_index = [], ai_storage = storage_new,
     outgoing_count = 0, loaded_from_local = False, merged_count = 0, notified = []\<rparr>"

definition outgoing_count_time_span :: int where
  "outgoing_count_time_span = 24 * 21 * 3600"

definition max_index_size :: nat where
  "max_index_size = 25000"

definition index_size_need_optimize :: nat where
  "index_size_need_optimize = 30000"

definition history_block_size :: nat where
  "history_block_size = 1000"

definition at_header :: u32w where
  "at_header = 1"

definition skip_patches_forward :: "(int \<times> message_header) list \<Rightarrow> (int \<times> message_header) list" where
  "skip_patches_forward = dropWhile (\<lambda>e. is_patch (snd e))"

subsection \<open>Lookup and insertion\<close>

definition get_header :: "archive_index \<Rightarrow> int \<Rightarrow> message_header option" where
  "get_header ai msgid = map_find (headers_index ai) msgid"

definition has_header :: "archive_index \<Rightarrow> int \<Rightarrow> bool" where
  "has_header ai msgid \<longleftrightarrow> map_find (headers_index ai) msgid \<noteq> None"

definition get_outgoing_count :: "archive_index \<Rightarrow> int" where
  "get_outgoing_count ai = (if \<not> loaded_from_local ai then -1 else outgoing_count ai)"

definition notify_core_outgoing_msg_count :: "archive_index \<Rightarrow> archive_index" where
  "notify_core_outgoing_msg_count ai = ai\<lparr>notified := notified ai @ [get_outgoing_count ai]\<rparr>"

text \<open>The header is passed by reference: the caller's copy afterwards comes first.\<close>

definition insert_header :: "int \<Rightarrow> message_header \<Rightarrow> archive_index \<Rightarrow> message_header \<times> archive_index" where
  "insert_header now h ai =
     (case map_find (headers_index ai) (get_id h) of
        None \<Rightarrow>
          (h, ai\<lparr>outgoing_count := outgoing_count ai +
                   (if is_outgoing h \<and> now - sint (htime (hdr h)) \<le> outgoing_count_time_span
                    then 1 else 0),
                 headers_index := map_emplace (get_id h) h (headers_index ai)\<rparr>)
      | Some existing \<Rightarrow>
          let e = merge_with existing h;
              h1 = (if \<not> is_deleted e \<and> \<not> is_modified e then e else h)
          in (h1, ai\<lparr>headers_index := map_put (get_id h) e (headers_index ai),
                 merged_count := merged_count ai +
                   (if \<not> (is_patch h1 \<and> is_modified h1) then 1 else 0)\<rparr>))"

primrec insert_headers :: "int \<Rightarrow> message_header list \<Rightarrow> archive_index \<Rightarrow> message_header list \<times> archive_index" where
  "insert_headers now [] ai = ([], ai)"
| "insert_headers now (h # hs) ai =
     (let (h1, ai1) = insert_header now h ai; (hs1, ai2) = insert_headers now hs ai1
      in (h1 # hs1, ai2))"

definition insert_block :: "int \<Rightarrow> message_header list \<Rightarrow> archive_index \<Rightarrow> message_header list \<times> archive_index" where
  "insert_block now hs ai =
     (let prev = get_outgoing_count ai;
          (hs1, ai1) = insert_headers now hs ai
      in (hs1, if get_outgoing_count ai1 \<noteq> prev then notify_core_outgoing_msg_count ai1 else ai1))"

subsection \<open>Serialization of a block of headers\<close>

primrec push_headers :: "message_header list \<Rightarrow> binary_stream \<Rightarrow> tlvpack \<Rightarrow> tlvpack" where
  "push_headers [] header_data p = p"
| "push_headers (h # hs) header_data p =
     (let d = header_serialize (hdr h) (reset header_data)
      in push_headers hs d (push_child p (tlv_stream at_header d)))"

definition serialize_block :: "message_header list \<Rightarrow> binary_stream \<Rightarrow> binary_stream" where
  "serialize_block hs data =
     snd (tlvpack_serialize (push_headers hs empty_stream empty_pack) data)"

lemma available_read_bool [simp]: "available (snd (read_bool s)) \<le> available s"
  by (auto simp: read_bool_def read_t_def bs_read_def available_adv apfst_def map_prod_def split_beta
      split: option.splits)

lemma available_read_t_le [simp]: "available (snd (read_t s n)) \<le> available s"
  by (auto simp: read_t_def bs_read_def available_adv split: option.splits)

lemma available_reads_le [simp]:
  "available (snd (read_u8 s)) \<le> available s"
  "available (snd (read_u32 s)) \<le> available s"
  "available (snd (read_u64 s)) \<le> available s"
  by (simp_all add: read_u8_def read_u32_def read_u64_def)

lemma available_reads_le':
  "read_u8 s = (b, s') \<Longrightarrow> available s' \<le> available s"
  "read_u32 s = (x, s') \<Longrightarrow> available s' \<le> available s"
  "read_u64 s = (y, s') \<Longrightarrow> available s' \<le> available s"
  "read_bool s = (c, s') \<Longrightarrow> available s' \<le> available s"
  "read_t s n = (d, s') \<Longrightarrow> available s' \<le> available s"
  using available_reads_le [of s] available_read_bool [of s] available_read_t_le [of s n] by auto

lemma available_header_unserialize:
  "available (snd (snd (header_unserialize h s))) \<le> available s"
  by (auto simp: header_unserialize_def Let_def split: prod.splits if_splits
      dest!: available_reads_le')

lemma available_read_u32: "4 \<le> available s \<Longrightarrow> available (snd (read_u32 s)) = available s - 4"
  by (simp add: read_u32_def available_read_t)

function unserialize_block ::
    "int \<Rightarrow> archive_index \<Rightarrow> binary_stream \<Rightarrow> bool \<times> archive_index \<times> binary_stream" where
  "unserialize_block now ai data =
     (let avail = available data
      in if avail = 0 then (True, ai, data)
         else if avail < 4 * 2 then (False, ai, data)
         else
           let (ty, s1) = read_u32 data; (len, s2) = read_u32 s1
           in if avail < unat len then (False, ai, s2)
              else
                let (parsed, h, s3) = header_unserialize header_fields_new s2
                in if \<not> parsed then (False, ai, s3)
                   else unserialize_block now (snd (insert_header now (Message_Header h []) ai)) s3)"
  by pat_completeness auto
termination
proof (relation "measure (\<lambda>(now, ai, data). available data)", goal_cases)
  case (2 now ai data avail x ty s1 y len s2 z parsed r h s3)
  have eqs: "s1 = snd (read_u32 data)" "s2 = snd (read_u32 s1)"
    "s3 = snd (snd (header_unserialize header_fields_new s2))"
    using 2(4-7,9-11) by (metis snd_conv)+
  have "4 \<le> available data" "0 < available data"
    using 2(1,2,3) by auto
  then have "available s1 < available data"
    using available_read_u32 [of data] by (simp add: eqs(1))
  moreover have "available s2 \<le> available s1"
    unfolding eqs(2) by simp
  moreover have "available s3 \<le> available s2"
    unfolding eqs(3) by (rule available_header_unserialize)
  ultimately show ?case by auto
qed simp

declare unserialize_block.simps [simp del]

subsection \<open>Saving and loading\<close>

definition save_block :: "fs_env \<Rightarrow> message_header list \<Rightarrow> archive_index \<Rightarrow> result_type \<times> archive_index" where
  "save_block env hs ai =
     (case storage_open env append_mode (ai_storage ai) of
        (False, st) \<Rightarrow> (\<lparr>result = False, error_code = 0\<rparr>, ai\<lparr>ai_storage := st\<rparr>)
      | (True, st) \<Rightarrow>
          let (r, _, st1, _) = write_data_block env st (serialize_block hs empty_stream) 0
          in (r, ai\<lparr>ai_storage := storage_close st1\<rparr>))"

text \<open>The headers written for an entry: itself and, when it is modified, its modifications.\<close>

definition entry_headers :: "message_header \<Rightarrow> message_header list" where
  "entry_headers h = h # (if is_modified h then get_modifications h else [])"

primrec save_entries ::
    "fs_env \<Rightarrow> (int \<times> message_header) list \<Rightarrow> message_header list \<Rightarrow> binary_stream \<Rightarrow> storage \<Rightarrow>
      bool \<times> storage" where
  "save_entries env [] headers block_data st = (True, st)"
| "save_entries env (e # es) headers block_data st =
     (let headers1 = headers @ entry_headers (snd e)
      in if history_block_size \<le> length headers1 \<or> es = [] then
           let d = serialize_block headers1 block_data;
               (r, _, st1, d1) = write_data_block env st d 0
           in if \<not> result r then (False, st1) else save_entries env es [] (reset d1) st1
         else save_entries env es headers1 block_data st)"

definition save_all :: "fs_env \<Rightarrow> archive_index \<Rightarrow> bool \<times> archive_index" where
  "save_all env ai =
     (case storage_open env truncate_mode (ai_storage ai) of
        (False, st) \<Rightarrow> (False, ai\<lparr>ai_storage := st\<rparr>)
      | (True, st) \<Rightarrow>
          if headers_index ai = [] then (True, ai\<lparr>ai_storage := storage_close st\<rparr>)
          else let (b, st1) = save_entries env (headers_index ai) [] empty_stream st
               in (b, ai\<lparr>ai_storage := storage_close st1\<rparr>))"

text \<open>A loop step of the load: the block is parsed into the index.\<close>

definition load_step :: "int \<Rightarrow> binary_stream \<Rightarrow> archive_index \<Rightarrow> bool \<times> archive_index" where
  "load_step now data ai = (let (b, ai1, _) = unserialize_block now ai data in (b, ai1))"

definition load_from_local :: "fs_env \<Rightarrow> int \<Rightarrow> archive_index \<Rightarrow> bool \<times> archive_index" where
  "load_from_local env now ai0 =
     (let ai = ai0\<lparr>ai_last_error := ok\<rparr>
      in case storage_open env read_mode (ai_storage ai) of
           (False, st) \<Rightarrow> (False, ai\<lparr>ai_storage := st, ai_last_error := last_error st\<rparr>)
         | (True, st) \<Rightarrow>
             let tmp_headers = headers_index ai;
                 ai1 = ai\<lparr>headers_index := [], outgoing_count := 0, merged_count := 0\<rparr>;
                 (parsed, st1, ai2) = read_loop (load_step now) st empty_stream ai1;
                 ai3 = (snd (insert_headers now (map snd tmp_headers) ai2))\<lparr>ai_storage := storage_close st1\<rparr>
             in if \<not> parsed then (False, ai3\<lparr>ai_last_error := parse_headers\<rparr>)
                else if last_error st1 \<noteq> end_of_file
                then (False, ai3\<lparr>ai_last_error := last_error st1\<rparr>)
                else (True, notify_core_outgoing_msg_count (ai3\<lparr>loaded_from_local := True\<rparr>)))"

text \<open>
  What the update takes of a message: flags, time, identifier, previous identifier, place of
  the data, patch version, and whether it has a contact with an identifier.
\<close>

type_synonym index_entry = "message_flags \<times> u64w \<times> i64w \<times> i64w \<times> i64w \<times> u32w \<times> patch_version \<times> bool"

definition header_of_entry :: "index_entry \<Rightarrow> message_header" where
  "header_of_entry e = (case e of (fl, tm, i, prev, off, sz, v, sn) \<Rightarrow>
     message_header_make fl tm i prev off sz v sn)"

definition index_update ::
    "fs_env \<Rightarrow> int \<Rightarrow> index_entry list \<Rightarrow> archive_index \<Rightarrow>
      result_type \<times> message_header list \<times> archive_index" where
  "index_update env now data ai =
     (let headers = map header_of_entry data;
          (headers1, ai1) = insert_block now headers ai;
          (r, ai2) = save_block env headers1 ai1
      in (r, headers1, ai2))"

subsection \<open>Reading a range of headers\<close>

fun collect_early ::
    "int \<Rightarrow> nat \<Rightarrow> (int \<times> message_header) list \<Rightarrow> message_header list \<Rightarrow> message_header list" where
  "collect_early count not_deleted [] acc = acc"
| "collect_early count not_deleted (e # es) acc =
     (if is_patch (snd e) then collect_early count not_deleted es acc
      else if count \<le> int not_deleted then acc
      else collect_early count (if \<not> is_deleted (snd e) then not_deleted + 1 else not_deleted) es
        (snd e # acc))"

fun collect_later ::
    "int \<Rightarrow> nat \<Rightarrow> (int \<times> message_header) list \<Rightarrow> message_header list \<Rightarrow> message_header list" where
  "collect_later count not_deleted [] acc = acc"
| "collect_later count not_deleted (e # es) acc =
     (if is_patch (snd e) \<or> is_deleted (snd e) then collect_later count not_deleted es acc
      else
        let n = (if \<not> is_deleted (snd e) then not_deleted + 1 else not_deleted);
            acc1 = acc @ [snd e]
        in if count \<le> int n then acc1 else collect_later count n es acc1)"

definition serialize_from ::
    "archive_index \<Rightarrow> int \<Rightarrow> int \<Rightarrow> int \<Rightarrow> message_header list \<Rightarrow> bool \<Rightarrow> bool \<times> message_header list" where
  "serialize_from ai from count_early count_later lst include_from =
     (let idx = headers_index ai
      in if idx = [] then (True, lst)
         else if from \<noteq> -1 \<and> from_lb from idx = [] then (False, lst)
         else
           let earlier = (if from \<noteq> -1 then before_lb from idx else idx);
               later = (if from \<noteq> -1 then from_lb from idx else []);
               before_iter = (if include_from \<and> count_later \<le> 0 \<and> later \<noteq> []
                              then earlier @ [hd later] else earlier);
               lst1 = (if count_early > 0 then collect_early count_early 0 (rev before_iter) lst else lst);
               lst2 = (if count_later > 0 then collect_later count_later 0 later lst1 else lst1)
           in (True, lst2))"

subsection \<open>Removing headers\<close>

definition drop_header :: "int \<Rightarrow> archive_index \<Rightarrow> archive_index" where
  "drop_header msgid ai = ai\<lparr>headers_index := map_erase msgid (headers_index ai)\<rparr>"

definition delete_up_to :: "fs_env \<Rightarrow> int \<Rightarrow> archive_index \<Rightarrow> archive_index" where
  "delete_up_to env to ai =
     (let idx = headers_index ai; iter = from_lb to idx
      in case iter of
           [] \<Rightarrow> snd (save_all env (ai\<lparr>headers_index := []\<rparr>))
         | (k, h) # after \<Rightarrow>
             if get_id h = to then
               let after1 = (case after of
                     [] \<Rightarrow> []
                   | (k1, h1) # rest \<Rightarrow>
                       (k1, if get_prev_msgid h1 = to then set_prev_msgid (-1) h1 else h1) # rest)
               in snd (save_all env (ai\<lparr>headers_index := after1\<rparr>))
             else if before_lb to idx \<noteq> [] then snd (save_all env (ai\<lparr>headers_index := iter\<rparr>))
             else ai)"

definition get_last_msgid :: "archive_index \<Rightarrow> int" where
  "get_last_msgid ai = (if headers_index ai = [] then -1 else fst (last (headers_index ai)))"

definition get_first_msgid :: "archive_index \<Rightarrow> int" where
  "get_first_msgid ai = (if headers_index ai = [] then -1 else fst (hd (headers_index ai)))"

definition index_free :: "archive_index \<Rightarrow> archive_index" where
  "index_free ai = ai\<lparr>headers_index := [], loaded_from_local := False, merged_count := 0\<rparr>"

definition need_optimize :: "archive_index \<Rightarrow> bool" where
  "need_optimize ai \<longleftrightarrow>
     index_size_need_optimize < length (headers_index ai) \<or>
     (loaded_from_local ai \<and> headers_index ai \<noteq> [] \<and>
       int (length (headers_index ai)) \<le> 10 * merged_count ai)"

definition index_optimize :: "fs_env \<Rightarrow> archive_index \<Rightarrow> archive_index" where
  "index_optimize env ai =
     (if \<not> need_optimize ai then ai
      else
        let idx = headers_index ai;
            to_remove = int (length idx) - int max_index_size;
            idx1 = (if to_remove > 0 then
                      (case drop (nat to_remove) idx of
                         [] \<Rightarrow> []
                       | (k, h) # rest \<Rightarrow> (k, set_prev_msgid (-1) h) # rest)
                    else idx)
        in snd (save_all env (ai\<lparr>headers_index := idx1, merged_count := 0\<rparr>)))"

subsection \<open>Holes\<close>

function hole_scan ::
    "int \<Rightarrow> int \<Rightarrow> (int \<times> message_header) list \<Rightarrow> archive_hole \<Rightarrow> bool \<times> archive_hole" where
  "hole_scan depth current_depth [] hole = (False, hole)"
| "hole_scan depth current_depth (e # es) hole =
     (let current = snd e; d = current_depth + 1; iter_next = skip_patches_forward es
      in case iter_next of
           [] \<Rightarrow> if get_prev_msgid current \<noteq> -1 then (True, hole\<lparr>hole_from := get_id current\<rparr>)
                 else (False, hole)
         | p # _ \<Rightarrow>
             if get_prev_msgid current \<noteq> get_id (snd p)
             then (True, hole\<lparr>hole_from := get_id current, hole_to := get_id (snd p), hole_depth := d\<rparr>)
             else if depth \<noteq> -1 \<and> depth \<le> d then (False, hole)
             else hole_scan depth d iter_next hole)"
  by pat_completeness auto
termination
proof (relation "measure (\<lambda>(depth, d, es, hole). length es)", goal_cases)
  case (2 depth cd e es hole x d xa x21 x22)
  then have "length xa \<le> length es"
    by (simp add: skip_patches_forward_def length_dropWhile_le)
  then show ?case by simp
qed simp

declare hole_scan.simps(2) [simp del]

definition get_next_hole :: "archive_index \<Rightarrow> int \<Rightarrow> archive_hole \<Rightarrow> int \<Rightarrow> bool \<times> archive_hole" where
  "get_next_hole ai from hole depth =
     (let idx = headers_index ai
      in if idx = [] then (True, hole)
         else if from \<noteq> -1 \<and> fst (last idx) < from
         then (True, hole\<lparr>hole_from := -1, hole_to := fst (last idx)\<rparr>)
         else if from \<noteq> -1 \<and> map_find idx from = None then (False, hole)
         else
           let iter_cursor = skip_patches_forward
                 (rev (if from \<noteq> -1 then takeWhile (\<lambda>e. fst e \<le> from) idx else idx))
           in if iter_cursor = [] then (True, hole) else hole_scan depth 0 iter_cursor hole)"

definition get_messages_for_update :: "archive_index \<Rightarrow> int list" where
  "get_messages_for_update ai =
     map fst (filter (\<lambda>e. is_updated_message (snd e)) (headers_index ai))"

definition validate_hole_request :: "archive_index \<Rightarrow> archive_hole \<Rightarrow> int \<Rightarrow> int" where
  "validate_hole_request ai hole count =
     (let ret_from = hole_from hole; idx = headers_index ai
      in if hole_from hole \<le> 0 \<or> hole_to hole \<le> 0 \<or> \<bar>count\<bar> \<le> 1 then ret_from
         else if map_find idx (hole_from hole) = None then ret_from
         else
           (case rev (takeWhile (\<lambda>e. fst e \<le> hole_from hole) idx) of
              [] \<Rightarrow> ret_from
            | cur # older \<Rightarrow>
                if is_patch (snd cur) then ret_from
                else
                  (case skip_patches_forward older of
                     [] \<Rightarrow> ret_from
                   | prev # _ \<Rightarrow>
                       if fst prev \<noteq> get_prev_msgid (snd cur) then fst prev else ret_from)))"

subsection \<open>Filtering and invalidation\<close>

definition filter_deleted :: "archive_index \<Rightarrow> int list \<Rightarrow> int list" where
  "filter_deleted ai ids =
     filter (\<lambda>i. case map_find (headers_index ai) i of
         Some h \<Rightarrow> \<not> (is_patch h \<or> is_deleted h \<or> is_modified h)
       | None \<Rightarrow> False) ids"

definition invalidate_message_data :: "int \<Rightarrow> bool \<Rightarrow> archive_index \<Rightarrow> archive_index" where
  "invalidate_message_data msgid mark_as_updated ai =
     (case map_find (headers_index ai) msgid of
        None \<Rightarrow> ai
      | Some h \<Rightarrow>
          let h1 = invalidate_data_offset h;
              h2 = (if mark_as_updated \<and> \<not> is_patch h1 then set_updated True h1 else h1)
          in ai\<lparr>headers_index := map_put msgid h2 (headers_index ai)\<rparr>)"

fun invalidate_n :: "int \<Rightarrow> (int \<times> message_header) list \<Rightarrow> (int \<times> message_header) list" where
  "invalidate_n n [] = []"
| "invalidate_n n (e # es) =
     (if is_patch (snd e) then e # invalidate_n n es
      else if n \<le> 0 then e # es
      else (fst e, invalidate_data_offset (snd e)) # invalidate_n (n - 1) es)"

definition invalidate_message_range :: "int \<Rightarrow> int \<Rightarrow> int \<Rightarrow> archive_index \<Rightarrow> archive_index" where
  "invalidate_message_range from before_count after_count ai =
     (let idx = headers_index ai; later = from_lb from idx
      in if later = [] then ai
         else
           let k = length (before_lb from idx) + (if after_count \<le> 0 then 1 else 0);
               idx1 = (if before_count > 0
                       then rev (invalidate_n before_count (rev (take k idx))) @ drop k idx else idx);
               m = length (before_lb from idx);
               idx2 = (if after_count > 0
                       then take m idx1 @ invalidate_n after_count (drop m idx1) else idx1)
           in ai\<lparr>headers_index := idx2\<rparr>)"

subsection \<open>Insertions refine merges into a map\<close>

definition index_wf :: "archive_index \<Rightarrow> bool" where
  "index_wf ai \<longleftrightarrow> ordered (headers_index ai) \<and>
     (\<forall>e \<in> set (headers_index ai). get_id (snd e) = fst e \<and> 0 < fst e)"

definition index_insert ::
    "message_header \<Rightarrow> (int \<times> message_header) list \<Rightarrow> (int \<times> message_header) list" where
  "index_insert h m =
     (case map_find m (get_id h) of
        None \<Rightarrow> map_emplace (get_id h) h m
      | Some e \<Rightarrow> map_put (get_id h) (merge_with e h) m)"

lemma headers_index_insert_header [simp]:
  "headers_index (snd (insert_header now h ai)) = index_insert h (headers_index ai)"
  by (simp add: insert_header_def index_insert_def Let_def split: option.split)

lemma insert_header_same_fields [simp]:
  "ai_storage (snd (insert_header now h ai)) = ai_storage ai"
  "loaded_from_local (snd (insert_header now h ai)) = loaded_from_local ai"
  "ai_last_error (snd (insert_header now h ai)) = ai_last_error ai"
  "notified (snd (insert_header now h ai)) = notified ai"
  by (simp_all add: insert_header_def Let_def split: option.split)

lemma headers_index_insert_headers [simp]:
  "headers_index (snd (insert_headers now hs ai)) = fold index_insert hs (headers_index ai)"
  by (induction hs arbitrary: ai) (simp_all add: Let_def split_beta)

lemma insert_headers_same_fields [simp]:
  "ai_storage (snd (insert_headers now hs ai)) = ai_storage ai"
  "loaded_from_local (snd (insert_headers now hs ai)) = loaded_from_local ai"
  "ai_last_error (snd (insert_headers now hs ai)) = ai_last_error ai"
  "notified (snd (insert_headers now hs ai)) = notified ai"
  by (induction hs arbitrary: ai) (simp_all add: Let_def split_beta)

lemma headers_index_insert_block [simp]:
  "headers_index (snd (insert_block now hs ai)) = fold index_insert hs (headers_index ai)"
  by (simp add: insert_block_def notify_core_outgoing_msg_count_def Let_def split_beta)

lemma ordered_index_insert: "ordered m \<Longrightarrow> ordered (index_insert h m)"
  by (simp add: index_insert_def smap.inv_emplace smap.inv_put split: option.split)

lemma find_index_insert:
  "ordered m \<Longrightarrow> map_find (index_insert h m) = (map_find m)(get_id h :=
     Some (case map_find m (get_id h) of None \<Rightarrow> h | Some e \<Rightarrow> merge_with e h))"
  by (auto simp: index_insert_def smap.find_after_emplace smap.find_after_put split: option.split)

lemma keys_index_insert: "fst ` set (index_insert h m) = insert (get_id h) (fst ` set m)"
  by (simp add: index_insert_def split: option.split)

lemma ordered_fold_index_insert: "ordered m \<Longrightarrow> ordered (fold index_insert hs m)"
  by (induction hs arbitrary: m) (simp_all add: ordered_index_insert)

text \<open>The headers of a message, in order, merged into the one that is known, if any.\<close>

definition merged :: "message_header option \<Rightarrow> message_header list \<Rightarrow> message_header option" where
  "merged e hs = (case e of
     Some e \<Rightarrow> Some (merge_all e hs)
   | None \<Rightarrow> (case hs of [] \<Rightarrow> None | h # rs \<Rightarrow> Some (merge_all h rs)))"

lemma merged_Cons: "merged e (h # hs) =
    merged (Some (case e of None \<Rightarrow> h | Some e \<Rightarrow> merge_with e h)) hs"
  by (simp add: merged_def split: option.split)

lemma merged_Nil [simp]: "merged e [] = e"
  by (simp add: merged_def split: option.split)

lemma find_fold_index_insert:
  "ordered m \<Longrightarrow> map_find (fold index_insert hs m) k =
     merged (map_find m k) (filter (\<lambda>h. get_id h = k) hs)"
  by (induction hs arbitrary: m) (simp_all add: ordered_index_insert find_index_insert merged_Cons)

lemma get_id_index_insert:
  assumes "ordered m" and "\<forall>e \<in> set m. get_id (snd e) = fst e \<and> 0 < fst e" and "0 < get_id h"
  shows "\<forall>e \<in> set (index_insert h m). get_id (snd e) = fst e \<and> 0 < fst e"
proof
  fix e assume e: "e \<in> set (index_insert h m)"
  have o: "ordered (index_insert h m)" by (rule ordered_index_insert [OF assms(1)])
  have f: "map_find (index_insert h m) (fst e) = Some (snd e)"
    using e by (simp add: map_find_Some_iff [OF o])
  show "get_id (snd e) = fst e \<and> 0 < fst e"
  proof (cases "fst e = get_id h")
    case True
    have "get_id (snd e) = get_id h"
    proof (cases "map_find m (get_id h)")
      case None
      then show ?thesis using f True by (simp add: find_index_insert [OF assms(1)])
    next
      case (Some w)
      then have "get_id w = get_id h"
        using assms(2) map_find_Some_iff [OF assms(1)] by auto
      moreover have "snd e = merge_with w h"
        using f True Some by (simp add: find_index_insert [OF assms(1)])
      ultimately show ?thesis by simp
    qed
    then show ?thesis using True assms(3) by simp
  next
    case False
    then have "map_find m (fst e) = Some (snd e)"
      using f by (simp add: find_index_insert [OF assms(1)])
    then have "(fst e, snd e) \<in> set m" by (simp add: map_find_Some_iff [OF assms(1)])
    then show ?thesis using assms(2) by auto
  qed
qed

lemma index_wf_fold:
  "ordered m \<Longrightarrow> \<forall>e \<in> set m. get_id (snd e) = fst e \<and> 0 < fst e \<Longrightarrow>
     \<forall>h \<in> set hs. 0 < get_id h \<Longrightarrow>
     ordered (fold index_insert hs m) \<and>
     (\<forall>e \<in> set (fold index_insert hs m). get_id (snd e) = fst e \<and> 0 < fst e)"
proof (induction hs arbitrary: m)
  case (Cons h hs)
  have h: "0 < get_id h" and hs: "\<forall>h \<in> set hs. 0 < get_id h" using Cons.prems(3) by simp_all
  show ?case
    unfolding fold.simps o_apply
    by (rule Cons.IH [OF ordered_index_insert [OF Cons.prems(1)]
          get_id_index_insert [OF Cons.prems(1,2) h] hs])
qed simp

lemma index_wf_insert_block:
  "index_wf ai \<Longrightarrow> (\<forall>h \<in> set hs. 0 < get_id h) \<Longrightarrow> index_wf (snd (insert_block now hs ai))"
  using index_wf_fold [of "headers_index ai" hs] by (simp add: index_wf_def)

text \<open>An ordered map is determined by its lookups.\<close>

lemma ordered_find_inject:
  fixes m :: "('k::linorder \<times> 'v) list"
  assumes "ordered m" "ordered n" "map_find m = map_find n"
  shows "m = n"
proof -
  have "set m = set n"
    using assms map_find_Some_iff [of m] map_find_Some_iff [of n] by (auto simp: fun_eq_iff)
  moreover have "sorted (map fst m)" "distinct (map fst m)" "sorted (map fst n)" "distinct (map fst n)"
    using assms(1,2) by (simp_all add: ordered_def strict_sorted_iff)
  moreover have "inj_on fst (set m \<union> set n)"
    using calculation by (simp add: distinct_map)
  ultimately show ?thesis
    using map_sorted_distinct_set_unique [of fst m n] by simp
qed

lemma index_insert_entries:
  assumes "ordered m" and "\<forall>e \<in> set m. get_id (snd e) = fst e"
  shows "fold index_insert (map snd m) [] = m"
proof (rule ordered_find_inject)
  show "ordered (fold index_insert (map snd m) [])" by (simp add: ordered_fold_index_insert)
  have flt: "filter (\<lambda>h. get_id h = k) (map snd m) =
      (case map_find m k of None \<Rightarrow> [] | Some h \<Rightarrow> [h])" for k
    using assms
  proof (induction m)
    case (Cons e m)
    show ?case
    proof (cases "fst e = k")
      case True
      then have "map_find m k = None"
        using Cons.prems map_find_None_if_below [of m k] by auto
      then show ?thesis
        using Cons True by (auto simp: map_find_def)
    next
      case False
      then show ?thesis using Cons by (cases e) (auto simp: map_find_def)
    qed
  qed (simp add: map_find_def)
  show "map_find (fold index_insert (map snd m) []) = map_find m"
  proof
    fix k
    show "map_find (fold index_insert (map snd m) []) k = map_find m k"
      unfolding find_fold_index_insert [OF ordered_Nil] flt
      by (simp add: merged_def map_find_def split: option.split)
  qed
qed (rule assms(1))

subsection \<open>Blocks of headers\<close>

definition header_item :: "message_header \<Rightarrow> item" where
  "header_item h = (at_header, header_bytes (hdr h))"

definition block_payload :: "message_header list \<Rightarrow> bytes" where
  "block_payload hs = pack_bytes (map header_item hs)"

lemma block_payload_simps [simp]:
  "block_payload [] = []"
  "block_payload (h # hs) = item_bytes (header_item h) @ block_payload hs"
  "block_payload (hs @ js) = block_payload hs @ block_payload js"
  by (simp_all add: block_payload_def)

lemma block_payload_eq_Nil [simp]: "block_payload hs = [] \<longleftrightarrow> hs = []"
  by (cases hs) (simp_all add: item_bytes_def)

lemma output_cursor_bs_write [simp]: "output_cursor (bs_write s d) = output_cursor s"
  by (simp add: bs_write_def put_at_def Let_def)

lemma output_cursor_header_serialize [simp]: "output_cursor (header_serialize h s) = output_cursor s"
  by (simp add: header_serialize_def Let_def)

lemma header_data_facts:
  assumes "header_ok (hdr h)" and "length (header_bytes (hdr h)) \<le> 2 ^ 32 - 2" and "bs_wf s"
  shows "content (header_serialize (hdr h) (reset s)) = header_bytes (hdr h)"
    and "bs_wf (header_serialize (hdr h) (reset s))"
    and "output_cursor (header_serialize (hdr h) (reset s)) = 0"
  using header_serialize_facts [of "reset s" "hdr h"] assms
  by (simp_all add: header_ok_def) (simp add: reset_def)

lemma push_headers_facts:
  "(\<forall>h \<in> set hs. header_ok (hdr h)) \<Longrightarrow> length (block_payload hs) \<le> 2 ^ 32 - 2 \<Longrightarrow>
     bs_wf s \<Longrightarrow> pack_wf p \<Longrightarrow>
     pack_wf (push_headers hs s p) \<and>
     items_of (push_headers hs s p) = items_of p @ map header_item hs"
proof (induction hs arbitrary: s p)
  case (Cons h hs)
  have len: "length (header_bytes (hdr h)) \<le> 2 ^ 32 - 2"
    using Cons.prems(2) by (simp add: header_item_def)
  have ok: "header_ok (hdr h)" using Cons.prems(1) by simp
  note d = header_data_facts [OF ok len Cons.prems(3)]
  have wf: "tlv_wf (tlv_stream at_header (header_serialize (hdr h) (reset s)))"
    using d by (simp add: tlv_wf_stream)
  show ?case
    using Cons.IH [OF _ _ d(2)] Cons.prems wf
    by (simp add: item_of_stream d(1) header_item_def Let_def)
qed simp

text \<open>A block written into a stream is the list of its headers, each as one field.\<close>

lemma serialize_block_facts:
  assumes "\<forall>h \<in> set hs. header_ok (hdr h)" and "length (block_payload hs) \<le> room s" and "bs_wf s"
  shows "content (serialize_block hs s) = content s @ block_payload hs"
    and "bs_wf (serialize_block hs s)"
    and "output_cursor (serialize_block hs s) = output_cursor s"
proof -
  have len: "length (block_payload hs) \<le> 2 ^ 32 - 2"
    using assms(2) by (simp add: room_def)
  note p = push_headers_facts [OF assms(1) len bs_wf_empty, of empty_pack]
  show "content (serialize_block hs s) = content s @ block_payload hs"
    "bs_wf (serialize_block hs s)" "output_cursor (serialize_block hs s) = output_cursor s"
    using tlvpack_serialize_facts [OF assms(3), of "push_headers hs empty_stream empty_pack"] p assms(2)
    by (simp_all add: serialize_block_def block_payload_def)
qed

text \<open>Reading a block back inserts its headers in order.\<close>

abbreviation bare :: "message_header \<Rightarrow> message_header" where
  "bare h \<equiv> Message_Header (hdr h) []"

lemma unserialize_block_payload:
  "(\<forall>h \<in> set hs. header_ok (hdr h)) \<Longrightarrow> bs_wf data \<Longrightarrow> content data = block_payload hs \<Longrightarrow>
     \<exists>data'. unserialize_block now ai data =
       (True, snd (insert_headers now (map bare hs) ai), data') \<and> bs_wf data'"
proof (induction hs arbitrary: ai data)
  case Nil
  then show ?case by (simp add: unserialize_block.simps [of now ai data] available_content)
next
  case (Cons h hs)
  have ok: "header_ok (hdr h)" using Cons.prems(1) by simp
  define n where "n = length (header_bytes (hdr h))"
  define r where "r = header_bytes (hdr h) @ block_payload hs"
  have c: "content data = mem_of 4 at_header @ mem_of 4 (word_of_nat n :: u32w) @ r"
    by (simp add: Cons.prems(3) header_item_def item_bytes_def n_def r_def)
  have len: "8 \<le> length (content data)" by (simp add: c)
  note hr = header_read [OF Cons.prems(2) len]
  define s2 where "s2 = adv 4 (adv 4 data)"
  have rd: "read_u32 data = (at_header, adv 4 data)"
    "read_u32 (adv 4 data) = (word_of_nat n, s2)"
    using hr(1,2) by (simp_all add: c codec_simps s2_def)
  have s2: "bs_wf s2" "content s2 = r"
    using hr(3,4) by (simp_all add: s2_def c)
  have "dec_header (content s2) = Some (hdr h, block_payload hs)"
    by (simp add: s2 r_def dec_header_header_bytes [OF ok])
  then obtain s3 where s3: "header_unserialize header_fields_new s2 = (True, hdr h, s3)"
    "bs_wf s3" "content s3 = block_payload hs"
    using header_unserialize_content [OF s2(1)] by auto
  have av: "available data = n + 8 + length (block_payload hs)"
    using Cons.prems(2) by (simp add: available_content c r_def n_def)
  have "unat (word_of_nat n :: u32w) \<le> n"
    by (simp add: unat_of_nat)
  then have nl: "\<not> available data < unat (word_of_nat n :: u32w)" using av by linarith
  have "\<not> available data < 8" "available data \<noteq> 0" using av by simp_all
  then have unf: "unserialize_block now ai data =
      unserialize_block now (snd (insert_header now (bare h) ai)) s3"
    using nl by (subst unserialize_block.simps) (simp add: rd s3(1) Let_def)
  show ?case
    using Cons.IH [OF _ s3(2,3), of "snd (insert_header now (bare h) ai)"] Cons.prems(1)
    by (simp add: unf split_beta Let_def)
qed

subsection \<open>Saving appends a block, loading replays the blocks\<close>

definition index_closed :: "fs_env \<Rightarrow> archive_index \<Rightarrow> bool" where
  "index_closed env ai \<longleftrightarrow> can_open env \<and> file_stream (ai_storage ai) = None"

definition headers_ok :: "message_header list \<Rightarrow> bool" where
  "headers_ok hs \<longleftrightarrow> (\<forall>h \<in> set hs. header_ok (hdr h)) \<and> length (block_payload hs) \<le> max_data_block_size"

lemma headers_okD:
  assumes "headers_ok hs"
  shows "\<forall>h \<in> set hs. header_ok (hdr h)" and "length (block_payload hs) \<le> room empty_stream"
    and "block_ok (block_payload hs)"
  using assms by (simp_all add: headers_ok_def block_ok_def max_data_block_size_def)

lemma block_stream:
  assumes "headers_ok hs"
  shows "bs_wf (serialize_block hs empty_stream)"
    and "content (serialize_block hs empty_stream) = block_payload hs"
  using serialize_block_facts [OF headers_okD(1,2) [OF assms] bs_wf_empty] by simp_all

lemma save_block_appends:
  assumes "index_closed env ai" and "headers_ok hs" and "hs \<noteq> []"
  shows "length (block_payload hs) + 16 \<le> free_space (ai_storage ai) \<Longrightarrow> result (fst (save_block env hs ai))"
    and "file_bytes (ai_storage (snd (save_block env hs ai))) =
      take (capacity (ai_storage ai)) (file_bytes (ai_storage ai) @ block_bytes (block_payload hs))"
    and "headers_index (snd (save_block env hs ai)) = headers_index ai"
    and "index_closed env (snd (save_block env hs ai))"
proof -
  have c: "can_open env" "file_stream (ai_storage ai) = None"
    using assms(1) by (simp_all add: index_closed_def)
  note o = open_append(1) [OF c]
  note d = block_stream [OF assms(2)]
  define st1 where "st1 = opened append_mode (file_bytes (ai_storage ai)) (ai_storage ai)"
  obtain r off st2 data where w: "write_data_block env st1 (serialize_block hs empty_stream) 0 =
      (r, off, st2, data)"
    by (cases "write_data_block env st1 (serialize_block hs empty_stream) 0")
  have ne: "content (serialize_block hs empty_stream) \<noteq> []"
    by (simp add: d assms(3))
  have sb: "save_block env hs ai = (r, ai\<lparr>ai_storage := storage_close st2\<rparr>)"
    by (simp add: save_block_def o w flip: st1_def)
  note a = append_block [OF c d(1) ne o w [unfolded st1_def]]
  show "length (block_payload hs) + 16 \<le> free_space (ai_storage ai) \<Longrightarrow> result (fst (save_block env hs ai))"
    "file_bytes (ai_storage (snd (save_block env hs ai))) =
      take (capacity (ai_storage ai)) (file_bytes (ai_storage ai) @ block_bytes (block_payload hs))"
    "headers_index (snd (save_block env hs ai)) = headers_index ai"
    "index_closed env (snd (save_block env hs ai))"
    using a c by (simp_all add: sb d index_closed_def)
qed

lemma load_step_payload:
  assumes "headers_ok hs" and "holds_block (block_payload hs) data"
  shows "load_step now data ai = (True, snd (insert_headers now (map bare hs) ai))"
  using unserialize_block_payload [OF headers_okD(1) [OF assms(1)], of data now ai] assms(2)
  by (auto simp: load_step_def holds_block_def)

lemma insert_headers_append:
  "snd (insert_headers now (hs @ js) ai) =
     snd (insert_headers now js (snd (insert_headers now hs ai)))"
  by (induction hs arbitrary: ai) (simp_all add: Let_def split_beta)

lemma run_blocks_payloads:
  "(\<forall>hs \<in> set hss. headers_ok hs) \<Longrightarrow>
     run_blocks (\<lambda>d. load_step now (bs_write empty_stream d)) (map block_payload hss) ai =
       (True, snd (insert_headers now (map bare (concat hss)) ai))"
proof (induction hss arbitrary: ai)
  case (Cons hs hss)
  have ok: "headers_ok hs" using Cons.prems by simp
  have "holds_block (block_payload hs) (bs_write empty_stream (block_payload hs))"
    using headers_okD(2) [OF ok] by (simp add: holds_block_def stream_simps)
  then show ?case
    using Cons by (simp add: load_step_payload [OF ok] insert_headers_append)
qed simp

definition index_file :: "message_header list list \<Rightarrow> bytes" where
  "index_file hss = concat (map (\<lambda>hs. block_bytes (block_payload hs)) hss)"

lemma load_replays:
  assumes "index_closed env ai" and "\<forall>hs \<in> set hss. headers_ok hs"
    and "file_data (ai_storage ai) = Some (index_file hss @ tail)" and "dec_block tail = None"
  shows "fst (load_from_local env now ai) \<longleftrightarrow> tail = []"
    and "headers_index (snd (load_from_local env now ai)) =
      fold index_insert (map bare (concat hss) @ map snd (headers_index ai)) []"
    and "loaded_from_local (snd (load_from_local env now ai)) \<longleftrightarrow> loaded_from_local ai \<or> tail = []"
    and "ai_last_error (snd (load_from_local env now ai)) = ok"
    and "file_bytes (ai_storage (snd (load_from_local env now ai))) = index_file hss @ tail"
    and "index_closed env (snd (load_from_local env now ai))"
proof -
  have c: "can_open env" "file_stream (ai_storage ai) = None"
    using assms(1) by (simp_all add: index_closed_def)
  note o = open_read [OF c assms(3)]
  define st where "st = opened read_mode (index_file hss @ tail) (ai_storage ai)"
  obtain s where s: "file_stream st = Some s" "ready s" "fs_pos s = 0"
    using o(2) by (auto simp: st_def)
  define ai0 where "ai0 = ai\<lparr>ai_last_error := ok, headers_index := [], outgoing_count := 0,
      merged_count := 0\<rparr>"
  define ai2 where "ai2 = snd (insert_headers now (map bare (concat hss)) ai0)"
  let ?g = "\<lambda>d. load_step now (bs_write empty_stream d)"
  have step: "load_step now data a = ?g d a"
    if d: "d \<in> set (map block_payload hss)" and h: "holds_block d data" for d data a
  proof -
    obtain hs where hs: "d = block_payload hs" "headers_ok hs"
      using d assms(2) by auto
    have "holds_block d (bs_write empty_stream d)"
      using headers_okD(2) [OF hs(2)] by (simp add: holds_block_def stream_simps hs(1))
    then show ?thesis
      using h hs by (simp add: load_step_payload)
  qed
  have dr: "drop (fs_pos s) (file_bytes st) = concat (map block_bytes (map block_payload hss)) @ tail"
    by (simp add: s(3) st_def index_file_def o_def)
  have okd: "\<And>d. d \<in> set (map block_payload hss) \<Longrightarrow> block_ok d"
    using assms(2) headers_okD(3) by auto
  obtain st' where st': "read_loop (load_step now) st empty_stream ai0 = (True, st', ai2)"
    "file_bytes (storage_close st') = index_file hss @ tail"
    "last_error st' = (if tail = [] then end_of_file else ok)"
    using read_loop_blocks [where step = "load_step now" and g = ?g and a = ai0,
        OF assms(4) step s(1,2) dr okd fresh_data_empty]
    by (auto simp: run_blocks_payloads [OF assms(2)] st_def ai2_def)
  define ai3 where "ai3 = (snd (insert_headers now (map snd (headers_index ai)) ai2))\<lparr>ai_storage := storage_close st'\<rparr>"
  have ld: "load_from_local env now ai =
      (if tail \<noteq> [] then (False, ai3\<lparr>ai_last_error := ok\<rparr>)
       else (True, notify_core_outgoing_msg_count (ai3\<lparr>loaded_from_local := True\<rparr>)))"
    using o(1) st'(1,3)
    by (simp add: load_from_local_def Let_def ai3_def ai0_def flip: st_def)
  have idx: "headers_index ai3 = fold index_insert (map bare (concat hss) @ map snd (headers_index ai)) []"
    by (simp add: ai3_def ai2_def ai0_def)
  have le: "ai_last_error ai3 = ok" "loaded_from_local ai3 = loaded_from_local ai"
    by (simp_all add: ai3_def ai2_def ai0_def)
  have stg: "ai_storage ai3 = storage_close st'" by (simp add: ai3_def)
  show "fst (load_from_local env now ai) \<longleftrightarrow> tail = []"
    "headers_index (snd (load_from_local env now ai)) =
      fold index_insert (map bare (concat hss) @ map snd (headers_index ai)) []"
    "loaded_from_local (snd (load_from_local env now ai)) \<longleftrightarrow> loaded_from_local ai \<or> tail = []"
    "ai_last_error (snd (load_from_local env now ai)) = ok"
    "file_bytes (ai_storage (snd (load_from_local env now ai))) = index_file hss @ tail"
    "index_closed env (snd (load_from_local env now ai))"
    using idx le c st'(2)
    by (simp_all add: ld stg notify_core_outgoing_msg_count_def index_closed_def)
qed

subsection \<open>A rewritten index is loaded unchanged\<close>

primrec save_chunks :: "(int \<times> message_header) list \<Rightarrow> message_header list \<Rightarrow> message_header list list" where
  "save_chunks [] headers = []"
| "save_chunks (e # es) headers =
     (let headers1 = headers @ entry_headers (snd e)
      in if history_block_size \<le> length headers1 \<or> es = [] then headers1 # save_chunks es []
         else save_chunks es headers1)"

lemma concat_save_chunks:
  "es \<noteq> [] \<Longrightarrow> concat (save_chunks es headers) = headers @ concat (map (\<lambda>e. entry_headers (snd e)) es)"
proof (induction es arbitrary: headers)
  case (Cons e es)
  then show ?case by (cases "es = []") (auto simp: Let_def)
qed simp

lemma index_file_simps [simp]:
  "index_file [] = []" "index_file (hs # hss) = block_bytes (block_payload hs) @ index_file hss"
  by (simp_all add: index_file_def)

lemma serialize_block_fresh:
  assumes "headers_ok hs" and "fresh_data data"
  shows "bs_wf (serialize_block hs data)" "content (serialize_block hs data) = block_payload hs"
proof -
  have "length (block_payload hs) \<le> room data" "bs_wf data" "content data = []"
    using assms fresh_content [OF assms(2)]
    by (simp_all add: fresh_data_def room_def headers_ok_def max_data_block_size_def)
  then show "bs_wf (serialize_block hs data)" "content (serialize_block hs data) = block_payload hs"
    using serialize_block_facts [OF headers_okD(1) [OF assms(1)]] by simp_all
qed

lemma save_entries_file:
  "at_end st \<Longrightarrow> fresh_data data \<Longrightarrow> (\<forall>hs \<in> set (save_chunks es headers). headers_ok hs) \<Longrightarrow>
     length (logical st) + length (index_file (save_chunks es headers)) \<le> capacity st \<Longrightarrow>
     fst (save_entries env es headers data st) \<and> at_end (snd (save_entries env es headers data st)) \<and>
     capacity (snd (save_entries env es headers data st)) = capacity st \<and>
     logical (snd (save_entries env es headers data st)) = logical st @ index_file (save_chunks es headers)"
proof (induction es arbitrary: headers data st)
  case (Cons e es)
  define h1 where "h1 = headers @ entry_headers (snd e)"
  show ?case
  proof (cases "history_block_size \<le> length h1 \<or> es = []")
    case False
    then show ?thesis
      using Cons.IH [OF Cons.prems(1,2), of h1] Cons.prems(3,4) by (simp add: Let_def flip: h1_def)
  next
    case True
    have ch: "save_chunks (e # es) headers = h1 # save_chunks es []"
      using True by (simp add: Let_def flip: h1_def)
    have oks: "\<forall>hs \<in> set (h1 # save_chunks es []). headers_ok hs"
      using Cons.prems(3) unfolding ch .
    have fit: "length (logical st) + length (index_file (h1 # save_chunks es [])) \<le> capacity st"
      using Cons.prems(4) unfolding ch .
    have ok: "headers_ok h1" using oks by simp
    note d = serialize_block_fresh [OF ok Cons.prems(2)]
    have ne: "content (serialize_block h1 data) \<noteq> []"
      by (simp add: d) (simp add: h1_def entry_headers_def)
    obtain r off st1 d1 where w: "write_data_block env st (serialize_block h1 data) 0 = (r, off, st1, d1)"
      by (cases "write_data_block env st (serialize_block h1 data) 0")
    have fits: "length (logical st) + length (block_bytes (content (serialize_block h1 data))) \<le> capacity st"
      using fit by (simp add: d)
    have a: "r = \<lparr>result = True, error_code = 0\<rparr>" "at_end st1" "capacity st1 = capacity st"
      "logical st1 = logical st @ block_bytes (block_payload h1)"
      using write_data_block_at_end(6) [OF Cons.prems(1) d(1) ne w fits] by (simp_all add: d)
    have f: "fresh_data (reset d1)"
      using write_data_block_data [OF d(1) ne, of env st 0] by (simp add: w)
    have sv: "save_entries env (e # es) headers data st = save_entries env es [] (reset d1) st1"
      using True by (simp add: Let_def w a(1) flip: h1_def)
    have "length (logical st1) + length (index_file (save_chunks es [])) \<le> capacity st1"
      using fit by (simp add: a(3,4))
    then show ?thesis
      using Cons.IH [OF a(2) f, of "[]"] oks
      unfolding sv ch by (simp add: a(3,4))
  qed
qed simp

lemma save_all_file:
  assumes "index_closed env ai" and "\<forall>hs \<in> set (save_chunks (headers_index ai) []). headers_ok hs"
    and "length (index_file (save_chunks (headers_index ai) [])) \<le> capacity (ai_storage ai)"
  shows "fst (save_all env ai)"
    and "file_bytes (ai_storage (snd (save_all env ai))) =
      index_file (save_chunks (headers_index ai) [])"
    and "headers_index (snd (save_all env ai)) = headers_index ai"
    and "index_closed env (snd (save_all env ai))"
proof -
  have c: "can_open env" "file_stream (ai_storage ai) = None"
    using assms(1) by (simp_all add: index_closed_def)
  define st where "st = opened truncate_mode [] (ai_storage ai)"
  have o: "storage_open env truncate_mode (ai_storage ai) = (True, st)" "at_end st"
    using open_truncate [OF c] by (simp_all add: st_def)
  have f: "logical st = []" "capacity st = capacity (ai_storage ai)"
    by (simp_all add: st_def)
  have s: "fst (save_entries env (headers_index ai) [] empty_stream st) \<and>
      file_bytes (storage_close (snd (save_entries env (headers_index ai) [] empty_stream st))) =
        index_file (save_chunks (headers_index ai) [])"
    using save_entries_file [OF o(2) fresh_data_empty assms(2)] assms(3) close_at_end(1) by (simp add: f)
  show "fst (save_all env ai)"
    "file_bytes (ai_storage (snd (save_all env ai))) =
      index_file (save_chunks (headers_index ai) [])"
    "headers_index (snd (save_all env ai)) = headers_index ai"
    "index_closed env (snd (save_all env ai))"
    using s f c by (auto simp: save_all_def o(1) index_closed_def split_beta Let_def)
qed

definition plain :: "message_header \<Rightarrow> bool" where
  "plain h \<longleftrightarrow> modifications h = []"

lemma entry_headers_plain: "plain h \<Longrightarrow> entry_headers h = [h]"
  by (simp add: entry_headers_def plain_def get_modifications_def)

lemma bare_plain: "plain h \<Longrightarrow> bare h = h"
  by (cases h) (simp add: plain_def)

text \<open>
  When no header carries modifications, what \<open>save_all\<close> wrote is what \<open>load_from_local\<close> gives
  to an index that starts empty.
\<close>

lemma save_all_load:
  assumes "index_closed env ai" and "index_wf ai" and "headers_index ai \<noteq> []"
    and "\<forall>e \<in> set (headers_index ai). plain (snd e)"
    and "\<forall>hs \<in> set (save_chunks (headers_index ai) []). headers_ok hs"
    and "length (index_file (save_chunks (headers_index ai) [])) \<le> capacity (ai_storage ai)"
    and "aj = (snd (save_all env ai))\<lparr>headers_index := []\<rparr>"
  shows "fst (load_from_local env now aj)"
    and "headers_index (snd (load_from_local env now aj)) = headers_index ai"
proof -
  note s = save_all_file [OF assms(1,5,6)]
  let ?hss = "save_chunks (headers_index ai) []"
  have hs: "concat ?hss = map snd (headers_index ai)"
  proof -
    have "concat (map (\<lambda>e. entry_headers (snd e)) es) = map snd es"
      if "\<forall>e \<in> set es. plain (snd e)" for es :: "(int \<times> message_header) list"
      using that by (induction es) (simp_all add: entry_headers_plain)
    from this [OF assms(4)] show ?thesis by (simp add: concat_save_chunks [OF assms(3)])
  qed
  have ne: "?hss \<noteq> []" using assms(3) hs by (cases ?hss) auto
  have "index_file ?hss \<noteq> []"
    using ne by (cases ?hss) (auto simp: block_bytes_def block_size_def)
  then have fd: "file_data (ai_storage aj) = Some (index_file ?hss @ [])"
    using s(2) file_data_of_bytes [of "ai_storage aj"] by (simp add: assms(7))
  have c: "index_closed env aj" using s(4) by (simp add: assms(7) index_closed_def)
  have tl: "dec_block [] = None" by (simp add: dec_block_def)
  have b: "map bare (map snd (headers_index ai)) = map snd (headers_index ai)"
    using assms(4) by (auto simp: bare_plain)
  note l = load_replays [OF c assms(5) fd tl, of now]
  show "fst (load_from_local env now aj)" using l(1) by simp
  have "\<forall>e \<in> set (headers_index ai). get_id (snd e) = fst e" and "ordered (headers_index ai)"
    using assms(2) by (simp_all add: index_wf_def)
  then show "headers_index (snd (load_from_local env now aj)) = headers_index ai"
    using l(2) index_insert_entries [of "headers_index ai"] unfolding hs b by (simp add: assms(7))
qed

subsection \<open>Ranges\<close>

definition visible :: "(int \<times> message_header) list \<Rightarrow> message_header list" where
  "visible es = filter (\<lambda>h. \<not> is_patch h) (map snd es)"

text \<open>The shortest prefix that holds \<open>n\<close> headers that are not deleted.\<close>

fun first_alive :: "nat \<Rightarrow> message_header list \<Rightarrow> message_header list" where
  "first_alive n [] = []"
| "first_alive n (h # hs) =
     (if n = 0 then [] else h # first_alive (if is_deleted h then n else n - 1) hs)"

lemma visible_simps [simp]:
  "visible [] = []"
  "visible (e # es) = (if is_patch (snd e) then visible es else snd e # visible es)"
  "visible (es @ fs) = visible es @ visible fs"
  "visible (rev es) = rev (visible es)"
  by (simp_all add: visible_def rev_filter rev_map)

lemma first_alive_0 [simp]: "first_alive 0 hs = []"
  by (cases hs) simp_all

lemma collect_early_eq:
  "collect_early c n es acc = rev (first_alive (nat c - n) (visible es)) @ acc"
proof (induction c n es acc rule: collect_early.induct)
  case (2 c n e es acc)
  have "c \<le> int n \<longleftrightarrow> nat c - n = 0" by auto
  moreover have "\<not> c \<le> int n \<Longrightarrow> nat c - n - 1 = nat c - (n + 1)" by auto
  ultimately show ?case using 2 by simp
qed simp

lemma collect_later_eq:
  "int n < c \<Longrightarrow> collect_later c n es acc =
     acc @ take (nat c - n) (filter (\<lambda>h. \<not> is_deleted h) (visible es))"
proof (induction c n es acc rule: collect_later.induct)
  case (2 c n e es acc)
  have s: "nat c - n = Suc (nat c - (n + 1))" using 2(3) by auto
  have z: "c \<le> int (n + 1) \<Longrightarrow> nat c - (n + 1) = 0" by auto
  show ?case using 2 s z by (auto simp: Let_def)
qed simp

lemma first_alive_prefix: "\<exists>rest. hs = first_alive n hs @ rest"
  by (induction n hs rule: first_alive.induct) auto

text \<open>The collected run ends at the undeleted message that completes the number.\<close>

lemma first_alive_exact:
  "0 < n \<Longrightarrow> first_alive n hs = hs \<and> length (filter (\<lambda>h. \<not> is_deleted h) hs) < n \<or>
     first_alive n hs \<noteq> [] \<and> \<not> is_deleted (last (first_alive n hs)) \<and>
     length (filter (\<lambda>h. \<not> is_deleted h) (first_alive n hs)) = n"
proof (induction n hs rule: first_alive.induct)
  case (2 n h hs)
  then show ?case by (cases "is_deleted h"; cases "n = 1") auto
qed simp

lemma alive_first_alive:
  "length (filter (\<lambda>h. \<not> is_deleted h) (first_alive n hs)) =
     min n (length (filter (\<lambda>h. \<not> is_deleted h) hs))"
  by (induction n hs rule: first_alive.induct) auto

lemma serialize_from_eq:
  assumes "headers_index ai \<noteq> []" and "from = -1 \<or> from_lb from (headers_index ai) \<noteq> []"
  shows "serialize_from ai from n_early n_later lst incl =
    (True,
     (if n_early > 0 then
        rev (first_alive (nat n_early) (rev (visible
          ((if from = -1 then headers_index ai else before_lb from (headers_index ai)) @
           (if incl \<and> n_later \<le> 0 \<and> from \<noteq> -1 then [hd (from_lb from (headers_index ai))] else [])))))
      else []) @ lst @
     (if n_later > 0 \<and> from \<noteq> -1
      then take (nat n_later) (filter (\<lambda>h. \<not> is_deleted h) (visible (from_lb from (headers_index ai))))
      else []))"
proof (cases "from = -1")
  case True
  have n: "collect_later c n [] acc = acc" for c n acc by simp
  show ?thesis
    using assms True by (simp add: serialize_from_def Let_def collect_early_eq)
next
  case False
  then have ne: "from_lb from (headers_index ai) \<noteq> []" using assms(2) by simp
  have cl: "0 < n_later \<Longrightarrow> collect_later n_later 0 es acc =
      acc @ take (nat n_later) (filter (\<lambda>h. \<not> is_deleted h) (visible es))" for es acc
    using collect_later_eq [of 0 n_later es acc] by simp
  show ?thesis
    using assms(1) False ne
    by (simp add: serialize_from_def Let_def collect_early_eq cl)
qed

subsection \<open>Holes\<close>

text \<open>Newest first: every header points to the next one and the oldest points nowhere.\<close>

fun linked :: "message_header list \<Rightarrow> bool" where
  "linked [] = True"
| "linked [h] = (get_prev_msgid h = -1)"
| "linked (h # p # hs) = (get_prev_msgid h = get_id p \<and> linked (p # hs))"

lemma skip_patches_visible:
  "skip_patches_forward es = [] \<Longrightarrow> visible es = []"
  "skip_patches_forward es = p # ps \<Longrightarrow> visible es = snd p # visible ps \<and> \<not> is_patch (snd p)"
  by (induction es) (auto simp: skip_patches_forward_def split: if_splits)

lemma hole_scan_linked:
  "(es \<noteq> [] \<longrightarrow> \<not> is_patch (snd (hd es))) \<Longrightarrow>
     fst (hole_scan (-1) d es hole) \<longleftrightarrow> \<not> linked (visible es)"
proof (induction "-1 :: int" d es hole rule: hole_scan.induct)
  case (2 d e es hole)
  show ?case
  proof (cases "skip_patches_forward es")
    case Nil
    then show ?thesis
      using 2(2) skip_patches_visible(1) [OF Nil] by (simp add: hole_scan.simps(2) Let_def)
  next
    case (Cons p ps)
    have v: "visible es = snd p # visible ps" "\<not> is_patch (snd p)"
      using skip_patches_visible(2) [OF Cons] by auto
    show ?thesis
      using 2 Cons v by (auto simp: hole_scan.simps(2) Let_def)
  qed
qed simp

text \<open>A reported hole is between two neighbours, and everything newer is linked.\<close>

lemma hole_scan_gap:
  "(es \<noteq> [] \<longrightarrow> \<not> is_patch (snd (hd es))) \<Longrightarrow> hole_scan depth d es hole = (True, hole') \<Longrightarrow>
     \<exists>xs h rest. visible es = xs @ h # rest \<and> hole_from hole' = get_id h \<and>
       (\<forall>i < length xs. get_prev_msgid (xs ! i) = get_id ((xs @ [h]) ! Suc i)) \<and>
       (case rest of
          [] \<Rightarrow> get_prev_msgid h \<noteq> -1 \<and> hole_to hole' = hole_to hole
        | p # _ \<Rightarrow> get_prev_msgid h \<noteq> get_id p \<and> hole_to hole' = get_id p \<and>
            hole_depth hole' = d + 1 + int (length xs))"
proof (induction depth d es hole rule: hole_scan.induct)
  case (2 depth d e es hole)
  have np: "\<not> is_patch (snd e)" using 2(2) by simp
  show ?case
  proof (cases "skip_patches_forward es")
    case Nil
    then show ?thesis
      using 2(3) np skip_patches_visible(1) [OF Nil]
      by (intro exI [of _ "[]"] exI [of _ "snd e"]) (auto simp: hole_scan.simps(2) Let_def split: if_splits)
  next
    case (Cons p ps)
    have v: "visible es = snd p # visible ps" "\<not> is_patch (snd p)"
      using skip_patches_visible(2) [OF Cons] by auto
    show ?thesis
    proof (cases "get_prev_msgid (snd e) = get_id (snd p)")
      case False
      then show ?thesis
        using 2(3) np v Cons
        by (intro exI [of _ "[]"] exI [of _ "snd e"] exI [of _ "visible es"])
          (auto simp: hole_scan.simps(2) Let_def)
    next
      case True
      then have nd: "\<not> (depth \<noteq> -1 \<and> depth \<le> d + 1)"
        and r: "hole_scan depth (d + 1) (p # ps) hole = (True, hole')"
        using 2(3) Cons by (auto simp: hole_scan.simps(2) Let_def split: if_splits)
      obtain xs h rest where ih: "visible (p # ps) = xs @ h # rest" "hole_from hole' = get_id h"
        "\<forall>i < length xs. get_prev_msgid (xs ! i) = get_id ((xs @ [h]) ! Suc i)"
        "case rest of
          [] \<Rightarrow> get_prev_msgid h \<noteq> -1 \<and> hole_to hole' = hole_to hole
        | p # _ \<Rightarrow> get_prev_msgid h \<noteq> get_id p \<and> hole_to hole' = get_id p \<and>
            hole_depth hole' = d + 1 + 1 + int (length xs)"
        using 2(1) [OF refl refl refl Cons _ nd] r True v(2) by (auto simp: Cons)
      have fst_xs: "(xs @ [h]) ! 0 = snd p"
        using ih(1) v(2) by (cases xs) auto
      show ?thesis
      proof (intro exI conjI)
        show "visible (e # es) = (snd e # xs) @ h # rest"
          using np v ih(1) by simp
        show "hole_from hole' = get_id h" by (rule ih(2))
        show "\<forall>i < length (snd e # xs).
            get_prev_msgid ((snd e # xs) ! i) = get_id (((snd e # xs) @ [h]) ! Suc i)"
          using ih(3) True fst_xs by (auto simp: nth_Cons split: nat.split)
        show "case rest of
          [] \<Rightarrow> get_prev_msgid h \<noteq> -1 \<and> hole_to hole' = hole_to hole
        | p # _ \<Rightarrow> get_prev_msgid h \<noteq> get_id p \<and> hole_to hole' = get_id p \<and>
            hole_depth hole' = d + 1 + int (length (snd e # xs))"
          using ih(4) by (auto split: list.splits)
      qed
    qed
  qed
qed simp

lemma visible_skip [simp]: "visible (skip_patches_forward es) = visible es"
  by (induction es) (auto simp: skip_patches_forward_def)

lemma hd_skip: "skip_patches_forward es \<noteq> [] \<longrightarrow> \<not> is_patch (snd (hd (skip_patches_forward es)))"
  using hd_dropWhile [of "\<lambda>e. is_patch (snd e)" es] by (simp only: skip_patches_forward_def) blast

text \<open>From the newest message, without a bound on the depth: a hole is reported unless the
  messages are linked down to the first one.\<close>

lemma get_next_hole_linked:
  assumes "visible (headers_index ai) \<noteq> []"
  shows "fst (get_next_hole ai (-1) hole (-1)) \<longleftrightarrow> \<not> linked (rev (visible (headers_index ai)))"
proof -
  define es where "es = skip_patches_forward (rev (headers_index ai))"
  have ne: "headers_index ai \<noteq> []" "es \<noteq> []"
    using assms visible_skip [of "rev (headers_index ai)"] by (auto simp flip: es_def)
  have "get_next_hole ai (-1) hole (-1) = hole_scan (-1) 0 es hole"
    using ne by (simp add: get_next_hole_def Let_def es_def)
  then show ?thesis
    using hole_scan_linked [of es 0 hole] hd_skip [of "rev (headers_index ai)"]
    by (simp add: es_def)
qed

subsection \<open>Deleting and trimming\<close>

lemma headers_index_save_all [simp]: "headers_index (snd (save_all env ai)) = headers_index ai"
  by (simp add: save_all_def Let_def split_beta split: bool.split)

lemma get_id_update [simp]:
  "get_id (set_prev_msgid v h) = get_id h" "get_id (invalidate_data_offset h) = get_id h"
  "get_id (set_updated b h) = get_id h"
  by (simp_all add: get_id_def set_prev_msgid_def invalidate_data_offset_def set_updated_def update_hdr_def)

lemma from_lb_Cons:
  assumes "ordered m" and "from_lb k m = (k0, h) # rest"
  shows "k \<le> k0" and "\<forall>e \<in> set rest. k0 < fst e" and "\<forall>e \<in> set (before_lb k m). fst e < k0"
proof -
  have o: "ordered ((k0, h) # rest)" using ordered_from_lb [OF assms(1), of k] assms(2) by simp
  show "k \<le> k0" using from_lb_ge [OF assms(1), of "(k0, h)" k] assms(2) by simp
  then show "\<forall>e \<in> set (before_lb k m). fst e < k0" using before_lb_less by fastforce
  show "\<forall>e \<in> set rest. k0 < fst e" using o by auto
qed

lemma delete_up_to_keys:
  assumes "index_wf ai"
  shows "fst ` set (headers_index (delete_up_to env to ai)) =
      {k \<in> fst ` set (headers_index ai). to < k}"
    and "index_wf (delete_up_to env to ai)"
proof -
  have o: "ordered (headers_index ai)"
    and ids: "\<And>e. e \<in> set (headers_index ai) \<Longrightarrow> get_id (snd e) = fst e \<and> 0 < fst e"
    using assms by (auto simp: index_wf_def)
  define b where "b = before_lb to (headers_index ai)"
  have sp: "set (headers_index ai) = set b \<union> set (from_lb to (headers_index ai))"
    using before_lb_append_from_lb [of to "headers_index ai"] by (metis b_def set_append)
  have lt: "\<And>e. e \<in> set b \<Longrightarrow> fst e < to" unfolding b_def by (rule before_lb_less)
  have "fst ` set (headers_index (delete_up_to env to ai)) =
        {k \<in> fst ` set (headers_index ai). to < k} \<and> index_wf (delete_up_to env to ai)"
  proof (cases "from_lb to (headers_index ai)")
    case Nil
    then show ?thesis
      using lt by (auto simp: delete_up_to_def sp index_wf_def dest: less_asym)
  next
    case (Cons e after)
    obtain k h where e: "e = (k, h)" by (cases e)
    note f = from_lb_Cons [OF o Cons [unfolded e]]
    have id: "get_id h = k" and k: "0 < k" using ids [of "(k, h)"] sp Cons e by auto
    have oa: "ordered after" using ordered_from_lb [OF o, of to] Cons by simp
    have ia: "\<And>e. e \<in> set after \<Longrightarrow> get_id (snd e) = fst e \<and> 0 < fst e" using ids sp Cons by auto
    show ?thesis
    proof (cases "k = to")
      case True
      have keys: "{k \<in> fst ` set (headers_index ai). to < k} = fst ` set after"
        using lt f(2) True unfolding sp Cons e by fastforce
      show ?thesis
      proof (cases after)
        case Nil
        then show ?thesis
          using Cons e True id by (simp add: delete_up_to_def keys index_wf_def)
      next
        case (Cons e1 rest)
        obtain k1 h1 where e1: "e1 = (k1, h1)" by (cases e1)
        have "headers_index (delete_up_to env to ai) =
            (k1, if get_prev_msgid h1 = to then set_prev_msgid (-1) h1 else h1) # rest"
          using \<open>from_lb to _ = e # after\<close> Cons e True id e1 by (simp add: delete_up_to_def)
        then show ?thesis
          using oa ia [of "(k1, h1)"] ia unfolding keys index_wf_def Cons e1 by auto
      qed
    next
      case False
      then have kt: "to < k" using f(1) by simp
      have keys: "{k \<in> fst ` set (headers_index ai). to < k} = fst ` set (e # after)"
        using lt f(2) kt unfolding sp Cons e by fastforce
      have o2: "ordered (e # after)" using ordered_from_lb [OF o, of to] Cons by simp
      have all: "b = [] \<Longrightarrow> headers_index ai = e # after"
        using before_lb_append_from_lb [of to "headers_index ai"] Cons by (simp add: b_def)
      have "headers_index (delete_up_to env to ai) = e # after"
        using Cons e False id all by (simp add: delete_up_to_def b_def [symmetric])
      then show ?thesis
        using o2 ia ids [of e] sp Cons unfolding keys index_wf_def by auto
    qed
  qed
  then show "fst ` set (headers_index (delete_up_to env to ai)) =
      {k \<in> fst ` set (headers_index ai). to < k}" "index_wf (delete_up_to env to ai)"
    by simp_all
qed

text \<open>What an optimization leaves in the index: the newest entries, the oldest of them unlinked.\<close>

lemma save_all_storage: "\<exists>st. snd (save_all env ai) = ai\<lparr>ai_storage := st\<rparr>"
  by (auto simp: save_all_def split: prod.splits bool.splits)

lemma index_optimize_runs:
  assumes "need_optimize ai"
    and "kept = (if max_index_size < length (headers_index ai)
      then (case drop (length (headers_index ai) - max_index_size) (headers_index ai) of
        [] \<Rightarrow> [] | (k, h) # es \<Rightarrow> (k, set_prev_msgid (-1) h) # es)
      else headers_index ai)"
  shows "index_optimize env ai = snd (save_all env (ai\<lparr>headers_index := kept, merged_count := 0\<rparr>))"
proof -
  have n: "nat (int a - int b) = a - b" "0 < int a - int b \<longleftrightarrow> b < a" for a b by auto
  show ?thesis using assms by (simp add: index_optimize_def Let_def n)
qed

lemma index_optimize_bound:
  "length (headers_index (index_optimize env ai)) \<le> index_size_need_optimize"
  by (auto simp: index_optimize_def need_optimize_def Let_def index_size_need_optimize_def
      max_index_size_def split: list.splits prod.splits dest: arg_cong [where f = length])

end
