(* ===== verification/Message_Parts.thy ===== *)
theory Message_Parts
  imports Tlv "HOL-Library.List_Lexorder"
begin

section \<open>The parts of a message: contacts, stickers, calls, chats, files, events, quotes, snippets\<close>

text \<open>
  The optional parts of a \<open>history_message\<close>, each with its TLV form (history_message.cpp).
  Strings are byte lists; enumerators are their 32-bit codes, since a code read from the
  archive may be any integer. A constructor that reads through a missing field (a null pointer)
  gives \<open>None\<close>. Persons are looked up by identifier.
\<close>

subsection \<open>Field types (enum message_fields)\<close>

definition mf_msg_id :: u32w where "mf_msg_id = 1"
definition mf_flags :: u32w where "mf_flags = 2"
definition mf_time :: u32w where "mf_time = 3"
definition mf_wimid :: u32w where "mf_wimid = 4"
definition mf_text :: u32w where "mf_text = 5"
definition mf_chat :: u32w where "mf_chat = 6"
definition mf_sticker :: u32w where "mf_sticker = 7"
definition mf_mult :: u32w where "mf_mult = 8"
definition mf_voip :: u32w where "mf_voip = 9"
definition mf_sticker_id :: u32w where "mf_sticker_id = 10"
definition mf_chat_sender :: u32w where "mf_chat_sender = 11"
definition mf_chat_name :: u32w where "mf_chat_name = 12"
definition mf_prev_msg_id :: u32w where "mf_prev_msg_id = 13"
definition mf_internal_id :: u32w where "mf_internal_id = 14"
definition mf_chat_friendly :: u32w where "mf_chat_friendly = 15"
definition mf_file_sharing :: u32w where "mf_file_sharing = 16"
definition mf_file_sharing_uri :: u32w where "mf_file_sharing_uri = 18"
definition mf_file_sharing_local_path :: u32w where "mf_file_sharing_local_path = 19"
definition mf_sender_friendly :: u32w where "mf_sender_friendly = 21"
definition mf_chat_event :: u32w where "mf_chat_event = 22"
definition mf_chat_event_type :: u32w where "mf_chat_event_type = 23"
definition mf_chat_event_sender_friendly :: u32w where "mf_chat_event_sender_friendly = 24"
definition mf_chat_event_mchat_members :: u32w where "mf_chat_event_mchat_members = 25"
definition mf_chat_event_new_chat_name :: u32w where "mf_chat_event_new_chat_name = 26"
definition mf_voip_event_type :: u32w where "mf_voip_event_type = 27"
definition mf_voip_sender_friendly :: u32w where "mf_voip_sender_friendly = 28"
definition mf_voip_sender_aimid :: u32w where "mf_voip_sender_aimid = 29"
definition mf_voip_duration :: u32w where "mf_voip_duration = 30"
definition mf_voip_is_incoming :: u32w where "mf_voip_is_incoming = 31"
definition mf_chat_event_generic_text :: u32w where "mf_chat_event_generic_text = 32"
definition mf_chat_event_new_chat_description :: u32w where "mf_chat_event_new_chat_description = 33"
definition mf_quote_text :: u32w where "mf_quote_text = 34"
definition mf_quote_sn :: u32w where "mf_quote_sn = 35"
definition mf_quote_msg_id :: u32w where "mf_quote_msg_id = 36"
definition mf_quote_time :: u32w where "mf_quote_time = 37"
definition mf_quote_chat_id :: u32w where "mf_quote_chat_id = 38"
definition mf_quote :: u32w where "mf_quote = 39"
definition mf_quote_friendly :: u32w where "mf_quote_friendly = 40"
definition mf_quote_is_forward :: u32w where "mf_quote_is_forward = 41"
definition mf_chat_event_new_chat_rules :: u32w where "mf_chat_event_new_chat_rules = 42"
definition mf_chat_event_sender_aimid :: u32w where "mf_chat_event_sender_aimid = 43"
definition mf_quote_set_id :: u32w where "mf_quote_set_id = 44"
definition mf_quote_sticker_id :: u32w where "mf_quote_sticker_id = 45"
definition mf_quote_chat_stamp :: u32w where "mf_quote_chat_stamp = 46"
definition mf_quote_chat_name :: u32w where "mf_quote_chat_name = 47"
definition mf_mention :: u32w where "mf_mention = 48"
definition mf_mention_sn :: u32w where "mf_mention_sn = 49"
definition mf_mention_friendly :: u32w where "mf_mention_friendly = 50"
definition mf_chat_event_mchat_members_aimids :: u32w where "mf_chat_event_mchat_members_aimids = 51"
definition mf_update_patch_version :: u32w where "mf_update_patch_version = 52"
definition mf_snippet :: u32w where "mf_snippet = 53"
definition mf_snippet_url :: u32w where "mf_snippet_url = 54"
definition mf_snippet_content_type :: u32w where "mf_snippet_content_type = 55"
definition mf_snippet_preview_url :: u32w where "mf_snippet_preview_url = 56"
definition mf_snippet_preview_w :: u32w where "mf_snippet_preview_w = 57"
definition mf_snippet_preview_h :: u32w where "mf_snippet_preview_h = 58"
definition mf_snippet_title :: u32w where "mf_snippet_title = 59"
definition mf_snippet_description :: u32w where "mf_snippet_description = 60"
definition mf_voip_conf_members :: u32w where "mf_voip_conf_members = 61"
definition mf_voip_is_video :: u32w where "mf_voip_is_video = 62"
definition mf_chat_event_is_captcha_present :: u32w where "mf_chat_event_is_captcha_present = 63"
definition mf_description :: u32w where "mf_description = 64"
definition mf_url :: u32w where "mf_url = 65"
definition mf_quote_url :: u32w where "mf_quote_url = 66"
definition mf_quote_description :: u32w where "mf_quote_description = 67"
definition mf_offline_version :: u32w where "mf_offline_version = 68"
definition mf_friendly_official :: u32w where "mf_friendly_official = 69"
definition mf_shared_contact :: u32w where "mf_shared_contact = 70"
definition mf_shared_contact_name :: u32w where "mf_shared_contact_name = 71"
definition mf_shared_contact_phone :: u32w where "mf_shared_contact_phone = 72"
definition mf_shared_contact_sn :: u32w where "mf_shared_contact_sn = 73"
definition mf_file_sharing_base_content_type :: u32w where "mf_file_sharing_base_content_type = 74"
definition mf_file_sharing_duration :: u32w where "mf_file_sharing_duration = 75"

lemmas mf_message = mf_msg_id_def mf_flags_def mf_time_def mf_wimid_def mf_text_def mf_chat_def
  mf_sticker_def mf_mult_def mf_voip_def mf_prev_msg_id_def mf_internal_id_def mf_file_sharing_def
  mf_sender_friendly_def mf_chat_event_def mf_quote_def mf_mention_def mf_update_patch_version_def
  mf_snippet_def mf_description_def mf_url_def mf_offline_version_def mf_shared_contact_def

lemmas mf_parts = mf_sticker_id_def mf_chat_sender_def mf_chat_name_def mf_chat_friendly_def
  mf_file_sharing_uri_def mf_file_sharing_local_path_def mf_chat_event_type_def
  mf_chat_event_sender_friendly_def mf_chat_event_mchat_members_def mf_chat_event_new_chat_name_def
  mf_voip_event_type_def mf_voip_sender_friendly_def mf_voip_sender_aimid_def mf_voip_duration_def
  mf_voip_is_incoming_def mf_chat_event_generic_text_def mf_chat_event_new_chat_description_def
  mf_quote_text_def mf_quote_sn_def mf_quote_msg_id_def mf_quote_time_def mf_quote_chat_id_def
  mf_quote_friendly_def mf_quote_is_forward_def mf_chat_event_new_chat_rules_def
  mf_chat_event_sender_aimid_def mf_quote_set_id_def mf_quote_sticker_id_def mf_quote_chat_stamp_def
  mf_quote_chat_name_def mf_mention_sn_def mf_mention_friendly_def
  mf_chat_event_mchat_members_aimids_def mf_snippet_url_def mf_snippet_content_type_def
  mf_snippet_preview_url_def mf_snippet_preview_w_def mf_snippet_preview_h_def mf_snippet_title_def
  mf_snippet_description_def mf_voip_conf_members_def mf_voip_is_video_def
  mf_chat_event_is_captcha_present_def mf_quote_url_def mf_quote_description_def
  mf_friendly_official_def mf_shared_contact_name_def mf_shared_contact_phone_def
  mf_shared_contact_sn_def mf_file_sharing_base_content_type_def mf_file_sharing_duration_def

subsection \<open>Values of a field, the field read last\<close>

definition str_value :: "tlv \<Rightarrow> str" where
  "str_value t = fst (get_string [] t)"

definition i32_value :: "tlv \<Rightarrow> i32w" where
  "i32_value t = val_of (fst (get_scalar 4 t))"

definition i64_value :: "tlv \<Rightarrow> i64w" where
  "i64_value t = val_of (fst (get_scalar 8 t))"

definition bool_value :: "tlv \<Rightarrow> bool" where
  "bool_value t = bool_of (fst (get_scalar 1 t))"

definition pack_value :: "tlv \<Rightarrow> tlvpack" where
  "pack_value t = fst (get_pack t)"

text \<open>The lambda \<open>get_value\<close> of quotes and snippets: an absent field leaves the value as it is.\<close>

definition field_or :: "tlvpack \<Rightarrow> u32w \<Rightarrow> (tlv \<Rightarrow> 'a) \<Rightarrow> 'a \<Rightarrow> 'a" where
  "field_or p ty get old = (case get_item p ty of None \<Rightarrow> old | Some t \<Rightarrow> get t)"

subsection \<open>Shared contacts\<close>

record shared_contact_data =
  sc_name :: str
  sc_phone :: str
  sc_sn :: str

definition shared_contact_new :: shared_contact_data where
  "shared_contact_new = \<lparr>sc_name = [], sc_phone = [], sc_sn = []\<rparr>"

definition shared_contact_serialize :: "shared_contact_data \<Rightarrow> tlvpack \<Rightarrow> tlvpack" where
  "shared_contact_serialize c p =
     (let p1 = push_child empty_pack (tlv_string mf_shared_contact_name (sc_name c));
          p2 = push_child p1 (tlv_string mf_shared_contact_phone (sc_phone c));
          p3 = push_child p2 (tlv_string mf_shared_contact_sn (sc_sn c))
      in push_child p (tlv_pack mf_shared_contact p3))"

definition shared_contact_unserialize ::
    "shared_contact_data \<Rightarrow> tlvpack \<Rightarrow> bool \<times> shared_contact_data" where
  "shared_contact_unserialize c p =
     (case get_item p mf_shared_contact_phone of
        None \<Rightarrow> (False, c)
      | Some phone_item \<Rightarrow>
          let c1 = c\<lparr>sc_phone := str_value phone_item\<rparr>;
              c2 = c1\<lparr>sc_name := field_or p mf_shared_contact_name str_value (sc_name c1)\<rparr>;
              c3 = c2\<lparr>sc_sn := field_or p mf_shared_contact_sn str_value (sc_sn c2)\<rparr>
          in (True, c3))"

subsection \<open>Stickers\<close>

record sticker_data =
  st_id :: str

definition sticker_new :: sticker_data where
  "sticker_new = \<lparr>st_id = []\<rparr>"

definition sticker_serialize :: "sticker_data \<Rightarrow> tlvpack \<Rightarrow> tlvpack" where
  "sticker_serialize s p = push_child p (tlv_string mf_sticker_id (st_id s))"

definition sticker_unserialize :: "sticker_data \<Rightarrow> tlvpack \<Rightarrow> int \<times> sticker_data" where
  "sticker_unserialize s p =
     (case get_item p mf_sticker_id of
        None \<Rightarrow> (-1, s)
      | Some t \<Rightarrow> (0, s\<lparr>st_id := str_value t\<rparr>))"

subsection \<open>Persons\<close>

record person =
  friendly :: str
  nick :: str
  official :: "bool option"
  official_payload :: byte

text \<open>
  \<open>official\<close> is a \<open>std::optional<bool>\<close>: two bytes, the payload and the flag whether there is a
  value. The payload of an empty optional is whatever the memory held (\<open>official_payload\<close>).
\<close>

type_synonym persons_map = "str \<Rightarrow> person option"

definition person_new :: person where
  "person_new = \<lparr>friendly = [], nick = [], official = None, official_payload = 0\<rparr>"

definition mem_of_optional_bool :: "person \<Rightarrow> bytes" where
  "mem_of_optional_bool p =
     (case official p of Some b \<Rightarrow> mem_of_bool b @ [1] | None \<Rightarrow> [official_payload p, 0])"

definition find_person :: "str \<Rightarrow> persons_map \<Rightarrow> str" where
  "find_person aimid persons = (case persons aimid of Some p \<Rightarrow> friendly p | None \<Rightarrow> aimid)"

subsection \<open>Lists of members\<close>

text \<open>A list of strings is a pack whose field types are the indices.\<close>

primrec members_pack :: "u32w \<Rightarrow> str list \<Rightarrow> tlvpack \<Rightarrow> tlvpack" where
  "members_pack i [] p = p"
| "members_pack i (m # ms) p = members_pack (i + 1) ms (push_child p (tlv_string i m))"

text \<open>The readers: one skips what is missing or empty, the other reads through a null pointer.\<close>

definition conf_members_of :: "tlvpack \<Rightarrow> str list" where
  "conf_members_of p =
     concat (map (\<lambda>i. case get_item p (word_of_nat i) of
         None \<Rightarrow> []
       | Some t \<Rightarrow> let m = str_value t in if m \<noteq> [] then [m] else []) [0..<pack_size p])"

definition members_of :: "tlvpack \<Rightarrow> str list option" where
  "members_of p =
     (let ts = map (\<lambda>i. get_item p (word_of_nat i)) [0..<pack_size p]
      in if None \<in> set ts then None else Some (map (\<lambda>t. str_value (the t)) ts))"

subsection \<open>Calls\<close>

definition vet_invalid :: i32w where "vet_invalid = 0"
definition vet_min :: i32w where "vet_min = 1"
definition vet_missed_call :: i32w where "vet_missed_call = 2"
definition vet_call_ended :: i32w where "vet_call_ended = 3"
definition vet_accept :: i32w where "vet_accept = 4"
definition vet_decline :: i32w where "vet_decline = 5"
definition vet_max :: i32w where "vet_max = 6"

record voip_data =
  vd_type :: i32w
  vd_sender_aimid :: str
  vd_sender_friendly :: str
  vd_duration_sec :: i32w
  vd_is_incoming :: i32w
  vd_is_video :: bool
  vd_conf_members :: "str list"

definition voip_new :: voip_data where
  "voip_new = \<lparr>vd_type = vet_invalid, vd_sender_aimid = [], vd_sender_friendly = [],
     vd_duration_sec = -1, vd_is_incoming = -1, vd_is_video = False, vd_conf_members = []\<rparr>"

definition voip_apply_persons :: "persons_map \<Rightarrow> voip_data \<Rightarrow> voip_data" where
  "voip_apply_persons persons v =
     v\<lparr>vd_sender_friendly := find_person (vd_sender_aimid v) persons\<rparr>"

definition voip_is_incoming :: "voip_data \<Rightarrow> bool" where
  "voip_is_incoming v \<longleftrightarrow> sint (vd_is_incoming v) > 0"

definition voip_serialize :: "voip_data \<Rightarrow> tlvpack \<Rightarrow> tlvpack" where
  "voip_serialize v p =
     (let p1 = push_child p (tlv_scalar mf_voip_event_type (mem_of 4 (vd_type v)));
          p2 = push_child p1 (tlv_string mf_voip_sender_aimid (vd_sender_aimid v));
          p3 = push_child p2 (tlv_string mf_voip_sender_friendly (vd_sender_friendly v));
          p4 = (if sint (vd_duration_sec v) \<ge> 0
                then push_child p3 (tlv_scalar mf_voip_duration (mem_of 4 (vd_duration_sec v))) else p3);
          p5 = (if sint (vd_is_incoming v) \<ge> 0
                then push_child p4 (tlv_scalar mf_voip_is_incoming (mem_of 4 (vd_is_incoming v))) else p4);
          p6 = (if vd_is_video v
                then push_child p5 (tlv_scalar mf_voip_is_video (mem_of_bool (vd_is_video v))) else p5)
      in if vd_conf_members v \<noteq> []
         then push_child p6 (tlv_pack mf_voip_conf_members (members_pack 0 (vd_conf_members v) empty_pack))
         else p6)"

definition voip_unserialize :: "voip_data \<Rightarrow> tlvpack \<Rightarrow> bool \<times> voip_data" where
  "voip_unserialize v p =
     (case (get_item p mf_voip_event_type, get_item p mf_voip_sender_aimid,
            get_item p mf_voip_sender_friendly) of
        (Some type_item, Some aimid_item, Some friendly_item) \<Rightarrow>
          let v1 = v\<lparr>vd_type := i32_value type_item\<rparr>;
              is_valid_type = (sint (vd_type v1) > sint vet_min \<and> sint (vd_type v1) < sint vet_max)
          in if \<not> is_valid_type then (False, v1\<lparr>vd_type := vet_invalid\<rparr>)
             else
               let v2 = v1\<lparr>vd_sender_aimid := str_value aimid_item\<rparr>
               in if vd_sender_aimid v2 = [] then (False, v2)
                  else
                    let v3 = v2\<lparr>vd_sender_friendly := str_value friendly_item\<rparr>
                    in if vd_sender_friendly v3 = [] then (False, v3)
                       else
                         let v4 = v3\<lparr>vd_duration_sec :=
                               field_or p mf_voip_duration i32_value (vd_duration_sec v3)\<rparr>;
                             v5 = v4\<lparr>vd_is_incoming :=
                               field_or p mf_voip_is_incoming i32_value (vd_is_incoming v4)\<rparr>;
                             v6 = v5\<lparr>vd_is_video :=
                               field_or p mf_voip_is_video bool_value (vd_is_video v5)\<rparr>;
                             v7 = v6\<lparr>vd_conf_members := vd_conf_members v6 @
                               field_or p mf_voip_conf_members (\<lambda>t. conf_members_of (pack_value t)) []\<rparr>
                         in (True, v7)
      | _ \<Rightarrow> (False, v))"

subsection \<open>Chats\<close>

record chat_data =
  cd_sender :: str
  cd_friendly :: person
  cd_name :: str

definition chat_data_new :: chat_data where
  "chat_data_new = \<lparr>cd_sender = [], cd_friendly = person_new, cd_name = []\<rparr>"

definition chat_apply_persons :: "persons_map \<Rightarrow> chat_data \<Rightarrow> chat_data" where
  "chat_apply_persons persons c =
     (case persons (cd_sender c) of Some p \<Rightarrow> c\<lparr>cd_friendly := p\<rparr> | None \<Rightarrow> c)"

definition chat_serialize :: "chat_data \<Rightarrow> tlvpack \<Rightarrow> tlvpack" where
  "chat_serialize c p =
     (let p1 = push_child p (tlv_string mf_chat_sender (cd_sender c));
          p2 = push_child p1 (tlv_string mf_chat_name (cd_name c));
          p3 = push_child p2 (tlv_string mf_chat_friendly (friendly (cd_friendly c)))
      in push_child p3 (tlv_scalar mf_friendly_official (mem_of_optional_bool (cd_friendly c))))"

definition chat_unserialize :: "chat_data \<Rightarrow> tlvpack \<Rightarrow> int \<times> chat_data" where
  "chat_unserialize c p =
     (case (get_item p mf_chat_sender, get_item p mf_chat_name) of
        (Some sender_item, Some name_item) \<Rightarrow>
          let c1 = c\<lparr>cd_sender := str_value sender_item, cd_name := str_value name_item\<rparr>;
              c2 = c1\<lparr>cd_friendly := (cd_friendly c1)\<lparr>friendly :=
                     field_or p mf_chat_friendly str_value (friendly (cd_friendly c1))\<rparr>\<rparr>;
              c3 = c2\<lparr>cd_friendly := (cd_friendly c2)\<lparr>official :=
                     field_or p mf_friendly_official (\<lambda>t. Some (bool_value t)) (official (cd_friendly c2))\<rparr>\<rparr>
          in (0, c3)
      | _ \<Rightarrow> (-1, c))"

subsection \<open>Files\<close>

record file_sharing_data =
  fs_uri :: str
  fs_local_path :: str
  fs_duration :: "i64w option"
  fs_base_content_type :: "i32w option"

definition file_sharing_new :: file_sharing_data where
  "file_sharing_new = \<lparr>fs_uri = [], fs_local_path = [], fs_duration = None,
     fs_base_content_type = None\<rparr>"

definition file_sharing_make ::
    "str \<Rightarrow> str \<Rightarrow> i64w option \<Rightarrow> i32w option \<Rightarrow> file_sharing_data" where
  "file_sharing_make local_path uri duration base_content_type =
     \<lparr>fs_uri = uri, fs_local_path = local_path, fs_duration = duration,
      fs_base_content_type = base_content_type\<rparr>"

definition file_sharing_of_pack :: "tlvpack \<Rightarrow> file_sharing_data option" where
  "file_sharing_of_pack p =
     (let place = (case get_item p mf_file_sharing_uri of
            Some uri_item \<Rightarrow> Some (file_sharing_new\<lparr>fs_uri := str_value uri_item\<rparr>)
          | None \<Rightarrow> map_option (\<lambda>t. file_sharing_new\<lparr>fs_local_path := str_value t\<rparr>)
              (get_item p mf_file_sharing_local_path))
      in case place of
           None \<Rightarrow> None
         | Some f \<Rightarrow>
             let f1 = f\<lparr>fs_duration :=
                   field_or p mf_file_sharing_duration (\<lambda>t. Some (i64_value t)) (fs_duration f)\<rparr>
             in Some (f1\<lparr>fs_base_content_type :=
                   field_or p mf_file_sharing_base_content_type (\<lambda>t. Some (i32_value t))
                     (fs_base_content_type f1)\<rparr>))"

definition file_sharing_serialize :: "file_sharing_data \<Rightarrow> tlvpack \<Rightarrow> tlvpack" where
  "file_sharing_serialize f p =
     (let p1 = (if fs_uri f \<noteq> [] then push_child p (tlv_string mf_file_sharing_uri (fs_uri f))
                else push_child p (tlv_string mf_file_sharing_local_path (fs_local_path f)));
          p2 = (case fs_duration f of
                  Some d \<Rightarrow> push_child p1 (tlv_scalar mf_file_sharing_duration (mem_of 8 d))
                | None \<Rightarrow> p1)
      in case fs_base_content_type f of
           Some t \<Rightarrow> push_child p2 (tlv_scalar mf_file_sharing_base_content_type (mem_of 4 t))
         | None \<Rightarrow> p2)"

definition file_sharing_contents_equal :: "file_sharing_data \<Rightarrow> file_sharing_data \<Rightarrow> bool" where
  "file_sharing_contents_equal f g \<longleftrightarrow>
     (if fs_local_path f = fs_local_path g then True
      else if fs_uri f = fs_uri g then True else False)"

definition file_sharing_is_empty :: "file_sharing_data \<Rightarrow> bool" where
  "file_sharing_is_empty f \<longleftrightarrow> fs_uri f = [] \<and> fs_local_path f = []"

subsection \<open>Chat events\<close>

definition cet_invalid :: i32w where "cet_invalid = 0"
definition cet_min :: i32w where "cet_min = 1"
definition cet_added_to_buddy_list :: i32w where "cet_added_to_buddy_list = 2"
definition cet_mchat_add_members :: i32w where "cet_mchat_add_members = 3"
definition cet_mchat_invite :: i32w where "cet_mchat_invite = 4"
definition cet_mchat_leave :: i32w where "cet_mchat_leave = 5"
definition cet_mchat_del_members :: i32w where "cet_mchat_del_members = 6"
definition cet_mchat_kicked :: i32w where "cet_mchat_kicked = 7"
definition cet_chat_name_modified :: i32w where "cet_chat_name_modified = 8"
definition cet_buddy_reg :: i32w where "cet_buddy_reg = 9"
definition cet_buddy_found :: i32w where "cet_buddy_found = 10"
definition cet_birthday :: i32w where "cet_birthday = 11"
definition cet_avatar_modified :: i32w where "cet_avatar_modified = 12"
definition cet_generic :: i32w where "cet_generic = 13"
definition cet_chat_description_modified :: i32w where "cet_chat_description_modified = 14"
definition cet_message_deleted :: i32w where "cet_message_deleted = 15"
definition cet_chat_rules_modified :: i32w where "cet_chat_rules_modified = 16"
definition cet_max :: i32w where "cet_max = 17"

lemmas chat_event_codes = cet_invalid_def cet_min_def cet_added_to_buddy_list_def
  cet_mchat_add_members_def cet_mchat_invite_def cet_mchat_leave_def cet_mchat_del_members_def
  cet_mchat_kicked_def cet_chat_name_modified_def cet_buddy_reg_def cet_buddy_found_def
  cet_birthday_def cet_avatar_modified_def cet_generic_def cet_chat_description_modified_def
  cet_message_deleted_def cet_chat_rules_modified_def cet_max_def

record chat_event_data =
  ce_type :: i32w
  ce_is_captcha_present :: bool
  ce_sender_aimid :: str
  ce_sender_friendly :: str
  ce_members :: "str list"
  ce_members_friendly :: "str list"
  ce_new_name :: str
  ce_new_description :: str
  ce_new_rules :: str
  ce_generic :: str

definition chat_event_make :: "i32w \<Rightarrow> chat_event_data" where
  "chat_event_make ty = \<lparr>ce_type = ty, ce_is_captcha_present = False, ce_sender_aimid = [],
     ce_sender_friendly = [], ce_members = [], ce_members_friendly = [], ce_new_name = [],
     ce_new_description = [], ce_new_rules = [], ce_generic = []\<rparr>"

definition make_added_to_buddy_list :: "str \<Rightarrow> chat_event_data" where
  "make_added_to_buddy_list sender_aimid =
     (chat_event_make cet_added_to_buddy_list)\<lparr>ce_sender_aimid := sender_aimid\<rparr>"

definition make_simple_event :: "i32w \<Rightarrow> chat_event_data" where
  "make_simple_event ty = chat_event_make ty"

definition make_generic_event :: "str \<Rightarrow> chat_event_data" where
  "make_generic_event text = (chat_event_make cet_generic)\<lparr>ce_generic := text\<rparr>"

definition has_generic_text :: "chat_event_data \<Rightarrow> bool" where
  "has_generic_text e \<longleftrightarrow> ce_type e = cet_generic"

definition has_mchat_members :: "chat_event_data \<Rightarrow> bool" where
  "has_mchat_members e \<longleftrightarrow>
     ce_type e = cet_mchat_add_members \<or> ce_type e = cet_mchat_invite \<or>
     ce_type e = cet_mchat_leave \<or> ce_type e = cet_mchat_del_members \<or>
     ce_type e = cet_mchat_kicked"

definition has_chat_modifications :: "chat_event_data \<Rightarrow> bool" where
  "has_chat_modifications e \<longleftrightarrow>
     ce_type e = cet_chat_name_modified \<or> ce_type e = cet_chat_description_modified \<or>
     ce_type e = cet_chat_rules_modified"

definition has_sender_aimid :: "chat_event_data \<Rightarrow> bool" where
  "has_sender_aimid e \<longleftrightarrow>
     ce_type e = cet_added_to_buddy_list \<or> ce_type e = cet_chat_name_modified \<or>
     ce_type e = cet_mchat_add_members \<or> ce_type e = cet_mchat_invite \<or>
     ce_type e = cet_mchat_leave \<or> ce_type e = cet_mchat_del_members \<or>
     ce_type e = cet_mchat_kicked \<or> ce_type e = cet_avatar_modified \<or>
     ce_type e = cet_chat_description_modified \<or> ce_type e = cet_chat_rules_modified"

definition is_type_deleted :: "chat_event_data \<Rightarrow> bool" where
  "is_type_deleted e \<longleftrightarrow> ce_type e = cet_message_deleted"

definition chat_event_contents_equal :: "chat_event_data \<Rightarrow> chat_event_data \<Rightarrow> bool" where
  "chat_event_contents_equal e f \<longleftrightarrow> ce_type e = ce_type f"

text \<open>\<open>boost::replace_last(member, "@uin.icq", "")\<close>\<close>

definition is_at :: "str \<Rightarrow> str \<Rightarrow> nat \<Rightarrow> bool" where
  "is_at pat s i \<longleftrightarrow> i + length pat \<le> length s \<and> take (length pat) (drop i s) = pat"

definition remove_last :: "str \<Rightarrow> str \<Rightarrow> str" where
  "remove_last pat s =
     (case filter (is_at pat s) (rev [0..<Suc (length s)]) of
        [] \<Rightarrow> s
      | i # _ \<Rightarrow> take i s @ drop (i + length pat) s)"

definition chat_event_apply_persons :: "persons_map \<Rightarrow> chat_event_data \<Rightarrow> chat_event_data" where
  "chat_event_apply_persons persons e =
     (let e1 = (if has_sender_aimid e
                then e\<lparr>ce_sender_friendly := find_person (ce_sender_aimid e) persons\<rparr> else e)
      in if has_mchat_members e1 then
           let tmp = map (remove_last (ascii ''@uin.icq'')) (ce_members e1)
           in e1\<lparr>ce_members := tmp,
                ce_members_friendly := ce_members_friendly e1 @ map (\<lambda>m. find_person m persons) tmp\<rparr>
         else e1)"

definition serialize_chat_modifications :: "chat_event_data \<Rightarrow> tlvpack \<Rightarrow> tlvpack" where
  "serialize_chat_modifications e p =
     (let p1 = (if ce_type e = cet_chat_name_modified
                then push_child p (tlv_string mf_chat_event_new_chat_name (ce_new_name e)) else p);
          p2 = (if ce_type e = cet_chat_description_modified
                then push_child p1 (tlv_string mf_chat_event_new_chat_description (ce_new_description e)) else p1)
      in if ce_type e = cet_chat_rules_modified
         then push_child p2 (tlv_string mf_chat_event_new_chat_rules (ce_new_rules e)) else p2)"

definition serialize_mchat_members :: "chat_event_data \<Rightarrow> tlvpack \<Rightarrow> tlvpack" where
  "serialize_mchat_members e p =
     push_child p (tlv_pack mf_chat_event_mchat_members
       (members_pack 0 (ce_members_friendly e) empty_pack))"

definition serialize_mchat_members_aimids :: "chat_event_data \<Rightarrow> tlvpack \<Rightarrow> tlvpack" where
  "serialize_mchat_members_aimids e p =
     push_child p (tlv_pack mf_chat_event_mchat_members_aimids
       (members_pack 0 (ce_members e) empty_pack))"

definition chat_event_serialize :: "chat_event_data \<Rightarrow> tlvpack \<Rightarrow> tlvpack" where
  "chat_event_serialize e p =
     (let p1 = push_child p (tlv_scalar mf_chat_event_type (mem_of 4 (ce_type e)));
          p2 = (if ce_is_captcha_present e
                then push_child p1 (tlv_scalar mf_chat_event_is_captcha_present
                  (mem_of_bool (ce_is_captcha_present e))) else p1);
          p3 = (if has_sender_aimid e
                then push_child (push_child p2 (tlv_string mf_chat_event_sender_aimid (ce_sender_aimid e)))
                  (tlv_string mf_chat_event_sender_friendly (ce_sender_friendly e)) else p2);
          p4 = (if has_mchat_members e
                then serialize_mchat_members_aimids e (serialize_mchat_members e p3) else p3);
          p5 = (if has_chat_modifications e then serialize_chat_modifications e p4 else p4)
      in if has_generic_text e
         then push_child p5 (tlv_string mf_chat_event_generic_text (ce_generic e)) else p5)"

definition deserialize_chat_modifications :: "chat_event_data \<Rightarrow> tlvpack \<Rightarrow> chat_event_data option" where
  "deserialize_chat_modifications e p =
     (if ce_type e = cet_chat_name_modified then
        map_option (\<lambda>t. e\<lparr>ce_new_name := str_value t\<rparr>) (get_item p mf_chat_event_new_chat_name)
      else if ce_type e = cet_chat_description_modified then
        map_option (\<lambda>t. e\<lparr>ce_new_description := str_value t\<rparr>)
          (get_item p mf_chat_event_new_chat_description)
      else if ce_type e = cet_chat_rules_modified then
        map_option (\<lambda>t. e\<lparr>ce_new_rules := str_value t\<rparr>) (get_item p mf_chat_event_new_chat_rules)
      else Some e)"

definition chat_event_of_pack :: "tlvpack \<Rightarrow> chat_event_data option" where
  "chat_event_of_pack p =
     (case get_item p mf_chat_event_type of
        None \<Rightarrow> None
      | Some type_item \<Rightarrow>
          let e0 = chat_event_make (i32_value type_item);
              e1 = e0\<lparr>ce_is_captcha_present :=
                     field_or p mf_chat_event_is_captcha_present bool_value False\<rparr>;
              r2 = (if has_sender_aimid e1 then
                      map_option (\<lambda>t. e1\<lparr>ce_sender_friendly := str_value t,
                          ce_sender_aimid := field_or p mf_chat_event_sender_aimid str_value []\<rparr>)
                        (get_item p mf_chat_event_sender_friendly)
                    else Some e1);
              r3 = (case r2 of
                      None \<Rightarrow> None
                    | Some e2 \<Rightarrow>
                        if has_mchat_members e2 then
                          (case (field_or p mf_chat_event_mchat_members (\<lambda>t. members_of (pack_value t)) (Some []),
                                 field_or p mf_chat_event_mchat_members_aimids
                                   (\<lambda>t. members_of (pack_value t)) (Some [])) of
                             (Some fr, Some ids) \<Rightarrow> Some (e2\<lparr>ce_members_friendly := fr, ce_members := ids\<rparr>)
                           | _ \<Rightarrow> None)
                        else Some e2);
              r4 = (case r3 of
                      None \<Rightarrow> None
                    | Some e3 \<Rightarrow> if has_chat_modifications e3 then deserialize_chat_modifications e3 p
                                 else Some e3)
          in case r4 of
               None \<Rightarrow> None
             | Some e4 \<Rightarrow>
                 if has_generic_text e4
                 then map_option (\<lambda>t. e4\<lparr>ce_generic := str_value t\<rparr>) (get_item p mf_chat_event_generic_text)
                 else Some e4)"

subsection \<open>Quotes\<close>

record quote =
  q_text :: str
  q_sender :: str
  q_chat :: str
  q_chat_stamp :: str
  q_chat_name :: str
  q_sender_friendly :: str
  q_url :: str
  q_description :: str
  q_time :: i32w
  q_set_id :: i32w
  q_sticker_id :: i32w
  q_msg_id :: i64w
  q_is_forward :: bool
  q_shared_contact :: "shared_contact_data option"

definition quote_new :: quote where
  "quote_new = \<lparr>q_text = [], q_sender = [], q_chat = [], q_chat_stamp = [], q_chat_name = [],
     q_sender_friendly = [], q_url = [], q_description = [], q_time = -1, q_set_id = -1,
     q_sticker_id = -1, q_msg_id = -1, q_is_forward = False, q_shared_contact = None\<rparr>"

text \<open>A string field is written unless it is empty, a scalar unless it has its unset value.\<close>

definition push_string :: "u32w \<Rightarrow> str \<Rightarrow> tlvpack \<Rightarrow> tlvpack" where
  "push_string ty s p = (if s \<noteq> [] then push_child p (tlv_string ty s) else p)"

definition push_scalar :: "bool \<Rightarrow> u32w \<Rightarrow> bytes \<Rightarrow> tlvpack \<Rightarrow> tlvpack" where
  "push_scalar is_set ty d p = (if is_set then push_child p (tlv_scalar ty d) else p)"

definition quote_serialize :: "quote \<Rightarrow> tlvpack \<Rightarrow> tlvpack" where
  "quote_serialize q p =
     (let p1 = push_string mf_quote_text (q_text q) p;
          p2 = push_string mf_quote_sn (q_sender q) p1;
          p3 = push_string mf_quote_chat_id (q_chat q) p2;
          p4 = push_scalar (sint (q_time q) \<noteq> -1) mf_quote_time (mem_of 4 (q_time q)) p3;
          p5 = push_scalar (sint (q_msg_id q) \<noteq> -1) mf_quote_msg_id (mem_of 8 (q_msg_id q)) p4;
          p6 = push_string mf_quote_friendly (q_sender_friendly q) p5;
          p7 = push_scalar (sint (q_set_id q) \<noteq> -1) mf_quote_set_id (mem_of 4 (q_set_id q)) p6;
          p8 = push_scalar (sint (q_sticker_id q) \<noteq> -1) mf_quote_sticker_id (mem_of 4 (q_sticker_id q)) p7;
          p9 = push_scalar True mf_quote_is_forward (mem_of_bool (q_is_forward q)) p8;
          p10 = push_string mf_quote_chat_stamp (q_chat_stamp q) p9;
          p11 = push_string mf_quote_chat_name (q_chat_name q) p10;
          p12 = push_string mf_quote_url (q_url q) p11;
          p13 = push_string mf_quote_description (q_description q) p12
      in case q_shared_contact q of
           Some c \<Rightarrow> shared_contact_serialize c p13
         | None \<Rightarrow> p13)"

definition quote_unserialize :: "quote \<Rightarrow> tlvpack \<Rightarrow> quote" where
  "quote_unserialize q p =
     (let q1 = q\<lparr>q_text := field_or p mf_quote_text str_value (q_text q),
          q_sender := field_or p mf_quote_sn str_value (q_sender q),
          q_chat := field_or p mf_quote_chat_id str_value (q_chat q),
          q_time := field_or p mf_quote_time i32_value (q_time q),
          q_msg_id := field_or p mf_quote_msg_id i64_value (q_msg_id q),
          q_sender_friendly := field_or p mf_quote_friendly str_value (q_sender_friendly q),
          q_set_id := field_or p mf_quote_set_id i32_value (q_set_id q),
          q_is_forward := field_or p mf_quote_is_forward bool_value (q_is_forward q),
          q_sticker_id := field_or p mf_quote_sticker_id i32_value (q_sticker_id q),
          q_chat_stamp := field_or p mf_quote_chat_stamp str_value (q_chat_stamp q),
          q_chat_name := field_or p mf_quote_chat_name str_value (q_chat_name q),
          q_url := field_or p mf_quote_url str_value (q_url q),
          q_description := field_or p mf_quote_description str_value (q_description q)\<rparr>
      in case get_item p mf_shared_contact of
           None \<Rightarrow> q1
         | Some t \<Rightarrow>
             let (b, contact) = shared_contact_unserialize shared_contact_new (pack_value t)
             in if b then q1\<lparr>q_shared_contact := Some contact\<rparr> else q1)"

subsection \<open>Snippets\<close>

record url_snippet =
  us_url :: str
  us_content_type :: str
  us_preview_url :: str
  us_preview_width :: i32w
  us_preview_height :: i32w
  us_title :: str
  us_description :: str

definition url_snippet_make :: "str \<Rightarrow> url_snippet" where
  "url_snippet_make url = \<lparr>us_url = url, us_content_type = [], us_preview_url = [],
     us_preview_width = 0, us_preview_height = 0, us_title = [], us_description = []\<rparr>"

definition url_snippet_serialize :: "url_snippet \<Rightarrow> tlvpack \<Rightarrow> tlvpack" where
  "url_snippet_serialize s p =
     (let p1 = fold (\<lambda>(ty, v). push_string ty v)
            [(mf_snippet_url, us_url s), (mf_snippet_content_type, us_content_type s),
             (mf_snippet_preview_url, us_preview_url s), (mf_snippet_title, us_title s),
             (mf_snippet_description, us_description s)] p;
          p2 = push_scalar (us_preview_width s \<noteq> 0) mf_snippet_preview_w (mem_of 4 (us_preview_width s)) p1
      in push_scalar (us_preview_height s \<noteq> 0) mf_snippet_preview_h (mem_of 4 (us_preview_height s)) p2)"

definition url_snippet_unserialize :: "url_snippet \<Rightarrow> tlvpack \<Rightarrow> url_snippet" where
  "url_snippet_unserialize s p =
     s\<lparr>us_url := field_or p mf_snippet_url str_value (us_url s),
       us_content_type := field_or p mf_snippet_content_type str_value (us_content_type s),
       us_preview_url := field_or p mf_snippet_preview_url str_value (us_preview_url s),
       us_preview_width := field_or p mf_snippet_preview_w i32_value (us_preview_width s),
       us_preview_height := field_or p mf_snippet_preview_h i32_value (us_preview_height s),
       us_title := field_or p mf_snippet_title str_value (us_title s),
       us_description := field_or p mf_snippet_description str_value (us_description s)\<rparr>"

subsection \<open>What a serializer emits\<close>

text \<open>
  \<open>emits f is\<close>: on a well-formed pack \<open>f\<close> appends the fields \<open>is\<close> (each short enough for
  a 32-bit length).
\<close>

definition small :: "item list \<Rightarrow> bool" where
  "small is \<longleftrightarrow> (\<forall>i \<in> set is. length (snd i) \<le> 2 ^ 32 - 2)"

lemma small_simps [simp]:
  "small []"
  "small (i # is) \<longleftrightarrow> length (snd i) \<le> 2 ^ 32 - 2 \<and> small is"
  "small (is @ js) \<longleftrightarrow> small is \<and> small js"
  by (auto simp: small_def)

lemma small_pack_bytes: "length (pack_bytes is) \<le> 2 ^ 32 - 2 \<Longrightarrow> small is"
  unfolding small_def using pack_items_ok by blast

definition emits :: "(tlvpack \<Rightarrow> tlvpack) \<Rightarrow> item list \<Rightarrow> bool" where
  "emits f is \<longleftrightarrow> (small is \<longrightarrow>
     (\<forall>p. pack_wf p \<longrightarrow> pack_wf (f p) \<and> items_of (f p) = items_of p @ is))"

definition str_item :: "u32w \<Rightarrow> str \<Rightarrow> item list" where
  "str_item ty s = (if s \<noteq> [] then [(ty, s)] else [])"

definition opt_item :: "bool \<Rightarrow> u32w \<Rightarrow> bytes \<Rightarrow> item list" where
  "opt_item b ty d = (if b then [(ty, d)] else [])"

lemma push_make:
  "length d \<le> 2 ^ 32 - 2 \<Longrightarrow> pack_wf p \<Longrightarrow>
     pack_wf (push_child p (tlv_make (ty, d))) \<and>
     items_of (push_child p (tlv_make (ty, d))) = items_of p @ [(ty, d)]"
  by simp

named_theorems emit_rules "what the serializers emit"

lemma emits_id [emit_rules]: "emits (\<lambda>p. p) []"
  by (simp add: emits_def)

lemma emits_push_tlv_string [emit_rules]:
  "emits f is \<Longrightarrow> emits (\<lambda>p. push_child (f p) (tlv_string ty s)) (is @ [(ty, s)])"
  unfolding emits_def using push_make by (auto simp: tlv_string_make)

lemma emits_push_tlv_scalar [emit_rules]:
  "emits f is \<Longrightarrow> emits (\<lambda>p. push_child (f p) (tlv_scalar ty d)) (is @ [(ty, d)])"
  unfolding emits_def using push_make by (auto simp: tlv_scalar_make)

lemma emits_push_string [emit_rules]:
  "emits f is \<Longrightarrow> emits (\<lambda>p. push_string ty s (f p)) (is @ str_item ty s)"
  using emits_push_tlv_string [of f "is" ty s]
  by (cases "s = []") (simp_all add: push_string_def str_item_def)

lemma emits_push_scalar [emit_rules]:
  "emits f is \<Longrightarrow> emits (\<lambda>p. push_scalar b ty d (f p)) (is @ opt_item b ty d)"
  using emits_push_tlv_scalar [of f "is" ty d]
  by (cases b) (simp_all add: push_scalar_def opt_item_def)

lemma emits_if [emit_rules]:
  "emits f is \<Longrightarrow> emits g js \<Longrightarrow> emits (\<lambda>p. if b then f p else g p) (if b then is else js)"
  by simp

lemma emits_pack [emit_rules]:
  assumes "emits f is" and "emits g js"
  shows "emits (\<lambda>p. push_child (f p) (tlv_pack ty (g empty_pack))) (is @ [(ty, pack_bytes js)])"
  unfolding emits_def
proof (intro impI allI)
  fix p assume s: "small (is @ [(ty, pack_bytes js)])" and p: "pack_wf p"
  have len: "length (pack_bytes js) \<le> 2 ^ 32 - 2" using s by simp
  have f: "pack_wf (f p)" "items_of (f p) = items_of p @ is"
    using assms(1) s p by (auto simp: emits_def)
  have g: "pack_wf (g empty_pack)" "items_of (g empty_pack) = js"
    using assms(2) small_pack_bytes [OF len] by (auto simp: emits_def)
  show "pack_wf (push_child (f p) (tlv_pack ty (g empty_pack))) \<and>
      items_of (push_child (f p) (tlv_pack ty (g empty_pack))) = items_of p @ is @ [(ty, pack_bytes js)]"
    using f item_of_pack [OF g(1), of ty] len by (simp add: g(2))
qed

lemma emits_comp: "emits f is \<Longrightarrow> emits g js \<Longrightarrow> emits (\<lambda>p. g (f p)) (is @ js)"
  by (auto simp: emits_def)

subsection \<open>Reading from the fields of a pack\<close>

lemma field_or_pack_of [codec_simps]:
  "field_or (pack_of is) ty get old =
     (case map_of is ty of None \<Rightarrow> old | Some d \<Rightarrow> get (tlv_make (ty, d)))"
  by (simp add: field_or_def get_item_pack_of split: option.split)

declare map_of_append [simp del]

lemma map_of_items [simp]:
  "map_of (str_item t s @ r) ty = (if t = ty \<and> s \<noteq> [] then Some s else map_of r ty)"
  "map_of (opt_item b t d @ r) ty = (if t = ty \<and> b then Some d else map_of r ty)"
  "map_of (str_item t s) ty = (if t = ty \<and> s \<noteq> [] then Some s else None)"
  "map_of (opt_item b t d) ty = (if t = ty \<and> b then Some d else None)"
  by (simp_all add: str_item_def opt_item_def map_of_append map_add_def split: option.split)

lemma values_make [codec_simps]:
  "length s \<le> 2 ^ 32 - 2 \<Longrightarrow> str_value (tlv_make (ty, s)) = s"
  "i32_value (tlv_make (ty, mem_of 4 w)) = w"
  "i64_value (tlv_make (ty, mem_of 8 x)) = x"
  "bool_value (tlv_make (ty, mem_of_bool b)) = b"
  by (simp_all add: str_value_def get_string_make i32_value_def i64_value_def bool_value_def
      get_scalar_make val_of_mem_of_32 val_of_mem_of_64)

lemma pack_value_make [codec_simps]:
  "length (pack_bytes is) \<le> 2 ^ 32 - 2 \<Longrightarrow> pack_value (tlv_make (ty, pack_bytes is)) = pack_of is"
  by (simp add: pack_value_def get_pack_make decode_pack_bytes)

lemma small_str_item [simp]: "small (str_item ty s) \<longleftrightarrow> length s \<le> 2 ^ 32 - 2"
  by (simp add: str_item_def)

subsection \<open>Contacts and stickers round trip\<close>

definition shared_contact_items :: "shared_contact_data \<Rightarrow> item list" where
  "shared_contact_items c = [(mf_shared_contact_name, sc_name c),
     (mf_shared_contact_phone, sc_phone c), (mf_shared_contact_sn, sc_sn c)]"

lemma emits_shared_contact [emit_rules]:
  assumes "emits f is"
  shows "emits (\<lambda>p. shared_contact_serialize c (f p))
    (is @ [(mf_shared_contact, pack_bytes (shared_contact_items c))])"
proof -
  have "emits (\<lambda>p. push_child (push_child (push_child p (tlv_string mf_shared_contact_name (sc_name c)))
        (tlv_string mf_shared_contact_phone (sc_phone c))) (tlv_string mf_shared_contact_sn (sc_sn c)))
      ((([] @ [(mf_shared_contact_name, sc_name c)]) @ [(mf_shared_contact_phone, sc_phone c)]) @
        [(mf_shared_contact_sn, sc_sn c)])"
    by (intro emit_rules)
  from emits_pack [OF assms this, of mf_shared_contact] show ?thesis
    by (simp add: shared_contact_serialize_def shared_contact_items_def Let_def)
qed

lemma shared_contact_round_trip:
  assumes "small (shared_contact_items c)"
  shows "shared_contact_unserialize shared_contact_new (pack_of (shared_contact_items c)) = (True, c)"
  using assms
  by (simp add: shared_contact_unserialize_def shared_contact_items_def codec_simps mf_parts)

lemma emits_sticker [emit_rules]:
  "emits f is \<Longrightarrow> emits (\<lambda>p. sticker_serialize s (f p)) (is @ [(mf_sticker_id, st_id s)])"
  unfolding sticker_serialize_def by (rule emits_push_tlv_string)

lemma sticker_round_trip:
  "length (st_id s) \<le> 2 ^ 32 - 2 \<Longrightarrow>
     sticker_unserialize sticker_new (pack_of [(mf_sticker_id, st_id s)]) = (0, s)"
  by (simp add: sticker_unserialize_def codec_simps)

subsection \<open>Members and calls round trip\<close>

primrec member_items :: "u32w \<Rightarrow> str list \<Rightarrow> item list" where
  "member_items i [] = []"
| "member_items i (m # ms) = (i, m) # member_items (i + 1) ms"

lemma length_member_items [simp]: "length (member_items i ms) = length ms"
  by (induction ms arbitrary: i) simp_all

lemma small_member_items: "small (member_items i ms) \<longleftrightarrow> (\<forall>m \<in> set ms. length m \<le> 2 ^ 32 - 2)"
  by (induction ms arbitrary: i) simp_all

lemma emits_members [emit_rules]: "emits (members_pack i ms) (member_items i ms)"
proof (induction ms arbitrary: i)
  case Nil
  have "members_pack i [] = (\<lambda>p. p)" by (rule ext) simp
  then show ?case using emits_id by simp
next
  case (Cons m ms)
  have "members_pack i (m # ms) = (\<lambda>p. members_pack (i + 1) ms (push_child p (tlv_string i m)))"
    by (rule ext) simp
  then show ?case
    using emits_comp [OF emits_push_tlv_string [OF emits_id, of i m] Cons.IH [of "i + 1"]] by simp
qed

lemma map_of_member_items:
  "i + length ms < 2 ^ 32 \<Longrightarrow> k < length ms \<Longrightarrow>
     map_of (member_items (word_of_nat i) ms) (word_of_nat (i + k)) = Some (ms ! k)"
proof (induction ms arbitrary: i k)
  case (Cons m ms)
  show ?case
  proof (cases k)
    case 0
    then show ?thesis by simp
  next
    case (Suc j)
    have ne: "(word_of_nat (i + k) :: u32w) \<noteq> word_of_nat i"
    proof
      assume "(word_of_nat (i + k) :: u32w) = word_of_nat i"
      then have "unat (word_of_nat (i + k) :: u32w) = unat (word_of_nat i :: u32w)" by simp
      then show False
        using Cons.prems Suc by (simp only: unat_of_nat len_of_numeral_defs) simp
    qed
    have "map_of (member_items (word_of_nat (Suc i)) ms) (word_of_nat (Suc i + j)) = Some (ms ! j)"
      using Cons.IH [of "Suc i" j] Cons.prems Suc by simp
    then show ?thesis using ne Suc by (simp add: add.commute)
  qed
qed simp

lemma get_member_item:
  assumes "length ms < 2 ^ 32" and "small (member_items 0 ms)" and "k < length ms"
  shows "\<exists>t. get_item (pack_of (member_items 0 ms)) (word_of_nat k) = Some t \<and> str_value t = ms ! k"
proof -
  have "length (ms ! k) \<le> 2 ^ 32 - 2"
    using assms(2,3) by (simp add: small_member_items)
  then show ?thesis
    using map_of_member_items [of 0 ms k] assms(1,3)
    by (simp add: get_item_pack_of values_make)
qed

lemma pack_size_pack_of [simp]: "pack_size (pack_of is) = u32 (length is)"
  by (simp add: pack_size_def pack_of_def)

lemma map_nth_upt: "map (\<lambda>k. f (ms ! k)) [0..<length ms] = map f ms"
  by (rule nth_equalityI) simp_all

lemma conf_members_round_trip:
  assumes "length ms < 2 ^ 32" and "small (member_items 0 ms)"
  shows "conf_members_of (pack_of (member_items 0 ms)) = filter (\<lambda>m. m \<noteq> []) ms"
proof -
  let ?g = "\<lambda>k. case get_item (pack_of (member_items 0 ms)) (word_of_nat k) of
      None \<Rightarrow> [] | Some t \<Rightarrow> let m = str_value t in if m \<noteq> [] then [m] else []"
  have "map ?g [0..<length ms] = map (\<lambda>k. (\<lambda>m. if m \<noteq> [] then [m] else []) (ms ! k)) [0..<length ms]"
  proof (rule map_cong)
    fix k assume "k \<in> set [0..<length ms]"
    then have "k < length ms" by simp
    then obtain t where "get_item (pack_of (member_items 0 ms)) (word_of_nat k) = Some t"
      "str_value t = ms ! k"
      using get_member_item [OF assms] by blast
    then show "?g k = (\<lambda>m. if m \<noteq> [] then [m] else []) (ms ! k)" by (simp add: Let_def)
  qed simp
  also have "\<dots> = map (\<lambda>m. if m \<noteq> [] then [m] else []) ms"
    by (rule map_nth_upt)
  finally have "conf_members_of (pack_of (member_items 0 ms)) =
      concat (map (\<lambda>m. if m \<noteq> [] then [m] else []) ms)"
    using assms(1) by (simp add: conf_members_of_def)
  also have "\<dots> = filter (\<lambda>m. m \<noteq> []) ms"
    by (induction ms) auto
  finally show ?thesis .
qed

lemma members_round_trip:
  assumes "length ms < 2 ^ 32" and "small (member_items 0 ms)"
  shows "members_of (pack_of (member_items 0 ms)) = Some ms"
proof -
  let ?ts = "map (\<lambda>k. get_item (pack_of (member_items 0 ms)) (word_of_nat k)) [0..<length ms]"
  have "None \<notin> set ?ts"
    using get_member_item [OF assms] by fastforce
  moreover have "map (\<lambda>t. str_value (the t)) ?ts = map (\<lambda>k. ms ! k) [0..<length ms]"
  proof -
    have "str_value (the (get_item (pack_of (member_items 0 ms)) (word_of_nat k))) = ms ! k"
      if "k < length ms" for k
      using get_member_item [OF assms that] by auto
    then show ?thesis by simp
  qed
  moreover have "map (\<lambda>k. ms ! k) [0..<length ms] = ms" by (rule map_nth)
  ultimately show ?thesis
    using assms(1) by (simp add: members_of_def Let_def)
qed

definition members_item :: "u32w \<Rightarrow> str list \<Rightarrow> item" where
  "members_item ty ms = (ty, pack_bytes (member_items 0 ms))"

definition voip_items :: "voip_data \<Rightarrow> item list" where
  "voip_items v =
     (mf_voip_event_type, mem_of 4 (vd_type v)) #
     (mf_voip_sender_aimid, vd_sender_aimid v) #
     (mf_voip_sender_friendly, vd_sender_friendly v) #
     opt_item (sint (vd_duration_sec v) \<ge> 0) mf_voip_duration (mem_of 4 (vd_duration_sec v)) @
     opt_item (sint (vd_is_incoming v) \<ge> 0) mf_voip_is_incoming (mem_of 4 (vd_is_incoming v)) @
     opt_item (vd_is_video v) mf_voip_is_video (mem_of_bool (vd_is_video v)) @
     opt_item (vd_conf_members v \<noteq> []) mf_voip_conf_members
       (pack_bytes (member_items 0 (vd_conf_members v)))"

lemma emits_push_if [emit_rules]:
  "emits f is \<Longrightarrow> emits (\<lambda>p. if b then push_child (f p) (tlv_scalar ty d) else f p) (is @ opt_item b ty d)"
  using emits_push_scalar [of f "is" b ty d] by (simp add: push_scalar_def)

lemma emits_push_members_if [emit_rules]:
  assumes "emits f is"
  shows "emits (\<lambda>p. if b then push_child (f p) (tlv_pack ty (members_pack 0 ms empty_pack)) else f p)
    (is @ opt_item b ty (pack_bytes (member_items 0 ms)))"
  using emits_pack [OF assms emits_members] assms by (simp add: opt_item_def)

lemma emits_voip: "emits (voip_serialize v) (voip_items v)"
proof -
  have "emits (\<lambda>p. voip_serialize v p)
    (((((((([] @ [(mf_voip_event_type, mem_of 4 (vd_type v))]) @
     [(mf_voip_sender_aimid, vd_sender_aimid v)]) @
     [(mf_voip_sender_friendly, vd_sender_friendly v)]) @
     opt_item (sint (vd_duration_sec v) \<ge> 0) mf_voip_duration (mem_of 4 (vd_duration_sec v))) @
     opt_item (sint (vd_is_incoming v) \<ge> 0) mf_voip_is_incoming (mem_of 4 (vd_is_incoming v))) @
     opt_item (vd_is_video v) mf_voip_is_video (mem_of_bool (vd_is_video v))) @
     opt_item (vd_conf_members v \<noteq> []) mf_voip_conf_members
       (pack_bytes (member_items 0 (vd_conf_members v)))))"
    unfolding voip_serialize_def Let_def by (intro emit_rules)
  then show ?thesis by (simp add: voip_items_def)
qed

definition voip_wf :: "voip_data \<Rightarrow> bool" where
  "voip_wf v \<longleftrightarrow> sint vet_min < sint (vd_type v) \<and> sint (vd_type v) < sint vet_max \<and>
     vd_sender_aimid v \<noteq> [] \<and> vd_sender_friendly v \<noteq> [] \<and>
     sint (vd_duration_sec v) \<ge> -1 \<and> sint (vd_is_incoming v) \<ge> -1 \<and>
     [] \<notin> set (vd_conf_members v) \<and> length (vd_conf_members v) < 2 ^ 32"

lemma sint_minus_one: "sint (w :: i32w) \<ge> -1 \<Longrightarrow> \<not> sint w \<ge> 0 \<Longrightarrow> w = -1"
proof -
  assume "sint w \<ge> -1" "\<not> sint w \<ge> 0"
  then have "sint w = sint (-1 :: i32w)" by simp
  then show "w = -1" by (rule signed_word_eqI)
qed

lemma voip_round_trip:
  assumes "voip_wf v" and "small (voip_items v)"
  shows "voip_unserialize voip_new (pack_of (voip_items v)) = (True, v)"
proof -
  have wf: "sint vet_min < sint (vd_type v)" "sint (vd_type v) < sint vet_max"
    "vd_sender_aimid v \<noteq> []" "vd_sender_friendly v \<noteq> []"
    "sint (vd_duration_sec v) \<ge> -1" "sint (vd_is_incoming v) \<ge> -1"
    "[] \<notin> set (vd_conf_members v)" "length (vd_conf_members v) < 2 ^ 32"
    using assms(1) by (auto simp: voip_wf_def)
  have sm: "length (vd_sender_aimid v) \<le> 2 ^ 32 - 2" "length (vd_sender_friendly v) \<le> 2 ^ 32 - 2"
    using assms(2) by (auto simp: voip_items_def)
  have gets: "get_item (pack_of (voip_items v)) mf_voip_event_type =
      Some (tlv_make (mf_voip_event_type, mem_of 4 (vd_type v)))"
    "get_item (pack_of (voip_items v)) mf_voip_sender_aimid =
      Some (tlv_make (mf_voip_sender_aimid, vd_sender_aimid v))"
    "get_item (pack_of (voip_items v)) mf_voip_sender_friendly =
      Some (tlv_make (mf_voip_sender_friendly, vd_sender_friendly v))"
    by (simp_all add: get_item_pack_of voip_items_def mf_parts)
  have dur: "field_or (pack_of (voip_items v)) mf_voip_duration i32_value (-1) = vd_duration_sec v"
    using sint_minus_one [OF wf(5)]
    by (simp add: codec_simps voip_items_def mf_parts)
  have inc: "field_or (pack_of (voip_items v)) mf_voip_is_incoming i32_value (-1) = vd_is_incoming v"
    using sint_minus_one [OF wf(6)]
    by (simp add: codec_simps voip_items_def mf_parts)
  have vid: "field_or (pack_of (voip_items v)) mf_voip_is_video bool_value False = vd_is_video v"
    by (simp add: codec_simps voip_items_def mf_parts)
  have conf: "field_or (pack_of (voip_items v)) mf_voip_conf_members
      (\<lambda>t. conf_members_of (pack_value t)) [] = vd_conf_members v"
  proof (cases "vd_conf_members v = []")
    case True
    then show ?thesis by (simp add: codec_simps voip_items_def mf_parts)
  next
    case False
    have len: "length (pack_bytes (member_items 0 (vd_conf_members v))) \<le> 2 ^ 32 - 2"
      using assms(2) False by (simp add: voip_items_def opt_item_def)
    have "filter (\<lambda>m. m \<noteq> []) (vd_conf_members v) = vd_conf_members v"
      using wf(7) by (auto simp: filter_id_conv)
    then show ?thesis
      using conf_members_round_trip [OF wf(8) small_pack_bytes [OF len]] False len
      by (simp add: field_or_pack_of voip_items_def mf_parts pack_value_make)
  qed
  show ?thesis
    using wf sm by (simp add: voip_unserialize_def gets voip_new_def values_make dur inc vid conf)
qed

subsection \<open>Chats and files round trip\<close>

definition chat_items :: "chat_data \<Rightarrow> item list" where
  "chat_items c = [(mf_chat_sender, cd_sender c), (mf_chat_name, cd_name c),
     (mf_chat_friendly, friendly (cd_friendly c)),
     (mf_friendly_official, mem_of_optional_bool (cd_friendly c))]"

text \<open>What is left of the chat data after it was stored: an official flag is always set.\<close>

definition chat_stored :: "chat_data \<Rightarrow> chat_data" where
  "chat_stored c = c\<lparr>cd_friendly := person_new\<lparr>friendly := friendly (cd_friendly c),
     official := Some (case official (cd_friendly c) of
       Some b \<Rightarrow> b | None \<Rightarrow> official_payload (cd_friendly c) \<noteq> 0)\<rparr>\<rparr>"

lemma emits_chat: "emits (chat_serialize c) (chat_items c)"
proof -
  have "emits (\<lambda>p. chat_serialize c p)
    (((([] @ [(mf_chat_sender, cd_sender c)]) @ [(mf_chat_name, cd_name c)]) @
     [(mf_chat_friendly, friendly (cd_friendly c))]) @
     [(mf_friendly_official, mem_of_optional_bool (cd_friendly c))])"
    unfolding chat_serialize_def Let_def by (intro emit_rules)
  then show ?thesis by (simp add: chat_items_def)
qed

lemma chat_round_trip:
  assumes "small (chat_items c)"
  shows "chat_unserialize chat_data_new (pack_of (chat_items c)) = (0, chat_stored c)"
proof -
  have b: "bool_value (tlv_make (ty, mem_of_optional_bool p)) =
      (case official p of Some b \<Rightarrow> b | None \<Rightarrow> official_payload p \<noteq> 0)" for ty p
    by (simp add: bool_value_def get_scalar_make mem_of_optional_bool_def mem_of_bool_def bool_of_def
        split: option.split)
  show ?thesis
    using assms
    by (simp add: chat_unserialize_def chat_items_def chat_stored_def codec_simps b
        mf_parts chat_data_new_def person_new_def)
qed

definition file_sharing_items :: "file_sharing_data \<Rightarrow> item list" where
  "file_sharing_items f =
     (if fs_uri f \<noteq> [] then (mf_file_sharing_uri, fs_uri f)
      else (mf_file_sharing_local_path, fs_local_path f)) #
     opt_item (fs_duration f \<noteq> None) mf_file_sharing_duration (mem_of 8 (the (fs_duration f))) @
     opt_item (fs_base_content_type f \<noteq> None) mf_file_sharing_base_content_type
       (mem_of 4 (the (fs_base_content_type f)))"

lemma emits_push_option_scalar [emit_rules]:
  "emits f is \<Longrightarrow> emits (\<lambda>p. case x of Some a \<Rightarrow> push_child (f p) (tlv_scalar ty (g a)) | None \<Rightarrow> f p)
     (is @ opt_item (x \<noteq> None) ty (g (the x)))"
  using emits_push_if [of f "is" "x \<noteq> None" ty "g (the x)"] by (cases x) simp_all

lemma emits_file_sharing: "emits (file_sharing_serialize f) (file_sharing_items f)"
proof -
  have "emits (\<lambda>p. file_sharing_serialize f p)
    ((if fs_uri f \<noteq> [] then [] @ [(mf_file_sharing_uri, fs_uri f)]
      else [] @ [(mf_file_sharing_local_path, fs_local_path f)]) @
     opt_item (fs_duration f \<noteq> None) mf_file_sharing_duration (mem_of 8 (the (fs_duration f))) @
     opt_item (fs_base_content_type f \<noteq> None) mf_file_sharing_base_content_type
       (mem_of 4 (the (fs_base_content_type f))))"
    unfolding file_sharing_serialize_def Let_def append_assoc [symmetric]
    by (intro emits_push_option_scalar emits_if emits_push_tlv_string emits_id)
  then show ?thesis by (simp add: file_sharing_items_def split: if_splits)
qed

definition file_sharing_wf :: "file_sharing_data \<Rightarrow> bool" where
  "file_sharing_wf f \<longleftrightarrow> fs_uri f = [] \<or> fs_local_path f = []"

lemma file_sharing_round_trip:
  assumes "file_sharing_wf f" and "small (file_sharing_items f)"
  shows "file_sharing_of_pack (pack_of (file_sharing_items f)) = Some f"
proof -
  have len: "fs_uri f \<noteq> [] \<Longrightarrow> length (fs_uri f) \<le> 2 ^ 32 - 2"
    "fs_uri f = [] \<Longrightarrow> length (fs_local_path f) \<le> 2 ^ 32 - 2"
    using assms(2) by (auto simp: file_sharing_items_def)
  show ?thesis
    using assms(1) len
    by (cases "fs_uri f = []"; cases "fs_duration f"; cases "fs_base_content_type f"; cases f)
      (simp_all add: file_sharing_of_pack_def file_sharing_items_def file_sharing_new_def
        file_sharing_wf_def codec_simps mf_parts)
qed

subsection \<open>Quotes and snippets round trip\<close>

definition quote_items :: "quote \<Rightarrow> item list" where
  "quote_items q =
     str_item mf_quote_text (q_text q) @
     str_item mf_quote_sn (q_sender q) @
     str_item mf_quote_chat_id (q_chat q) @
     opt_item (sint (q_time q) \<noteq> -1) mf_quote_time (mem_of 4 (q_time q)) @
     opt_item (sint (q_msg_id q) \<noteq> -1) mf_quote_msg_id (mem_of 8 (q_msg_id q)) @
     str_item mf_quote_friendly (q_sender_friendly q) @
     opt_item (sint (q_set_id q) \<noteq> -1) mf_quote_set_id (mem_of 4 (q_set_id q)) @
     opt_item (sint (q_sticker_id q) \<noteq> -1) mf_quote_sticker_id (mem_of 4 (q_sticker_id q)) @
     opt_item True mf_quote_is_forward (mem_of_bool (q_is_forward q)) @
     str_item mf_quote_chat_stamp (q_chat_stamp q) @
     str_item mf_quote_chat_name (q_chat_name q) @
     str_item mf_quote_url (q_url q) @
     str_item mf_quote_description (q_description q) @
     (case q_shared_contact q of
        Some c \<Rightarrow> [(mf_shared_contact, pack_bytes (shared_contact_items c))] | None \<Rightarrow> [])"

lemma emits_option_contact [emit_rules]:
  "emits f is \<Longrightarrow> emits (\<lambda>p. case x of Some c \<Rightarrow> shared_contact_serialize c (f p) | None \<Rightarrow> f p)
     (is @ (case x of Some c \<Rightarrow> [(mf_shared_contact, pack_bytes (shared_contact_items c))] | None \<Rightarrow> []))"
  using emits_shared_contact [of f "is"] by (cases x) simp_all

lemma emits_quote: "emits (quote_serialize q) (quote_items q)"
proof -
  have "emits (\<lambda>p. quote_serialize q p) ([] @ quote_items q)"
    unfolding quote_serialize_def Let_def quote_items_def append_assoc [symmetric]
    by (intro emit_rules)
  then show ?thesis by simp
qed

lemma sint_is_minus_one [simp]: "sint (w :: 'a::len word) = -1 \<longleftrightarrow> w = -1"
  by (metis signed_minus_1 signed_word_eqI)

lemma field_or_str:
  "(s \<noteq> [] \<Longrightarrow> length s \<le> 2 ^ 32 - 2) \<Longrightarrow>
     (case (if s \<noteq> [] then Some s else None) of None \<Rightarrow> [] | Some d \<Rightarrow> str_value (tlv_make (ty, d))) = s"
  by (simp add: values_make)

lemma quote_round_trip:
  assumes "small (quote_items q)"
  shows "quote_unserialize quote_new (pack_of (quote_items q)) = q"
proof -
  have sm: "length (q_text q) \<le> 2 ^ 32 - 2" "length (q_sender q) \<le> 2 ^ 32 - 2"
    "length (q_chat q) \<le> 2 ^ 32 - 2" "length (q_sender_friendly q) \<le> 2 ^ 32 - 2"
    "length (q_chat_stamp q) \<le> 2 ^ 32 - 2" "length (q_chat_name q) \<le> 2 ^ 32 - 2"
    "length (q_url q) \<le> 2 ^ 32 - 2" "length (q_description q) \<le> 2 ^ 32 - 2"
    using assms by (simp_all add: quote_items_def)
  have contact: "get_item (pack_of (quote_items q)) mf_shared_contact =
      map_option (\<lambda>c. tlv_make (mf_shared_contact, pack_bytes (shared_contact_items c))) (q_shared_contact q)"
    by (simp add: get_item_pack_of quote_items_def mf_parts mf_shared_contact_def split: option.split)
  have str: "field_or (pack_of (quote_items q)) mf_quote_text str_value [] = q_text q"
    "field_or (pack_of (quote_items q)) mf_quote_sn str_value [] = q_sender q"
    "field_or (pack_of (quote_items q)) mf_quote_chat_id str_value [] = q_chat q"
    "field_or (pack_of (quote_items q)) mf_quote_friendly str_value [] = q_sender_friendly q"
    "field_or (pack_of (quote_items q)) mf_quote_chat_stamp str_value [] = q_chat_stamp q"
    "field_or (pack_of (quote_items q)) mf_quote_chat_name str_value [] = q_chat_name q"
    "field_or (pack_of (quote_items q)) mf_quote_url str_value [] = q_url q"
    "field_or (pack_of (quote_items q)) mf_quote_description str_value [] = q_description q"
    using sm by (simp_all add: field_or_pack_of quote_items_def mf_parts mf_shared_contact_def values_make
        split: option.split)
  have num: "field_or (pack_of (quote_items q)) mf_quote_time i32_value (-1) = q_time q"
    "field_or (pack_of (quote_items q)) mf_quote_msg_id i64_value (-1) = q_msg_id q"
    "field_or (pack_of (quote_items q)) mf_quote_set_id i32_value (-1) = q_set_id q"
    "field_or (pack_of (quote_items q)) mf_quote_sticker_id i32_value (-1) = q_sticker_id q"
    "field_or (pack_of (quote_items q)) mf_quote_is_forward bool_value False = q_is_forward q"
    by (simp_all add: field_or_pack_of quote_items_def mf_parts mf_shared_contact_def values_make
        split: option.split)
  show ?thesis
  proof (cases "q_shared_contact q")
    case None
    then show ?thesis
      by (simp add: quote_unserialize_def contact quote_new_def str num)
  next
    case (Some c)
    have len: "length (pack_bytes (shared_contact_items c)) \<le> 2 ^ 32 - 2"
      using assms by (simp add: quote_items_def Some)
    show ?thesis
      using Some
      by (simp add: quote_unserialize_def contact quote_new_def str num pack_value_make [OF len]
          shared_contact_round_trip [OF small_pack_bytes [OF len]])
  qed
qed

definition url_snippet_items :: "url_snippet \<Rightarrow> item list" where
  "url_snippet_items s =
     str_item mf_snippet_url (us_url s) @
     str_item mf_snippet_content_type (us_content_type s) @
     str_item mf_snippet_preview_url (us_preview_url s) @
     str_item mf_snippet_title (us_title s) @
     str_item mf_snippet_description (us_description s) @
     opt_item (us_preview_width s \<noteq> 0) mf_snippet_preview_w (mem_of 4 (us_preview_width s)) @
     opt_item (us_preview_height s \<noteq> 0) mf_snippet_preview_h (mem_of 4 (us_preview_height s))"

lemma emits_url_snippet: "emits (url_snippet_serialize s) (url_snippet_items s)"
proof -
  have "emits (\<lambda>p. url_snippet_serialize s p) ([] @ url_snippet_items s)"
    unfolding url_snippet_serialize_def Let_def url_snippet_items_def append_assoc [symmetric]
      fold.simps o_apply id_apply prod.case
    by (intro emit_rules)
  then show ?thesis by simp
qed

lemma url_snippet_round_trip:
  assumes "small (url_snippet_items s)"
  shows "url_snippet_unserialize (url_snippet_make []) (pack_of (url_snippet_items s)) = s"
  using assms
  by (cases s) (simp add: url_snippet_unserialize_def url_snippet_items_def url_snippet_make_def
      codec_simps mf_parts)

subsection \<open>Chat events round trip\<close>

definition chat_event_items :: "chat_event_data \<Rightarrow> item list" where
  "chat_event_items e =
     (mf_chat_event_type, mem_of 4 (ce_type e)) #
     opt_item (ce_is_captcha_present e) mf_chat_event_is_captcha_present
       (mem_of_bool (ce_is_captcha_present e)) @
     opt_item (has_sender_aimid e) mf_chat_event_sender_aimid (ce_sender_aimid e) @
     opt_item (has_sender_aimid e) mf_chat_event_sender_friendly (ce_sender_friendly e) @
     opt_item (has_mchat_members e) mf_chat_event_mchat_members
       (pack_bytes (member_items 0 (ce_members_friendly e))) @
     opt_item (has_mchat_members e) mf_chat_event_mchat_members_aimids
       (pack_bytes (member_items 0 (ce_members e))) @
     opt_item (ce_type e = cet_chat_name_modified) mf_chat_event_new_chat_name (ce_new_name e) @
     opt_item (ce_type e = cet_chat_description_modified) mf_chat_event_new_chat_description
       (ce_new_description e) @
     opt_item (ce_type e = cet_chat_rules_modified) mf_chat_event_new_chat_rules (ce_new_rules e) @
     opt_item (has_generic_text e) mf_chat_event_generic_text (ce_generic e)"

lemma emits_push_string_if [emit_rules]:
  "emits f is \<Longrightarrow> emits (\<lambda>p. if b then push_child (f p) (tlv_string ty s) else f p) (is @ opt_item b ty s)"
  using emits_push_tlv_string [of f "is" ty s] by (cases b) (simp_all add: opt_item_def)

lemma emits_chat_modifications:
  assumes "emits f is"
  shows "emits (\<lambda>p. if has_chat_modifications e then serialize_chat_modifications e (f p) else f p)
    (is @ opt_item (ce_type e = cet_chat_name_modified) mf_chat_event_new_chat_name (ce_new_name e) @
     opt_item (ce_type e = cet_chat_description_modified) mf_chat_event_new_chat_description
       (ce_new_description e) @
     opt_item (ce_type e = cet_chat_rules_modified) mf_chat_event_new_chat_rules (ce_new_rules e))"
proof -
  have "emits (\<lambda>p. serialize_chat_modifications e (f p))
    (is @ opt_item (ce_type e = cet_chat_name_modified) mf_chat_event_new_chat_name (ce_new_name e) @
     opt_item (ce_type e = cet_chat_description_modified) mf_chat_event_new_chat_description
       (ce_new_description e) @
     opt_item (ce_type e = cet_chat_rules_modified) mf_chat_event_new_chat_rules (ce_new_rules e))"
    unfolding serialize_chat_modifications_def Let_def append_assoc [symmetric]
    by (intro emits_push_string_if assms)
  then show ?thesis
    using assms by (cases "has_chat_modifications e")
      (simp_all add: has_chat_modifications_def opt_item_def)
qed

lemma emits_mchat_members:
  assumes "emits f is"
  shows "emits (\<lambda>p. if has_mchat_members e
      then serialize_mchat_members_aimids e (serialize_mchat_members e (f p)) else f p)
    (is @ opt_item (has_mchat_members e) mf_chat_event_mchat_members
       (pack_bytes (member_items 0 (ce_members_friendly e))) @
     opt_item (has_mchat_members e) mf_chat_event_mchat_members_aimids
       (pack_bytes (member_items 0 (ce_members e))))"
  using emits_pack [OF emits_pack [OF assms emits_members] emits_members] assms
  by (cases "has_mchat_members e")
    (simp_all add: opt_item_def serialize_mchat_members_def serialize_mchat_members_aimids_def)

lemma emits_sender:
  assumes "emits f is"
  shows "emits (\<lambda>p. if b then push_child (push_child (f p) (tlv_string ty s)) (tlv_string ty' s') else f p)
    (is @ opt_item b ty s @ opt_item b ty' s')"
  using emits_push_tlv_string [OF emits_push_tlv_string [OF assms]] assms
  by (cases b) (simp_all add: opt_item_def)

lemma emits_chat_event: "emits (chat_event_serialize e) (chat_event_items e)"
proof -
  have "emits (\<lambda>p. chat_event_serialize e p)
    (((((([] @ [(mf_chat_event_type, mem_of 4 (ce_type e))]) @
     opt_item (ce_is_captcha_present e) mf_chat_event_is_captcha_present
       (mem_of_bool (ce_is_captcha_present e))) @
     opt_item (has_sender_aimid e) mf_chat_event_sender_aimid (ce_sender_aimid e) @
     opt_item (has_sender_aimid e) mf_chat_event_sender_friendly (ce_sender_friendly e)) @
     opt_item (has_mchat_members e) mf_chat_event_mchat_members
       (pack_bytes (member_items 0 (ce_members_friendly e))) @
     opt_item (has_mchat_members e) mf_chat_event_mchat_members_aimids
       (pack_bytes (member_items 0 (ce_members e)))) @
     opt_item (ce_type e = cet_chat_name_modified) mf_chat_event_new_chat_name (ce_new_name e) @
     opt_item (ce_type e = cet_chat_description_modified) mf_chat_event_new_chat_description
       (ce_new_description e) @
     opt_item (ce_type e = cet_chat_rules_modified) mf_chat_event_new_chat_rules (ce_new_rules e)) @
     opt_item (has_generic_text e) mf_chat_event_generic_text (ce_generic e))"
    unfolding chat_event_serialize_def Let_def
    by (intro emits_push_string_if emits_chat_modifications emits_mchat_members emits_sender
        emits_push_if emits_push_tlv_scalar emits_id)
  then show ?thesis by (simp add: chat_event_items_def)
qed

text \<open>Events whose parts are those of their type.\<close>

definition chat_event_wf :: "chat_event_data \<Rightarrow> bool" where
  "chat_event_wf e \<longleftrightarrow>
     (\<not> has_sender_aimid e \<longrightarrow> ce_sender_aimid e = [] \<and> ce_sender_friendly e = []) \<and>
     (if has_mchat_members e
      then length (ce_members e) < 2 ^ 32 \<and> length (ce_members_friendly e) < 2 ^ 32
      else ce_members e = [] \<and> ce_members_friendly e = []) \<and>
     (ce_type e \<noteq> cet_chat_name_modified \<longrightarrow> ce_new_name e = []) \<and>
     (ce_type e \<noteq> cet_chat_description_modified \<longrightarrow> ce_new_description e = []) \<and>
     (ce_type e \<noteq> cet_chat_rules_modified \<longrightarrow> ce_new_rules e = []) \<and>
     (\<not> has_generic_text e \<longrightarrow> ce_generic e = [])"

lemma event_type_only:
  "ce_type e = ce_type f \<Longrightarrow> has_sender_aimid e = has_sender_aimid f"
  "ce_type e = ce_type f \<Longrightarrow> has_mchat_members e = has_mchat_members f"
  "ce_type e = ce_type f \<Longrightarrow> has_chat_modifications e = has_chat_modifications f"
  "ce_type e = ce_type f \<Longrightarrow> has_generic_text e = has_generic_text f"
  by (simp_all add: has_sender_aimid_def has_mchat_members_def has_chat_modifications_def
      has_generic_text_def)

lemma chat_event_round_trip:
  assumes wf: "chat_event_wf e" and small: "small (chat_event_items e)"
  shows "chat_event_of_pack (pack_of (chat_event_items e)) = Some e"
proof -
  let ?p = "pack_of (chat_event_items e)"
  have gi: "get_item ?p mf_chat_event_type = Some (tlv_make (mf_chat_event_type, mem_of 4 (ce_type e)))"
    "has_sender_aimid e \<Longrightarrow> get_item ?p mf_chat_event_sender_friendly =
      Some (tlv_make (mf_chat_event_sender_friendly, ce_sender_friendly e))"
    "ce_type e = cet_chat_name_modified \<Longrightarrow> get_item ?p mf_chat_event_new_chat_name =
      Some (tlv_make (mf_chat_event_new_chat_name, ce_new_name e))"
    "ce_type e = cet_chat_description_modified \<Longrightarrow> get_item ?p mf_chat_event_new_chat_description =
      Some (tlv_make (mf_chat_event_new_chat_description, ce_new_description e))"
    "ce_type e = cet_chat_rules_modified \<Longrightarrow> get_item ?p mf_chat_event_new_chat_rules =
      Some (tlv_make (mf_chat_event_new_chat_rules, ce_new_rules e))"
    "has_generic_text e \<Longrightarrow> get_item ?p mf_chat_event_generic_text =
      Some (tlv_make (mf_chat_event_generic_text, ce_generic e))"
    by (simp_all add: get_item_pack_of chat_event_items_def mf_parts)
  have fo: "field_or ?p mf_chat_event_is_captcha_present bool_value False = ce_is_captcha_present e"
    by (simp add: field_or_pack_of chat_event_items_def mf_parts values_make)
  have len: "has_sender_aimid e \<Longrightarrow> length (ce_sender_aimid e) \<le> 2 ^ 32 - 2 \<and>
      length (ce_sender_friendly e) \<le> 2 ^ 32 - 2"
    "ce_type e = cet_chat_name_modified \<Longrightarrow> length (ce_new_name e) \<le> 2 ^ 32 - 2"
    "ce_type e = cet_chat_description_modified \<Longrightarrow> length (ce_new_description e) \<le> 2 ^ 32 - 2"
    "ce_type e = cet_chat_rules_modified \<Longrightarrow> length (ce_new_rules e) \<le> 2 ^ 32 - 2"
    "has_generic_text e \<Longrightarrow> length (ce_generic e) \<le> 2 ^ 32 - 2"
    "has_mchat_members e \<Longrightarrow> length (pack_bytes (member_items 0 (ce_members e))) \<le> 2 ^ 32 - 2 \<and>
      length (pack_bytes (member_items 0 (ce_members_friendly e))) \<le> 2 ^ 32 - 2"
    using small by (simp_all add: chat_event_items_def opt_item_def)
  have fa: "has_sender_aimid e \<Longrightarrow> field_or ?p mf_chat_event_sender_aimid str_value [] = ce_sender_aimid e"
    using len(1) by (simp add: field_or_pack_of chat_event_items_def mf_parts values_make)
  have mem: "has_mchat_members e \<Longrightarrow>
      field_or ?p mf_chat_event_mchat_members (\<lambda>t. members_of (pack_value t)) (Some []) =
        Some (ce_members_friendly e)"
    "has_mchat_members e \<Longrightarrow>
      field_or ?p mf_chat_event_mchat_members_aimids (\<lambda>t. members_of (pack_value t)) (Some []) =
        Some (ce_members e)"
    using len(6) wf small_pack_bytes
    by (simp_all add: field_or_pack_of chat_event_items_def mf_parts pack_value_make
        members_round_trip chat_event_wf_def)
  define e1 where "e1 = (chat_event_make (ce_type e))\<lparr>ce_is_captcha_present := ce_is_captcha_present e\<rparr>"
  define e2 where "e2 = (if has_sender_aimid e
      then e1\<lparr>ce_sender_friendly := ce_sender_friendly e, ce_sender_aimid := ce_sender_aimid e\<rparr> else e1)"
  define e3 where "e3 = (if has_mchat_members e
      then e2\<lparr>ce_members_friendly := ce_members_friendly e, ce_members := ce_members e\<rparr> else e2)"
  define e4 where "e4 = e3\<lparr>ce_new_name := ce_new_name e, ce_new_description := ce_new_description e,
      ce_new_rules := ce_new_rules e\<rparr>"
  have ty: "ce_type e1 = ce_type e" "ce_type e2 = ce_type e" "ce_type e3 = ce_type e" "ce_type e4 = ce_type e"
    by (simp_all add: e1_def e2_def e3_def e4_def chat_event_make_def)
  have news: "ce_new_name e3 = []" "ce_new_description e3 = []" "ce_new_rules e3 = []" "ce_generic e4 = []"
    by (simp_all add: e1_def e2_def e3_def e4_def chat_event_make_def)
  note has = event_type_only [of e1 e] event_type_only [of e2 e] event_type_only [of e3 e]
    event_type_only [of e4 e]
  have wfn: "ce_type e \<noteq> cet_chat_name_modified \<Longrightarrow> ce_new_name e = []"
    "ce_type e \<noteq> cet_chat_description_modified \<Longrightarrow> ce_new_description e = []"
    "ce_type e \<noteq> cet_chat_rules_modified \<Longrightarrow> ce_new_rules e = []"
    using wf by (simp_all add: chat_event_wf_def)
  have mods: "(if has_chat_modifications e3 then deserialize_chat_modifications e3 ?p else Some e3) = Some e4"
  proof -
    have keep: "e3\<lparr>ce_new_name := [], ce_new_description := [], ce_new_rules := []\<rparr> = e3"
      "e3\<lparr>ce_new_description := [], ce_new_rules := []\<rparr> = e3"
      "e3\<lparr>ce_new_name := n, ce_new_description := [], ce_new_rules := []\<rparr> = e3\<lparr>ce_new_name := n\<rparr>"
      "e3\<lparr>ce_new_name := [], ce_new_description := n, ce_new_rules := []\<rparr> = e3\<lparr>ce_new_description := n\<rparr>"
      "e3\<lparr>ce_new_name := [], ce_new_description := [], ce_new_rules := n\<rparr> = e3\<lparr>ce_new_rules := n\<rparr>" for n
      using news by (simp_all add: chat_event_data.equality)
    have ne [simp]: "cet_chat_name_modified \<noteq> cet_chat_description_modified"
      "cet_chat_name_modified \<noteq> cet_chat_rules_modified"
      "cet_chat_description_modified \<noteq> cet_chat_rules_modified"
      "cet_chat_description_modified \<noteq> cet_chat_name_modified"
      "cet_chat_rules_modified \<noteq> cet_chat_name_modified"
      "cet_chat_rules_modified \<noteq> cet_chat_description_modified"
      by (simp_all add: cet_chat_name_modified_def cet_chat_description_modified_def
          cet_chat_rules_modified_def)
    consider (name) "ce_type e = cet_chat_name_modified" | (desc) "ce_type e = cet_chat_description_modified"
      | (rules) "ce_type e = cet_chat_rules_modified" | (none) "ce_type e \<noteq> cet_chat_name_modified"
        "ce_type e \<noteq> cet_chat_description_modified" "ce_type e \<noteq> cet_chat_rules_modified" by blast
    then show ?thesis
    proof cases
      case name
      then show ?thesis
        using wfn(2,3) gi(3) len(2) ty(3)
        by (simp add: e4_def keep deserialize_chat_modifications_def has_chat_modifications_def values_make)
    next
      case desc
      then show ?thesis
        using wfn(1,3) gi(4) len(3) ty(3)
        by (simp add: e4_def keep deserialize_chat_modifications_def has_chat_modifications_def values_make)
    next
      case rules
      then show ?thesis
        using wfn(1,2) gi(5) len(4) ty(3)
        by (simp add: e4_def keep deserialize_chat_modifications_def has_chat_modifications_def values_make)
    next
      case none
      then show ?thesis
        using wfn ty(3) by (simp add: e4_def keep has_chat_modifications_def)
    qed
  qed
  have fin: "(if has_generic_text e4 then map_option (\<lambda>t. e4\<lparr>ce_generic := str_value t\<rparr>)
      (get_item ?p mf_chat_event_generic_text) else Some e4) = Some e"
  proof -
    have parts: "\<not> has_sender_aimid e \<Longrightarrow> ce_sender_aimid e = [] \<and> ce_sender_friendly e = []"
      "\<not> has_mchat_members e \<Longrightarrow> ce_members e = [] \<and> ce_members_friendly e = []"
      "\<not> has_generic_text e \<Longrightarrow> ce_generic e = []"
      using wf by (auto simp: chat_event_wf_def)
    have "e4\<lparr>ce_generic := ce_generic e\<rparr> = e"
      using parts by (intro chat_event_data.equality)
        (simp_all add: e4_def e3_def e2_def e1_def chat_event_make_def)
    moreover have "\<not> has_generic_text e \<Longrightarrow> e4\<lparr>ce_generic := ce_generic e\<rparr> = e4"
      using parts(3) news(4) by (intro chat_event_data.equality) simp_all
    ultimately show ?thesis
      using gi(6) len(5) has(16) ty by (cases "has_generic_text e") (simp_all add: values_make)
  qed
  have r2: "(if has_sender_aimid e1 then
      map_option (\<lambda>t. e1\<lparr>ce_sender_friendly := str_value t,
          ce_sender_aimid := field_or ?p mf_chat_event_sender_aimid str_value []\<rparr>)
        (get_item ?p mf_chat_event_sender_friendly)
      else Some e1) = Some e2"
    using has(1) ty gi(2) fa len(1) by (simp add: e2_def values_make)
  have r3: "(if has_mchat_members e2 then
      (case (field_or ?p mf_chat_event_mchat_members (\<lambda>t. members_of (pack_value t)) (Some []),
             field_or ?p mf_chat_event_mchat_members_aimids (\<lambda>t. members_of (pack_value t)) (Some [])) of
         (Some fr, Some ids) \<Rightarrow> Some (e2\<lparr>ce_members_friendly := fr, ce_members := ids\<rparr>)
       | _ \<Rightarrow> None)
      else Some e2) = Some e3"
    using has(6) ty mem by (simp add: e3_def)
  show ?thesis
    unfolding chat_event_of_pack_def gi(1) option.case Let_def values_make fo e1_def [symmetric]
      r2 r3 mods fin by (rule refl)
qed

end
