(* ===== verification/History_Message.thy ===== *)
theory History_Message
  imports Message_Parts Message_Header
begin

section \<open>Messages: history_message.cpp (history_message)\<close>

text \<open>
  The message as the data file of an archive stores it: its fields, its construction as a patch
  of another message, copying and merging, the operations on its parts, and its serialization as
  a TLV pack. The map of mentions is ordered by identifier (bytes compared as unsigned). The
  empty \<open>mult_data\<close> is a flag. Operations that end in a null pointer dereference give \<open>None\<close>.
\<close>

subsection \<open>State\<close>

record history_message =
  hm_msgid :: i64w
  hm_prev_msg_id :: i64w
  hm_flags :: message_flags
  hm_time :: u64w
  hm_text :: str
  hm_data_offset :: i64w
  hm_data_size :: u32w
  hm_wimid :: str
  hm_internal_id :: str
  hm_sender_friendly :: str
  hm_update_patch_version :: patch_version
  hm_sticker :: "sticker_data option"
  hm_mult :: bool
  hm_voip :: "voip_data option"
  hm_chat :: "chat_data option"
  hm_file_sharing :: "file_sharing_data option"
  hm_chat_event :: "chat_event_data option"
  hm_quotes :: "quote list"
  hm_mentions :: "(str \<times> str) list"
  hm_snippets :: "url_snippet list"
  hm_description :: str
  hm_url :: str
  hm_shared_contact :: "shared_contact_data option"

definition history_message_new :: history_message where
  "history_message_new = \<lparr>hm_msgid = -1, hm_prev_msg_id = -1, hm_flags = 0, hm_time = 0,
     hm_text = [], hm_data_offset = -1, hm_data_size = 0, hm_wimid = [], hm_internal_id = [],
     hm_sender_friendly = [], hm_update_patch_version = patch_version_new, hm_sticker = None,
     hm_mult = False, hm_voip = None, hm_chat = None, hm_file_sharing = None, hm_chat_event = None,
     hm_quotes = [], hm_mentions = [], hm_snippets = [], hm_description = [], hm_url = [],
     hm_shared_contact = None\<rparr>"

subsection \<open>Flags\<close>

definition hm_is_patch :: "history_message \<Rightarrow> bool" where
  "hm_is_patch m = flag f_patch (hm_flags m)"

definition hm_is_deleted :: "history_message \<Rightarrow> bool" where
  "hm_is_deleted m = flag f_deleted (hm_flags m)"

definition hm_is_modified :: "history_message \<Rightarrow> bool" where
  "hm_is_modified m = flag f_modified (hm_flags m)"

definition hm_is_updated :: "history_message \<Rightarrow> bool" where
  "hm_is_updated m = flag f_updated (hm_flags m)"

definition hm_is_clear :: "history_message \<Rightarrow> bool" where
  "hm_is_clear m = flag f_clear (hm_flags m)"

definition hm_is_outgoing :: "history_message \<Rightarrow> bool" where
  "hm_is_outgoing m =
     (case hm_voip m of Some v \<Rightarrow> \<not> voip_is_incoming v | None \<Rightarrow> flag f_outgoing (hm_flags m))"

definition hm_is_chat_event_deleted :: "history_message \<Rightarrow> bool" where
  "hm_is_chat_event_deleted m =
     (case hm_chat_event m of Some e \<Rightarrow> is_type_deleted e | None \<Rightarrow> False)"

definition set_outgoing :: "bool \<Rightarrow> history_message \<Rightarrow> history_message" where
  "set_outgoing b m = m\<lparr>hm_flags := set_flag f_outgoing b (hm_flags m)\<rparr>"

definition set_patch :: "bool \<Rightarrow> history_message \<Rightarrow> history_message" where
  "set_patch b m = m\<lparr>hm_flags := set_flag f_patch b (hm_flags m)\<rparr>"

definition set_deleted :: "bool \<Rightarrow> history_message \<Rightarrow> history_message" where
  "set_deleted b m = m\<lparr>hm_flags := set_flag f_deleted b (hm_flags m)\<rparr>"

definition set_modified :: "bool \<Rightarrow> history_message \<Rightarrow> history_message" where
  "set_modified b m = m\<lparr>hm_flags := set_flag f_modified b (hm_flags m)\<rparr>"

definition hm_set_updated :: "bool \<Rightarrow> history_message \<Rightarrow> history_message" where
  "hm_set_updated b m = m\<lparr>hm_flags := set_flag f_updated b (hm_flags m)\<rparr>"

definition set_clear :: "bool \<Rightarrow> history_message \<Rightarrow> history_message" where
  "set_clear b m = m\<lparr>hm_flags := set_flag f_clear b (hm_flags m)\<rparr>"

definition apply_header_flags :: "message_header \<Rightarrow> history_message \<Rightarrow> history_message" where
  "apply_header_flags h m = set_deleted (is_deleted h) m"

definition has_msgid :: "history_message \<Rightarrow> bool" where
  "has_msgid m \<longleftrightarrow> sint (hm_msgid m) > 0"

definition has_prev_msgid :: "history_message \<Rightarrow> bool" where
  "has_prev_msgid m \<longleftrightarrow> sint (hm_prev_msg_id m) > 0"

definition has_internal_id :: "history_message \<Rightarrow> bool" where
  "has_internal_id m \<longleftrightarrow> hm_internal_id m \<noteq> []"

definition hm_set_prev_msgid :: "i64w \<Rightarrow> history_message \<Rightarrow> history_message" where
  "hm_set_prev_msgid v m = m\<lparr>hm_prev_msg_id := v\<rparr>"

subsection \<open>Patches\<close>

definition patch_base :: "i64w \<Rightarrow> str \<Rightarrow> history_message" where
  "patch_base archive_id internal_id =
     history_message_new\<lparr>hm_msgid := archive_id, hm_internal_id := internal_id\<rparr>"

definition make_deleted_patch :: "i64w \<Rightarrow> str \<Rightarrow> history_message" where
  "make_deleted_patch archive_id internal_id =
     set_patch True (set_deleted True (patch_base archive_id internal_id))"

definition make_modified_patch :: "i64w \<Rightarrow> str \<Rightarrow> history_message" where
  "make_modified_patch archive_id internal_id =
     (set_patch True (set_modified True (patch_base archive_id internal_id)))
       \<lparr>hm_chat_event := Some (make_simple_event cet_message_deleted)\<rparr>"

definition make_updated_patch :: "i64w \<Rightarrow> str \<Rightarrow> history_message" where
  "make_updated_patch archive_id internal_id =
     set_patch True (hm_set_updated True (patch_base archive_id internal_id))"

definition make_updated :: "i64w \<Rightarrow> str \<Rightarrow> history_message" where
  "make_updated archive_id internal_id =
     set_patch False (hm_set_updated True (patch_base archive_id internal_id))"

definition make_clear_patch :: "i64w \<Rightarrow> str \<Rightarrow> history_message" where
  "make_clear_patch archive_id internal_id =
     set_patch True (set_clear True (patch_base archive_id internal_id))"

definition make_deleted :: "history_message option \<Rightarrow> history_message option" where
  "make_deleted m = map_option (\<lambda>m. set_patch True (set_deleted True m)) m"

definition make_modified :: "history_message option \<Rightarrow> history_message option" where
  "make_modified m = map_option (\<lambda>m. (set_patch True (set_modified True m))
     \<lparr>hm_chat_event := Some (make_simple_event cet_message_deleted)\<rparr>) m"

subsection \<open>Copying, merging, editing\<close>

definition hm_copy :: "history_message \<Rightarrow> history_message \<Rightarrow> history_message" where
  "hm_copy this m =
     (let t1 = this\<lparr>hm_msgid := hm_msgid m, hm_prev_msg_id := hm_prev_msg_id m,
            hm_wimid := hm_wimid m, hm_internal_id := hm_internal_id m,
            hm_update_patch_version := hm_update_patch_version m, hm_time := hm_time m,
            hm_text := hm_text m, hm_data_offset := hm_data_offset m,
            hm_data_size := hm_data_size m, hm_flags := hm_flags m,
            hm_sender_friendly := hm_sender_friendly m, hm_quotes := hm_quotes m,
            hm_mentions := hm_mentions m, hm_snippets := hm_snippets m, hm_url := hm_url m,
            hm_description := hm_description m\<rparr>;
          t2 = t1\<lparr>hm_sticker := None, hm_mult := False, hm_voip := None, hm_chat := None,
            hm_file_sharing := None, hm_chat_event := None, hm_shared_contact := None\<rparr>
      in t2\<lparr>hm_sticker := (case hm_sticker m of Some x \<Rightarrow> Some x | None \<Rightarrow> hm_sticker t2),
            hm_mult := (if hm_mult m then True else hm_mult t2),
            hm_voip := (case hm_voip m of Some x \<Rightarrow> Some x | None \<Rightarrow> hm_voip t2),
            hm_chat := (case hm_chat m of Some x \<Rightarrow> Some x | None \<Rightarrow> hm_chat t2),
            hm_file_sharing := (case hm_file_sharing m of Some x \<Rightarrow> Some x | None \<Rightarrow> hm_file_sharing t2),
            hm_chat_event := (case hm_chat_event m of Some x \<Rightarrow> Some x | None \<Rightarrow> hm_chat_event t2),
            hm_shared_contact := (case hm_shared_contact m of Some x \<Rightarrow> Some x | None \<Rightarrow> hm_shared_contact t2)\<rparr>)"

definition hm_merge :: "history_message \<Rightarrow> history_message \<Rightarrow> history_message" where
  "hm_merge this m =
     (let t1 = this\<lparr>hm_text := hm_text m, hm_quotes := hm_quotes m, hm_mentions := hm_mentions m,
            hm_snippets := hm_snippets m, hm_update_patch_version := hm_update_patch_version m,
            hm_url := hm_url m, hm_description := hm_description m\<rparr>;
          t2 = t1\<lparr>hm_sticker := None, hm_mult := False, hm_voip := None, hm_chat := None,
            hm_file_sharing := None, hm_chat_event := None, hm_shared_contact := None\<rparr>
      in t2\<lparr>hm_sticker := (case hm_sticker m of Some x \<Rightarrow> Some x | None \<Rightarrow> hm_sticker t2),
            hm_mult := (if hm_mult m then True else hm_mult t2),
            hm_voip := (case hm_voip m of Some x \<Rightarrow> Some x | None \<Rightarrow> hm_voip t2),
            hm_chat := (case hm_chat m of Some x \<Rightarrow> Some x | None \<Rightarrow> hm_chat t2),
            hm_file_sharing := (case hm_file_sharing m of Some x \<Rightarrow> Some x | None \<Rightarrow> hm_file_sharing t2),
            hm_chat_event := (case hm_chat_event m of Some x \<Rightarrow> Some x | None \<Rightarrow> hm_chat_event t2),
            hm_shared_contact := (case hm_shared_contact m of Some x \<Rightarrow> Some x | None \<Rightarrow> hm_shared_contact t2)\<rparr>)"

definition set_chat_data :: "chat_data \<Rightarrow> history_message \<Rightarrow> history_message" where
  "set_chat_data d m = m\<lparr>hm_chat := Some d\<rparr>"

definition reset_extended_data :: "history_message \<Rightarrow> history_message" where
  "reset_extended_data m = m\<lparr>hm_sticker := None, hm_mult := False, hm_voip := None,
     hm_file_sharing := None, hm_chat_event := None\<rparr>"

definition set_text :: "str \<Rightarrow> history_message \<Rightarrow> history_message" where
  "set_text s m = m\<lparr>hm_text := s\<rparr>"

definition has_text :: "history_message \<Rightarrow> bool" where
  "has_text m \<longleftrightarrow> hm_text m \<noteq> []"

definition get_text :: "history_message \<Rightarrow> str" where
  "get_text m = (case hm_sticker m of Some s \<Rightarrow> st_id s | None \<Rightarrow> hm_text m)"

primrec apply_modifications :: "history_message list \<Rightarrow> history_message \<Rightarrow> history_message" where
  "apply_modifications [] m = m"
| "apply_modifications (x # xs) m =
     (if has_text x then apply_modifications xs (set_text (get_text x) (reset_extended_data m))
      else case hm_chat_event x of
             Some e \<Rightarrow> apply_modifications xs ((reset_extended_data m)\<lparr>hm_chat_event := Some e\<rparr>)
           | None \<Rightarrow> apply_modifications xs m)"

definition attach_quotes :: "quote list \<Rightarrow> history_message \<Rightarrow> history_message" where
  "attach_quotes qs m = m\<lparr>hm_quotes := qs\<rparr>"

definition set_mentions :: "(str \<times> str) list \<Rightarrow> history_message \<Rightarrow> history_message" where
  "set_mentions ms m = m\<lparr>hm_mentions := ms\<rparr>"

definition set_snippets :: "url_snippet list \<Rightarrow> history_message \<Rightarrow> history_message" where
  "set_snippets s m = m\<lparr>hm_snippets := s\<rparr>"

definition set_shared_contact :: "shared_contact_data option \<Rightarrow> history_message \<Rightarrow> history_message" where
  "set_shared_contact c m = m\<lparr>hm_shared_contact := c\<rparr>"

definition has_shared_contact_with_sn :: "history_message \<Rightarrow> bool" where
  "has_shared_contact_with_sn m \<longleftrightarrow>
     (case hm_shared_contact m of Some c \<Rightarrow> sc_sn c \<noteq> [] | None \<Rightarrow> False)"

definition set_update_patch_version :: "patch_version \<Rightarrow> history_message \<Rightarrow> history_message" where
  "set_update_patch_version v m = m\<lparr>hm_update_patch_version := v\<rparr>"

definition increment_offline_version :: "history_message \<Rightarrow> history_message" where
  "increment_offline_version m =
     m\<lparr>hm_update_patch_version := increment_offline (hm_update_patch_version m)\<rparr>"

definition apply_persons_to_quotes :: "persons_map \<Rightarrow> history_message \<Rightarrow> history_message" where
  "apply_persons_to_quotes persons m =
     m\<lparr>hm_quotes := map (\<lambda>q. case persons (q_sender q) of
          Some p \<Rightarrow> q\<lparr>q_sender_friendly := friendly p\<rparr> | None \<Rightarrow> q) (hm_quotes m)\<rparr>"

definition apply_persons_to_mentions :: "persons_map \<Rightarrow> history_message \<Rightarrow> history_message" where
  "apply_persons_to_mentions persons m =
     m\<lparr>hm_mentions := map (\<lambda>(sn, f). case persons sn of
          Some p \<Rightarrow> (sn, friendly p) | None \<Rightarrow> (sn, f)) (hm_mentions m)\<rparr>"

definition init_file_sharing_from_local_path ::
    "(str \<Rightarrow> bool) \<Rightarrow> str \<Rightarrow> i64w option \<Rightarrow> i32w option \<Rightarrow> history_message \<Rightarrow> bool \<times> history_message" where
  "init_file_sharing_from_local_path is_exist local_path duration base_content_type m =
     (if is_exist local_path
      then (True, m\<lparr>hm_file_sharing := Some (file_sharing_make local_path [] duration base_content_type)\<rparr>)
      else (False, m))"

definition init_file_sharing_from_link :: "str \<Rightarrow> history_message \<Rightarrow> history_message" where
  "init_file_sharing_from_link uri m =
     m\<lparr>hm_file_sharing := Some (file_sharing_make [] uri None None)\<rparr>"

definition init_sticker_from_text :: "str \<Rightarrow> history_message \<Rightarrow> history_message" where
  "init_sticker_from_text text m = m\<lparr>hm_sticker := Some \<lparr>st_id = text\<rparr>\<rparr>"

subsection \<open>The type of a message and the comparison of contents\<close>

datatype message_type = Base | File_sharing | Sms | Sticker | Chat_event | Voip_event

definition get_type :: "history_message \<Rightarrow> message_type" where
  "get_type m =
     (if hm_sticker m \<noteq> None then Sticker
      else if hm_file_sharing m \<noteq> None then File_sharing
      else if hm_chat_event m \<noteq> None then Chat_event
      else if hm_voip m \<noteq> None then Voip_event
      else Base)"

definition contents_equal :: "history_message \<Rightarrow> history_message \<Rightarrow> bool" where
  "contents_equal m n =
     (if get_type m \<noteq> get_type n then False
      else case get_type m of
             Base \<Rightarrow> get_text m = get_text n
           | File_sharing \<Rightarrow>
               file_sharing_contents_equal (the (hm_file_sharing m)) (the (hm_file_sharing n))
           | Chat_event \<Rightarrow> chat_event_contents_equal (the (hm_chat_event m)) (the (hm_chat_event n))
           | _ \<Rightarrow> True)"

subsection \<open>Serialization\<close>

definition mention_pack :: "str \<times> str \<Rightarrow> tlvpack" where
  "mention_pack e =
     push_child (push_child empty_pack (tlv_string mf_mention_sn (fst e)))
       (tlv_string mf_mention_friendly (snd e))"

definition push_option :: "u32w \<Rightarrow> ('a \<Rightarrow> tlvpack \<Rightarrow> tlvpack) \<Rightarrow> 'a option \<Rightarrow> tlvpack \<Rightarrow> tlvpack" where
  "push_option ty ser x p = (case x of Some a \<Rightarrow> push_child p (tlv_pack ty (ser a empty_pack)) | None \<Rightarrow> p)"

definition push_each :: "u32w \<Rightarrow> ('a \<Rightarrow> tlvpack) \<Rightarrow> 'a list \<Rightarrow> tlvpack \<Rightarrow> tlvpack" where
  "push_each ty ser xs p = fold (\<lambda>a p. push_child p (tlv_pack ty (ser a))) xs p"

definition push_fields :: "history_message \<Rightarrow> tlvpack \<Rightarrow> tlvpack" where
  "push_fields m p0 =
     (let p1 = fold (\<lambda>t p. push_child p t)
           [tlv_string mf_text (hm_text m),
            tlv_scalar mf_msg_id (mem_of 8 (hm_msgid m)),
            tlv_scalar mf_prev_msg_id (mem_of 8 (hm_prev_msg_id m)),
            tlv_scalar mf_flags (mem_of 4 (hm_flags m)),
            tlv_scalar mf_time (mem_of 8 (hm_time m)),
            tlv_string mf_wimid (hm_wimid m),
            tlv_string mf_internal_id (hm_internal_id m),
            tlv_string mf_sender_friendly (hm_sender_friendly m),
            tlv_string mf_update_patch_version (version_string (hm_update_patch_version m)),
            tlv_scalar mf_offline_version (mem_of 4 (offline_version (hm_update_patch_version m))),
            tlv_string mf_description (hm_description m),
            tlv_string mf_url (hm_url m)] p0;
          p2 = push_option mf_chat chat_serialize (hm_chat m) p1;
          p3 = push_option mf_sticker sticker_serialize (hm_sticker m) p2;
          p4 = (if hm_mult m then push_child p3 (tlv_pack mf_mult empty_pack) else p3);
          p5 = push_option mf_voip voip_serialize (hm_voip m) p4;
          p6 = push_option mf_file_sharing file_sharing_serialize (hm_file_sharing m) p5;
          p7 = push_option mf_chat_event chat_event_serialize (hm_chat_event m) p6;
          p8 = push_each mf_quote (\<lambda>q. quote_serialize q empty_pack) (hm_quotes m) p7;
          p9 = push_each mf_mention mention_pack (hm_mentions m) p8;
          p10 = push_each mf_snippet (\<lambda>s. url_snippet_serialize s empty_pack) (hm_snippets m) p9
      in case hm_shared_contact m of
           Some c \<Rightarrow> shared_contact_serialize c p10
         | None \<Rightarrow> p10)"

definition message_pack :: "history_message \<Rightarrow> tlvpack" where
  "message_pack m = push_fields m empty_pack"

definition message_serialize :: "history_message \<Rightarrow> binary_stream \<Rightarrow> binary_stream" where
  "message_serialize m s = snd (tlvpack_serialize (message_pack m) s)"

definition apply_mention :: "tlvpack \<Rightarrow> history_message \<Rightarrow> history_message" where
  "apply_mention p m =
     (case (get_item p mf_mention_sn, get_item p mf_mention_friendly) of
        (Some sn, Some fr) \<Rightarrow>
          if str_value sn \<noteq> [] \<and> str_value fr \<noteq> []
          then m\<lparr>hm_mentions := map_emplace (str_value sn) (str_value fr) (hm_mentions m)\<rparr> else m
      | _ \<Rightarrow> m)"

definition apply_contact :: "tlvpack \<Rightarrow> history_message \<Rightarrow> history_message" where
  "apply_contact p m =
     (let (b, contact) = shared_contact_unserialize shared_contact_new p
      in if b then m\<lparr>hm_shared_contact := Some contact\<rparr> else m)"

definition apply_field :: "tlv \<Rightarrow> history_message \<Rightarrow> history_message option" where
  "apply_field t m =
     (let ty = tlv_type t in
      if ty = mf_msg_id then Some (m\<lparr>hm_msgid := i64_value t\<rparr>)
      else if ty = mf_prev_msg_id then Some (m\<lparr>hm_prev_msg_id := i64_value t\<rparr>)
      else if ty = mf_flags then Some (m\<lparr>hm_flags := i32_value t\<rparr>)
      else if ty = mf_time then Some (m\<lparr>hm_time := i64_value t\<rparr>)
      else if ty = mf_wimid then Some (m\<lparr>hm_wimid := str_value t\<rparr>)
      else if ty = mf_internal_id then Some (m\<lparr>hm_internal_id := str_value t\<rparr>)
      else if ty = mf_sender_friendly then Some (m\<lparr>hm_sender_friendly := str_value t\<rparr>)
      else if ty = mf_text then Some (m\<lparr>hm_text := str_value t\<rparr>)
      else if ty = mf_update_patch_version then
        Some (m\<lparr>hm_update_patch_version := set_version (str_value t) (hm_update_patch_version m)\<rparr>)
      else if ty = mf_offline_version then
        Some (m\<lparr>hm_update_patch_version := set_offline_version (i32_value t) (hm_update_patch_version m)\<rparr>)
      else if ty = mf_chat then
        Some (m\<lparr>hm_chat := Some (snd (chat_unserialize chat_data_new (pack_value t)))\<rparr>)
      else if ty = mf_sticker then
        Some (m\<lparr>hm_sticker := Some (snd (sticker_unserialize sticker_new (pack_value t)))\<rparr>)
      else if ty = mf_mult then Some (m\<lparr>hm_mult := True\<rparr>)
      else if ty = mf_voip then
        (let (b, v) = voip_unserialize voip_new (pack_value t)
         in Some (m\<lparr>hm_voip := (if b then Some v else None)\<rparr>))
      else if ty = mf_file_sharing then
        map_option (\<lambda>f. m\<lparr>hm_file_sharing := Some f\<rparr>) (file_sharing_of_pack (pack_value t))
      else if ty = mf_chat_event then
        map_option (\<lambda>e. m\<lparr>hm_chat_event := Some e\<rparr>) (chat_event_of_pack (pack_value t))
      else if ty = mf_quote then
        Some (m\<lparr>hm_quotes := hm_quotes m @ [quote_unserialize quote_new (pack_value t)]\<rparr>)
      else if ty = mf_mention then Some (apply_mention (pack_value t) m)
      else if ty = mf_snippet then
        Some (m\<lparr>hm_snippets := hm_snippets m @ [url_snippet_unserialize (url_snippet_make []) (pack_value t)]\<rparr>)
      else if ty = mf_description then Some (m\<lparr>hm_description := str_value t\<rparr>)
      else if ty = mf_url then Some (m\<lparr>hm_url := str_value t\<rparr>)
      else if ty = mf_shared_contact then Some (apply_contact (pack_value t) m)
      else Some m)"

primrec apply_fields :: "tlv list \<Rightarrow> history_message \<Rightarrow> history_message option" where
  "apply_fields [] m = Some m"
| "apply_fields (t # ts) m = (case apply_field t m of None \<Rightarrow> None | Some m1 \<Rightarrow> apply_fields ts m1)"

text \<open>The return code, the message and the stream afterwards.\<close>

definition message_unserialize ::
    "history_message \<Rightarrow> binary_stream \<Rightarrow> (int \<times> history_message) option \<times> binary_stream" where
  "message_unserialize m s =
     (let (parsed, msg_pack, s1) = tlvpack_unserialize empty_pack s
      in (if \<not> parsed then Some (-1, m)
          else map_option (Pair 0) (apply_fields (tlvlist msg_pack) m), s1))"

subsection \<open>Searching one field in a serialized message\<close>

lemma available_bs_read_le: "available (snd (bs_read s n)) \<le> available s"
  by (auto simp: bs_read_def available_adv)

lemma available_read_u32_sub: "4 \<le> available s \<Longrightarrow> available (snd (read_u32 s)) = available s - 4"
  by (simp add: read_u32_def available_read_t)

lemma try_get_field_less:
  assumes "try_get_field_with_type s ty = (True, len, s')"
  shows "available s' < available s"
proof -
  have "8 \<le> available s" using assms by (auto simp: try_get_field_with_type_def split: if_splits)
  then have a: "available (snd (read_u32 (snd (read_u32 s)))) = available s - 8"
    by (simp add: available_read_u32_sub)
  have "available s' \<le> available (snd (read_u32 (snd (read_u32 s))))"
    using assms available_bs_read_le
    by (auto simp: try_get_field_with_type_def Let_def split_beta split: if_splits)
  with a \<open>8 \<le> available s\<close> show ?thesis by simp
qed

text \<open>
  The loop shared by the three searches: whether the search failed, and the length of the field
  found (0 when there is none), with the stream at the field's value.
\<close>

function find_field :: "u32w \<Rightarrow> binary_stream \<Rightarrow> u32w \<Rightarrow> bool \<times> u32w \<times> binary_stream" where
  "find_field ty s len =
     (if available s = 0 then (True, len, s)
      else case try_get_field_with_type s ty of
             (False, len1, s1) \<Rightarrow> (False, len1, s1)
           | (True, len1, s1) \<Rightarrow> if len1 \<noteq> 0 then (True, len1, s1) else find_field ty s1 len1)"
  by pat_completeness auto
termination
  by (relation "measure (\<lambda>(ty, s, len). available s)") (auto dest: try_get_field_less [OF sym])

declare find_field.simps [simp del]

definition jump_to_text_field :: "binary_stream \<Rightarrow> u32w \<Rightarrow> u32w \<times> binary_stream" where
  "jump_to_text_field s len = snd (find_field mf_text s len)"

definition stream_is_sticker :: "binary_stream \<Rightarrow> bool \<times> binary_stream" where
  "stream_is_sticker s = (let (b, len, s1) = find_field mf_sticker s 0 in (b \<and> len \<noteq> 0, s1))"

definition get_id_field :: "binary_stream \<Rightarrow> i64w \<times> binary_stream" where
  "get_id_field s =
     (let (b, len, s1) = find_field mf_msg_id s 0
      in if b \<and> len \<noteq> 0 then read_u64 s1 else (-1, s1))"

subsection \<open>Copying and merging\<close>

lemma hm_copy_is_source: "hm_copy this m = m"
  by (intro history_message.equality) (simp_all add: hm_copy_def Let_def split: option.split)

text \<open>A merge keeps the identity of the message and takes its content from the other.\<close>

definition hm_content ::
    "history_message \<Rightarrow> str \<times> quote list \<times> (str \<times> str) list \<times> url_snippet list \<times> patch_version \<times> str \<times> str" where
  "hm_content m = (hm_text m, hm_quotes m, hm_mentions m, hm_snippets m, hm_update_patch_version m,
     hm_url m, hm_description m)"

definition hm_extended ::
    "history_message \<Rightarrow> sticker_data option \<times> bool \<times> voip_data option \<times> chat_data option \<times>
       file_sharing_data option \<times> chat_event_data option \<times> shared_contact_data option" where
  "hm_extended m = (hm_sticker m, hm_mult m, hm_voip m, hm_chat m, hm_file_sharing m,
     hm_chat_event m, hm_shared_contact m)"

definition hm_identity ::
    "history_message \<Rightarrow> i64w \<times> i64w \<times> message_flags \<times> u64w \<times> str \<times> str \<times> str \<times> i64w \<times> u32w" where
  "hm_identity m = (hm_msgid m, hm_prev_msg_id m, hm_flags m, hm_time m, hm_wimid m,
     hm_internal_id m, hm_sender_friendly m, hm_data_offset m, hm_data_size m)"

lemma hm_merge_parts:
  "hm_content (hm_merge this m) = hm_content m"
  "hm_extended (hm_merge this m) = hm_extended m"
  "hm_identity (hm_merge this m) = hm_identity this"
  by (simp_all add: hm_merge_def hm_content_def hm_extended_def hm_identity_def Let_def
      split: option.split)

lemma hm_by_parts:
  "hm_content m = hm_content n \<Longrightarrow> hm_extended m = hm_extended n \<Longrightarrow> hm_identity m = hm_identity n \<Longrightarrow>
     m = n"
  by (intro history_message.equality) (simp_all add: hm_content_def hm_extended_def hm_identity_def)

lemma hm_merge_merge: "hm_merge (hm_merge this m) n = hm_merge this n"
  by (rule hm_by_parts) (simp_all add: hm_merge_parts)

subsection \<open>Editing\<close>

text \<open>
  Which edits of a list count, and what the last of them leaves: an edit with text replaces
  the text, one with a chat event the event, any other is skipped.
\<close>

definition effective :: "history_message \<Rightarrow> bool" where
  "effective m \<longleftrightarrow> has_text m \<or> hm_chat_event m \<noteq> None"

definition edit_once :: "history_message \<Rightarrow> history_message \<Rightarrow> history_message" where
  "edit_once x m =
     (if has_text x then set_text (get_text x) (reset_extended_data m)
      else case hm_chat_event x of
             Some e \<Rightarrow> (reset_extended_data m)\<lparr>hm_chat_event := Some e\<rparr> | None \<Rightarrow> m)"

lemma apply_modifications_fold: "apply_modifications xs m = fold edit_once xs m"
  by (induction xs arbitrary: m) (auto simp: edit_once_def split: option.split)

lemma edit_once_ineffective: "\<not> effective x \<Longrightarrow> edit_once x m = m"
  by (simp add: edit_once_def effective_def)

text \<open>
  The outcome of a list of edits: the text of the last edit that carries one, and of the parts what the
  last effective edit leaves of them.
\<close>

lemma apply_modifications_eq:
  "apply_modifications xs m =
     (if filter effective xs = [] then m
      else m\<lparr>hm_text := (if filter has_text xs = [] then hm_text m else get_text (last (filter has_text xs))),
        hm_sticker := None, hm_mult := False, hm_voip := None, hm_file_sharing := None,
        hm_chat_event := (if has_text (last (filter effective xs)) then None
          else hm_chat_event (last (filter effective xs)))\<rparr>)"
proof (induction xs rule: rev_induct)
  case Nil
  then show ?case by simp
next
  case (snoc x xs)
  have step: "apply_modifications (xs @ [x]) m = edit_once x (apply_modifications xs m)"
    by (simp add: apply_modifications_fold)
  have none: "filter has_text xs = []" if "filter effective xs = []"
    using that by (auto simp: filter_empty_conv effective_def)
  show ?case
  proof (cases "effective x")
    case False
    then have "\<not> has_text x" by (simp add: effective_def)
    then show ?thesis using False snoc.IH by (simp add: step edit_once_ineffective del: apply_modifications.simps)
  next
    case True
    show ?thesis
    proof (cases "has_text x")
      case has: True
      then show ?thesis
        unfolding step snoc.IH
        by (simp add: True edit_once_def set_text_def reset_extended_data_def)
    next
      case no: False
      then obtain e where e: "hm_chat_event x = Some e" using True by (auto simp: effective_def)
      show ?thesis
        unfolding step snoc.IH using none
        by (simp add: True no e edit_once_def reset_extended_data_def)
    qed
  qed
qed

subsection \<open>The wire image of a message\<close>

definition option_item :: "u32w \<Rightarrow> ('a \<Rightarrow> item list) \<Rightarrow> 'a option \<Rightarrow> item list" where
  "option_item ty f x = (case x of Some a \<Rightarrow> [(ty, pack_bytes (f a))] | None \<Rightarrow> [])"

definition each_item :: "u32w \<Rightarrow> ('a \<Rightarrow> item list) \<Rightarrow> 'a list \<Rightarrow> item list" where
  "each_item ty f xs = map (\<lambda>a. (ty, pack_bytes (f a))) xs"

definition mention_items :: "str \<times> str \<Rightarrow> item list" where
  "mention_items e = [(mf_mention_sn, fst e), (mf_mention_friendly, snd e)]"

definition head_items :: "history_message \<Rightarrow> item list" where
  "head_items m =
     [(mf_text, hm_text m), (mf_msg_id, mem_of 8 (hm_msgid m)),
      (mf_prev_msg_id, mem_of 8 (hm_prev_msg_id m)), (mf_flags, mem_of 4 (hm_flags m)),
      (mf_time, mem_of 8 (hm_time m)), (mf_wimid, hm_wimid m), (mf_internal_id, hm_internal_id m),
      (mf_sender_friendly, hm_sender_friendly m),
      (mf_update_patch_version, version_string (hm_update_patch_version m)),
      (mf_offline_version, mem_of 4 (offline_version (hm_update_patch_version m))),
      (mf_description, hm_description m), (mf_url, hm_url m)]"

definition part_items :: "history_message \<Rightarrow> item list" where
  "part_items m =
     option_item mf_chat chat_items (hm_chat m) @
     option_item mf_sticker (\<lambda>s. [(mf_sticker_id, st_id s)]) (hm_sticker m) @
     opt_item (hm_mult m) mf_mult [] @
     option_item mf_voip voip_items (hm_voip m) @
     option_item mf_file_sharing file_sharing_items (hm_file_sharing m) @
     option_item mf_chat_event chat_event_items (hm_chat_event m) @
     each_item mf_quote quote_items (hm_quotes m) @
     each_item mf_mention mention_items (hm_mentions m) @
     each_item mf_snippet url_snippet_items (hm_snippets m) @
     option_item mf_shared_contact shared_contact_items (hm_shared_contact m)"

definition message_items :: "history_message \<Rightarrow> item list" where
  "message_items m = head_items m @ part_items m"

lemma emits_push_option:
  assumes "\<And>a. emits (ser a) (items a)" and "emits f is"
  shows "emits (\<lambda>p. push_option ty ser x (f p)) (is @ option_item ty items x)"
  using emits_pack [OF assms(2) assms(1)] assms(2)
  by (cases x) (simp_all add: push_option_def option_item_def)

lemma emits_push_each:
  assumes "\<And>a. emits (g a) (items a)" and "emits f is"
  shows "emits (\<lambda>p. push_each ty (\<lambda>a. g a empty_pack) xs (f p)) (is @ each_item ty items xs)"
  using assms(2)
proof (induction xs arbitrary: f "is")
  case Nil
  then show ?case by (simp add: push_each_def each_item_def)
next
  case (Cons a xs)
  show ?case
    using Cons.IH [OF emits_pack [OF Cons.prems assms(1), of ty a]]
    by (simp add: push_each_def each_item_def)
qed

lemma emits_mention:
  "emits (\<lambda>p. push_child (push_child p (tlv_string mf_mention_sn (fst e)))
     (tlv_string mf_mention_friendly (snd e))) (mention_items e)"
proof -
  have "emits (\<lambda>p. push_child (push_child p (tlv_string mf_mention_sn (fst e)))
     (tlv_string mf_mention_friendly (snd e))) (([] @ [(mf_mention_sn, fst e)]) @ [(mf_mention_friendly, snd e)])"
    by (intro emit_rules)
  then show ?thesis by (simp add: mention_items_def)
qed

lemma emits_push_mult:
  assumes "emits f is"
  shows "emits (\<lambda>p. if b then push_child (f p) (tlv_pack mf_mult empty_pack) else f p)
    (is @ opt_item b mf_mult [])"
  using emits_pack [OF assms emits_id, of mf_mult] assms by (cases b) (simp_all add: opt_item_def)

lemma emits_sticker_part: "emits (sticker_serialize s) [(mf_sticker_id, st_id s)]"
  using emits_sticker [OF emits_id] by simp

lemma emits_fold_push:
  "list_all2 (\<lambda>t i. emits (\<lambda>p. push_child p t) [i]) ts is \<Longrightarrow>
     emits (\<lambda>p. fold (\<lambda>t p. push_child p t) ts p) is"
proof (induction ts "is" rule: list_all2_induct)
  case Nil
  then show ?case by (simp add: emits_id)
next
  case (Cons t ts i "is")
  then show ?case using emits_comp [OF Cons(1) Cons(3)] by simp
qed

lemma emits_one:
  "emits (\<lambda>p. push_child p (tlv_string ty s)) [(ty, s)]"
  "emits (\<lambda>p. push_child p (tlv_scalar ty d)) [(ty, d)]"
  using emits_push_tlv_string [OF emits_id] emits_push_tlv_scalar [OF emits_id] by simp_all

lemma emits_contact_part:
  "emits f is \<Longrightarrow> emits (\<lambda>p. case x of Some c \<Rightarrow> shared_contact_serialize c (f p) | None \<Rightarrow> f p)
     (is @ option_item mf_shared_contact shared_contact_items x)"
  using emits_option_contact [of f "is" x] by (simp add: option_item_def)

lemma emits_message: "emits (push_fields m) (message_items m)"
proof -
  have quotes: "emits (quote_serialize q) (quote_items q)"
    and snippets: "emits (url_snippet_serialize s) (url_snippet_items s)" for q s
    by (rule emits_quote emits_url_snippet)+
  note mention = emits_push_each [OF emits_mention, unfolded mention_pack_def [symmetric]]
  have "emits (\<lambda>p. push_fields m p) (message_items m)"
    unfolding push_fields_def Let_def message_items_def part_items_def append_assoc [symmetric]
    by (intro emits_contact_part mention emits_push_each [OF emits_quote]
        emits_push_each [OF emits_url_snippet]
        emits_push_option emits_push_mult emits_fold_push emits_chat emits_sticker_part emits_voip
        emits_file_sharing emits_chat_event)
      (simp add: head_items_def emits_one)
  then show ?thesis by simp
qed

definition message_bytes :: "history_message \<Rightarrow> bytes" where
  "message_bytes m = pack_bytes (message_items m)"

lemma small_message_items: "length (message_bytes m) \<le> 2 ^ 32 - 2 \<Longrightarrow> small (message_items m)"
  unfolding message_bytes_def by (rule small_pack_bytes)

lemma message_serialize_content:
  assumes "bs_wf s" and "length (message_bytes m) \<le> room s"
  shows "content (message_serialize m s) = content s @ message_bytes m"
    and "bs_wf (message_serialize m s)"
    and "output_cursor (message_serialize m s) = output_cursor s"
proof -
  have "room s \<le> 2 ^ 32 - 2" by (simp add: room_def)
  then have "small (message_items m)"
    using assms(2) by (intro small_message_items) simp
  then have wf: "pack_wf (message_pack m)" "items_of (message_pack m) = message_items m"
    using emits_message [of m] by (simp_all add: emits_def message_pack_def)
  show "content (message_serialize m s) = content s @ message_bytes m"
    "bs_wf (message_serialize m s)" "output_cursor (message_serialize m s) = output_cursor s"
    using tlvpack_serialize_facts [OF assms(1) wf(1)] assms wf
    by (simp_all add: message_serialize_def message_bytes_def)
qed

subsection \<open>Reading a message back\<close>

lemma apply_fields_append:
  "apply_fields (ts @ us) m = (case apply_fields ts m of None \<Rightarrow> None | Some m1 \<Rightarrow> apply_fields us m1)"
  by (induction ts arbitrary: m) (simp_all split: option.split)

definition apply_items :: "item list \<Rightarrow> history_message \<Rightarrow> history_message option" where
  "apply_items is m = apply_fields (map tlv_make is) m"

lemma apply_items_simps:
  "apply_items [] m = Some m"
  "apply_items (i # is) m = (case apply_field (tlv_make i) m of None \<Rightarrow> None | Some m1 \<Rightarrow> apply_items is m1)"
  "apply_items (is @ js) m = (case apply_items is m of None \<Rightarrow> None | Some m1 \<Rightarrow> apply_items js m1)"
  by (simp_all add: apply_items_def apply_fields_append split: option.split)

lemma apply_scalar_fields:
  "apply_field (tlv_make (mf_msg_id, mem_of 8 x)) m = Some (m\<lparr>hm_msgid := x\<rparr>)"
  "apply_field (tlv_make (mf_prev_msg_id, mem_of 8 x)) m = Some (m\<lparr>hm_prev_msg_id := x\<rparr>)"
  "apply_field (tlv_make (mf_flags, mem_of 4 w)) m = Some (m\<lparr>hm_flags := w\<rparr>)"
  "apply_field (tlv_make (mf_time, mem_of 8 x)) m = Some (m\<lparr>hm_time := x\<rparr>)"
  "apply_field (tlv_make (mf_offline_version, mem_of 4 w)) m =
     Some (m\<lparr>hm_update_patch_version := set_offline_version w (hm_update_patch_version m)\<rparr>)"
  by (simp_all add: apply_field_def Let_def mf_message values_make)

lemma apply_string_fields:
  assumes "length s \<le> 2 ^ 32 - 2"
  shows
    "apply_field (tlv_make (mf_text, s)) m = Some (m\<lparr>hm_text := s\<rparr>)"
    "apply_field (tlv_make (mf_wimid, s)) m = Some (m\<lparr>hm_wimid := s\<rparr>)"
    "apply_field (tlv_make (mf_internal_id, s)) m = Some (m\<lparr>hm_internal_id := s\<rparr>)"
    "apply_field (tlv_make (mf_sender_friendly, s)) m = Some (m\<lparr>hm_sender_friendly := s\<rparr>)"
    "apply_field (tlv_make (mf_description, s)) m = Some (m\<lparr>hm_description := s\<rparr>)"
    "apply_field (tlv_make (mf_url, s)) m = Some (m\<lparr>hm_url := s\<rparr>)"
    "apply_field (tlv_make (mf_update_patch_version, s)) m =
       Some (m\<lparr>hm_update_patch_version := set_version s (hm_update_patch_version m)\<rparr>)"
  using assms by (simp_all add: apply_field_def Let_def mf_message values_make)

lemma apply_head_items:
  assumes "small (head_items m)"
  shows "apply_items (head_items m) history_message_new =
    Some (history_message_new\<lparr>hm_text := hm_text m, hm_msgid := hm_msgid m,
      hm_prev_msg_id := hm_prev_msg_id m, hm_flags := hm_flags m, hm_time := hm_time m,
      hm_wimid := hm_wimid m, hm_internal_id := hm_internal_id m,
      hm_sender_friendly := hm_sender_friendly m, hm_update_patch_version := hm_update_patch_version m,
      hm_description := hm_description m, hm_url := hm_url m\<rparr>)"
proof -
  have v: "set_offline_version (offline_version v) (set_version (version_string v) w) = v" for v w
    by (cases v, cases w) (simp add: set_offline_version_def set_version_def)
  show ?thesis
    using assms unfolding head_items_def
    by (simp add: apply_items_simps apply_scalar_fields apply_string_fields v
        history_message_new_def)
qed

text \<open>The parts, each of the fields of its kind.\<close>

definition parts_ok :: "history_message \<Rightarrow> bool" where
  "parts_ok m \<longleftrightarrow>
     (case hm_voip m of Some v \<Rightarrow> voip_wf v | None \<Rightarrow> True) \<and>
     (case hm_file_sharing m of Some f \<Rightarrow> file_sharing_wf f | None \<Rightarrow> True) \<and>
     (case hm_chat_event m of Some e \<Rightarrow> chat_event_wf e | None \<Rightarrow> True) \<and>
     ordered (hm_mentions m) \<and> (\<forall>(sn, fr) \<in> set (hm_mentions m). sn \<noteq> [] \<and> fr \<noteq> [])"

lemma apply_mention_items:
  assumes "small (mention_items e)" and "fst e \<noteq> []" and "snd e \<noteq> []"
  shows "apply_mention (pack_of (mention_items e)) m =
    m\<lparr>hm_mentions := map_emplace (fst e) (snd e) (hm_mentions m)\<rparr>"
  using assms
  by (simp add: apply_mention_def mention_items_def get_item_pack_of values_make mf_mention_sn_def
      mf_mention_friendly_def)

lemma apply_part_fields:
  assumes "length (pack_bytes is) \<le> 2 ^ 32 - 2"
  shows
    "is = chat_items c \<Longrightarrow> apply_field (tlv_make (mf_chat, pack_bytes is)) m = Some (m\<lparr>hm_chat := Some (chat_stored c)\<rparr>)"
    "is = [(mf_sticker_id, st_id s)] \<Longrightarrow>
       apply_field (tlv_make (mf_sticker, pack_bytes is)) m = Some (m\<lparr>hm_sticker := Some s\<rparr>)"
    "is = voip_items v \<Longrightarrow> voip_wf v \<Longrightarrow>
       apply_field (tlv_make (mf_voip, pack_bytes is)) m = Some (m\<lparr>hm_voip := Some v\<rparr>)"
    "is = file_sharing_items f \<Longrightarrow> file_sharing_wf f \<Longrightarrow>
       apply_field (tlv_make (mf_file_sharing, pack_bytes is)) m = Some (m\<lparr>hm_file_sharing := Some f\<rparr>)"
    "is = chat_event_items e \<Longrightarrow> chat_event_wf e \<Longrightarrow>
       apply_field (tlv_make (mf_chat_event, pack_bytes is)) m = Some (m\<lparr>hm_chat_event := Some e\<rparr>)"
    "is = shared_contact_items sc \<Longrightarrow>
       apply_field (tlv_make (mf_shared_contact, pack_bytes is)) m = Some (m\<lparr>hm_shared_contact := Some sc\<rparr>)"
    "is = quote_items q \<Longrightarrow>
       apply_field (tlv_make (mf_quote, pack_bytes is)) m = Some (m\<lparr>hm_quotes := hm_quotes m @ [q]\<rparr>)"
    "is = url_snippet_items u \<Longrightarrow>
       apply_field (tlv_make (mf_snippet, pack_bytes is)) m = Some (m\<lparr>hm_snippets := hm_snippets m @ [u]\<rparr>)"
    "is = mention_items e' \<Longrightarrow> fst e' \<noteq> [] \<Longrightarrow> snd e' \<noteq> [] \<Longrightarrow>
       apply_field (tlv_make (mf_mention, pack_bytes is)) m =
         Some (m\<lparr>hm_mentions := map_emplace (fst e') (snd e') (hm_mentions m)\<rparr>)"
proof -
  note sm = small_pack_bytes [OF assms]
  have val: "is = js \<Longrightarrow> pack_value (tlv_make (ty, pack_bytes js)) = pack_of js" for ty js
    using pack_value_make [OF assms] by simp
  note ap = apply_field_def Let_def mf_message val
  show "is = chat_items c \<Longrightarrow>
      apply_field (tlv_make (mf_chat, pack_bytes is)) m = Some (m\<lparr>hm_chat := Some (chat_stored c)\<rparr>)"
    using sm by (simp add: ap chat_round_trip)
  show "is = [(mf_sticker_id, st_id s)] \<Longrightarrow>
       apply_field (tlv_make (mf_sticker, pack_bytes is)) m = Some (m\<lparr>hm_sticker := Some s\<rparr>)"
    using sm sticker_round_trip [of s] by (simp add: ap del: pack_bytes_simps)
  show "is = voip_items v \<Longrightarrow> voip_wf v \<Longrightarrow>
       apply_field (tlv_make (mf_voip, pack_bytes is)) m = Some (m\<lparr>hm_voip := Some v\<rparr>)"
    using sm by (simp add: ap voip_round_trip)
  show "is = file_sharing_items f \<Longrightarrow> file_sharing_wf f \<Longrightarrow>
       apply_field (tlv_make (mf_file_sharing, pack_bytes is)) m = Some (m\<lparr>hm_file_sharing := Some f\<rparr>)"
    using sm by (simp add: ap file_sharing_round_trip)
  show "is = chat_event_items e \<Longrightarrow> chat_event_wf e \<Longrightarrow>
       apply_field (tlv_make (mf_chat_event, pack_bytes is)) m = Some (m\<lparr>hm_chat_event := Some e\<rparr>)"
    using sm by (simp add: ap chat_event_round_trip)
  show "is = shared_contact_items sc \<Longrightarrow>
       apply_field (tlv_make (mf_shared_contact, pack_bytes is)) m = Some (m\<lparr>hm_shared_contact := Some sc\<rparr>)"
    using sm by (simp add: ap mf_parts mf_shared_contact_def apply_contact_def shared_contact_round_trip)
  show "is = quote_items q \<Longrightarrow>
       apply_field (tlv_make (mf_quote, pack_bytes is)) m = Some (m\<lparr>hm_quotes := hm_quotes m @ [q]\<rparr>)"
    using sm by (simp add: ap quote_round_trip)
  show "is = url_snippet_items u \<Longrightarrow>
       apply_field (tlv_make (mf_snippet, pack_bytes is)) m = Some (m\<lparr>hm_snippets := hm_snippets m @ [u]\<rparr>)"
    using sm by (simp add: ap url_snippet_round_trip)
  show "is = mention_items e' \<Longrightarrow> fst e' \<noteq> [] \<Longrightarrow> snd e' \<noteq> [] \<Longrightarrow>
       apply_field (tlv_make (mf_mention, pack_bytes is)) m =
         Some (m\<lparr>hm_mentions := map_emplace (fst e') (snd e') (hm_mentions m)\<rparr>)"
    using sm by (simp add: ap apply_mention_items)
qed

lemma apply_option_item:
  assumes "\<And>a m. x = Some a \<Longrightarrow> length (pack_bytes (f a)) \<le> 2 ^ 32 - 2 \<Longrightarrow>
      apply_field (tlv_make (ty, pack_bytes (f a))) m = Some (upd (Some (g a)) m)"
    and "small (option_item ty f x)" and "x = None \<Longrightarrow> upd None m = m"
  shows "apply_items (option_item ty f x) m = Some (upd (map_option g x) m)"
  using assms by (cases x) (simp_all add: option_item_def apply_items_simps)

lemma apply_each_item:
  assumes "\<And>a m. a \<in> set xs \<Longrightarrow> length (pack_bytes (f a)) \<le> 2 ^ 32 - 2 \<Longrightarrow>
      apply_field (tlv_make (ty, pack_bytes (f a))) m = Some (upd a m)"
    and "small (each_item ty f xs)"
  shows "apply_items (each_item ty f xs) m = Some (fold upd xs m)"
  using assms
proof (induction xs arbitrary: m)
  case Nil
  then show ?case by (simp add: each_item_def apply_items_simps)
next
  case (Cons a xs)
  have IH: "apply_items (each_item ty f xs) m = Some (fold upd xs m)" for m
    by (rule Cons.IH) (use Cons.prems in \<open>simp_all add: each_item_def\<close>)
  have "apply_field (tlv_make (ty, pack_bytes (f a))) m = Some (upd a m)"
    using Cons.prems by (simp add: each_item_def)
  then show ?case
    using IH by (simp add: each_item_def apply_items_simps)
qed

lemma fold_quotes: "fold (\<lambda>q m. m\<lparr>hm_quotes := hm_quotes m @ [q]\<rparr>) qs m = m\<lparr>hm_quotes := hm_quotes m @ qs\<rparr>"
  by (induction qs arbitrary: m) simp_all

lemma fold_snippets:
  "fold (\<lambda>s m. m\<lparr>hm_snippets := hm_snippets m @ [s]\<rparr>) ss m = m\<lparr>hm_snippets := hm_snippets m @ ss\<rparr>"
  by (induction ss arbitrary: m) simp_all

lemma emplace_last:
  "\<forall>e \<in> set m. fst e < k \<Longrightarrow> map_emplace k v m = m @ [(k, v)]"
  by (induction k v m rule: map_emplace.induct) auto

lemma fold_mentions:
  "ordered (hm_mentions m @ ms) \<Longrightarrow>
     fold (\<lambda>e m. m\<lparr>hm_mentions := map_emplace (fst e) (snd e) (hm_mentions m)\<rparr>) ms m =
       m\<lparr>hm_mentions := hm_mentions m @ ms\<rparr>"
proof (induction ms arbitrary: m)
  case Nil
  then show ?case by simp
next
  case (Cons e ms)
  have "map_emplace (fst e) (snd e) (hm_mentions m) = hm_mentions m @ [e]"
    using Cons.prems by (cases e) (auto simp: ordered_append intro!: emplace_last)
  then show ?case
    using Cons.IH [of "m\<lparr>hm_mentions := hm_mentions m @ [e]\<rparr>"] Cons.prems by simp
qed

text \<open>What is left of a message that was written and read back: it has no place in the data file yet.\<close>

definition hm_stored :: "history_message \<Rightarrow> history_message" where
  "hm_stored m = m\<lparr>hm_data_offset := -1, hm_data_size := 0, hm_chat := map_option chat_stored (hm_chat m)\<rparr>"

lemma apply_parts:
  assumes "small (part_items m)" and "parts_ok m"
  shows
    "hm_chat k = None \<Longrightarrow> apply_items (option_item mf_chat chat_items (hm_chat m)) k =
       Some (k\<lparr>hm_chat := map_option chat_stored (hm_chat m)\<rparr>)"
    "hm_sticker k = None \<Longrightarrow> apply_items (option_item mf_sticker (\<lambda>s. [(mf_sticker_id, st_id s)]) (hm_sticker m)) k =
       Some (k\<lparr>hm_sticker := hm_sticker m\<rparr>)"
    "\<not> hm_mult k \<Longrightarrow> apply_items (opt_item (hm_mult m) mf_mult []) k = Some (k\<lparr>hm_mult := hm_mult m\<rparr>)"
    "hm_voip k = None \<Longrightarrow> apply_items (option_item mf_voip voip_items (hm_voip m)) k =
       Some (k\<lparr>hm_voip := hm_voip m\<rparr>)"
    "hm_file_sharing k = None \<Longrightarrow>
       apply_items (option_item mf_file_sharing file_sharing_items (hm_file_sharing m)) k =
       Some (k\<lparr>hm_file_sharing := hm_file_sharing m\<rparr>)"
    "hm_chat_event k = None \<Longrightarrow>
       apply_items (option_item mf_chat_event chat_event_items (hm_chat_event m)) k =
       Some (k\<lparr>hm_chat_event := hm_chat_event m\<rparr>)"
    "hm_shared_contact k = None \<Longrightarrow>
       apply_items (option_item mf_shared_contact shared_contact_items (hm_shared_contact m)) k =
       Some (k\<lparr>hm_shared_contact := hm_shared_contact m\<rparr>)"
proof -
  have sm: "small (option_item mf_chat chat_items (hm_chat m))"
    "small (option_item mf_sticker (\<lambda>s. [(mf_sticker_id, st_id s)]) (hm_sticker m))"
    "small (option_item mf_voip voip_items (hm_voip m))"
    "small (option_item mf_file_sharing file_sharing_items (hm_file_sharing m))"
    "small (option_item mf_chat_event chat_event_items (hm_chat_event m))"
    "small (option_item mf_shared_contact shared_contact_items (hm_shared_contact m))"
    using assms(1) by (simp_all add: part_items_def)
  have ok: "\<And>v. hm_voip m = Some v \<Longrightarrow> voip_wf v" "\<And>f. hm_file_sharing m = Some f \<Longrightarrow> file_sharing_wf f"
    "\<And>e. hm_chat_event m = Some e \<Longrightarrow> chat_event_wf e"
    using assms(2) by (auto simp: parts_ok_def)
  show "hm_chat k = None \<Longrightarrow> apply_items (option_item mf_chat chat_items (hm_chat m)) k =
       Some (k\<lparr>hm_chat := map_option chat_stored (hm_chat m)\<rparr>)"
    by (rule apply_option_item [OF _ sm(1)]) (simp_all add: apply_part_fields)
  show "hm_sticker k = None \<Longrightarrow> apply_items (option_item mf_sticker (\<lambda>s. [(mf_sticker_id, st_id s)]) (hm_sticker m)) k =
       Some (k\<lparr>hm_sticker := hm_sticker m\<rparr>)"
    using apply_option_item [OF _ sm(2), where upd = "\<lambda>x k. k\<lparr>hm_sticker := x\<rparr>" and g = "\<lambda>x. x" and m = k]
    by (simp add: apply_part_fields(2) option.map_ident del: pack_bytes_simps)
  show "\<not> hm_mult k \<Longrightarrow> apply_items (opt_item (hm_mult m) mf_mult []) k = Some (k\<lparr>hm_mult := hm_mult m\<rparr>)"
    by (simp add: opt_item_def apply_items_simps apply_field_def mf_message)
  show "hm_voip k = None \<Longrightarrow> apply_items (option_item mf_voip voip_items (hm_voip m)) k =
       Some (k\<lparr>hm_voip := hm_voip m\<rparr>)"
    using apply_option_item [OF _ sm(3), where upd = "\<lambda>x k. k\<lparr>hm_voip := x\<rparr>" and g = "\<lambda>x. x" and m = k]
    by (simp add: apply_part_fields(3) ok option.map_ident)
  show "hm_file_sharing k = None \<Longrightarrow>
       apply_items (option_item mf_file_sharing file_sharing_items (hm_file_sharing m)) k =
       Some (k\<lparr>hm_file_sharing := hm_file_sharing m\<rparr>)"
    using apply_option_item [OF _ sm(4), where upd = "\<lambda>x k. k\<lparr>hm_file_sharing := x\<rparr>" and g = "\<lambda>x. x" and m = k]
    by (simp add: apply_part_fields(4) ok option.map_ident)
  show "hm_chat_event k = None \<Longrightarrow>
       apply_items (option_item mf_chat_event chat_event_items (hm_chat_event m)) k =
       Some (k\<lparr>hm_chat_event := hm_chat_event m\<rparr>)"
    using apply_option_item [OF _ sm(5), where upd = "\<lambda>x k. k\<lparr>hm_chat_event := x\<rparr>" and g = "\<lambda>x. x" and m = k]
    by (simp add: apply_part_fields(5) ok option.map_ident)
  show "hm_shared_contact k = None \<Longrightarrow>
       apply_items (option_item mf_shared_contact shared_contact_items (hm_shared_contact m)) k =
       Some (k\<lparr>hm_shared_contact := hm_shared_contact m\<rparr>)"
    using apply_option_item [OF _ sm(6), where upd = "\<lambda>x k. k\<lparr>hm_shared_contact := x\<rparr>" and g = "\<lambda>x. x" and m = k]
    by (simp add: apply_part_fields(6) option.map_ident)
qed

lemma apply_list_parts:
  assumes "small (part_items m)" and "parts_ok m"
  shows
    "apply_items (each_item mf_quote quote_items (hm_quotes m)) k =
       Some (k\<lparr>hm_quotes := hm_quotes k @ hm_quotes m\<rparr>)"
    "apply_items (each_item mf_snippet url_snippet_items (hm_snippets m)) k =
       Some (k\<lparr>hm_snippets := hm_snippets k @ hm_snippets m\<rparr>)"
    "hm_mentions k = [] \<Longrightarrow> apply_items (each_item mf_mention mention_items (hm_mentions m)) k =
       Some (k\<lparr>hm_mentions := hm_mentions m\<rparr>)"
proof -
  have sm: "small (each_item mf_quote quote_items (hm_quotes m))"
    "small (each_item mf_snippet url_snippet_items (hm_snippets m))"
    "small (each_item mf_mention mention_items (hm_mentions m))"
    using assms(1) by (simp_all add: part_items_def)
  have ok: "ordered (hm_mentions m)" "\<And>e. e \<in> set (hm_mentions m) \<Longrightarrow> fst e \<noteq> [] \<and> snd e \<noteq> []"
    using assms(2) by (auto simp: parts_ok_def)
  have "apply_items (each_item mf_quote quote_items (hm_quotes m)) k =
      Some (fold (\<lambda>q m. m\<lparr>hm_quotes := hm_quotes m @ [q]\<rparr>) (hm_quotes m) k)"
    by (rule apply_each_item [OF _ sm(1)]) (simp add: apply_part_fields(7))
  then show "apply_items (each_item mf_quote quote_items (hm_quotes m)) k =
       Some (k\<lparr>hm_quotes := hm_quotes k @ hm_quotes m\<rparr>)"
    by (simp add: fold_quotes)
  have "apply_items (each_item mf_snippet url_snippet_items (hm_snippets m)) k =
      Some (fold (\<lambda>s m. m\<lparr>hm_snippets := hm_snippets m @ [s]\<rparr>) (hm_snippets m) k)"
    by (rule apply_each_item [OF _ sm(2)]) (simp add: apply_part_fields(8))
  then show "apply_items (each_item mf_snippet url_snippet_items (hm_snippets m)) k =
       Some (k\<lparr>hm_snippets := hm_snippets k @ hm_snippets m\<rparr>)"
    by (simp add: fold_snippets)
  have "apply_items (each_item mf_mention mention_items (hm_mentions m)) k =
      Some (fold (\<lambda>e m. m\<lparr>hm_mentions := map_emplace (fst e) (snd e) (hm_mentions m)\<rparr>) (hm_mentions m) k)"
    by (rule apply_each_item [OF _ sm(3)]) (simp add: apply_part_fields(9) ok)
  then show "hm_mentions k = [] \<Longrightarrow> apply_items (each_item mf_mention mention_items (hm_mentions m)) k =
       Some (k\<lparr>hm_mentions := hm_mentions m\<rparr>)"
    using fold_mentions [of k "hm_mentions m"] ok(1) by simp
qed

lemma apply_message_items:
  assumes "small (message_items m)" and "parts_ok m"
  shows "apply_items (message_items m) history_message_new = Some (hm_stored m)"
proof -
  have sm: "small (head_items m)" "small (part_items m)"
    using assms(1) by (simp_all add: message_items_def)
  note parts = apply_parts [OF sm(2) assms(2)] apply_list_parts [OF sm(2) assms(2)]
  show ?thesis
    unfolding message_items_def apply_items_simps(3) apply_head_items [OF sm(1)] option.case
      part_items_def
    by (simp add: parts apply_items_simps(3) history_message_new_def hm_stored_def)
qed

lemma message_unserialize_bytes:
  assumes "bs_wf s" and "content s = message_bytes m"
    and "length (message_bytes m) \<le> 2 ^ 32 - 2" and "parts_ok m"
  shows "\<exists>s'. message_unserialize history_message_new s = (Some (0, hm_stored m), s') \<and>
    bs_wf s' \<and> content s' = []"
proof -
  obtain s' where s': "tlvpack_unserialize empty_pack s = (True, pack_of (message_items m), s')"
    "bs_wf s'" "content s' = []"
    using tlvpack_unserialize_pack_bytes [OF assms(1,2,3) [unfolded message_bytes_def]] by blast
  have "apply_fields (tlvlist (pack_of (message_items m))) history_message_new = Some (hm_stored m)"
    using apply_message_items [OF small_message_items [OF assms(3)] assms(4)]
    by (simp add: pack_of_def apply_items_def)
  then show ?thesis using s' by (simp add: message_unserialize_def)
qed

subsection \<open>Field search on a stored message\<close>

text \<open>
  The search looks at one field at a time; on a stored pack it finds the first nonempty value
  of the type, whatever follows the pack.
\<close>

lemma unat_length: "length d \<le> 2 ^ 32 - 2 \<Longrightarrow> unat (word_of_nat (length d) :: u32w) = length d"
  by (simp add: unat_of_nat)

lemma length_word_zero: "length d \<le> 2 ^ 32 - 2 \<Longrightarrow> (word_of_nat (length d) :: u32w) = 0 \<longleftrightarrow> d = []"
  using unat_length [of d] by (metis length_0_conv unat_0 unat_eq_zero)

lemma try_get_field_item:
  assumes "bs_wf s" and "content s = item_bytes i @ rest" and "length (snd i) \<le> 2 ^ 32 - 2"
  shows "\<exists>s'. bs_wf s' \<and> try_get_field_with_type s ty =
      (True, if fst i = ty then word_of_nat (length (snd i)) else 0, s') \<and>
      content s' = (if fst i = ty then snd i @ rest else rest)"
proof -
  have len: "8 \<le> length (content s)" using assms(2) by simp
  note h = header_read [OF assms(1) len]
  have parts: "take 4 (content s) = mem_of 4 (fst i)" "drop 8 (content s) = snd i @ rest"
    "take 4 (drop 4 (content s)) = mem_of 4 (word_of_nat (length (snd i)) :: u32w)"
    by (simp_all add: assms(2) item_bytes_def)
  note n = unat_length [OF assms(3)] and z = length_word_zero [OF assms(3)]
  define s2 where "s2 = adv 4 (adv 4 s)"
  have s2: "bs_wf s2" "content s2 = snd i @ rest"
    using h(3,4) parts(2) by (simp_all add: s2_def)
  have av: "available s2 = length (snd i) + length rest" "available s = 8 + length (snd i) + length rest"
    using s2 assms(1,2) by (simp_all add: available_content)
  have eq: "try_get_field_with_type s ty =
      (if snd i = [] then (True, 0, s2)
       else if fst i = ty then (True, word_of_nat (length (snd i)), s2)
       else (True, 0, snd (bs_read s2 (length (snd i)))))"
    using av by (simp add: try_get_field_with_type_def h(1,2) parts(1,3) s2_def [symmetric] n z
        val_of_mem_of_32)
  show ?thesis
  proof (cases "snd i = []")
    case True
    then show ?thesis using s2 by (auto simp: eq)
  next
    case False
    then show ?thesis
      using s2 by (auto simp: eq read_content bs_wf_adv content_adv)
  qed
qed

lemma find_field_items:
  assumes "bs_wf s" and "content s = pack_bytes is @ rest" and "small is"
    and "map_of (filter (\<lambda>i. snd i \<noteq> []) is) ty = Some d"
  shows "\<exists>s' rest'. find_field ty s len = (True, word_of_nat (length d), s') \<and> bs_wf s' \<and>
     content s' = d @ rest'"
  using assms
proof (induction "is" arbitrary: s len)
  case Nil
  then show ?case by simp
next
  case (Cons i "is")
  have c: "content s = item_bytes i @ (pack_bytes is @ rest)" using Cons.prems(2) by simp
  have sm: "length (snd i) \<le> 2 ^ 32 - 2" "small is" using Cons.prems(3) by simp_all
  obtain s' where s': "bs_wf s'" "try_get_field_with_type s ty =
      (True, if fst i = ty then word_of_nat (length (snd i)) else 0, s')"
      "content s' = (if fst i = ty then snd i @ (pack_bytes is @ rest) else pack_bytes is @ rest)"
    using try_get_field_item [OF Cons.prems(1) c sm(1)] by blast
  have av: "available s \<noteq> 0"
    using Cons.prems(1) c by (simp add: available_content)
  note z = length_word_zero [OF sm(1)]
  show ?case
  proof (cases "fst i = ty \<and> snd i \<noteq> []")
    case True
    then have "d = snd i" using Cons.prems(4) by (cases i) auto
    then show ?thesis
      using True s' z av by (auto simp: find_field.simps [of ty s])
  next
    case False
    then have d: "map_of (filter (\<lambda>i. snd i \<noteq> []) is) ty = Some d"
      using Cons.prems(4) by (cases i) (auto split: if_splits)
    have "find_field ty s len = find_field ty s' 0" "content s' = pack_bytes is @ rest"
      using False s' z av by (auto simp: find_field.simps [of ty s])
    then show ?thesis
      using Cons.IH [OF s'(1) _ sm(2) d] by simp
  qed
qed

lemma map_of_filter_Cons:
  "map_of (filter P (a # as)) k = (if P a \<and> fst a = k then Some (snd a) else map_of (filter P as) k)"
  by (cases a) auto

lemma get_id_field_stored:
  assumes "bs_wf s" and "content s = pack_bytes (message_items m) @ rest"
    and "small (message_items m)"
  shows "fst (get_id_field s) = hm_msgid m"
proof -
  have "map_of (filter (\<lambda>i. snd i \<noteq> []) (message_items m)) mf_msg_id = Some (mem_of 8 (hm_msgid m))"
    by (simp add: message_items_def head_items_def mf_message map_of_filter_Cons del: filter.simps)
  from find_field_items [OF assms this, of 0] obtain s' rest' where
    s': "find_field mf_msg_id s 0 = (True, word_of_nat (length (mem_of 8 (hm_msgid m))), s')" "bs_wf s'"
      "content s' = mem_of 8 (hm_msgid m) @ rest'"
    by blast
  have "read_u64 s' = (hm_msgid m, adv 8 s')"
    using s'(2,3) by (simp add: read_u64_def read_t_content val_of_mem_of_64)
  then show ?thesis
    by (simp add: get_id_field_def s'(1))
qed

lemma jump_to_text_stored:
  assumes "bs_wf s" and "content s = pack_bytes (message_items m) @ rest"
    and "small (message_items m)" and "hm_text m \<noteq> []"
  shows "\<exists>s' rest'. jump_to_text_field s len = (word_of_nat (length (hm_text m)), s') \<and>
    content s' = hm_text m @ rest'"
proof -
  have "map_of (filter (\<lambda>i. snd i \<noteq> []) (message_items m)) mf_text = Some (hm_text m)"
    using assms(4) by (simp add: message_items_def head_items_def map_of_filter_Cons del: filter.simps)
  from find_field_items [OF assms(1-3) this, of len] show ?thesis
    by (auto simp: jump_to_text_field_def)
qed

subsection \<open>A message as the value of a field\<close>

definition push_message :: "u32w \<Rightarrow> history_message \<Rightarrow> tlvpack \<Rightarrow> tlvpack" where
  "push_message ty m p = push_child p (tlv_stream ty (message_serialize m empty_stream))"

text \<open>The message in a field is parsed into a message that is there; the result code is ignored.\<close>

definition parse_message :: "tlv \<Rightarrow> history_message \<Rightarrow> history_message option" where
  "parse_message t m = map_option snd (fst (message_unserialize m (get_stream t)))"

lemma emits_push_message:
  assumes "emits f is"
  shows "emits (\<lambda>p. push_message ty m (f p)) (is @ [(ty, message_bytes m)])"
  unfolding emits_def
proof (intro impI allI)
  fix p assume s: "small (is @ [(ty, message_bytes m)])" and p: "pack_wf p"
  have m: "bs_wf (message_serialize m empty_stream)" "content (message_serialize m empty_stream) = message_bytes m"
    "output_cursor (message_serialize m empty_stream) = 0"
    using message_serialize_content [of empty_stream m] s by simp_all
  then have "tlv_wf (tlv_stream ty (message_serialize m empty_stream))"
    by (intro tlv_wf_stream)
  moreover have "pack_wf (f p)" "items_of (f p) = items_of p @ is"
    using assms s p by (simp_all add: emits_def)
  ultimately show "pack_wf (push_message ty m (f p)) \<and>
      items_of (push_message ty m (f p)) = items_of p @ is @ [(ty, message_bytes m)]"
    by (simp add: push_message_def item_of_stream m(2))
qed

lemma emits_push_message_if:
  "emits f is \<Longrightarrow> emits (\<lambda>p. if b then push_message ty m (f p) else f p) (is @ opt_item b ty (message_bytes m))"
  using emits_push_message [of f "is" ty m] by (cases b) (simp_all add: opt_item_def)

lemma map_of_Cons_append: "map_of ([i] @ is) ty = (if fst i = ty then Some (snd i) else map_of is ty)"
  by simp

lemma parse_message_stored:
  assumes "length (message_bytes m) \<le> 2 ^ 32 - 2" and "parts_ok m"
  shows "parse_message (tlv_make (ty, message_bytes m)) history_message_new = Some (hm_stored m)"
  using message_unserialize_bytes [of "get_stream (tlv_make (ty, message_bytes m))" m] assms
  by (auto simp: parse_message_def get_stream_make)

end
