(* ===== verification/Messages_Data.thy ===== *)
theory Messages_Data
  imports History_Message Storage
begin

section \<open>The data file: core/archive/messages_data\<close>

text \<open>
  The messages of a dialog, one block each. \<open>update\<close> appends messages and records where each
  was put, \<open>get_messages\<close> reads the messages of a list of headers, with the edits the headers
  carry; a message that cannot be read is replaced by a placeholder and reported. A message is
  a value here: the update gives back the messages with their new place. Reading is \<open>None\<close>
  where the code would dereference a null pointer.
\<close>

definition make_fake_message :: "message_header \<Rightarrow> history_message" where
  "make_fake_message h =
     (apply_header_flags h history_message_new)\<lparr>hm_msgid := hid (hdr h),
        hm_prev_msg_id := hprev_id (hdr h), hm_time := htime (hdr h),
        hm_text := ascii ''Invalid message data. Will be updated soon''\<rparr>"

definition header_offset :: "message_header \<Rightarrow> int" where
  "header_offset h = sint (hdata_offset (hdr h))"

primrec read_modifications ::
    "message_header list \<Rightarrow> storage \<Rightarrow> binary_stream \<Rightarrow> history_message list option \<times> storage" where
  "read_modifications [] st data = (Some [], st)"
| "read_modifications (h # hs) st data =
     (case read_data_block st (header_offset h) data of
        (False, st1, data1) \<Rightarrow> read_modifications hs st1 data1
      | (True, st1, data1) \<Rightarrow>
          (case message_unserialize history_message_new data1 of
             (None, data2) \<Rightarrow> (None, st1)
           | (Some (rc, m), data2) \<Rightarrow>
               if rc \<noteq> 0 then read_modifications hs st1 data2
               else if sint (hm_msgid m) \<noteq> get_id h then read_modifications hs st1 data2
               else apfst (map_option ((#) m)) (read_modifications hs st1 data2)))"

definition get_message_modifications ::
    "message_header \<Rightarrow> storage \<Rightarrow> history_message list option \<times> storage" where
  "get_message_modifications h st =
     (if \<not> is_modified h then (Some [], st)
      else read_modifications (get_modifications h) st empty_stream)"

text \<open>One header: the message and what is reported of it.\<close>

definition read_message ::
    "message_header \<Rightarrow> storage \<Rightarrow> binary_stream \<Rightarrow>
       (history_message \<times> (int \<times> int) list) option \<times> storage \<times> binary_stream" where
  "read_message h st data =
     (let failed = (\<lambda>code. Some (make_fake_message h, [(get_id h, code)]))
      in case read_data_block st (header_offset h) (reset data) of
           (False, st1, data1) \<Rightarrow> (failed 1, st1, data1)
         | (True, st1, data1) \<Rightarrow>
             (case message_unserialize history_message_new data1 of
                (None, data2) \<Rightarrow> (None, st1, data2)
              | (Some (rc, m), data2) \<Rightarrow>
                  if rc \<noteq> 0 then (failed 2, st1, data2)
                  else if sint (hm_msgid m) \<noteq> get_id h then (failed 3, st1, data2)
                  else
                    let (mods, st2) = get_message_modifications h st1
                    in (map_option (\<lambda>mods.
                          (apply_modifications mods (apply_header_flags h m), [])) mods, st2, data2)))"

primrec read_messages ::
    "message_header list \<Rightarrow> storage \<Rightarrow> binary_stream \<Rightarrow>
       (history_message list \<times> (int \<times> int) list) option \<times> storage" where
  "read_messages [] st data = (Some ([], []), st)"
| "read_messages (h # hs) st data =
     (case read_message h st data of
        (None, st1, data1) \<Rightarrow> (None, st1)
      | (Some (m, errs), st1, data1) \<Rightarrow>
          apfst (map_option (\<lambda>(ms, es). (m # ms, errs @ es))) (read_messages hs st1 data1))"

definition get_messages ::
    "fs_env \<Rightarrow> message_header list \<Rightarrow> history_message list \<Rightarrow> storage \<Rightarrow>
       ((int \<times> int) list \<times> history_message list) option \<times> storage" where
  "get_messages env headers messages st =
     (case storage_open env (no_mode\<lparr>sm_read := True, sm_append := True\<rparr>) st of
        (False, st1) \<Rightarrow> (Some ([(-1, -1)], messages), st1)
      | (True, st1) \<Rightarrow>
          (case read_messages headers st1 empty_stream of
             (None, st2) \<Rightarrow> (None, storage_close st2)
           | (Some (ms, errs), st2) \<Rightarrow>
               (Some (errs @ (if length (messages @ ms) \<noteq> length headers then [(-1, 4)] else []),
                  messages @ ms), storage_close st2)))"

definition drop_data :: "fs_env \<Rightarrow> storage \<Rightarrow> storage" where
  "drop_data env st =
     storage_close (snd (storage_open env (no_mode\<lparr>sm_write := True, sm_truncate := True\<rparr>) st))"

primrec write_messages ::
    "fs_env \<Rightarrow> history_message list \<Rightarrow> binary_stream \<Rightarrow> storage \<Rightarrow>
       result_type \<times> history_message list \<times> storage" where
  "write_messages env [] data st = (\<lparr>result = True, error_code = 0\<rparr>, [], st)"
| "write_messages env (m # ms) data st =
     (let data1 = message_serialize m (reset data);
          data_size = available data1;
          (res, off, st1, data2) = write_data_block env st data1 0
      in if \<not> result res then (res, m # ms, st1)
         else
           let (r, ms1, st2) = write_messages env ms data2 st1
           in (r, m\<lparr>hm_data_offset := word_of_int off, hm_data_size := word_of_nat data_size\<rparr> # ms1, st2))"

definition data_update ::
    "fs_env \<Rightarrow> history_message list \<Rightarrow> storage \<Rightarrow> result_type \<times> history_message list \<times> storage" where
  "data_update env ms st =
     (case storage_open env (no_mode\<lparr>sm_write := True, sm_append := True\<rparr>) st of
        (False, st1) \<Rightarrow> (\<lparr>result = False, error_code = 0\<rparr>, ms, st1)
      | (True, st1) \<Rightarrow>
          let (r, ms1, st2) = write_messages env ms empty_stream st1 in (r, ms1, storage_close st2))"

subsection \<open>What an update writes\<close>

definition message_ok :: "history_message \<Rightarrow> bool" where
  "message_ok m \<longleftrightarrow> block_ok (message_bytes m)"

lemma message_okD:
  "message_ok m \<Longrightarrow> length (message_bytes m) \<le> 2 ^ 32 - 2"
  by (simp add: message_ok_def block_ok_def max_data_block_size_def)

lemma message_bytes_neq_Nil [simp]: "message_bytes m \<noteq> []"
  by (simp add: message_bytes_def message_items_def head_items_def item_bytes_def)

definition data_blocks :: "history_message list \<Rightarrow> bytes" where
  "data_blocks ms = concat (map (\<lambda>m. block_bytes (message_bytes m)) ms)"

lemma data_blocks_simps [simp]:
  "data_blocks [] = []"
  "data_blocks (m # ms) = block_bytes (message_bytes m) @ data_blocks ms"
  by (simp_all add: data_blocks_def)

text \<open>Where the messages end up in a file of \<open>p\<close> bytes.\<close>

primrec placed :: "nat \<Rightarrow> history_message list \<Rightarrow> history_message list" where
  "placed p [] = []"
| "placed p (m # ms) =
     m\<lparr>hm_data_offset := word_of_int (int p), hm_data_size := word_of_nat (length (message_bytes m))\<rparr> #
     placed (p + length (message_bytes m) + 16) ms"

lemma length_placed [simp]: "length (placed p ms) = length ms"
  by (induction ms arbitrary: p) simp_all

lemma message_stream:
  assumes "bs_wf data" and "length (message_bytes m) \<le> 2 ^ 32 - 2"
  shows "bs_wf (message_serialize m (reset data))"
    and "content (message_serialize m (reset data)) = message_bytes m"
    and "available (message_serialize m (reset data)) = length (message_bytes m)"
proof -
  have r: "bs_wf (reset data)" "content (reset data) = []" "room (reset data) = 2 ^ 32 - 2"
    using assms(1) by simp_all
  show "bs_wf (message_serialize m (reset data))"
    "content (message_serialize m (reset data)) = message_bytes m"
    using message_serialize_content [OF r(1), of m] r assms(2) by simp_all
  then show "available (message_serialize m (reset data)) = length (message_bytes m)"
    by (simp add: available_content)
qed

lemma write_messages_file:
  "at_end st \<Longrightarrow> bs_wf data \<Longrightarrow> (\<forall>m \<in> set ms. length (message_bytes m) \<le> 2 ^ 32 - 2) \<Longrightarrow>
     write_messages env ms data st = (r, ms1, st') \<Longrightarrow>
     wrote st (data_blocks ms) (result r) st' \<and>
     (result r \<longrightarrow> ms1 = placed (length (logical st)) ms) \<and>
     (keeps_all env \<longrightarrow> result r) \<and> (unbuffered env \<longrightarrow> settled st \<longrightarrow> settled st')"
proof (induction ms arbitrary: st data ms1)
  case Nil
  then show ?case using wrote_nothing by auto
next
  case (Cons m ms)
  have len: "length (message_bytes m) \<le> 2 ^ 32 - 2" using Cons.prems(3) by simp
  note s = message_stream [OF Cons.prems(2) len]
  have ne: "content (message_serialize m (reset data)) \<noteq> []" by (simp add: s(2))
  obtain res off st1 data2 where w:
    "write_data_block env st (message_serialize m (reset data)) 0 = (res, off, st1, data2)"
    by (metis prod_cases4)
  note wf = write_data_block_at_end [OF Cons.prems(1) s(1) ne w, unfolded s(2)]
  have d2: "bs_wf data2"
    using write_data_block_data [OF s(1) ne, of env st 0] w by simp
  show ?case
  proof (cases "result res")
    case False
    then show ?thesis
      using Cons.prems(4) w s(3) wf wrote_more by (auto simp: Let_def)
  next
    case True
    have st1: "at_end st1" "logical st1 = logical st @ block_bytes (message_bytes m)"
      using wf(2) True by (simp_all add: wrote_def)
    obtain ms2 where r: "write_messages env ms data2 st1 = (r, ms2, st')"
      and ms1: "ms1 = m\<lparr>hm_data_offset := word_of_int off,
        hm_data_size := word_of_nat (length (message_bytes m))\<rparr> # ms2"
      using Cons.prems(4) w s(3) True by (auto simp: Let_def split: prod.splits)
    have small: "\<forall>m \<in> set ms. length (message_bytes m) \<le> 2 ^ 32 - 2" using Cons.prems(3) by simp
    note IH = Cons.IH [OF st1(1) d2 small r]
    have "wrote st (block_bytes (message_bytes m)) True st1" using wf(2) True by simp
    with IH have "wrote st (data_blocks (m # ms)) (result r) st'" using wrote_trans by simp
    then show ?thesis using IH wf(1,5) st1(2) by (simp add: ms1 add.assoc)
  qed
qed

text \<open>
  An update adds the blocks of the messages to the file as far as the medium takes them. It succeeds
  when they fit, and with a library that keeps all output in its buffer also when they do not.
\<close>

lemma data_update_file:
  assumes "can_open env" and "file_stream st = None"
    and "\<forall>m \<in> set ms. length (message_bytes m) \<le> 2 ^ 32 - 2"
  shows "length (data_blocks ms) \<le> free_space st \<Longrightarrow> result (fst (data_update env ms st))"
    and "file_bytes (snd (snd (data_update env ms st))) =
      file_bytes st @ take (free_space st) (data_blocks ms)"
    and "result (fst (data_update env ms st)) \<Longrightarrow>
      fst (snd (data_update env ms st)) = placed (length (file_bytes st)) ms"
    and "file_stream (snd (snd (data_update env ms st))) = None"
    and "keeps_all env \<Longrightarrow> result (fst (data_update env ms st))"
    and "unbuffered env \<Longrightarrow> result (fst (data_update env ms st)) \<Longrightarrow> length (data_blocks ms) \<le> free_space st"
proof -
  note o = open_append [OF assms(1,2)]
  let ?st = "opened append_mode (file_bytes st) st"
  obtain r ms1 st2 where r: "write_messages env ms empty_stream ?st = (r, ms1, st2)"
    by (metis prod_cases3)
  have eq: "data_update env ms st = (r, ms1, storage_close st2)"
    using o(1) r by (simp add: data_update_def append_mode_def)
  note w = write_messages_file [OF o(2) bs_wf_empty assms(3) r]
  have wr: "wrote ?st (data_blocks ms) (result r) st2" using w by blast
  show "length (data_blocks ms) \<le> free_space st \<Longrightarrow> result (fst (data_update env ms st))"
    using wrote_fits [OF wr] by (simp add: eq) (simp add: capacity_def)
  show "file_bytes (snd (snd (data_update env ms st))) =
      file_bytes st @ take (free_space st) (data_blocks ms)"
    using wrote_file(1) [OF wr] by (simp add: eq) (simp add: capacity_def)
  show "result (fst (data_update env ms st)) \<Longrightarrow>
      fst (snd (data_update env ms st)) = placed (length (file_bytes st)) ms"
    "file_stream (snd (snd (data_update env ms st))) = None"
    "keeps_all env \<Longrightarrow> result (fst (data_update env ms st))"
    using w by (simp_all add: eq)
  show "length (data_blocks ms) \<le> free_space st" if "unbuffered env" "result (fst (data_update env ms st))"
    using settled_wrote [of ?st "data_blocks ms" st2] w that by (simp add: eq) (simp add: capacity_def)
qed

subsection \<open>Reading back what was written\<close>

text \<open>The block a header points to holds a message with the header's identifier.\<close>

definition stored_at :: "bytes \<Rightarrow> message_header \<Rightarrow> history_message \<Rightarrow> bool" where
  "stored_at f h m \<longleftrightarrow> 0 \<le> header_offset h \<and> parts_ok m \<and> sint (hm_msgid m) = get_id h \<and>
     (\<exists>rest. dec_block (drop (nat (header_offset h)) f) = Some (message_bytes m, rest))"

lemma input_cursor_read [simp]:
  "input_cursor (adv n s) = input_cursor s"
  "input_cursor (snd (bs_read s n)) = input_cursor s"
  "input_cursor (snd (read_t s n)) = input_cursor s"
  "input_cursor (snd (read_u32 s)) = input_cursor s"
  by (auto simp: adv_def bs_read_def read_t_def read_u32_def apsnd_def apfst_def split: option.split prod.split)

lemma input_cursor_tlv_unserialize [simp]:
  "input_cursor (snd (snd (tlv_unserialize t s))) = input_cursor s"
  by (auto simp: tlv_unserialize_def Let_def split_beta)

lemma input_cursor_tlvpack_unserialize [simp]:
  "input_cursor (snd (snd (tlvpack_unserialize p s))) = input_cursor s"
proof (induction p s rule: tlvpack_unserialize.induct)
  case (1 p s)
  obtain b t s' where t: "tlv_unserialize tlv_new s = (b, t, s')" by (metis prod_cases3)
  have "input_cursor s' = input_cursor s"
    using input_cursor_tlv_unserialize [of tlv_new s] t by simp
  then show ?case
    using 1 t by (cases b) (auto simp: tlvpack_unserialize.simps [of p s])
qed

lemma input_cursor_message_unserialize [simp]:
  "input_cursor (snd (message_unserialize m s)) = input_cursor s"
  by (auto simp: message_unserialize_def Let_def split_beta)

lemma input_cursor_reset [simp]: "input_cursor (reset s) = 0"
  by (simp add: reset_def)

lemma read_stored:
  assumes st: "file_stream st = Some s" "ready s" and m: "stored_at (file_bytes st) h m"
    and data: "bs_wf data" "content data = []" "input_cursor data \<le> 2 ^ 30"
  shows "\<exists>s' data' data''. read_data_block st (header_offset h) data = (True, set_stream st s', data') \<and>
    ready s' \<and> message_unserialize history_message_new data' = (Some (0, hm_stored m), data'') \<and>
    bs_wf data'' \<and> content data'' = [] \<and>
    input_cursor data'' = input_cursor data + length (message_bytes m)"
proof -
  obtain rest where off: "0 \<le> header_offset h"
    and dec: "dec_block (drop (start_pos s (header_offset h)) (file_bytes st)) = Some (message_bytes m, rest)"
    using m by (auto simp: stored_at_def start_pos_def)
  have small: "length (message_bytes m) \<le> 2 ^ 32 - 2"
    using dec_block_ok [OF dec] message_okD [of m] by (simp add: message_ok_def)
  obtain data' where r: "read_data_block st (header_offset h) data =
      (True, set_stream st (s\<lparr>fs_pos := start_pos s (header_offset h) + length (message_bytes m) + 16\<rparr>), data')"
    "content data' = message_bytes m" "bs_wf data'"
    "input_cursor data' = input_cursor data + length (message_bytes m)"
    using read_data_block_good [OF st _ data(1,3) dec] off data(2) by auto
  obtain data'' where "message_unserialize history_message_new data' = (Some (0, hm_stored m), data'')"
    "bs_wf data''" "content data'' = []"
    using message_unserialize_bytes [OF r(3,2) small] m by (auto simp: stored_at_def)
  then show ?thesis
    using r st(2) input_cursor_message_unserialize [of history_message_new data'] by fastforce
qed

lemma stored_short: "stored_at f h m \<Longrightarrow> length (message_bytes m) \<le> 2 ^ 20"
  by (auto simp: stored_at_def dest!: dec_block_ok simp: block_ok_def max_data_block_size_def)

lemma hm_stored_id [simp]: "hm_msgid (hm_stored m) = hm_msgid m"
  by (simp add: hm_stored_def)

lemma set_stream_set_stream [simp]: "set_stream (set_stream st s) s' = set_stream st s'"
  by (simp add: set_stream_def)

lemma read_modifications_stored:
  "list_all2 (stored_at f) hs ms \<Longrightarrow> file_bytes st = f \<Longrightarrow> file_stream st = Some s \<Longrightarrow> ready s \<Longrightarrow>
     bs_wf data \<Longrightarrow> content data = [] \<Longrightarrow> input_cursor data + 2 ^ 20 * length hs \<le> 2 ^ 30 \<Longrightarrow>
     \<exists>s'. read_modifications hs st data = (Some (map hm_stored ms), set_stream st s') \<and> ready s'"
proof (induction hs ms arbitrary: st s data rule: list_all2_induct)
  case Nil
  then have "set_stream st s = st" by (simp add: set_stream_def)
  then show ?case using Nil by (metis list.simps(8) read_modifications.simps(1))
next
  case (Cons h hs m ms)
  have m: "stored_at (file_bytes st) h m" using Cons.hyps(1) Cons.prems(1) by simp
  obtain s' data' data'' where r:
    "read_data_block st (header_offset h) data = (True, set_stream st s', data')" "ready s'"
    "message_unserialize history_message_new data' = (Some (0, hm_stored m), data'')"
    "bs_wf data''" "content data'' = []"
    "input_cursor data'' = input_cursor data + length (message_bytes m)"
    using read_stored [OF Cons.prems(2,3) m Cons.prems(4,5)] Cons.prems(6) by auto
  have "input_cursor data'' + 2 ^ 20 * length hs \<le> 2 ^ 30"
    using r(6) stored_short [OF Cons.hyps(1)] Cons.prems(6) by simp
  then obtain s'' where "read_modifications hs (set_stream st s') data'' =
      (Some (map hm_stored ms), set_stream st s'')" "ready s''"
    using Cons.IH [of "set_stream st s'" s' data''] Cons.prems(1) r by auto
  moreover have "sint (hm_msgid (hm_stored m)) = get_id h"
    using Cons.hyps(1) by (simp add: stored_at_def)
  ultimately show ?case using r by auto
qed

text \<open>The message a header stands for, with the edits it carries.\<close>

definition edits_of :: "message_header \<Rightarrow> message_header list" where
  "edits_of h = (if is_modified h then modifications h else [])"

definition shown :: "message_header \<Rightarrow> history_message list \<Rightarrow> history_message \<Rightarrow> history_message" where
  "shown h edits m = apply_modifications (map hm_stored edits) (apply_header_flags h (hm_stored m))"

lemma read_message_stored:
  assumes st: "file_stream st = Some s" "ready s" and m: "stored_at (file_bytes st) h m"
    and edits: "list_all2 (stored_at (file_bytes st)) (edits_of h) edits" "length edits \<le> 1024"
    and data: "bs_wf data"
  shows "\<exists>s' data'. read_message h st data = (Some (shown h edits m, []), set_stream st s', data') \<and>
    ready s' \<and> bs_wf data'"
proof -
  have r0: "bs_wf (reset data)" "content (reset data) = []" "input_cursor (reset data) \<le> 2 ^ 30"
    using data by simp_all
  obtain s' data' data'' where r:
    "read_data_block st (header_offset h) (reset data) = (True, set_stream st s', data')" "ready s'"
    "message_unserialize history_message_new data' = (Some (0, hm_stored m), data'')" "bs_wf data''"
    using read_stored [OF st m r0] by blast
  have id: "sint (hm_msgid m) = get_id h" using m by (simp add: stored_at_def)
  have "\<exists>s''. get_message_modifications h (set_stream st s') =
      (Some (map hm_stored edits), set_stream st s'') \<and> ready s''"
  proof (cases "is_modified h")
    case True
    then have e: "list_all2 (stored_at (file_bytes (set_stream st s'))) (modifications h) edits"
      using edits(1) by (simp add: edits_of_def)
    have len: "input_cursor empty_stream + 2 ^ 20 * length (modifications h) \<le> 2 ^ 30"
      using list_all2_lengthD [OF e] edits(2) by simp
    show ?thesis
      using read_modifications_stored [OF e refl _ r(2) bs_wf_empty content_empty len] True
      by (simp add: get_message_modifications_def get_modifications_def)
  next
    case False
    then show ?thesis
      using edits(1) r(2) by (auto simp: get_message_modifications_def edits_of_def)
  qed
  then show ?thesis
    using r id by (auto simp: read_message_def Let_def shown_def)
qed

lemma read_messages_stored:
  "list_all2 (stored_at f) hs ms \<Longrightarrow>
     list_all2 (\<lambda>h es. list_all2 (stored_at f) (edits_of h) es \<and> length es \<le> 1024) hs ess \<Longrightarrow>
     file_bytes st = f \<Longrightarrow> file_stream st = Some s \<Longrightarrow> ready s \<Longrightarrow> bs_wf data \<Longrightarrow>
     \<exists>s'. read_messages hs st data =
       (Some (map (\<lambda>(h, es, m). shown h es m) (zip hs (zip ess ms)), []), set_stream st s') \<and> ready s'"
proof (induction hs ms arbitrary: st s data ess rule: list_all2_induct)
  case Nil
  then have "set_stream st s = st" by (simp add: set_stream_def)
  then show ?case using Nil by (metis (no_types) list.map(1) read_messages.simps(1) zip_Nil)
next
  case (Cons h hs m ms)
  obtain es ess' where ess: "ess = es # ess'" "list_all2 (stored_at f) (edits_of h) es"
    "length es \<le> 1024"
    "list_all2 (\<lambda>h es. list_all2 (stored_at f) (edits_of h) es \<and> length es \<le> 1024) hs ess'"
    using Cons.prems(1) by (auto simp: list_all2_Cons1)
  obtain s' data' where r: "read_message h st data = (Some (shown h es m, []), set_stream st s', data')"
    "ready s'" "bs_wf data'"
    using read_message_stored [OF Cons.prems(3,4) _ _ ess(3) Cons.prems(5), of h m] Cons.hyps(1) ess(2) Cons.prems(2) by blast
  obtain s'' where "read_messages hs (set_stream st s') data' =
      (Some (map (\<lambda>(h, es, m). shown h es m) (zip hs (zip ess' ms)), []), set_stream st s'')" "ready s''"
    using Cons.IH [of ess' "set_stream st s'" s' data'] Cons.prems(2) ess(4) r by auto
  then show ?case using r by (auto simp: ess(1))
qed

lemma map_shown_no_edits:
  "length ms = length hs \<Longrightarrow>
     map (\<lambda>(h, es, m). shown h es m) (zip hs (zip (map (\<lambda>h. []) hs) ms)) =
       map2 (\<lambda>h m. apply_header_flags h (hm_stored m)) hs ms"
  by (induction hs ms rule: list_induct2') (simp_all add: shown_def)

lemma open_read_append:
  assumes "can_open env" and "file_stream st = None" and "file_data st = Some f"
  shows "\<exists>s. storage_open env (no_mode\<lparr>sm_read := True, sm_append := True\<rparr>) st =
      (True, set_stream (st\<lparr>last_error := ok\<rparr>) s) \<and> ready s"
proof -
  have o: "storage_open env (no_mode\<lparr>sm_read := True, sm_append := True\<rparr>) st =
      (True, opened (no_mode\<lparr>sm_read := True, sm_append := True\<rparr>) f st)"
    using assms by (intro storage_open_opened) (simp_all add: no_mode_def std_open_def)
  have "file_bytes st = f" using assms(3) by (simp add: file_bytes_def)
  then have "opened (no_mode\<lparr>sm_read := True, sm_append := True\<rparr>) f st =
      set_stream (st\<lparr>last_error := ok\<rparr>) \<lparr>fs_pos = 0, eofbit = False, failbit = False, appmode = True, unwritten = []\<rparr>"
    using assms(3) by (simp add: opened_def set_stream_def no_mode_def)
  then show ?thesis using o by (auto simp: ready_def fs_good_def)
qed

lemma get_messages_stored:
  assumes "can_open env" and "file_stream st = None" and "file_data st = Some f"
    and "list_all2 (stored_at f) hs ms"
    and "list_all2 (\<lambda>h es. list_all2 (stored_at f) (edits_of h) es \<and> length es \<le> 1024) hs ess"
  shows "\<exists>st'. get_messages env hs [] st =
      (Some ([], map (\<lambda>(h, es, m). shown h es m) (zip hs (zip ess ms))), st') \<and>
      file_data st' = Some f \<and> file_stream st' = None"
proof -
  obtain s where s: "storage_open env (no_mode\<lparr>sm_read := True, sm_append := True\<rparr>) st =
      (True, set_stream (st\<lparr>last_error := ok\<rparr>) s)" "ready s"
    using open_read_append [OF assms(1-3)] by blast
  have f: "file_bytes (set_stream (st\<lparr>last_error := ok\<rparr>) s) = f"
    using assms(3) by (simp add: file_bytes_def set_stream_def)
  obtain s' where r: "read_messages hs (set_stream (st\<lparr>last_error := ok\<rparr>) s) empty_stream =
      (Some (map (\<lambda>(h, es, m). shown h es m) (zip hs (zip ess ms)), []),
       set_stream (set_stream (st\<lparr>last_error := ok\<rparr>) s) s')" "ready s'"
    using read_messages_stored [OF assms(4,5) f _ s(2) bs_wf_empty] by auto
  have "length hs = length ms" "length hs = length ess"
    using assms(4,5) by (auto dest: list_all2_lengthD)
  moreover have "storage_close (set_stream (set_stream (st\<lparr>last_error := ok\<rparr>) s) s') = st\<lparr>last_error := ok, file_stream := None\<rparr>"
    using close_nothing [OF _ ready_good(2) [OF r(2)], of "set_stream (set_stream (st\<lparr>last_error := ok\<rparr>) s) s'"]
    by (simp add: set_stream_def)
  ultimately show ?thesis
    using s(1) r(1) assms(3) by (simp add: get_messages_def)
qed

subsection \<open>The place an update records is where the message is\<close>

lemma size_of_append [simp]: "4 \<le> length bs \<Longrightarrow> size_of (bs @ x) = size_of bs"
  by (simp add: size_of_def)

lemma dec_block_append:
  assumes "dec_block bs = Some (d, rest)"
  shows "dec_block (bs @ x) = Some (d, rest @ x)"
proof -
  define n r where "n = size_of bs" and "r = drop 8 bs"
  have b: "8 \<le> length bs" "size_of (drop 4 bs) = n" "n \<le> max_data_block_size"
    "n + 8 \<le> length r" "size_of (drop n r) = n" "size_of (drop (n + 4) r) = n"
    "d = take n r" "rest = drop (n + 8) r"
    using assms by (auto simp: dec_block_def Let_def n_def r_def split: if_splits)
  have "size_of (bs @ x) = n" "drop 8 (bs @ x) = r @ x" "size_of (drop 4 (bs @ x)) = n"
    using b(1,2) by (simp_all add: n_def r_def)
  moreover have "size_of (drop n (r @ x)) = n" "size_of (drop (n + 4) (r @ x)) = n"
    "take n (r @ x) = d" "drop (n + 8) (r @ x) = rest @ x"
    using b(4-8) by simp_all
  ultimately show ?thesis
    using b(1,3,4) by (simp add: dec_block_def)
qed

lemma stored_at_append:
  assumes "stored_at f h m"
  shows "stored_at (f @ x) h m"
proof -
  obtain rest where d: "dec_block (drop (nat (header_offset h)) f) = Some (message_bytes m, rest)"
    using assms by (auto simp: stored_at_def)
  then have "nat (header_offset h) \<le> length f"
    using dec_block_length [OF d] by (simp only: length_drop) linarith
  then have "drop (nat (header_offset h)) (f @ x) = drop (nat (header_offset h)) f @ x" by simp
  then show ?thesis
    using assms dec_block_append [OF d, of x] by (auto simp: stored_at_def)
qed

text \<open>A header for a message that an update placed.\<close>

definition refers_to :: "message_header \<Rightarrow> history_message \<Rightarrow> bool" where
  "refers_to h m \<longleftrightarrow> hid (hdr h) = hm_msgid m \<and> hdata_offset (hdr h) = hm_data_offset m"

lemma placed_stored:
  "f = pre @ data_blocks ms @ post \<Longrightarrow> length f < 2 ^ 63 \<Longrightarrow>
     (\<forall>m \<in> set ms. message_ok m \<and> parts_ok m) \<Longrightarrow>
     list_all2 refers_to hs (placed (length pre) ms) \<Longrightarrow> list_all2 (stored_at f) hs ms"
proof (induction ms arbitrary: pre hs)
  case Nil
  then show ?case by simp
next
  case (Cons m ms)
  obtain h hs' where hs: "hs = h # hs'" "refers_to h (m\<lparr>hm_data_offset := word_of_int (int (length pre)),
      hm_data_size := word_of_nat (length (message_bytes m))\<rparr>)"
    "list_all2 refers_to hs' (placed (length pre + length (message_bytes m) + 16) ms)"
    using Cons.prems(4) by (auto simp: list_all2_Cons2)
  have ok: "message_ok m" "parts_ok m" using Cons.prems(3) by simp_all
  have "length pre < 2 ^ 63" using Cons.prems(1,2) by simp
  then have "sint (word_of_int (int (length pre)) :: i64w) = int (length pre)"
    unfolding sint_sbintrunc' by (intro signed_take_bit_int_eq_self) simp_all
  then have off: "header_offset h = int (length pre)"
    using hs(2) by (simp add: header_offset_def refers_to_def)
  have "drop (length pre) f = block_bytes (message_bytes m) @ (data_blocks ms @ post)"
    using Cons.prems(1) by simp
  then have "stored_at f h m"
    using off ok hs(2) dec_block_block_bytes [of "message_bytes m"]
    by (auto simp: stored_at_def message_ok_def refers_to_def get_id_def)
  moreover have "list_all2 (stored_at f) hs' ms"
    using Cons.IH [of "pre @ block_bytes (message_bytes m)" hs'] Cons.prems hs(3)
    by (simp add: add.assoc)
  ultimately show ?case by (simp add: hs(1))
qed

subsection \<open>Reading past the end of the file\<close>

lemma read_messages_bad_stream:
  "file_stream st = Some s \<Longrightarrow> \<not> fs_good s \<Longrightarrow> unwritten s = [] \<Longrightarrow>
     \<exists>st'. read_messages hs st data =
       (Some (map make_fake_message hs, map (\<lambda>h. (get_id h, 1)) hs), st')"
proof (induction hs arbitrary: st s data)
  case Nil
  then show ?case by simp
next
  case (Cons h hs)
  obtain s' where r: "read_data_block st (header_offset h) (reset data) =
      (False, (set_stream st s')\<lparr>last_error := end_of_file\<rparr>, reset data)" "\<not> fs_good s'" "unwritten s' = []"
    using read_data_block_sticky [OF Cons.prems] by blast
  have "file_stream ((set_stream st s')\<lparr>last_error := end_of_file\<rparr>) = Some s'"
    by (simp add: set_stream_def)
  from Cons.IH [OF this r(2,3), of "reset data"] obtain st' where
    "read_messages hs ((set_stream st s')\<lparr>last_error := end_of_file\<rparr>) (reset data) =
      (Some (map make_fake_message hs, map (\<lambda>h. (get_id h, 1)) hs), st')"
    by blast
  then show ?case using r(1) by (simp add: read_message_def)
qed

lemma read_past_end:
  assumes "file_stream st = Some s" and "ready s" and "int (length (file_bytes st)) \<le> off"
  shows "\<exists>s'. read_data_block st off data = (False, (set_stream st s')\<lparr>last_error := end_of_file\<rparr>, data) \<and>
    \<not> fs_good s' \<and> unwritten s' = []"
  using assms sync_output_nothing [OF assms(1)]
  by (auto simp: read_data_block_def fs_seekp_def fs_peek_def ready_def fs_good_def Let_def)

lemma read_messages_cut_off:
  "list_all2 (stored_at f) hs ms \<Longrightarrow> \<forall>h \<in> set hs. \<not> is_modified h \<Longrightarrow> file_bytes st = f \<Longrightarrow>
     file_stream st = Some s \<Longrightarrow> ready s \<Longrightarrow> bs_wf data \<Longrightarrow> int (length f) \<le> header_offset h0 \<Longrightarrow>
     \<exists>st'. read_messages (hs @ h0 # js) st data =
       (Some (map2 (\<lambda>h m. apply_header_flags h (hm_stored m)) hs ms @ map make_fake_message (h0 # js),
          map (\<lambda>h. (get_id h, 1)) (h0 # js)), st')"
proof (induction hs ms arbitrary: st s data rule: list_all2_induct)
  case Nil
  obtain s' where r: "read_data_block st (header_offset h0) (reset data) =
      (False, (set_stream st s')\<lparr>last_error := end_of_file\<rparr>, reset data)" "\<not> fs_good s'" "unwritten s' = []"
    using read_past_end Nil by blast
  have "file_stream ((set_stream st s')\<lparr>last_error := end_of_file\<rparr>) = Some s'"
    by (simp add: set_stream_def)
  from read_messages_bad_stream [OF this r(2,3), of js "reset data"] show ?case
    using r(1) by (auto simp: read_message_def)
next
  case (Cons h hs m ms)
  have m: "stored_at (file_bytes st) h m" using Cons.hyps(1) Cons.prems(2) by simp
  have e: "list_all2 (stored_at (file_bytes st)) (edits_of h) []"
    using Cons.prems(1) by (simp add: edits_of_def)
  obtain s' data' where r: "read_message h st data = (Some (shown h [] m, []), set_stream st s', data')"
    "ready s'" "bs_wf data'"
    using read_message_stored [OF Cons.prems(3,4) m e _ Cons.prems(5)] by auto
  obtain st' where "read_messages (hs @ h0 # js) (set_stream st s') data' =
      (Some (map2 (\<lambda>h m. apply_header_flags h (hm_stored m)) hs ms @ map make_fake_message (h0 # js),
          map (\<lambda>h. (get_id h, 1)) (h0 # js)), st')"
    using Cons.IH [of "set_stream st s'" s' data'] Cons.prems r(2,3) by auto
  then show ?case using r(1) by (auto simp: shown_def)
qed

end
