(* ===== verification/Samples.thy ===== *)
theory Samples
  imports Archive_Index Messages_Data
begin

section \<open>Concrete states on which the properties are applied\<close>

text \<open>
  A file system that allows everything, an empty archive file on a disk with 4 KB left, two
  messages and their headers. The witnesses of the properties are evaluated on them.
\<close>

definition sample_env :: fs_env where
  "sample_env = \<lparr>dir_exists = False, create_dir_ok = True, open_ok = True, os_errno = 0,
     buffer_keeps = (\<lambda>p n. if n < 1024 \<and> p + n < 8192 then p + n else 0)\<rparr>"

definition sample_storage :: storage where
  "sample_storage = storage_new\<lparr>free_space := 4096\<rparr>"

definition sample_message :: history_message where
  "sample_message = history_message_new\<lparr>hm_msgid := 5, hm_text := [104, 105]\<rparr>"

definition sample_reply :: history_message where
  "sample_reply = history_message_new\<lparr>hm_msgid := 7, hm_prev_msg_id := 5, hm_text := [111, 107],
     hm_mentions := [([97], [98])]\<rparr>"

definition sample_fields :: "i64w \<Rightarrow> i64w \<Rightarrow> message_flags \<Rightarrow> header_fields" where
  "sample_fields i prev fl = \<lparr>hid = i, hversion = 2, hflags = fl, htime = 1000, hprev_id = prev,
     hdata_offset = 0, hdata_size = 40, hpatch_version = patch_version_new, hshared_contact_sn = False\<rparr>"

definition sample_header :: "i64w \<Rightarrow> i64w \<Rightarrow> message_flags \<Rightarrow> message_header" where
  "sample_header i prev fl = Message_Header (sample_fields i prev fl) []"

definition sample_index :: archive_index where
  "sample_index = archive_index_new\<lparr>ai_storage := sample_storage\<rparr>"

lemma sample_env_opens [simp]: "can_open sample_env"
  by (simp add: can_open_def sample_env_def)

lemma sample_storage_fields [simp]:
  "file_stream sample_storage = None" "file_bytes sample_storage = []" "file_data sample_storage = None"
  "free_space sample_storage = 4096" "capacity sample_storage = 4096"
  by (simp_all add: sample_storage_def storage_new_def file_bytes_def capacity_def)

lemma sample_header_fields [simp]:
  "get_id (sample_header i p fl) = sint i" "get_prev_msgid (sample_header i p fl) = sint p"
  "hdr (sample_header i p fl) = sample_fields i p fl" "modifications (sample_header i p fl) = []"
  by (simp_all add: sample_header_def sample_fields_def get_id_def get_prev_msgid_def)

lemma sample_fields_simps [simp]:
  "hflags (sample_fields i p fl) = fl" "hversion (sample_fields i p fl) = 2"
  "hpatch_version (sample_fields i p fl) = patch_version_new" "hid (sample_fields i p fl) = i"
  "hshared_contact_sn (sample_fields i p fl) = False"
  "hdata_offset (sample_fields i p fl) = 0"
  by (simp_all add: sample_fields_def)

lemma sample_header_ok [simp]: "0 < sint i \<Longrightarrow> header_ok (sample_fields i p fl)"
  by (simp add: header_ok_def header_version_def patch_version_new_def)

lemma length_sample_header [simp]: "length (header_bytes (sample_fields i p fl)) = 46"
  by (simp add: header_bytes_def header_version_bytes_def patch_version_new_def)

lemma sample_messages_ok [simp]:
  "message_ok sample_message" "message_ok sample_reply" "parts_ok sample_message" "parts_ok sample_reply"
  by (simp_all add: message_ok_def block_ok_def max_data_block_size_def message_bytes_def
      message_items_def head_items_def part_items_def sample_message_def sample_reply_def
      history_message_new_def patch_version_new_def option_item_def each_item_def mention_items_def
      opt_item_def parts_ok_def)

lemma length_sample_messages [simp]:
  "length (message_bytes sample_message) \<le> 1000" "length (message_bytes sample_reply) \<le> 1000"
  by (simp_all add: message_bytes_def message_items_def head_items_def part_items_def
      sample_message_def sample_reply_def history_message_new_def patch_version_new_def
      option_item_def each_item_def mention_items_def opt_item_def)

lemma length_sample_messages' [simp]:
  "length (message_bytes sample_message) \<le> 4294967294" "length (message_bytes sample_reply) \<le> 4294967294"
  using length_sample_messages by (simp_all only: order_trans [OF length_sample_messages(1)]
      order_trans [OF length_sample_messages(2)] numeral_le_iff semiring_norm)

lemma sample_message_fields [simp]:
  "hm_msgid sample_message = 5" "hm_text sample_message = [104, 105]"
  "hm_msgid sample_reply = 7" "hm_text sample_reply = [111, 107]" "hm_sticker sample_reply = None"
  by (simp_all add: sample_message_def sample_reply_def history_message_new_def)

end
