(* ===== verification/Format_Properties.thy ===== *)
theory Format_Properties
  imports Samples
begin

section \<open>The formats: streams, type-length-value packs, block files, headers\<close>

text \<open>
  What the byte formats of the archive promise, stated over the operations of the code: reading
  back what was written, what a parser does with arbitrary bytes, and what is left of an
  interrupted write.
\<close>

subsection \<open>Binary streams\<close>

text \<open>Whatever is written to a stream in pieces is read back in the same pieces, in order,
  and then the stream is empty, as long as the pieces fit in its 32-bit cursors.\<close>

lemma stream_writes_read_back:
  assumes "bs_wf s" and "content s = []" and "length (concat ds) \<le> room s" and "[] \<notin> set ds"
  shows "fst (get_many bs_read (map length ds) (fold (\<lambda>d s. bs_write s d) ds s)) = map Some ds \<and>
    content (snd (get_many bs_read (map length ds) (fold (\<lambda>d s. bs_write s d) ds s))) = []"
  using bq.fold_put [OF assms(1,3)] assms(2)
    bq.get_many_written [of "fold (\<lambda>d s. bs_write s d) ds s" ds "[]"] assms(4)
  by simp_all

subsection \<open>Type-length-value packs\<close>

text \<open>C36: A pack written to an empty stream is read back with the same items in the same order, and
  the reader leaves nothing behind.\<close>

theorem pack_round_trip:
  assumes "bs_wf s" and "content s = []" and "pack_wf p"
    and "length (pack_bytes (items_of p)) \<le> room s" and "length (pack_bytes (items_of p)) \<le> 2 ^ 32 - 2"
  shows "\<exists>s'. tlvpack_unserialize empty_pack (snd (tlvpack_serialize p s)) =
    (True, pack_of (items_of p), s') \<and> content s' = []"
  using tlvpack_serialize_facts [OF assms(1,3,4)] assms(2,5)
    tlvpack_unserialize_pack_bytes [of "snd (tlvpack_serialize p s)" "items_of p"]
  by auto

theorem pack_round_trip_witness:
  "\<exists>s'. tlvpack_unserialize empty_pack
      (snd (tlvpack_serialize (push_child empty_pack (tlv_string 1 [65])) empty_stream)) =
    (True, pack_of [(1, [65])], s') \<and> content s' = []"
  using pack_round_trip [of empty_stream "push_child empty_pack (tlv_string 1 [65])"]
  by (simp add: tlv_string_make)

text \<open>C35: On arbitrary bytes the parser of a pack reads exactly the items of the longest sequence of
  whole items the input starts with, and reports success exactly when nothing is left over.\<close>

theorem pack_parser_refines:
  assumes "bs_wf s"
  shows "fst (tlvpack_unserialize p s) = snd (decode_all dec_item (content s)) \<and>
    tlvlist (fst (snd (tlvpack_unserialize p s))) =
      tlvlist p @ map tlv_make (fst (decode_all dec_item (content s)))"
  using tlvpack_unserialize_content [OF assms, of p] by auto

theorem pack_parser_refines_witness:
  "\<not> fst (tlvpack_unserialize empty_pack (bs_write empty_stream (item_bytes (1, [65]) @ [7])))"
proof -
  let ?s = "bs_write empty_stream (item_bytes (1, [65]) @ [7])"
  have s: "bs_wf ?s" "content ?s = item_bytes (1, [65]) @ [7]"
    using write_facts [OF bs_wf_empty, of "item_bytes (1, [65]) @ [7]"] by simp_all
  have "dec_item (item_bytes (1, [65]) @ [7]) = Some ((1, [65]), [7])" by (rule dec_item_item_bytes) (simp add: item_ok_def)
  moreover have "dec_item [7] = None" by (simp add: dec_item_def)
  ultimately have "\<not> snd (decode_all dec_item (item_bytes (1, [65]) @ [7]))"
    by (simp add: decode_all.simps)
  then show ?thesis using pack_parser_refines [OF s(1), of empty_pack] s(2) by simp
qed

subsection \<open>Message headers\<close>



text \<open>C32: On arbitrary bytes the header parser agrees with the functional decoder: it accepts what the
  decoder accepts with the same fields and the same rest; what the decoder rejects it accepts only
  by reading a flag byte past the end of the input.\<close>

theorem header_parser_refines:
  assumes "bs_wf s" and "header_unserialize header_fields_new s = (b, h, s')"
  shows "case dec_header (content s) of
      Some (h', rest) \<Rightarrow> b \<and> h = h' \<and> bs_wf s' \<and> content s' = rest
    | None \<Rightarrow> b \<longrightarrow> ub s'"
  using header_unserialize_content [OF assms(1)] assms(2) by (auto split: option.splits)

theorem header_parser_refines_witness:
  "fst (header_unserialize header_fields_new (bs_write empty_stream (header_bytes (sample_fields 5 3 0))))"
proof -
  let ?s = "bs_write empty_stream (header_bytes (sample_fields 5 3 0))"
  obtain b h s' where r: "header_unserialize header_fields_new ?s = (b, h, s')" by (metis prod_cases3)
  have w: "bs_wf ?s" "content ?s = header_bytes (sample_fields 5 3 0) @ []"
    using write_facts [OF bs_wf_empty, of "header_bytes (sample_fields 5 3 0)"] by simp_all
  have "0 < sint (5 :: i64w)" by simp
  then show ?thesis
    using header_parser_refines [OF w(1) r] dec_header_header_bytes [OF sample_header_ok, of 5 3 0 "[]"] r
    unfolding w(2) by simp
qed

subsection \<open>Block files\<close>

text \<open>C30: A block appended to an archive file is found at the offset the write reported, also after
  more has been appended behind it: the bytes before it stay as they were and the block reads back as
  the data that was written.\<close>

theorem block_write_then_read:
  assumes "can_open env" and "file_stream st = None" and "holds_block d data" and "d \<noteq> []" and "block_ok d"
    and "storage_open env append_mode st = (True, st1)" and "length d + 16 \<le> free_space st"
    and "write_data_block env st1 data 0 = (r, off, st2, data2)"
    and "file_data st3 = Some (file_bytes (storage_close st2) @ later)" and "file_stream st3 = None"
  shows "result r \<and> off = int (length (file_bytes st)) \<and>
    take (nat off) (file_bytes (storage_close st2)) = file_bytes st \<and>
    (\<exists>st4 st5 data5. storage_open env read_mode st3 = (True, st4) \<and>
      read_data_block st4 off empty_stream = (True, st5, data5) \<and> content data5 = d)"
proof -
  have data: "bs_wf data" "content data = d" using assms(3) by (simp_all add: holds_block_def)
  note w = append_block [OF assms(1,2) data(1) _ assms(6,8)]
  let ?f = "file_bytes (storage_close st2)"
  have w': "result r" "off = int (length (file_bytes st))" "?f = file_bytes st @ block_bytes d"
    using w assms(4,7) data(2) by simp_all
  note o = open_read [OF assms(1,10,9)]
  obtain s where s: "file_stream (opened read_mode (?f @ later) st3) = Some s" "ready s" "fs_pos s = 0"
    using o(2) by blast
  have "dec_block (drop (start_pos s off) (file_bytes (opened read_mode (?f @ later) st3))) = Some (d, later)"
    using w'(2,3) dec_block_block_bytes [OF assms(5), of later] by (simp add: start_pos_def)
  from read_data_block_good [OF s(1,2) _ bs_wf_empty _ this] show ?thesis
    using o(1) w' by fastforce
qed

theorem block_write_then_read_witness:
  "\<exists>st1 r off st2 data2 st4 st5 data5.
     storage_open sample_env append_mode sample_storage = (True, st1) \<and>
     write_data_block sample_env st1 (bs_write empty_stream [1, 2, 3]) 0 = (r, off, st2, data2) \<and>
     storage_open sample_env read_mode (storage_close st2) = (True, st4) \<and>
     read_data_block st4 off empty_stream = (True, st5, data5) \<and> content data5 = [1, 2, 3]"
proof -
  have d: "holds_block [1, 2, 3] (bs_write empty_stream [1, 2, 3])" "block_ok [1, 2, 3]"
    by (simp_all add: holds_block_def stream_simps block_ok_def max_data_block_size_def)
  note o = open_append [OF sample_env_opens sample_storage_fields(1)]
  obtain r off st2 data2 where w: "write_data_block sample_env
      (opened append_mode (file_bytes sample_storage) sample_storage) (bs_write empty_stream [1, 2, 3]) 0 = (r, off, st2, data2)"
    by (metis prod_cases4)
  have "file_data (storage_close st2) = Some (file_bytes (storage_close st2) @ [])"
    using append_block(4) [OF sample_env_opens sample_storage_fields(1) _ _ o(1) w] by (simp add: stream_simps)
  from block_write_then_read [OF sample_env_opens sample_storage_fields(1) d(1) _ d(2) o(1) _ w this]
  show ?thesis using o(1) w by force
qed

text \<open>C31: A disk that fills up while a block is appended to a file: the file keeps everything it had, and
  reading at the offset the write reported, after the file was closed and opened again, gives no
  block. Whether the write reports failure is up to the buffer of the stream: it does when the
  library does not buffer, and it reports success when the library keeps the block in its buffer,
  since closing the file ignores that the rest was refused.\<close>

theorem torn_block_is_not_read:
  assumes "can_open env" and "file_stream st = None" and "holds_block d data" and "d \<noteq> []" and "block_ok d"
    and "storage_open env append_mode st = (True, st1)" and "free_space st < length d + 16"
    and "write_data_block env st1 data 0 = (r, off, st2, data2)"
    and "file_data st3 = Some (file_bytes (storage_close st2))" and "file_stream st3 = None"
  shows "take (length (file_bytes st)) (file_bytes (storage_close st2)) = file_bytes st \<and>
    (\<exists>st4 st5 data5. storage_open env read_mode st3 = (True, st4) \<and>
      read_data_block st4 off empty_stream = (False, st5, data5)) \<and>
    (unbuffered env \<longrightarrow> \<not> result r) \<and> (keeps_all env \<longrightarrow> result r)"
proof -
  have data: "bs_wf data" "content data = d" using assms(3) by (simp_all add: holds_block_def)
  note w = append_block [OF assms(1,2) data(1) _ assms(6,8)]
  let ?f = "file_bytes (storage_close st2)"
  have f: "?f = file_bytes st @ take (free_space st) (block_bytes d)" and off: "off = int (length (file_bytes st))"
    using w(1,2) data(2) assms(4) by (simp_all add: capacity_def)
  note o = open_read [OF assms(1,10,9)]
  obtain s where s: "file_stream (opened read_mode ?f st3) = Some s" "ready s" "fs_pos s = 0"
    using o(2) by blast
  have "dec_block (drop (start_pos s off) (file_bytes (opened read_mode ?f st3))) = None"
    using f off dec_block_torn [OF assms(5), of "free_space st"] assms(7) by (simp add: start_pos_def)
  then have "\<not> fst (read_data_block (opened read_mode ?f st3) off empty_stream)"
    using read_data_block_True [OF s(1,2), of off empty_stream] off by auto
  then have "\<exists>st5 data5. read_data_block (opened read_mode ?f st3) off empty_stream = (False, st5, data5)"
    by (metis fst_conv surj_pair)
  moreover have "unbuffered env \<longrightarrow> \<not> result r" "keeps_all env \<longrightarrow> result r"
    using w(5,6) data(2) assms(4,7) by auto
  ultimately show ?thesis using o(1) f by auto
qed

theorem torn_block_is_not_read_witness:
  "\<exists>st1 r off st2 data2.
     storage_open (sample_env\<lparr>buffer_keeps := (+)\<rparr>) append_mode (storage_new\<lparr>file_data := Some [7], free_space := 18\<rparr>) = (True, st1) \<and>
     write_data_block (sample_env\<lparr>buffer_keeps := (+)\<rparr>) st1 (bs_write empty_stream [1, 2, 3]) 0 = (r, off, st2, data2) \<and>
     result r \<and> (\<exists>st4 st5 data5. storage_open (sample_env\<lparr>buffer_keeps := (+)\<rparr>) read_mode (storage_close st2) = (True, st4) \<and>
       read_data_block st4 off empty_stream = (False, st5, data5))"
proof -
  let ?st = "storage_new\<lparr>file_data := Some [7], free_space := 18\<rparr>"
  let ?env = "sample_env\<lparr>buffer_keeps := (+)\<rparr>"
  have st: "file_stream ?st = None" "file_bytes ?st = [7]" "free_space ?st = 18"
    by (simp_all add: storage_new_def file_bytes_def)
  have e: "can_open ?env" using sample_env_opens by (simp add: can_open_def)
  note o = open_append [OF e st(1)]
  obtain r off st2 data2 where w: "write_data_block ?env
      (opened append_mode (file_bytes ?st) ?st) (bs_write empty_stream [1, 2, 3]) 0 = (r, off, st2, data2)"
    by (metis prod_cases4)
  have d: "holds_block [1, 2, 3] (bs_write empty_stream [1, 2, 3])" "block_ok [1, 2, 3]"
    by (simp_all add: holds_block_def stream_simps block_ok_def max_data_block_size_def)
  have data: "bs_wf (bs_write empty_stream [1, 2, 3])" "content (bs_write empty_stream [1, 2, 3]) \<noteq> []"
    using d(1) by (simp_all add: holds_block_def)
  have "file_data (storage_close st2) = Some (file_bytes (storage_close st2))"
    using write_data_block_at_end(2) [OF o(2) data w] by (simp add: wrote_def file_bytes_def)
  moreover have "keeps_all ?env" by (simp add: keeps_all_def)
  ultimately show ?thesis
    using torn_block_is_not_read [OF e st(1) d(1) _ d(2) o(1) _ w] o(1) w st(3) by auto
qed

text \<open>C19: Reading a file of whole blocks followed by the remains of an interrupted write hands every whole
  block to the reader once, in order, and does not report a regular end of the file.\<close>

theorem read_loop_recovers_blocks:
  assumes "file_stream st = Some s" and "ready s" and "fs_pos s = 0"
    and "file_bytes st = concat (map block_bytes ds) @ take k (block_bytes d)" and "k < length (block_bytes d)"
    and "0 < k" and "\<forall>x \<in> set (d # ds). block_ok x" and "last_error st = ok"
    and "\<forall>x data acc. holds_block x data \<longrightarrow> step data acc = (True, acc @ [x])"
  shows "\<exists>st'. read_loop step st empty_stream [] = (True, st', ds) \<and>
    file_bytes st' = file_bytes st \<and> last_error st' = ok"
proof -
  have g: "run_blocks (\<lambda>x acc. (True, acc @ [x])) ds acc = (True, acc @ ds)" for acc
    by (induction ds arbitrary: acc) auto
  have "dec_block (take k (block_bytes d)) = None"
    using dec_block_torn [OF _ assms(5)] assms(7) by simp
  from read_loop_blocks [OF this, of ds step "\<lambda>x acc. (True, acc @ [x])" st s empty_stream "[]"]
  obtain st' where "read_loop step st empty_stream [] = (True, st', ds)" "file_bytes st' = file_bytes st"
    "last_error st' = (if take k (block_bytes d) = [] then end_of_file else last_error st)"
    using assms by (auto simp: g)
  moreover have "take k (block_bytes d) \<noteq> []"
    using assms(5,6) by (auto simp flip: length_greater_0_conv simp del: length_block_bytes)
  ultimately show ?thesis using assms(8) by simp
qed

theorem read_loop_recovers_blocks_witness:
  "\<exists>st'. read_loop (\<lambda>data acc. (True, acc @ [content data]))
      (opened read_mode (block_bytes [1] @ take 5 (block_bytes [2, 3])) storage_new) empty_stream [] =
    (True, st', [[1]]) \<and>
    file_bytes st' = block_bytes [1] @ take 5 (block_bytes [2, 3]) \<and> last_error st' = ok"
proof -
  let ?st = "opened read_mode (block_bytes [1] @ take 5 (block_bytes [2, 3])) storage_new"
  obtain s where s: "file_stream ?st = Some s" "ready s" "fs_pos s = 0"
    by (simp add: opened_def read_mode_def no_mode_def ready_def fs_good_def)
  show ?thesis
    using read_loop_recovers_blocks [OF s, of "[[1]]" 5 "[2, 3]" "\<lambda>data acc. (True, acc @ [content data])"]
    by (simp add: holds_block_def block_ok_def max_data_block_size_def)
qed

end
