(* ===== verification/Message_Properties.thy ===== *)
theory Message_Properties
  imports Samples
begin

section \<open>Messages: the stored form, edits, headers and their merge\<close>

text \<open>
  What a message keeps through its stored form, what the quick field scans see of it, and how
  edits and header updates combine.
\<close>

text \<open>C17: A serialized message is parsed back completely: every field of every part (text, sticker, voip
  call, file, chat event, quotes, mentions, snippets, contact) comes back; only the place in the
  file is forgotten and the chat data get their stored form.\<close>

theorem message_round_trip:
  assumes "parts_ok m" and "bs_wf s" and "content s = []" and "length (message_bytes m) \<le> room s"
    and "length (message_bytes m) \<le> 2 ^ 32 - 2"
  shows "\<exists>s'. message_unserialize history_message_new (message_serialize m s) = (Some (0, hm_stored m), s') \<and>
    content s' = []"
  using message_serialize_content [OF assms(2,4)] assms(3)
    message_unserialize_bytes [of "message_serialize m s" m] assms(1,5)
  by auto

theorem message_round_trip_witness:
  "\<exists>s'. message_unserialize history_message_new (message_serialize sample_reply empty_stream) =
      (Some (0, hm_stored sample_reply), s') \<and> content s' = []"
  by (rule message_round_trip) simp_all

text \<open>The scans that look for a single field in a stored message without parsing it, the identifier and
  the text of a search, find exactly the fields the message was stored with.\<close>

lemma field_scans_find_fields:
  assumes "bs_wf s" and "content s = message_bytes m @ rest" and "length (message_bytes m) \<le> 2 ^ 32 - 2"
    and "hm_text m \<noteq> []"
  shows "fst (get_id_field s) = hm_msgid m \<and>
    (\<exists>s' rest'. jump_to_text_field s len = (word_of_nat (length (hm_text m)), s') \<and>
      content s' = hm_text m @ rest')"
  using get_id_field_stored [OF assms(1), of m rest] jump_to_text_stored [OF assms(1), of m rest len]
    assms(2-4) small_message_items [OF assms(3)]
  by (auto simp: message_bytes_def)

text \<open>C37: What the edits of a message come to, applied in order. An edit counts when it carries a text or a
  chat event; when none does, the message is unchanged. Otherwise the message has the text of the
  last edit that carries one, and its own text when there is none; sticker, call, file and multichat
  mark are gone; the chat event is the one of the last edit that counts, and none when that edit
  carries a text. Everything else stays as it was: identity, flags and times, chat data, quotes,
  mentions, snippets, description, url and the shared contact.\<close>

theorem last_edit_wins:
  "apply_modifications xs m =
     (if filter effective xs = [] then m
      else m\<lparr>hm_text := (if filter has_text xs = [] then hm_text m else get_text (last (filter has_text xs))),
        hm_sticker := None, hm_mult := False, hm_voip := None, hm_file_sharing := None,
        hm_chat_event := (if has_text (last (filter effective xs)) then None
          else hm_chat_event (last (filter effective xs)))\<rparr>)"
  by (rule apply_modifications_eq)

text \<open>Merging a message into another takes the whole content and all parts of the newer one and keeps
  the identity of the older, so that of several merges only the last counts.\<close>

lemma merge_takes_newest:
  "hm_content (hm_merge this m) = hm_content m \<and> hm_extended (hm_merge this m) = hm_extended m \<and>
   hm_identity (hm_merge this m) = hm_identity this \<and>
   hm_merge (hm_merge this m) n = hm_merge this n"
  by (simp add: hm_merge_parts hm_merge_merge)

text \<open>C34: Merging the headers of a message as its patches arrive, in any number: the result is deleted or
  modified as soon as one of them is, remains a patch only while all of them are, keeps the
  identifier, has the greatest patch version seen, and records the modifying patches in order.\<close>

theorem header_merge_accumulates:
  "(is_deleted (merge_all h rs) \<longleftrightarrow> is_deleted h \<or> (\<exists>r \<in> set rs. is_deleted r)) \<and>
   (is_modified (merge_all h rs) \<longleftrightarrow> is_modified h \<or> (\<exists>r \<in> set rs. is_modified r)) \<and>
   (is_patch (merge_all h rs) \<longleftrightarrow> is_patch h \<and> (\<forall>r \<in> set rs. is_patch r)) \<and>
   get_id (merge_all h rs) = get_id h \<and>
   pv_key (hpatch_version (hdr (merge_all h rs))) =
     Max (insert (pv_key (hpatch_version (hdr h))) ((\<lambda>r. pv_key (hpatch_version (hdr r))) ` set rs)) \<and>
   modifications (merge_all h rs) = modifications h @ filter (\<lambda>r. is_modified r \<and> is_patch r) rs"
  using merge_all_flags [of h rs] merge_all_version [of h rs] merge_all_modifications [of h rs] by simp

theorem header_merge_accumulates_witness:
  "is_deleted (merge_all (sample_header 5 3 0) [sample_header 5 3 32])"
proof -
  have "is_deleted (sample_header 5 3 32)"
    by (simp add: is_deleted_def flag_def f_deleted_def bit_numeral_rec)
  then show ?thesis
    using header_merge_accumulates [of "sample_header 5 3 0" "[sample_header 5 3 32]"] by auto
qed

end
