(* ===== verification/Index_Steps.thy ===== *)
theory Index_Steps
  imports Archive_Index
begin

section \<open>The index as a state machine\<close>

text \<open>
  Every operation of the index that changes its state is a step, whatever the file holds, the
  environment allows or the disk has room for. The invariant of the reachable states: the
  entries are in order, each under its own positive identifier, and the file is closed between
  the operations.
\<close>

definition index_inv :: "archive_index \<Rightarrow> bool" where
  "index_inv ai \<longleftrightarrow> index_wf ai \<and> file_stream (ai_storage ai) = None"

subsection \<open>Only positive identifiers are parsed\<close>

lemma header_unserialize_id:
  "header_unserialize h0 s = (True, h, s') \<Longrightarrow> 0 < sint (hid h)"
  by (auto simp: header_unserialize_def Let_def not_le split: if_splits prod.splits)

lemma index_wf_insert_header:
  "index_wf ai \<Longrightarrow> 0 < get_id h \<Longrightarrow> index_wf (snd (insert_header now h ai))"
  using get_id_index_insert [of "headers_index ai" h]
  by (simp add: index_wf_def ordered_index_insert)

lemma index_wf_insert_headers:
  "index_wf ai \<Longrightarrow> \<forall>h \<in> set hs. 0 < get_id h \<Longrightarrow> index_wf (snd (insert_headers now hs ai))"
  using index_wf_fold [of "headers_index ai" hs] by (simp add: index_wf_def)

lemma unserialize_block_wf:
  "index_wf ai \<Longrightarrow> unserialize_block now ai data = (b, ai', data') \<Longrightarrow> index_wf ai'"
proof (induction now ai data rule: unserialize_block.induct)
  case (1 now ai data)
  obtain ty s1 len s2 parsed h s3 where r: "read_u32 data = (ty, s1)" "read_u32 s1 = (len, s2)"
    "header_unserialize header_fields_new s2 = (parsed, h, s3)"
    by (metis prod_cases3 surj_pair)
  show ?case
  proof (cases "8 \<le> available data \<and> unat len \<le> available data \<and> parsed")
    case False
    then show ?thesis
      using 1(2,3) r by (auto simp: unserialize_block.simps [of now ai data] Let_def split: if_splits)
  next
    case True
    then have "unserialize_block now (snd (insert_header now (Message_Header h []) ai)) s3 = (b, ai', data')"
      using 1(3) r by (simp add: unserialize_block.simps [of now ai data])
    moreover have "0 < get_id (Message_Header h [])"
      using r(3) True header_unserialize_id by (simp add: get_id_def)
    ultimately show ?thesis
      using 1(1) [OF refl _ _ r(1) [symmetric] refl r(2) [symmetric] refl] 1(2) True r(3)
        index_wf_insert_header by (simp add: not_less)
  qed
qed

lemma read_loop_invariant:
  "(\<And>data a b a'. P a \<Longrightarrow> step data a = (b, a') \<Longrightarrow> P a') \<Longrightarrow> P a \<Longrightarrow>
     read_loop step st data a = (b, st', a') \<Longrightarrow> P a'"
proof (induction step st data a rule: read_loop.induct)
  case (1 step st data a)
  obtain good st1 data1 where r: "read_data_block st (-1) data = (good, st1, data1)"
    by (metis prod_cases3)
  obtain g a1 where s: "step data1 a = (g, a1)" by (metis surj_pair)
  then have a1: "P a1" using 1(2) [OF 1(3)] by blast
  consider "\<not> good" | "good" "\<not> g" | "good" "g" by blast
  then show ?case
  proof cases
    case 3
    then have "read_loop step st1 (reset data1) a1 = (b, st', a')"
      using 1(4) r s by (simp add: read_loop.simps [of step st data a])
    then show ?thesis
      using 1(1) [of True "(st1, data1)" st1 data1 True a1] 1(2) a1 r s 3 by simp
  qed (use 1(3,4) r s a1 in \<open>simp_all add: read_loop.simps [of step st data a]\<close>)
qed

lemma storage_open_stream:
  "storage_open env m st = (False, st') \<Longrightarrow> file_stream st' = file_stream st"
  by (auto simp: storage_open_def Let_def split: if_splits option.splits)

subsection \<open>The operations keep the invariant\<close>

lemma index_wf_cong: "headers_index ai = headers_index aj \<Longrightarrow> index_wf ai = index_wf aj"
  by (simp add: index_wf_def)

lemma save_all_closes: "file_stream (ai_storage ai) = None \<Longrightarrow> file_stream (ai_storage (snd (save_all env ai))) = None"
  by (auto simp: save_all_def Let_def dest: storage_open_stream split: prod.splits bool.splits)

lemma save_all_inv: "index_inv ai \<Longrightarrow> index_inv (snd (save_all env ai))"
  using save_all_closes [of ai env] index_wf_cong [OF headers_index_save_all, of env ai]
  by (simp add: index_inv_def)

lemma save_block_inv: "index_inv ai \<Longrightarrow> index_inv (snd (save_block env hs ai))"
  by (auto simp: index_inv_def index_wf_def save_block_def dest: storage_open_stream
      split: prod.splits bool.splits)

lemma insert_block_inv:
  "index_inv ai \<Longrightarrow> \<forall>h \<in> set hs. 0 < get_id h \<Longrightarrow> index_inv (snd (insert_block now hs ai))"
  using index_wf_insert_block [of ai hs now]
  by (simp add: index_inv_def insert_block_def split_beta Let_def notify_core_outgoing_msg_count_def)

lemma index_update_inv:
  assumes "index_inv ai" and "\<forall>e \<in> set data. 0 < get_id (header_of_entry e)"
  shows "index_inv (snd (snd (index_update env now data ai)))"
  using save_block_inv [OF insert_block_inv [OF assms(1), of "map header_of_entry data" now]] assms(2)
  by (simp add: index_update_def split_beta Let_def)

lemma load_from_local_inv:
  assumes "index_inv ai"
  shows "index_inv (snd (load_from_local env now ai))"
proof -
  have ids: "\<forall>h \<in> set (map snd (headers_index ai)). 0 < get_id h"
    using assms by (auto simp: index_inv_def index_wf_def)
  obtain b st where o: "storage_open env read_mode (ai_storage ai) = (b, st)" by (metis surj_pair)
  show ?thesis
  proof (cases b)
    case False
    then show ?thesis
      using assms o storage_open_stream
      by (auto simp: load_from_local_def Let_def index_inv_def index_wf_def)
  next
    case True
    let ?ai = "ai\<lparr>ai_last_error := ok, headers_index := [], outgoing_count := 0, merged_count := 0\<rparr>"
    obtain p st1 a where r: "read_loop (load_step now) st empty_stream ?ai = (p, st1, a)"
      by (metis prod_cases3)
    have "index_wf a"
    proof (rule read_loop_invariant [OF _ _ r])
      show "index_wf ?ai" by (simp add: index_wf_def)
    qed (auto simp: load_step_def split: prod.splits dest: unserialize_block_wf)
    then have "index_wf (snd (insert_headers now (map snd (headers_index ai)) a))"
      using index_wf_insert_headers ids by blast
    then show ?thesis
      using o True r
      by (auto simp: load_from_local_def Let_def index_inv_def index_wf_def
          notify_core_outgoing_msg_count_def)
  qed
qed

definition own_ids :: "(int \<times> message_header) list \<Rightarrow> bool" where
  "own_ids es \<longleftrightarrow> (\<forall>e \<in> set es. get_id (snd e) = fst e)"

lemma own_ids_simps [simp]:
  "own_ids []" "own_ids (e # es) \<longleftrightarrow> get_id (snd e) = fst e \<and> own_ids es"
  "own_ids (es @ fs) \<longleftrightarrow> own_ids es \<and> own_ids fs" "own_ids (rev es) \<longleftrightarrow> own_ids es"
  by (auto simp: own_ids_def)

lemma own_ids_parts [simp]: "own_ids es \<Longrightarrow> own_ids (take n es)" "own_ids es \<Longrightarrow> own_ids (drop n es)"
  by (auto simp: own_ids_def dest: in_set_takeD in_set_dropD)

lemma index_wf_own: "index_wf ai \<Longrightarrow> own_ids (headers_index ai)"
  by (simp add: index_wf_def own_ids_def)

lemma index_wf_sub:
  assumes "index_wf ai" and "map fst es = map fst fs" and "own_ids es"
    and "set fs \<subseteq> set (headers_index ai)" and "ordered fs"
  shows "index_wf (ai\<lparr>headers_index := es\<rparr>)"
proof -
  have "\<forall>k \<in> fst ` set es. 0 < k"
  proof -
    have "fst ` set es = fst ` set fs" using arg_cong [OF assms(2), of set] by simp
    then show ?thesis using assms(1,4) by (auto simp: index_wf_def)
  qed
  then show ?thesis
    using assms(2,3,5) unfolding index_wf_def own_ids_def ordered_def by auto
qed

lemma index_inv_entries:
  "index_inv ai \<Longrightarrow> index_wf (ai\<lparr>headers_index := es\<rparr>) \<Longrightarrow> index_inv (ai\<lparr>headers_index := es\<rparr>)"
  by (simp add: index_inv_def)

lemma delete_up_to_inv:
  assumes "index_inv ai"
  shows "index_inv (delete_up_to env to ai)"
  using delete_up_to_keys(2) [of ai env to] assms
  by (auto simp: index_inv_def delete_up_to_def Let_def intro!: save_all_closes split: list.splits)

lemma ordered_drop: "ordered m \<Longrightarrow> ordered (drop n m)"
  by (simp add: ordered_def sorted_wrt_drop flip: drop_map)

lemma index_optimize_inv:
  assumes "index_inv ai"
  shows "index_inv (index_optimize env ai)"
proof (cases "need_optimize ai")
  case False
  then show ?thesis using assms by (simp add: index_optimize_def)
next
  case True
  define n where "n = nat (int (length (headers_index ai)) - int max_index_size)"
  define es where "es = (case drop n (headers_index ai) of [] \<Rightarrow> []
      | (k, h) # rest \<Rightarrow> (k, set_prev_msgid (-1) h) # rest)"
  have wf: "\<forall>e \<in> set (headers_index ai). get_id (snd e) = fst e \<and> 0 < fst e" "ordered (headers_index ai)"
    using assms by (auto simp: index_inv_def index_wf_def)
  have sub: "set (drop n (headers_index ai)) \<subseteq> set (headers_index ai)" by (rule set_drop_subset)
  have "index_wf (ai\<lparr>headers_index := es\<rparr>)"
  proof (rule index_wf_sub [of ai es "drop n (headers_index ai)"])
    show "map fst es = map fst (drop n (headers_index ai))"
      by (auto simp: es_def split: list.split)
    have "own_ids (drop n (headers_index ai))"
      using assms index_wf_own by (simp add: index_inv_def)
    then show "own_ids es"
      by (auto simp: es_def split: list.split)
  qed (use assms sub wf ordered_drop in \<open>auto simp: index_inv_def\<close>)
  then have "index_inv (ai\<lparr>headers_index := es, merged_count := 0\<rparr>)"
    "index_inv (ai\<lparr>merged_count := 0\<rparr>)"
    using assms by (auto simp: index_inv_def index_wf_def)
  then show ?thesis
    using True by (auto simp: index_optimize_def Let_def n_def es_def intro!: save_all_inv)
qed

lemma drop_header_inv: "index_inv ai \<Longrightarrow> index_inv (drop_header i ai)"
  using set_erase_subset [of i "headers_index ai"]
  by (auto simp: drop_header_def index_inv_def index_wf_def ordered_erase)

lemma index_free_inv: "index_inv ai \<Longrightarrow> index_inv (index_free ai)"
  by (simp add: index_free_def index_inv_def index_wf_def)

lemma invalidate_message_data_inv:
  assumes "index_inv ai"
  shows "index_inv (invalidate_message_data i b ai)"
proof (cases "map_find (headers_index ai) i")
  case None
  then show ?thesis using assms by (simp add: invalidate_message_data_def)
next
  case (Some h)
  then have "(i, h) \<in> set (headers_index ai)" by (simp add: map_find_def map_of_SomeD)
  then have h: "get_id h = i" "0 < i" using assms by (auto simp: index_inv_def index_wf_def)
  then show ?thesis
    using assms Some set_put_subset
    by (fastforce simp: invalidate_message_data_def Let_def index_inv_def index_wf_def ordered_put)
qed

lemma keys_invalidate_n: "map fst (invalidate_n n es) = map fst es"
  by (induction n es rule: invalidate_n.induct) auto

lemma ids_invalidate_n: "own_ids es \<Longrightarrow> own_ids (invalidate_n n es)"
  by (induction n es rule: invalidate_n.induct) auto

lemma invalidate_message_range_inv:
  assumes "index_inv ai"
  shows "index_inv (invalidate_message_range from b a ai)"
proof -
  have wf: "own_ids (headers_index ai)" "ordered (headers_index ai)" "index_wf ai"
    using assms index_wf_own by (auto simp: index_inv_def index_wf_def)
  let ?m = "length (before_lb from (headers_index ai))"
  let ?k = "?m + (if a \<le> 0 then 1 else 0)"
  let ?idx1 = "if b > 0 then rev (invalidate_n b (rev (take ?k (headers_index ai)))) @ drop ?k (headers_index ai)
      else headers_index ai"
  let ?idx2 = "if a > 0 then take ?m ?idx1 @ invalidate_n a (drop ?m ?idx1) else ?idx1"
  have k1: "map fst ?idx1 = map fst (headers_index ai)"
    by (simp add: keys_invalidate_n flip: rev_map take_map drop_map)
  have i1: "own_ids ?idx1"
    using wf(1) ids_invalidate_n [of "rev (take ?k (headers_index ai))" b] by simp
  have k2: "map fst ?idx2 = map fst (headers_index ai)"
    using k1 by (simp add: keys_invalidate_n flip: take_map drop_map)
  have i2: "own_ids ?idx2"
    using i1 ids_invalidate_n [of "drop ?m ?idx1" a] by simp
  have "index_wf (ai\<lparr>headers_index := ?idx2\<rparr>)"
    by (rule index_wf_sub [OF wf(3) k2 i2 subset_refl wf(2)])
  then have "index_inv (ai\<lparr>headers_index := ?idx2\<rparr>)"
    by (rule index_inv_entries [OF assms])
  then show ?thesis
    using assms by (simp only: invalidate_message_range_def Let_def split: if_split) auto
qed

subsection \<open>Steps and reachable states\<close>

inductive index_step :: "archive_index \<Rightarrow> archive_index \<Rightarrow> bool" where
  step_update: "\<forall>e \<in> set data. 0 < get_id (header_of_entry e) \<Longrightarrow>
    index_update env now data ai = (r, hs, ai') \<Longrightarrow> index_step ai ai'"
| step_load: "load_from_local env now ai = (b, ai') \<Longrightarrow> index_step ai ai'"
| step_save: "save_all env ai = (b, ai') \<Longrightarrow> index_step ai ai'"
| step_delete: "index_step ai (delete_up_to env to ai)"
| step_optimize: "index_step ai (index_optimize env ai)"
| step_drop: "index_step ai (drop_header i ai)"
| step_invalidate: "index_step ai (invalidate_message_data i b ai)"
| step_invalidate_range: "index_step ai (invalidate_message_range from n m ai)"
| step_free: "index_step ai (index_free ai)"
| step_disk: "file_stream st = None \<Longrightarrow> index_step ai (ai\<lparr>ai_storage := st\<rparr>)"

inductive index_reachable :: "archive_index \<Rightarrow> bool" where
  reach_new: "file_stream st = None \<Longrightarrow> index_reachable (archive_index_new\<lparr>ai_storage := st\<rparr>)"
| reach_step: "index_reachable ai \<Longrightarrow> index_step ai ai' \<Longrightarrow> index_reachable ai'"

lemma index_step_inv: "index_step ai ai' \<Longrightarrow> index_inv ai \<Longrightarrow> index_inv ai'"
proof (induction rule: index_step.induct)
  case (step_update data env now ai r hs ai')
  then show ?case using index_update_inv [of ai data env now] by simp
next
  case (step_load env now ai b ai')
  then show ?case using load_from_local_inv [of ai env now] by simp
next
  case (step_save env ai b ai')
  then show ?case using save_all_inv [of ai env] by simp
next
  case (step_disk st ai)
  then show ?case by (simp add: index_inv_def index_wf_def)
qed (simp_all add: delete_up_to_inv index_optimize_inv drop_header_inv invalidate_message_data_inv
      invalidate_message_range_inv index_free_inv)

lemma index_reachable_inv: "index_reachable ai \<Longrightarrow> index_inv ai"
proof (induction rule: index_reachable.induct)
  case (reach_new st)
  then show ?case by (simp add: index_inv_def index_wf_def archive_index_new_def)
qed (rule index_step_inv)

end
