(* ===== verification/Index_Properties.thy ===== *)
theory Index_Properties
  imports Samples Index_Steps
begin

section \<open>The index of an archive\<close>

text \<open>
  The index is a faithful map of what was inserted, on disk as in memory: updates merge, files
  replay, ranges and holes are read off the messages that are not patches.
\<close>

lemma sample_index_fields [simp]:
  "headers_index sample_index = []" "ai_storage sample_index = sample_storage"
  by (simp_all add: sample_index_def archive_index_new_def)

lemma sample_header_bare [simp]: "Message_Header (sample_fields i p fl) [] = sample_header i p fl"
  by (simp add: sample_header_def)

lemma sample_index_closed [simp]: "index_closed sample_env sample_index"
  by (simp add: index_closed_def)

lemma sample_headers_ok [simp]:
  "0 < sint i \<Longrightarrow> headers_ok [sample_header i p fl]"
  by (simp add: headers_ok_def block_ok_def max_data_block_size_def header_item_def)

text \<open>C25: After a block of headers is inserted, the entry of every identifier is the merge, in order of
  arrival, of the headers of that identifier into the entry it had.\<close>

theorem insert_block_merges:
  assumes "ordered (headers_index ai)"
  shows "get_header (snd (insert_block now hs ai)) k =
    merged (get_header ai k) (filter (\<lambda>h. get_id h = k) hs)"
  using find_fold_index_insert [OF assms, of hs k] by (simp add: get_header_def)

theorem insert_block_merges_witness:
  "get_header (snd (insert_block 0 [sample_header 5 3 0, sample_header 7 5 0, sample_header 5 3 32] sample_index)) 5 =
     Some (merge_with (sample_header 5 3 0) (sample_header 5 3 32))"
  using insert_block_merges [of sample_index 0 "[sample_header 5 3 0, sample_header 7 5 0, sample_header 5 3 32]" 5]
  by (simp add: merged_Cons get_header_def map_find_def)

text \<open>C2: Loading an index file replays it: whatever frames of headers the file holds, and whatever
  remains of an interrupted write follow them, the entries afterwards are the merge of all headers
  of the file in order and then of the entries that were in memory; the load succeeds exactly
  when nothing is left over after the last frame.\<close>

theorem load_replays_file:
  assumes "index_closed env ai" and "\<forall>hs \<in> set hss. headers_ok hs"
    and "file_data (ai_storage ai) = Some (index_file hss @ tail)" and "dec_block tail = None"
  shows "(fst (load_from_local env now ai) \<longleftrightarrow> tail = []) \<and>
    get_header (snd (load_from_local env now ai)) k =
      merged None (filter (\<lambda>h. get_id h = k) (map bare (concat hss) @ map snd (headers_index ai))) \<and>
    file_bytes (ai_storage (snd (load_from_local env now ai))) = index_file hss @ tail"
  using load_replays [OF assms, of now]
    find_fold_index_insert [of "[]" "map bare (concat hss) @ map snd (headers_index ai)" k]
  by (simp add: get_header_def map_find_def)

theorem load_replays_file_witness:
  "get_header (snd (load_from_local sample_env 0
      (sample_index\<lparr>ai_storage := sample_storage\<lparr>file_data :=
         Some (index_file [[sample_header 5 3 0], [sample_header 5 3 32]] @ [1, 2])\<rparr>\<rparr>))) 5 =
    Some (merge_with (sample_header 5 3 0) (sample_header 5 3 32))"
proof -
  let ?ai = "sample_index\<lparr>ai_storage := sample_storage\<lparr>file_data :=
         Some (index_file [[sample_header 5 3 0], [sample_header 5 3 32]] @ [1, 2])\<rparr>\<rparr>"
  have c: "index_closed sample_env ?ai" by (simp add: index_closed_def)
  have h: "\<forall>hs \<in> set [[sample_header 5 3 0], [sample_header 5 3 32]]. headers_ok hs" by simp
  have t: "dec_block [1, 2] = None" by (simp add: dec_block_def)
  have f: "file_data (ai_storage ?ai) = Some (index_file [[sample_header 5 3 0], [sample_header 5 3 32]] @ [1, 2])"
    by simp
  from load_replays_file [OF c h f t, of 0 5] show ?thesis
    by (simp add: merged_Cons)
qed



subsection \<open>Invariant of the reachable states\<close>

text \<open>C18: In every state the index can reach, by any sequence of updates, loads of arbitrary files, saves,
  deletions, optimizations and invalidations, under any file system behaviour, the keys are strictly
  increasing, every entry is stored under its own positive identifier, and the file is closed.\<close>

theorem reachable_index_invariant:
  assumes "index_reachable ai"
  shows "sorted_wrt (<) (map fst (headers_index ai)) \<and>
    (get_header ai k = Some h \<longrightarrow> get_id h = k \<and> 0 < k) \<and> file_stream (ai_storage ai) = None"
  using index_reachable_inv [OF assms]
  by (auto simp: index_inv_def index_wf_def ordered_def get_header_def map_find_def dest!: map_of_SomeD)

lemma sample_index_reachable: "index_reachable sample_index"
  using reach_new [of sample_storage] by (simp add: sample_index_def)

theorem reachable_index_invariant_witness:
  "file_stream (ai_storage (snd (load_from_local sample_env 0
     (sample_index\<lparr>ai_storage := sample_storage\<lparr>file_data := Some [1, 2, 3]\<rparr>\<rparr>)))) = None"
proof -
  have "index_reachable (sample_index\<lparr>ai_storage := sample_storage\<lparr>file_data := Some [1, 2, 3]\<rparr>\<rparr>)"
    by (rule reach_step [OF sample_index_reachable step_disk]) (simp add: sample_storage_def storage_new_def)
  from reach_step [OF this step_load, of sample_env 0] show ?thesis
    using reachable_index_invariant [of _ 0] by (metis surjective_pairing)
qed

subsection \<open>Ranges, holes and removal\<close>

text \<open>C28: A request for positive numbers of headers before and from a message on gives, of the messages that
  are not patches, those right before it and the first undeleted ones from it on, in order (without a
  message, -1, those at the end of the index). When there are fewer
  undeleted messages before it than requested, the former are all that are there; otherwise they
  are the shortest run that has the requested number of undeleted ones: it begins with an undeleted
  message and has exactly that many.\<close>

theorem serialize_from_range:
  assumes "headers_index ai \<noteq> []" and "from = -1 \<or> from_lb from (headers_index ai) \<noteq> []"
    and "0 < n_early" and "0 < n_later"
    and "earlier = visible (if from = -1 then headers_index ai else before_lb from (headers_index ai))"
  shows "\<exists>older before. earlier = older @ before \<and>
    serialize_from ai from n_early n_later [] incl = (True, before @ (if from = -1 then []
        else take (nat n_later) (filter (\<lambda>h. \<not> is_deleted h) (visible (from_lb from (headers_index ai)))))) \<and>
    (if length (filter (\<lambda>h. \<not> is_deleted h) earlier) < nat n_early then older = []
     else before \<noteq> [] \<and> \<not> is_deleted (hd before) \<and> length (filter (\<lambda>h. \<not> is_deleted h) before) = nat n_early)"
proof -
  let ?n = "nat n_early"
  let ?f = "first_alive ?n (rev earlier)"
  obtain rest where rest: "rev earlier = ?f @ rest" using first_alive_prefix by blast
  then have split: "earlier = rev rest @ rev ?f" by (metis rev_append rev_rev_ident)
  have "serialize_from ai from n_early n_later [] incl = (True, rev ?f @ (if from = -1 then []
      else take (nat n_later) (filter (\<lambda>h. \<not> is_deleted h) (visible (from_lb from (headers_index ai))))))"
    using serialize_from_eq [OF assms(1,2), of n_early n_later "[]" incl] assms(3-5) by simp
  moreover have "if length (filter (\<lambda>h. \<not> is_deleted h) earlier) < ?n then rev rest = []
      else rev ?f \<noteq> [] \<and> \<not> is_deleted (hd (rev ?f)) \<and> length (filter (\<lambda>h. \<not> is_deleted h) (rev ?f)) = ?n"
    using first_alive_exact [of ?n "rev earlier"] alive_first_alive [of ?n "rev earlier"] rest assms(3)
    by (auto simp: hd_rev simp flip: rev_filter)
  ultimately show ?thesis using split by blast
qed

theorem serialize_from_range_witness:
  "\<exists>before. serialize_from (sample_index\<lparr>headers_index := [(5, sample_header 5 3 0), (7, sample_header 7 5 0)]\<rparr>)
      7 1 1 [] False = (True, before @ [sample_header 7 5 0]) \<and> length before = 1"
proof -
  let ?ai = "sample_index\<lparr>headers_index := [(5, sample_header 5 3 0), (7, sample_header 7 5 0)]\<rparr>"
  have p: "\<not> is_patch (sample_header i j 0)" "\<not> is_deleted (sample_header i j 0)" for i j
    by (simp_all add: is_patch_def is_deleted_def flag_def)
  have idx: "headers_index ?ai \<noteq> []" "(7::int) = -1 \<or> from_lb 7 (headers_index ?ai) \<noteq> []"
    by (simp_all add: from_lb_def)
  have e: "[sample_header 5 3 0] = visible (if (7::int) = -1 then headers_index ?ai else before_lb 7 (headers_index ?ai))"
    using p by (simp add: before_lb_def)
  obtain older before where
    "serialize_from ?ai 7 1 1 [] False = (True, before @ [sample_header 7 5 0])"
    "[sample_header 5 3 0] = older @ before" "before \<noteq> []"
    using serialize_from_range [OF idx _ _ e, of 1 1 False] p by (auto simp: from_lb_def)
  then show ?thesis
    by (intro exI [of _ before]) (cases older; cases before; simp)
qed

text \<open>C26: The search for a hole in a history that has messages reports one exactly when the messages are
  not linked: somewhere a message's previous identifier is not the identifier of the message before
  it, or the oldest message has a previous one that is not there.\<close>

theorem hole_iff_not_linked:
  assumes "visible (headers_index ai) \<noteq> []"
  shows "fst (get_next_hole ai (-1) hole (-1)) \<longleftrightarrow> \<not> linked (rev (visible (headers_index ai)))"
  by (rule get_next_hole_linked [OF assms])

theorem hole_iff_not_linked_witness:
  "fst (get_next_hole (sample_index\<lparr>headers_index := [(5, sample_header 5 3 0)]\<rparr>) (-1) hole_new (-1))"
  using hole_iff_not_linked [of "sample_index\<lparr>headers_index := [(5, sample_header 5 3 0)]\<rparr>" hole_new]
  by (simp add: is_patch_def flag_def)

text \<open>C27: A hole that is reported is the newest one: the messages above it are linked, and its ends are the
  message with the dangling link and the message that should have been linked, as many messages
  down as its depth says.\<close>

theorem hole_is_first_gap:
  assumes "get_next_hole ai (-1) hole depth = (True, hole')" and "visible (headers_index ai) \<noteq> []"
  shows "\<exists>xs h rest. rev (visible (headers_index ai)) = xs @ h # rest \<and> hole_from hole' = get_id h \<and>
    (\<forall>i < length xs. get_prev_msgid (xs ! i) = get_id ((xs @ [h]) ! Suc i)) \<and>
    (case rest of
       [] \<Rightarrow> get_prev_msgid h \<noteq> -1 \<and> hole_to hole' = hole_to hole
     | p # _ \<Rightarrow> get_prev_msgid h \<noteq> get_id p \<and> hole_to hole' = get_id p \<and>
         hole_depth hole' = 1 + int (length xs))"
proof -
  let ?es = "skip_patches_forward (rev (headers_index ai))"
  have v: "visible ?es = rev (visible (headers_index ai))" by simp
  have "?es \<noteq> []"
  proof
    assume "?es = []"
    then show False using v assms(2) by (simp del: visible_skip)
  qed
  then have "hole_scan depth 0 ?es hole = (True, hole')"
    using assms by (cases "headers_index ai = []") (simp_all add: get_next_hole_def Let_def)
  from hole_scan_gap [OF hd_skip this] show ?thesis unfolding v by (simp only: add_0)
qed

theorem hole_is_first_gap_witness:
  "hole_from (snd (get_next_hole (sample_index\<lparr>headers_index := [(5, sample_header 5 3 0)]\<rparr>) (-1) hole_new (-1))) = 5"
proof -
  let ?ai = "sample_index\<lparr>headers_index := [(5, sample_header 5 3 0)]\<rparr>"
  have v: "visible (headers_index ?ai) = [sample_header 5 3 0]"
    by (simp add: is_patch_def flag_def)
  then have "fst (get_next_hole ?ai (-1) hole_new (-1))"
    using get_next_hole_linked [of ?ai hole_new] by simp
  then have "get_next_hole ?ai (-1) hole_new (-1) = (True, snd (get_next_hole ?ai (-1) hole_new (-1)))"
    by (simp add: prod_eq_iff)
  from hole_is_first_gap [OF this] v show ?thesis
    by (auto simp: Cons_eq_append_conv)
qed

text \<open>C38: Optimizing leaves an index alone that does not need it. Otherwise the index keeps its newest 25000
  headers as they are, except that the oldest of them loses its link when older ones were dropped;
  the count of merges starts again, nothing else of the index changes, and the file holds exactly the
  kept headers, when they fit. In either case at most 30000 headers remain.\<close>

theorem optimize_bounds_index:
  assumes "kept = (if max_index_size < length (headers_index ai)
      then (case drop (length (headers_index ai) - max_index_size) (headers_index ai) of
        [] \<Rightarrow> [] | (k, h) # es \<Rightarrow> (k, set_prev_msgid (-1) h) # es)
      else headers_index ai)"
  shows "(\<exists>st. index_optimize env ai =
      (if need_optimize ai then ai\<lparr>headers_index := kept, merged_count := 0, ai_storage := st\<rparr> else ai)) \<and>
    (need_optimize ai \<and> index_closed env ai \<and> (\<forall>hs \<in> set (save_chunks kept []). headers_ok hs) \<and>
       length (index_file (save_chunks kept [])) \<le> capacity (ai_storage ai) \<longrightarrow>
     file_bytes (ai_storage (index_optimize env ai)) = index_file (save_chunks kept [])) \<and>
    length (headers_index (index_optimize env ai)) \<le> index_size_need_optimize"
proof -
  let ?ai = "ai\<lparr>headers_index := kept, merged_count := 0\<rparr>"
  have runs: "need_optimize ai \<Longrightarrow> index_optimize env ai = snd (save_all env ?ai)"
    using index_optimize_runs assms by blast
  have "\<exists>st. index_optimize env ai =
      (if need_optimize ai then ai\<lparr>headers_index := kept, merged_count := 0, ai_storage := st\<rparr> else ai)"
  proof (cases "need_optimize ai")
    case True
    then show ?thesis using runs save_all_storage [of env ?ai] by auto
  qed (simp add: index_optimize_def)
  moreover have "file_bytes (ai_storage (index_optimize env ai)) = index_file (save_chunks kept [])"
    if "need_optimize ai" "index_closed env ai" "\<forall>hs \<in> set (save_chunks kept []). headers_ok hs"
      "length (index_file (save_chunks kept [])) \<le> capacity (ai_storage ai)"
    using save_all_file(2) [of env ?ai] runs that by (simp add: index_closed_def)
  ultimately show ?thesis using index_optimize_bound by blast
qed

theorem optimize_bounds_index_witness:
  "merged_count (index_optimize sample_env (sample_index\<lparr>headers_index := [(5, sample_header 5 3 0)],
     loaded_from_local := True, merged_count := 1\<rparr>)) = 0"
proof -
  let ?ai = "sample_index\<lparr>headers_index := [(5, sample_header 5 3 0)], loaded_from_local := True, merged_count := 1\<rparr>"
  have "[(5, sample_header 5 3 0)] = (if max_index_size < length (headers_index ?ai)
      then (case drop (length (headers_index ?ai) - max_index_size) (headers_index ?ai) of
        [] \<Rightarrow> [] | (k, h) # es \<Rightarrow> (k, set_prev_msgid (-1) h) # es)
      else headers_index ?ai)"
    by (simp add: max_index_size_def)
  from optimize_bounds_index [OF this, of sample_env] obtain st where "index_optimize sample_env ?ai =
      (if need_optimize ?ai then ?ai\<lparr>headers_index := [(5, sample_header 5 3 0)], merged_count := 0, ai_storage := st\<rparr> else ?ai)"
    by blast
  moreover have "need_optimize ?ai" by (simp add: need_optimize_def)
  ultimately show ?thesis by simp
qed

end
