(* ===== verification/Search_Term.thy ===== *)
theory Search_Term
  imports Prelude
begin

section \<open>Searching a term in a text: core/tools/strings, messages_data.cpp (kmp_strstr)\<close>

text \<open>
  A search term is coded character by character: each character's lower and upper case form is
  kept in one string of symbols, and characters with the same lower case form have the same
  code. The matcher runs the Knuth-Morris-Pratt automaton of the codes over the characters of
  a UTF-8 text. The case conversion of the platform is a parameter. The inner loop of both
  routines is \<open>None\<close> where it would not end.
\<close>

definition utf8_char_size :: "byte \<Rightarrow> nat" where
  "utf8_char_size b =
     (if b AND 0xE0 = 0xC0 then 2 else if b AND 0xF0 = 0xE0 then 3 else if b AND 0xF8 = 0xF0 then 4
      else if b AND 0xFC = 0xF8 then 5 else if b AND 0xFE = 0xFC then 6 else 1)"

subsection \<open>Coding the term\<close>

record coded_term =
  lower_term :: str
  symb_table :: "(str \<times> int) list"
  symbs :: str
  coded_string :: "int list"
  prefix :: "nat list"
  symb_indexes :: "nat list"
  last_symb_id :: int

text \<open>The C string at a position, with its terminator.\<close>

definition c_str :: "str \<Rightarrow> nat \<Rightarrow> str" where
  "c_str s i = drop i (s @ [0])"

definition lower_of :: "(str \<Rightarrow> str) \<Rightarrow> str \<Rightarrow> str" where
  "lower_of to_lower str =
     (let lower = to_lower str in if lower = [] \<or> lower = [0] then str else lower)"

definition get_char_index ::
    "(str \<Rightarrow> str) \<Rightarrow> (str \<Rightarrow> str) \<Rightarrow> str \<Rightarrow> coded_term \<Rightarrow> int \<times> nat \<times> coded_term" where
  "get_char_index to_lower to_upper s t =
     (let len = utf8_char_size (hd s);
          str = take len s;
          lower = lower_of to_lower str;
          upper = to_upper str;
          known = find (\<lambda>e. fst e = lower) (symb_table t);
          t1 = t\<lparr>symb_indexes := symb_indexes t @
                   [length (symbs t), length (symbs t @ lower)],
                 symbs := symbs t @ lower @ upper\<rparr>
      in case known of
           Some e \<Rightarrow> (snd e, len, t1)
         | None \<Rightarrow>
             let n = last_symb_id t + 1
             in (n, len, t1\<lparr>last_symb_id := n, symb_table := symb_table t @ [(lower, n)]\<rparr>))"

lemma utf8_char_size_pos [simp]: "0 < utf8_char_size b"
  by (simp add: utf8_char_size_def)

lemma length_get_char_index: "fst (snd (get_char_index lo up s t)) = utf8_char_size (hd s)"
  by (auto simp: get_char_index_def Let_def split: option.split)

function convert_from ::
    "(str \<Rightarrow> str) \<Rightarrow> (str \<Rightarrow> str) \<Rightarrow> str \<Rightarrow> nat \<Rightarrow> coded_term \<Rightarrow> int list \<times> coded_term" where
  "convert_from lo up s i t =
     (if i < length s then
        let (n, len, t1) = get_char_index lo up (c_str s i) t;
            (ns, t2) = convert_from lo up s (i + len) t1
        in (n # ns, t2)
      else ([], t))"
  by pat_completeness auto
termination
proof (relation "measure (\<lambda>(lo, up, s, i, t). length s - i)", goal_cases)
  case 1
  then show ?case by simp
next
  case (2 lo up s i t x n xa len t1)
  then have "len = utf8_char_size (hd (c_str s i))"
    using length_get_char_index [of lo up "c_str s i" t] by (metis fst_conv snd_conv)
  then have "0 < len" by simp
  then show ?case using 2 by simp
qed

declare convert_from.simps [simp del]

definition convert_string_to_vector ::
    "(str \<Rightarrow> str) \<Rightarrow> (str \<Rightarrow> str) \<Rightarrow> str \<Rightarrow> coded_term \<Rightarrow> int list \<times> coded_term" where
  "convert_string_to_vector lo up s t = convert_from lo up s 0 t"

subsection \<open>The prefix function\<close>

text \<open>\<open>while (j > 0 && !match(j)) j = prefix[j - 1]\<close>\<close>

partial_function (option) back_off :: "(nat \<Rightarrow> bool) \<Rightarrow> nat list \<Rightarrow> nat \<Rightarrow> nat option" where
  "back_off match pre j = (if j > 0 \<and> \<not> match j then back_off match pre (pre ! (j - 1)) else Some j)"

declare back_off.simps [code]

function prefix_from :: "'a list \<Rightarrow> nat \<Rightarrow> nat list \<Rightarrow> nat list option" where
  "prefix_from term i pre =
     (if i < length term then
        (case back_off (\<lambda>j. term ! j = term ! i) pre (pre ! (i - 1)) of
           None \<Rightarrow> None
         | Some j \<Rightarrow>
             prefix_from term (i + 1) (pre[i := (if term ! j = term ! i then j + 1 else j)]))
      else Some pre)"
  by pat_completeness auto
termination
  by (relation "measure (\<lambda>(term, i, pre). length term - i)") auto

declare prefix_from.simps [simp del]

definition build_prefix :: "'a list \<Rightarrow> nat list option" where
  "build_prefix term = prefix_from term 1 (replicate (length term) 0)"

text \<open>The term as the search prepares it.\<close>

definition code_term :: "(str \<Rightarrow> str) \<Rightarrow> (str \<Rightarrow> str) \<Rightarrow> str \<Rightarrow> coded_term option" where
  "code_term lo up term =
     (let t0 = \<lparr>lower_term = lo term, symb_table = [], symbs = [], coded_string = [], prefix = [],
            symb_indexes = [], last_symb_id = 0\<rparr>;
          (codes, t1) = convert_string_to_vector lo up term t0
      in map_option (\<lambda>pre. t1\<lparr>coded_string := codes, prefix := pre\<rparr>) (build_prefix codes))"

subsection \<open>The matcher\<close>

text \<open>\<open>_l\<close> bytes of the symbols from \<open>s\<close> against those of the text from \<open>b\<close>.\<close>

definition is_equal :: "str \<Rightarrow> str \<Rightarrow> nat \<Rightarrow> nat \<Rightarrow> bool" where
  "is_equal s buf b l \<longleftrightarrow>
     (if l = 1 then hd s = buf ! b
      else l \<le> length s \<and> b + l \<le> length buf \<and> take l s = take l (drop b buf))"

definition symbol_matches :: "coded_term \<Rightarrow> str \<Rightarrow> nat \<Rightarrow> nat \<Rightarrow> nat \<Rightarrow> bool" where
  "symbol_matches t buf i len j \<longleftrightarrow>
     is_equal (c_str (symbs t) (symb_indexes t ! (2 * j))) buf i len \<or>
     is_equal (c_str (symbs t) (symb_indexes t ! (2 * j + 1))) buf i len"

function kmp_from :: "coded_term \<Rightarrow> str \<Rightarrow> nat \<Rightarrow> nat \<Rightarrow> nat \<Rightarrow> int option" where
  "kmp_from t buf sz i j =
     (if i < sz then
        let len = utf8_char_size (buf ! i)
        in case back_off (symbol_matches t buf i len) (prefix t) j of
             None \<Rightarrow> None
           | Some j1 \<Rightarrow>
               let j2 = (if symbol_matches t buf i len j1 then j1 + 1 else j1)
               in if j2 = length (coded_string t) then Some (int i - int j2 + 1)
                  else kmp_from t buf sz (i + len) j2
      else Some (-1))"
  by pat_completeness auto
termination
  by (relation "measure (\<lambda>(t, buf, sz, i, j). sz - i)") (auto simp: Let_def diff_less_mono2)

declare kmp_from.simps [simp del]

text \<open>\<open>kmp_strstr\<close>; the text is the bytes the pointer can reach, or \<open>None\<close> for a null pointer.\<close>

definition kmp_strstr :: "coded_term \<Rightarrow> str option \<Rightarrow> nat \<Rightarrow> int option" where
  "kmp_strstr t buf sz = (case buf of None \<Rightarrow> Some (-1) | Some s \<Rightarrow> kmp_from t s sz 0 0)"

subsection \<open>Borders\<close>

text \<open>
  \<open>border t j k\<close>: the first \<open>k\<close> codes of \<open>t\<close> are the last \<open>k\<close> of its first \<open>j\<close>; \<open>is_prefix t j p\<close>:
  \<open>p\<close> is the longest border of \<open>j\<close> but \<open>j\<close> itself.
\<close>

definition border :: "'a list \<Rightarrow> nat \<Rightarrow> nat \<Rightarrow> bool" where
  "border t j k \<longleftrightarrow> k \<le> j \<and> (\<forall>x < k. t ! x = t ! (j - k + x))"

definition is_prefix :: "'a list \<Rightarrow> nat \<Rightarrow> nat \<Rightarrow> bool" where
  "is_prefix t j p \<longleftrightarrow> p < j \<and> border t j p \<and> (\<forall>k < j. border t j k \<longrightarrow> k \<le> p)"

lemma border_refl [simp]: "border t j j"
  by (simp add: border_def)

lemma border_0 [simp]: "border t j 0"
  by (simp add: border_def)

lemma border_trans: "border t j k \<Longrightarrow> border t k l \<Longrightarrow> border t j l"
  by (auto simp: border_def)

lemma border_common:
  assumes "border t j k" and "border t j l" and "l \<le> k"
  shows "border t k l"
proof -
  have "t ! x = t ! (k - l + x)" if "x < l" for x
  proof -
    have "t ! (k - l + x) = t ! (j - k + (k - l + x))"
      using assms that by (auto simp: border_def)
    also have "j - k + (k - l + x) = j - l + x"
      using assms by (auto simp: border_def)
    finally show ?thesis using assms(2) that by (simp add: border_def)
  qed
  then show ?thesis using assms(3) by (simp add: border_def)
qed

lemma border_Suc: "border t (Suc j) (Suc k) \<longleftrightarrow> border t j k \<and> t ! k = t ! j"
  by (auto simp: border_def less_Suc_eq)

text \<open>The inner loop finds the longest border that can be extended.\<close>

lemma back_off_border:
  "(\<And>i. 0 < i \<Longrightarrow> i \<le> j \<Longrightarrow> is_prefix t i (pre ! (i - 1))) \<Longrightarrow>
     \<exists>k. back_off m pre j = Some k \<and> border t j k \<and> (k = 0 \<or> m k) \<and>
       (\<forall>l. border t j l \<and> m l \<longrightarrow> l \<le> k)"
proof (induction j rule: less_induct)
  case (less j)
  show ?case
  proof (cases "j = 0 \<or> m j")
    case True
    then have "back_off m pre j = Some j" by (auto simp: back_off.simps [of m pre j])
    then show ?thesis using True by (auto simp: border_def)
  next
    case False
    define p where "p = pre ! (j - 1)"
    have p: "is_prefix t j p" using less.prems [of j] False by (simp add: p_def)
    then have "p < j" by (simp add: is_prefix_def)
    have "\<exists>k. back_off m pre p = Some k \<and> border t p k \<and> (k = 0 \<or> m k) \<and>
        (\<forall>l. border t p l \<and> m l \<longrightarrow> l \<le> k)"
      using less.IH [OF \<open>p < j\<close>] less.prems \<open>p < j\<close> by simp
    then obtain k where k: "back_off m pre p = Some k" "border t p k" "k = 0 \<or> m k"
      "\<forall>l. border t p l \<and> m l \<longrightarrow> l \<le> k" by blast
    have step: "back_off m pre j = Some k"
      using False k(1) by (simp add: back_off.simps [of m pre j] p_def)
    have "l \<le> k" if l: "border t j l" "m l" for l
    proof -
      have "l < j" using l False by (cases "l = j") (auto simp: border_def)
      then have "border t p l"
        using p l(1) by (auto simp: is_prefix_def intro: border_common)
      then show ?thesis using k(4) l(2) by blast
    qed
    moreover have "border t j k"
      using p k(2) border_trans by (auto simp: is_prefix_def)
    ultimately show ?thesis using step k(3) by blast
  qed
qed

definition prefix_ok :: "'a list \<Rightarrow> nat list \<Rightarrow> nat \<Rightarrow> bool" where
  "prefix_ok t pre n \<longleftrightarrow> length pre = length t \<and> (\<forall>i. 0 < i \<and> i \<le> n \<longrightarrow> is_prefix t i (pre ! (i - 1)))"

lemma is_prefix_Suc:
  assumes p: "is_prefix t i p" and k: "border t p k" "k = 0 \<or> t ! k = t ! i"
    and max: "\<forall>l. border t p l \<and> t ! l = t ! i \<longrightarrow> l \<le> k"
  shows "is_prefix t (Suc i) (if t ! k = t ! i then k + 1 else k)"
proof -
  have pi: "p < i" "border t i p" "\<forall>l < i. border t i l \<longrightarrow> l \<le> p"
    using p by (auto simp: is_prefix_def)
  have ki: "k \<le> p" "border t i k"
    using k(1) pi border_trans by (auto simp: border_def)
  have bound: "l \<le> (if t ! k = t ! i then k + 1 else k)" if "l < Suc i" "border t (Suc i) l" for l
  proof (cases l)
    case 0
    then show ?thesis by simp
  next
    case (Suc l')
    then have l': "border t i l'" "t ! l' = t ! i" "l' < i"
      using that by (auto simp: border_Suc)
    then have "border t p l'" using pi border_common by blast
    then have "l' \<le> k" using max l'(2) by blast
    then show ?thesis using Suc l'(2) k(2) by (cases "t ! k = t ! i") auto
  qed
  show ?thesis
    using ki pi k(2) bound by (auto simp: is_prefix_def border_Suc)
qed

lemma prefix_from_ok:
  "prefix_ok t pre i \<Longrightarrow> 0 < i \<Longrightarrow> i \<le> length t \<Longrightarrow>
     \<exists>pre'. prefix_from t i pre = Some pre' \<and> prefix_ok t pre' (length t)"
proof (induction t i pre rule: prefix_from.induct)
  case (1 t i pre)
  show ?case
  proof (cases "i < length t")
    case False
    then have "prefix_from t i pre = Some pre" by (simp add: prefix_from.simps [of t i pre])
    then show ?thesis using False 1(2,4) by auto
  next
    case True
    have p: "is_prefix t i (pre ! (i - 1))" using 1(2,3) by (simp add: prefix_ok_def)
    have ok: "is_prefix t x (pre ! (x - 1))" if "0 < x" "x \<le> pre ! (i - 1)" for x
      using 1(2) that p by (auto simp: prefix_ok_def is_prefix_def)
    obtain k where k: "back_off (\<lambda>j. t ! j = t ! i) pre (pre ! (i - 1)) = Some k"
      "border t (pre ! (i - 1)) k" "k = 0 \<or> t ! k = t ! i"
      "\<forall>l. border t (pre ! (i - 1)) l \<and> t ! l = t ! i \<longrightarrow> l \<le> k"
      using back_off_border [OF ok, where m = "\<lambda>j. t ! j = t ! i"] by blast
    let ?pre = "pre[i := (if t ! k = t ! i then k + 1 else k)]"
    have "prefix_ok t ?pre (i + 1)"
      using 1(2) True is_prefix_Suc [OF p k(2-4)]
      by (auto simp: prefix_ok_def nth_list_update le_Suc_eq)
    then show ?thesis
      using 1(1) [OF True k(1)] True k(1) by (simp add: prefix_from.simps [of t i pre])
  qed
qed

lemma build_prefix_ok: "\<exists>pre. build_prefix t = Some pre \<and> prefix_ok t pre (length t)"
proof (cases "t = []")
  case True
  then show ?thesis by (simp add: build_prefix_def prefix_from.simps prefix_ok_def)
next
  case False
  have "is_prefix t 1 0" by (simp add: is_prefix_def)
  then have "prefix_ok t (replicate (length t) 0) 1"
    using False by (auto simp: prefix_ok_def le_Suc_eq)
  then show ?thesis
    using prefix_from_ok [of t "replicate (length t) 0" 1] False
    by (auto simp: build_prefix_def Suc_le_eq)
qed

subsection \<open>The automaton\<close>

text \<open>The characters of a text, and matching a term at the end of the characters read.\<close>

function chars_from :: "str \<Rightarrow> nat \<Rightarrow> nat \<Rightarrow> str list" where
  "chars_from buf sz i =
     (if i < sz then
        take (utf8_char_size (buf ! i)) (drop i buf) #
          chars_from buf sz (i + utf8_char_size (buf ! i))
      else [])"
  by pat_completeness auto
termination
  by (relation "measure (\<lambda>(buf, sz, i). sz - i)") (auto simp: diff_less_mono2)

declare chars_from.simps [simp del]

definition ends_with :: "(nat \<Rightarrow> 'c \<Rightarrow> bool) \<Rightarrow> 'c list \<Rightarrow> nat \<Rightarrow> bool" where
  "ends_with m cs k \<longleftrightarrow> k \<le> length cs \<and> (\<forall>x < k. m x (cs ! (length cs - k + x)))"

text \<open>Matching is decided by the codes.\<close>

definition coherent :: "(nat \<Rightarrow> 'c \<Rightarrow> bool) \<Rightarrow> 'a list \<Rightarrow> bool" where
  "coherent m t \<longleftrightarrow> (\<forall>k < length t. \<forall>l < length t. \<forall>c.
     (m k c \<longrightarrow> m l c \<longrightarrow> t ! k = t ! l) \<and> (t ! k = t ! l \<longrightarrow> m k c \<longrightarrow> m l c))"

lemma ends_with_0 [simp]: "ends_with m cs 0"
  by (simp add: ends_with_def)

lemma ends_with_Nil [simp]: "ends_with m [] k \<longleftrightarrow> k = 0"
  by (auto simp: ends_with_def)

lemma ends_with_snoc: "ends_with m (cs @ [c]) (Suc k) \<longleftrightarrow> ends_with m cs k \<and> m k c"
  by (auto simp: ends_with_def less_Suc_eq nth_append)

lemma ends_with_border:
  assumes "ends_with m cs j" and "j \<le> length t" and "coherent m t" and "l \<le> j"
  shows "ends_with m cs l \<longleftrightarrow> border t j l"
proof -
  have m: "m (j - l + x) (cs ! (length cs - l + x))" if "x < l" for x
  proof -
    have "j - l + x < j" using that assms(4) by simp
    then have "m (j - l + x) (cs ! (length cs - j + (j - l + x)))"
      using assms(1) unfolding ends_with_def by blast
    moreover have "length cs - j + (j - l + x) = length cs - l + x"
      using assms by (auto simp: ends_with_def)
    ultimately show ?thesis by simp
  qed
  have "m x (cs ! (length cs - l + x)) \<longleftrightarrow> t ! x = t ! (j - l + x)" if "x < l" for x
  proof -
    have "x < length t" "j - l + x < length t" using that assms by auto
    then show ?thesis using m [OF that] assms(3) unfolding coherent_def by metis
  qed
  then show ?thesis using assms by (auto simp: ends_with_def border_def)
qed

text \<open>One step: the longest match after one more character.\<close>

lemma automaton_step:
  assumes pre: "prefix_ok t pre (length t)" and j: "ends_with m cs j" "j < length t"
    and max: "\<forall>k < length t. ends_with m cs k \<longrightarrow> k \<le> j" and co: "coherent m t"
  shows "\<exists>k. back_off (\<lambda>k. m k c) pre j = Some k \<and> k < length t \<and>
    ends_with m (cs @ [c]) (if m k c then k + 1 else k) \<and>
    (\<forall>l \<le> length t. ends_with m (cs @ [c]) l \<longrightarrow> l \<le> (if m k c then k + 1 else k))"
proof -
  have ok: "is_prefix t i (pre ! (i - 1))" if "0 < i" "i \<le> j" for i
    using pre that j(2) by (simp add: prefix_ok_def)
  obtain k where k: "back_off (\<lambda>k. m k c) pre j = Some k" "border t j k" "k = 0 \<or> m k c"
    "\<forall>l. border t j l \<and> m l c \<longrightarrow> l \<le> k"
    using back_off_border [OF ok, where m = "\<lambda>k. m k c"] by blast
  have "k \<le> j" using k(2) by (simp add: border_def)
  have e: "ends_with m cs k"
    using ends_with_border [OF j(1) _ co \<open>k \<le> j\<close>] j(2) k(2) by simp
  have "l \<le> (if m k c then k + 1 else k)" if "l \<le> length t" "ends_with m (cs @ [c]) l" for l
  proof (cases l)
    case 0
    then show ?thesis by simp
  next
    case (Suc l')
    then have l': "ends_with m cs l'" "m l' c" using that(2) by (simp_all add: ends_with_snoc)
    then have "l' \<le> j" using max Suc that(1) by simp
    then have "border t j l'"
      using ends_with_border [OF j(1) _ co] j(2) l'(1) by simp
    then have "l' \<le> k" using k(4) l'(2) by blast
    then show ?thesis using Suc l'(2) k(3) by (cases "m k c") auto
  qed
  moreover have "ends_with m (cs @ [c]) (if m k c then k + 1 else k)"
    using e k(3) by (auto simp: ends_with_snoc)
  ultimately show ?thesis using k(1) \<open>k \<le> j\<close> j(2) by auto
qed

text \<open>
  The matcher on the characters that are left, after \<open>cs\<close>: it ends, and finds the term exactly
  when some prefix of what is left completes a match.
\<close>

definition occurs :: "(nat \<Rightarrow> 'c \<Rightarrow> bool) \<Rightarrow> nat \<Rightarrow> 'c list \<Rightarrow> bool" where
  "occurs m n cs \<longleftrightarrow> (\<exists>p. p + n \<le> length cs \<and> (\<forall>k < n. m k (cs ! (p + k))))"

lemma occurs_ends_with: "occurs m n cs \<longleftrightarrow> (\<exists>q \<le> length cs. ends_with m (take q cs) n)"
proof
  assume "occurs m n cs"
  then obtain p where "p + n \<le> length cs" "\<forall>k < n. m k (cs ! (p + k))"
    by (auto simp: occurs_def)
  then have "ends_with m (take (p + n) cs) n" by (simp add: ends_with_def)
  then show "\<exists>q \<le> length cs. ends_with m (take q cs) n" using \<open>p + n \<le> length cs\<close> by blast
next
  assume "\<exists>q \<le> length cs. ends_with m (take q cs) n"
  then obtain q where q: "q \<le> length cs" "n \<le> q" "\<forall>x < n. m x (take q cs ! (q - n + x))"
    by (auto simp: ends_with_def)
  then have "\<forall>k < n. m k (cs ! (q - n + k))" by simp
  then show "occurs m n cs" using q(1,2) unfolding occurs_def by (intro exI [of _ "q - n"]) simp
qed

text \<open>The two forms of a symbol of the term as the matcher sees them in the symbol string.\<close>

definition char_ok :: "str \<Rightarrow> bool" where
  "char_ok c \<longleftrightarrow> c \<noteq> [] \<and> length c = utf8_char_size (hd c)"

definition sym :: "coded_term \<Rightarrow> nat \<Rightarrow> str \<Rightarrow> bool" where
  "sym t k c \<longleftrightarrow> char_ok c \<and>
     (take (length c) (c_str (symbs t) (symb_indexes t ! (2 * k))) = c \<or>
      take (length c) (c_str (symbs t) (symb_indexes t ! (2 * k + 1))) = c)"

definition symbols_in_range :: "coded_term \<Rightarrow> bool" where
  "symbols_in_range t \<longleftrightarrow> (\<forall>k < length (coded_string t).
     symb_indexes t ! (2 * k) \<le> length (symbs t) \<and> symb_indexes t ! (2 * k + 1) \<le> length (symbs t))"

lemma is_equal_take:
  assumes "s \<noteq> []" and "b + l \<le> length buf" and "0 < l"
  shows "is_equal s buf b l \<longleftrightarrow> take l s = take l (drop b buf)"
proof (cases "l = 1")
  case True
  have "drop b buf = buf ! b # drop (Suc b) buf"
    using assms(2) True by (simp add: Cons_nth_drop_Suc)
  then show ?thesis using True assms(1) by (cases s) (simp_all add: is_equal_def)
next
  case False
  have "length (take l (drop b buf)) = l" using assms(2) by simp
  then have "take l s = take l (drop b buf) \<Longrightarrow> l \<le> length s"
    by (metis length_take min.cobounded1 min.absorb_iff2 nat_le_linear)
  then show ?thesis using False assms(2) by (auto simp: is_equal_def)
qed

lemma symbol_matches_sym:
  assumes "symbols_in_range t" and "k < length (coded_string t)"
    and "i + len \<le> length buf" and "len = utf8_char_size (buf ! i)"
  shows "symbol_matches t buf i len k \<longleftrightarrow> sym t k (take len (drop i buf))"
proof -
  have "c_str (symbs t) (symb_indexes t ! (2 * k)) \<noteq> []"
    "c_str (symbs t) (symb_indexes t ! (2 * k + 1)) \<noteq> []"
    using assms(1,2) by (auto simp: symbols_in_range_def c_str_def)
  moreover have len: "length (take len (drop i buf)) = len" using assms(3) by simp
  moreover have "0 < len" by (simp add: assms(4))
  moreover have "char_ok (take len (drop i buf))"
  proof -
    have "i < length buf" using assms(3) \<open>0 < len\<close> by simp
    then have "hd (take len (drop i buf)) = buf ! i"
      using \<open>0 < len\<close> by (simp add: hd_drop_conv_nth)
    then show ?thesis using len \<open>0 < len\<close> \<open>i < length buf\<close> by (auto simp: char_ok_def assms(4))
  qed
  ultimately show ?thesis
    using is_equal_take [OF _ assms(3)] by (simp add: symbol_matches_def sym_def)
qed

text \<open>Every character of the text lies inside the bytes that can be read.\<close>

function chars_inside :: "str \<Rightarrow> nat \<Rightarrow> nat \<Rightarrow> bool" where
  "chars_inside buf sz i \<longleftrightarrow>
     (if i < sz then i + utf8_char_size (buf ! i) \<le> length buf \<and>
        chars_inside buf sz (i + utf8_char_size (buf ! i)) else True)"
  by pat_completeness auto
termination
  by (relation "measure (\<lambda>(buf, sz, i). sz - i)") (auto simp: diff_less_mono2)

declare chars_inside.simps [simp del]

lemma back_off_cong:
  "(\<And>i. 0 < i \<Longrightarrow> i \<le> j \<Longrightarrow> is_prefix t i (pre ! (i - 1))) \<Longrightarrow> (\<And>k. k \<le> j \<Longrightarrow> m k = m' k) \<Longrightarrow>
     back_off m pre j = back_off m' pre j"
proof (induction j rule: less_induct)
  case (less j)
  show ?case
  proof (cases "j > 0 \<and> \<not> m j")
    case True
    then have "pre ! (j - 1) < j" using less.prems(1) [of j] by (simp add: is_prefix_def)
    then have "back_off m pre (pre ! (j - 1)) = back_off m' pre (pre ! (j - 1))"
      using less.IH [of "pre ! (j - 1)"] less.prems by simp
    then show ?thesis
      using True less.prems(2) [of j]
      by (simp add: back_off.simps [of m pre j] back_off.simps [of m' pre j])
  next
    case False
    then have "back_off m pre j = Some j" "back_off m' pre j = Some j"
      using less.prems(2) [of j]
      by (auto simp: back_off.simps [of m pre j] back_off.simps [of m' pre j])
    then show ?thesis by simp
  qed
qed

lemma first_char:
  assumes "\<not> ends_with m cs n"
  shows "(\<exists>q \<le> length (c # rest). ends_with m (cs @ take q (c # rest)) n) \<longleftrightarrow>
    (\<exists>q \<le> length rest. ends_with m ((cs @ [c]) @ take q rest) n)"
proof
  assume "\<exists>q \<le> length (c # rest). ends_with m (cs @ take q (c # rest)) n"
  then obtain q where "q \<le> length (c # rest)" "ends_with m (cs @ take q (c # rest)) n" by blast
  then show "\<exists>q \<le> length rest. ends_with m ((cs @ [c]) @ take q rest) n"
    using assms by (cases q) auto
next
  assume "\<exists>q \<le> length rest. ends_with m ((cs @ [c]) @ take q rest) n"
  then obtain q where "q \<le> length rest" "ends_with m ((cs @ [c]) @ take q rest) n" by blast
  then show "\<exists>q \<le> length (c # rest). ends_with m (cs @ take q (c # rest)) n"
    by (intro exI [of _ "Suc q"]) simp
qed

definition term_ok :: "coded_term \<Rightarrow> bool" where
  "term_ok t \<longleftrightarrow> prefix_ok (coded_string t) (prefix t) (length (coded_string t)) \<and>
     coherent (sym t) (coded_string t) \<and> symbols_in_range t \<and> coded_string t \<noteq> []"

lemma kmp_from_finds:
  "term_ok t \<Longrightarrow> n = length (coded_string t) \<Longrightarrow>
     ends_with (sym t) cs j \<Longrightarrow> j < n \<Longrightarrow> (\<forall>k \<le> n. ends_with (sym t) cs k \<longrightarrow> k \<le> j) \<Longrightarrow>
     length cs \<le> i \<Longrightarrow> chars_inside buf sz i \<Longrightarrow>
     \<exists>r. kmp_from t buf sz i j = Some r \<and> -1 \<le> r \<and>
       (r \<noteq> -1 \<longleftrightarrow> (\<exists>q \<le> length (chars_from buf sz i).
          ends_with (sym t) (cs @ take q (chars_from buf sz i)) n))"
proof (induction t buf sz i j arbitrary: cs rule: kmp_from.induct)
  case (1 t buf sz i j)
  note IH = 1(1)
  show ?case
  proof (cases "i < sz")
    case False
    then have "chars_from buf sz i = []" by (simp add: chars_from.simps)
    then show ?thesis
      using False 1(4,5,6) by (auto simp: kmp_from.simps [of t buf sz i j])
  next
    case True
    define len c where "len = utf8_char_size (buf ! i)" and "c = take len (drop i buf)"
    have fit: "i + len \<le> length buf" "chars_inside buf sz (i + len)"
      using 1(8) True by (simp_all add: len_def chars_inside.simps [of buf sz i])
    have chars: "chars_from buf sz i = c # chars_from buf sz (i + len)"
      using True by (simp add: chars_from.simps [of buf sz i] len_def c_def)
    have t: "prefix_ok (coded_string t) (prefix t) (length (coded_string t))"
      "coherent (sym t) (coded_string t)" "symbols_in_range t"
      using 1(2) by (simp_all add: term_ok_def)
    have m: "symbol_matches t buf i len k = sym t k c" if "k < n" for k
      using symbol_matches_sym [OF t(3) _ fit(1) len_def, of k] that 1(3) by (simp add: c_def)
    obtain k where k: "back_off (\<lambda>k. sym t k c) (prefix t) j = Some k" "k < n"
      "ends_with (sym t) (cs @ [c]) (if sym t k c then k + 1 else k)"
      "\<forall>l \<le> n. ends_with (sym t) (cs @ [c]) l \<longrightarrow> l \<le> (if sym t k c then k + 1 else k)"
      using automaton_step [OF t(1) 1(4) _ _ t(2), of c] 1(3,5,6) by auto
    have bo: "back_off (symbol_matches t buf i len) (prefix t) j = Some k"
      using back_off_cong [of j "coded_string t" "prefix t" "symbol_matches t buf i len" "\<lambda>k. sym t k c"]
        t(1) m 1(3,5) k(1) by (auto simp: prefix_ok_def)
    have step: "kmp_from t buf sz i j =
        (let j2 = (if sym t k c then k + 1 else k)
         in if j2 = n then Some (int i - int j2 + 1) else kmp_from t buf sz (i + len) j2)"
      using True bo m [OF k(2)] 1(3) by (simp add: kmp_from.simps [of t buf sz i j] len_def)
    define j2 where "j2 = (if sym t k c then k + 1 else k)"
    have q: "(\<exists>q \<le> length (chars_from buf sz i). ends_with (sym t) (cs @ take q (chars_from buf sz i)) n)
      \<longleftrightarrow> (\<exists>q \<le> length (chars_from buf sz (i + len)).
             ends_with (sym t) ((cs @ [c]) @ take q (chars_from buf sz (i + len))) n)"
      unfolding chars by (rule first_char) (use 1(5,6) in auto)
    show ?thesis
    proof (cases "j2 = n")
      case True
      then have e: "ends_with (sym t) (cs @ [c]) n" using k(3) by (simp add: j2_def)
      then have "n \<le> i + 1" using 1(7) by (auto simp: ends_with_def)
      moreover have "\<exists>q \<le> length (chars_from buf sz (i + len)).
          ends_with (sym t) ((cs @ [c]) @ take q (chars_from buf sz (i + len))) n"
        using e by (intro exI [of _ 0]) simp
      ultimately show ?thesis using True q by (simp add: step j2_def [symmetric])
    next
      case False
      then have less: "j2 < n" using k(2) by (auto simp: j2_def split: if_splits)
      have "0 < len" by (simp add: len_def)
      then have l: "length (cs @ [c]) \<le> i + len" using 1(7) by simp
      have jj: "j2 = (if symbol_matches t buf i len k then k + 1 else k)"
        using m [OF k(2)] by (simp add: j2_def)
      have nn: "j2 \<noteq> length (coded_string t)" using False 1(3) by simp
      have eq: "kmp_from t buf sz i j = kmp_from t buf sz (i + len) j2"
        using step False by (simp add: j2_def)
      have "\<exists>r. kmp_from t buf sz (i + len) j2 = Some r \<and> -1 \<le> r \<and>
          (r \<noteq> -1 \<longleftrightarrow> (\<exists>q \<le> length (chars_from buf sz (i + len)).
             ends_with (sym t) ((cs @ [c]) @ take q (chars_from buf sz (i + len))) n))"
        by (rule IH [OF \<open>i < sz\<close> len_def bo jj nn 1(2,3) k(3) [folded j2_def] less
              k(4) [folded j2_def] l fit(2)])
      then show ?thesis unfolding eq q .
    qed
  qed
qed

subsection \<open>The coded term\<close>

text \<open>
  What the coding establishes: both forms of every character are in the symbol string at the
  recorded places, and a code stands for one lower case form.
\<close>

definition symbol_at :: "coded_term \<Rightarrow> nat \<Rightarrow> str \<Rightarrow> bool" where
  "symbol_at t i x \<longleftrightarrow> i \<le> length (symbs t) \<and> (\<exists>r. drop i (symbs t) = x @ r)"

definition table_ok :: "coded_term \<Rightarrow> bool" where
  "table_ok t \<longleftrightarrow> distinct (map fst (symb_table t)) \<and> distinct (map snd (symb_table t)) \<and>
     (\<forall>e \<in> set (symb_table t). snd e \<le> last_symb_id t)"

definition coded ::
    "(str \<Rightarrow> str) \<Rightarrow> (str \<Rightarrow> str) \<Rightarrow> coded_term \<Rightarrow> str list \<Rightarrow> int list \<Rightarrow> bool" where
  "coded lo up t cs ns \<longleftrightarrow> length ns = length cs \<and> length (symb_indexes t) = 2 * length cs \<and>
     table_ok t \<and>
     (\<forall>k < length cs. symbol_at t (symb_indexes t ! (2 * k)) (lower_of lo (cs ! k)) \<and>
        symbol_at t (symb_indexes t ! (2 * k + 1)) (up (cs ! k)) \<and>
        (lower_of lo (cs ! k), ns ! k) \<in> set (symb_table t))"

lemma symbol_at_append:
  "symbol_at t i x \<Longrightarrow> symbs t' = symbs t @ y \<Longrightarrow> symbol_at t' i x"
  by (auto simp: symbol_at_def)

lemma get_char_index_table:
  assumes "get_char_index lo up s t = (n, len, t1)" and "table_ok t"
  shows "table_ok t1" and "(lower_of lo (take len s), n) \<in> set (symb_table t1)"
    and "set (symb_table t) \<subseteq> set (symb_table t1)"
proof -
  define l where "l = lower_of lo (take (utf8_char_size (hd s)) s)"
  have len: "len = utf8_char_size (hd s)"
    using assms(1) length_get_char_index [of lo up s t] by simp
  have "table_ok t1 \<and> (l, n) \<in> set (symb_table t1) \<and> set (symb_table t) \<subseteq> set (symb_table t1)"
  proof (cases "find (\<lambda>e. fst e = l) (symb_table t)")
    case None
    have n: "n = last_symb_id t + 1" "symb_table t1 = symb_table t @ [(l, n)]" "last_symb_id t1 = n"
      using assms(1) None by (auto simp: get_char_index_def Let_def l_def)
    have "l \<notin> fst ` set (symb_table t)"
      using None by (auto simp: find_None_iff)
    moreover have "n \<notin> snd ` set (symb_table t)"
      using assms(2) n(1) by (auto simp: table_ok_def)
    ultimately show ?thesis
      using assms(2) n by (auto simp: table_ok_def)
  next
    case (Some e)
    have n: "n = snd e" "symb_table t1 = symb_table t" "last_symb_id t1 = last_symb_id t"
      using assms(1) Some by (auto simp: get_char_index_def Let_def l_def)
    have "e \<in> set (symb_table t)" "fst e = l"
      using Some by (auto simp: find_Some_iff)
    then have "(l, n) \<in> set (symb_table t)" using n(1) by (metis prod.collapse)
    then show ?thesis using assms(2) n(2,3) by (simp add: table_ok_def)
  qed
  then show "table_ok t1" "(lower_of lo (take len s), n) \<in> set (symb_table t1)"
    "set (symb_table t) \<subseteq> set (symb_table t1)"
    by (simp_all add: l_def len)
qed

lemma get_char_index_symbols:
  assumes "get_char_index lo up s t = (n, len, t1)"
  shows "symb_indexes t1 = symb_indexes t @ [length (symbs t), length (symbs t @ lower_of lo (take len s))]"
    and "symbs t1 = symbs t @ lower_of lo (take len s) @ up (take len s)"
  using assms by (auto simp: get_char_index_def Let_def split: option.splits)

lemma nth_two_more:
  "length xs = 2 * n \<Longrightarrow> (xs @ [a, b]) ! (2 * n) = a \<and> (xs @ [a, b]) ! (2 * n + 1) = b"
  by (simp add: nth_append)

lemma coded_step:
  assumes c: "coded lo up t cs ns" and g: "get_char_index lo up s t = (n, len, t1)"
  shows "coded lo up t1 (cs @ [take len s]) (ns @ [n])"
proof -
  have len: "length ns = length cs" "length (symb_indexes t) = 2 * length cs" and ok: "table_ok t"
    using c by (auto simp: coded_def)
  note sy = get_char_index_symbols [OF g] and tb = get_char_index_table [OF g ok]
  let ?c = "take len s"
  have new: "symbol_at t1 (length (symbs t)) (lower_of lo ?c)"
    "symbol_at t1 (length (symbs t @ lower_of lo ?c)) (up ?c)"
    by (auto simp: symbol_at_def sy(2))
  have last: "symb_indexes t1 ! (2 * length cs) = length (symbs t)"
    "symb_indexes t1 ! (2 * length cs + 1) = length (symbs t @ lower_of lo ?c)"
    using nth_two_more [OF len(2)] sy(1) by simp_all
  have "symbol_at t1 (symb_indexes t1 ! (2 * k)) (lower_of lo ((cs @ [?c]) ! k)) \<and>
      symbol_at t1 (symb_indexes t1 ! (2 * k + 1)) (up ((cs @ [?c]) ! k)) \<and>
      (lower_of lo ((cs @ [?c]) ! k), (ns @ [n]) ! k) \<in> set (symb_table t1)"
    if "k < Suc (length cs)" for k
  proof (cases "k < length cs")
    case True
    then have "symb_indexes t1 ! (2 * k) = symb_indexes t ! (2 * k)"
      "symb_indexes t1 ! (2 * k + 1) = symb_indexes t ! (2 * k + 1)"
      using len(2) by (simp_all add: sy(1) nth_append)
    then show ?thesis
      using True c len(1) tb(3) symbol_at_append [OF _ sy(2)]
      by (auto simp: coded_def nth_append)
  next
    case False
    then have "k = length cs" using that by simp
    then show ?thesis using new last tb(2) len(1) by (simp add: nth_append)
  qed
  then show ?thesis
    using len tb(1) by (simp add: coded_def sy(1))
qed

lemma convert_from_coded:
  "coded lo up t cs ns \<Longrightarrow>
     coded lo up (snd (convert_from lo up s i t)) (cs @ chars_from (s @ [0]) (length s) i)
       (ns @ fst (convert_from lo up s i t))"
proof (induction lo up s i t arbitrary: cs ns rule: convert_from.induct)
  case (1 lo up s i t)
  show ?case
  proof (cases "i < length s")
    case False
    then show ?thesis
      using 1(2) by (simp add: convert_from.simps [of lo up s i t] chars_from.simps)
  next
    case True
    obtain n len t1 where g: "get_char_index lo up (c_str s i) t = (n, len, t1)"
      by (metis prod_cases3)
    have len: "len = utf8_char_size ((s @ [0]) ! i)"
      using g length_get_char_index [of lo up "c_str s i" t] True
      by (simp add: c_str_def hd_drop_conv_nth nth_append)
    have chars: "chars_from (s @ [0]) (length s) i =
        take len (c_str s i) # chars_from (s @ [0]) (length s) (i + len)"
      using True by (simp add: chars_from.simps [of "s @ [0]" "length s" i] len c_str_def)
    have "coded lo up (snd (convert_from lo up s (i + len) t1))
        ((cs @ [take len (c_str s i)]) @ chars_from (s @ [0]) (length s) (i + len))
        ((ns @ [n]) @ fst (convert_from lo up s (i + len) t1))"
      by (rule 1(1) [OF True refl g [symmetric] refl coded_step [OF 1(2) g]])
    then show ?thesis
      using True g by (simp add: convert_from.simps [of lo up s i t] chars split_beta)
  qed
qed

text \<open>The characters of a term, and a text character against one of them.\<close>

definition term_chars :: "str \<Rightarrow> str list" where
  "term_chars s = chars_from (s @ [0]) (length s) 0"

definition folds :: "(str \<Rightarrow> str) \<Rightarrow> (str \<Rightarrow> str) \<Rightarrow> str \<Rightarrow> str \<Rightarrow> bool" where
  "folds lo up a c \<longleftrightarrow> c = lower_of lo a \<or> c = up a"

text \<open>
  What the search relies on of the platform's case conversion: each form of a character of the
  term is one UTF-8 character, and characters of the term that share a form share both.
\<close>

definition case_conversion_ok :: "(str \<Rightarrow> str) \<Rightarrow> (str \<Rightarrow> str) \<Rightarrow> str \<Rightarrow> bool" where
  "case_conversion_ok lo up s \<longleftrightarrow>
     (\<forall>a \<in> set (term_chars s). char_ok (lower_of lo a) \<and> char_ok (up a)) \<and>
     (\<forall>a \<in> set (term_chars s). \<forall>b \<in> set (term_chars s).
        {lower_of lo a, up a} \<inter> {lower_of lo b, up b} \<noteq> {} \<or> lower_of lo a = lower_of lo b \<longrightarrow>
        lower_of lo a = lower_of lo b \<and> up a = up b)"

lemma code_term_coded:
  assumes "code_term lo up s = Some t"
  shows "coded lo up t (term_chars s) (coded_string t)"
    and "prefix_ok (coded_string t) (prefix t) (length (coded_string t))"
proof -
  define t0 where "t0 = \<lparr>lower_term = lo s, symb_table = [], symbs = [], coded_string = [], prefix = [],
    symb_indexes = [], last_symb_id = 0\<rparr>"
  obtain ns t1 where c: "convert_from lo up s 0 t0 = (ns, t1)" by fastforce
  obtain pre where pre: "build_prefix ns = Some pre" "prefix_ok ns pre (length ns)"
    using build_prefix_ok by blast
  have t: "t = t1\<lparr>coded_string := ns, prefix := pre\<rparr>"
    using assms c pre(1) by (simp add: code_term_def convert_string_to_vector_def t0_def)
  have "coded lo up t0 [] []"
    by (simp add: coded_def t0_def table_ok_def)
  then have "coded lo up t1 (term_chars s) ns"
    using convert_from_coded [of lo up t0 "[]" "[]" s 0] c by (simp add: term_chars_def)
  then show "coded lo up t (term_chars s) (coded_string t)"
    by (simp add: t coded_def table_ok_def symbol_at_def)
  show "prefix_ok (coded_string t) (prefix t) (length (coded_string t))"
    using pre(2) by (simp add: t)
qed

lemma take_symbol:
  assumes "symbol_at t i x" and "char_ok x" and "char_ok c"
  shows "take (length c) (c_str (symbs t) i) = c \<longleftrightarrow> c = x"
proof -
  obtain r where r: "c_str (symbs t) i = x @ r"
    using assms(1) by (auto simp: symbol_at_def c_str_def)
  show ?thesis
  proof
    assume a: "take (length c) (c_str (symbs t) i) = c"
    have "hd c = hd x" using a assms(2,3) by (cases c; cases x) (auto simp: r char_ok_def)
    then have "length c = length x" using assms(2,3) by (simp add: char_ok_def)
    then show "c = x" using a r by simp
  qed (simp add: r)
qed

lemma term_chars_neq_Nil: "s \<noteq> [] \<Longrightarrow> term_chars s \<noteq> []"
  by (simp add: term_chars_def chars_from.simps)

lemma table_codes:
  assumes "table_ok t" and "(a, n) \<in> set (symb_table t)" and "(b, m) \<in> set (symb_table t)"
  shows "n = m \<longleftrightarrow> a = b"
proof -
  have i: "inj_on fst (set (symb_table t))" "inj_on snd (set (symb_table t))"
    using assms(1) by (auto simp: table_ok_def distinct_map)
  show ?thesis
    using inj_onD [OF i(1) _ assms(2,3)] inj_onD [OF i(2) _ assms(2,3)] by auto
qed

lemma code_term_ok:
  assumes t: "code_term lo up s = Some t" and cc: "case_conversion_ok lo up s" and s: "s \<noteq> []"
  shows "term_ok t"
    and "length (coded_string t) = length (term_chars s)"
    and "k < length (term_chars s) \<Longrightarrow> char_ok c \<Longrightarrow> sym t k c \<longleftrightarrow> folds lo up (term_chars s ! k) c"
proof -
  note c = code_term_coded [OF t]
  show len: "length (coded_string t) = length (term_chars s)"
    using c(1) by (simp add: coded_def)
  have at: "symbol_at t (symb_indexes t ! (2 * k)) (lower_of lo (term_chars s ! k))"
    "symbol_at t (symb_indexes t ! (2 * k + 1)) (up (term_chars s ! k))"
    "(lower_of lo (term_chars s ! k), coded_string t ! k) \<in> set (symb_table t)"
    if "k < length (term_chars s)" for k
    using c(1) that by (auto simp: coded_def)
  have sym: "sym t k c \<longleftrightarrow> char_ok c \<and> folds lo up (term_chars s ! k) c"
    if "k < length (term_chars s)" for k c
    using take_symbol [OF at(1) [OF that], of c] take_symbol [OF at(2) [OF that], of c] cc that
    by (auto simp: sym_def folds_def case_conversion_ok_def)
  then show "k < length (term_chars s) \<Longrightarrow> char_ok c \<Longrightarrow> sym t k c \<longleftrightarrow> folds lo up (term_chars s ! k) c"
    by blast
  have code: "coded_string t ! k = coded_string t ! l \<longleftrightarrow>
      lower_of lo (term_chars s ! k) = lower_of lo (term_chars s ! l)"
    if "k < length (term_chars s)" "l < length (term_chars s)" for k l
  proof -
    have "table_ok t" using c(1) by (simp add: coded_def)
    then show ?thesis
      using table_codes at(3) [OF that(1)] at(3) [OF that(2)] by blast
  qed
  have "coherent (sym t) (coded_string t)"
    unfolding coherent_def
  proof (intro allI impI conjI)
    fix k l x
    assume k: "k < length (coded_string t)" and l: "l < length (coded_string t)" and m: "sym t k x"
    have mem: "term_chars s ! k \<in> set (term_chars s)" "term_chars s ! l \<in> set (term_chars s)"
      using k l len by simp_all
    have fk: "char_ok x" "folds lo up (term_chars s ! k) x"
      using m k len sym [of k x] by simp_all
    have shared: "{lower_of lo (term_chars s ! k), up (term_chars s ! k)} \<inter>
        {lower_of lo (term_chars s ! l), up (term_chars s ! l)} \<noteq> {} \<or>
        lower_of lo (term_chars s ! k) = lower_of lo (term_chars s ! l) \<Longrightarrow>
        lower_of lo (term_chars s ! k) = lower_of lo (term_chars s ! l) \<and>
        up (term_chars s ! k) = up (term_chars s ! l)"
      using cc mem unfolding case_conversion_ok_def by blast
    show "coded_string t ! k = coded_string t ! l" if "sym t l x"
    proof -
      have "folds lo up (term_chars s ! l) x" using that l len sym [of l x] by simp
      then have "lower_of lo (term_chars s ! k) = lower_of lo (term_chars s ! l)"
        using shared fk(2) unfolding folds_def by blast
      then show ?thesis using code [of k l] k l len by simp
    qed
    show "sym t l x" if "coded_string t ! k = coded_string t ! l"
    proof -
      have "lower_of lo (term_chars s ! k) = lower_of lo (term_chars s ! l)"
        using that code [of k l] k l len by simp
      then have "lower_of lo (term_chars s ! k) = lower_of lo (term_chars s ! l) \<and>
          up (term_chars s ! k) = up (term_chars s ! l)"
        by (intro shared disjI2)
      then have "folds lo up (term_chars s ! l) x"
        using fk(2) unfolding folds_def by metis
      then show ?thesis using sym [of l x] fk(1) l len by simp
    qed
  qed
  moreover have "symbols_in_range t"
    using at len by (auto simp: symbols_in_range_def symbol_at_def)
  ultimately show "term_ok t"
    using c(2) len term_chars_neq_Nil [OF s] by (auto simp: term_ok_def)
qed

lemma chars_from_ok:
  "chars_inside buf sz i \<Longrightarrow> c \<in> set (chars_from buf sz i) \<Longrightarrow> char_ok c"
proof (induction buf sz i rule: chars_from.induct)
  case (1 buf sz i)
  show ?case
  proof (cases "i < sz")
    case False
    then show ?thesis using 1(3) by (simp add: chars_from.simps [of buf sz i])
  next
    case True
    let ?len = "utf8_char_size (buf ! i)"
    have fit: "i + ?len \<le> length buf" "chars_inside buf sz (i + ?len)"
      using 1(2) True by (simp_all add: chars_inside.simps [of buf sz i])
    have "0 < ?len" by simp
    then have "i < length buf" using fit(1) by linarith
    then have "hd (take ?len (drop i buf)) = buf ! i"
      using \<open>0 < ?len\<close> hd_drop_conv_nth [of i buf] by simp
    then have "char_ok (take ?len (drop i buf))"
      using fit(1) \<open>i < length buf\<close> by (simp add: char_ok_def)
    then show ?thesis
      using 1(1) [OF True fit(2)] 1(3) True by (auto simp: chars_from.simps [of buf sz i])
  qed
qed

text \<open>The matcher finds the term exactly when its characters occur, each in one of its forms.\<close>

lemma kmp_strstr_finds:
  assumes t: "code_term lo up s = Some t" and cc: "case_conversion_ok lo up s" and s: "s \<noteq> []"
    and inside: "chars_inside buf sz 0"
  shows "\<exists>r. kmp_strstr t (Some buf) sz = Some r \<and>
    (r \<noteq> -1 \<longleftrightarrow> occurs (\<lambda>k. folds lo up (term_chars s ! k)) (length (term_chars s)) (chars_from buf sz 0))"
proof -
  note ok = code_term_ok [OF t cc s]
  let ?n = "length (term_chars s)" and ?cs = "chars_from buf sz 0"
  have n: "0 < ?n" using term_chars_neq_Nil [OF s] by simp
  have "\<exists>r. kmp_from t buf sz 0 0 = Some r \<and> -1 \<le> r \<and>
      (r \<noteq> -1 \<longleftrightarrow> (\<exists>q \<le> length ?cs. ends_with (sym t) ([] @ take q ?cs) ?n))"
    by (rule kmp_from_finds [OF ok(1) ok(2) [symmetric]]) (use n inside in auto)
  then obtain r where r: "kmp_from t buf sz 0 0 = Some r"
    "r \<noteq> -1 \<longleftrightarrow> occurs (sym t) ?n ?cs" by (auto simp: occurs_ends_with)
  have "occurs (sym t) ?n ?cs \<longleftrightarrow> occurs (\<lambda>k. folds lo up (term_chars s ! k)) ?n ?cs"
    using ok(3) chars_from_ok [OF inside]
    by (auto simp: occurs_def)
  then show ?thesis using r by (simp add: kmp_strstr_def)
qed

lemma code_term_total: "\<exists>t. code_term lo up s = Some t"
proof -
  obtain ns t1 where c: "convert_string_to_vector lo up s \<lparr>lower_term = lo s, symb_table = [],
      symbs = [], coded_string = [], prefix = [], symb_indexes = [], last_symb_id = 0\<rparr> = (ns, t1)"
    by fastforce
  obtain pre where "build_prefix ns = Some pre" using build_prefix_ok by blast
  then show ?thesis by (simp add: code_term_def c)
qed

end
