(* ===== verification/Archive_Search.thy ===== *)
theory Archive_Search
  imports Messages_Data Search_Term
begin

section \<open>Searching the data files: messages_data.cpp (search_in_archive, get_history_archive)\<close>

text \<open>
  A batch of data files is loaded into one buffer and searched block by block for messages
  whose text contains a term. A release build is modelled (no search by identifier). The
  positions of the batch are the start of each contact's part, with one entry past the last;
  the offsets tell where the next batch of each contact starts.
\<close>

definition limit_search_results :: nat where
  "limit_search_results = 100"

subsection \<open>Loading a part of a file\<close>

record load_state =
  ls_offset :: int
  ls_remaining :: int
  ls_cur_index :: int
  ls_mode :: int

definition load_limit :: int where
  "load_limit = 1024 * 1024 * 10"

definition get_history_archive ::
    "bytes option \<Rightarrow> binary_stream \<Rightarrow> load_state \<Rightarrow> bool \<times> binary_stream \<times> load_state" where
  "get_history_archive file buf ls =
     (let init_size = (case file of None \<Rightarrow> -1 | Some f \<Rightarrow> int (length f));
          size = min (ls_remaining ls) (init_size - ls_offset ls)
      in if size \<le> 0 \<or> init_size = -1 then (False, buf, ls\<lparr>ls_offset := -1\<rparr>)
         else
           let ls1 = (if ls_mode ls = 0 then
                        (if init_size > load_limit \<and> ls_offset ls + load_limit < init_size
                         then ls\<lparr>ls_offset := init_size - load_limit\<rparr>
                         else ls\<lparr>ls_mode := 1\<rparr>)
                      else ls);
               d = (if ls_offset ls1 < 0 then []
                    else take (nat size) (drop (nat (ls_offset ls1)) (the file)));
               buf1 = put_at (nat (ls_cur_index ls1)) d buf
           in if int (length d) < size then (False, buf1, ls1)
              else
                let ls2 = ls1\<lparr>ls_remaining := ls_remaining ls1 - size, ls_cur_index := ls_cur_index ls1 + size\<rparr>
                in (True, buf1,
                    if size = init_size - ls_offset ls2 then ls2\<lparr>ls_offset := -1\<rparr> else ls2))"

subsection \<open>The search\<close>

type_synonym found_messages = "str \<Rightarrow> history_message list option"

record search_state =
  top_ids :: "int list"
  found :: found_messages

text \<open>The set of the largest identifiers, in decreasing order.\<close>

fun top_insert :: "int \<Rightarrow> int list \<Rightarrow> int list" where
  "top_insert x [] = [x]"
| "top_insert x (y # ys) = (if y < x then x # y # ys else if y = x then y # ys else y # top_insert x ys)"

text \<open>Room for an identifier: \<open>None\<close> when it is not among the largest.\<close>

definition admit :: "int \<Rightarrow> int list \<Rightarrow> int list option" where
  "admit i ids =
     (if length ids > limit_search_results then
        (if \<exists>x \<in> set ids. x < i then Some (top_insert i (removeAll (last ids) ids)) else None)
      else Some ids)"

fun replace_message :: "int \<Rightarrow> history_message \<Rightarrow> history_message list \<Rightarrow> history_message list" where
  "replace_message i m [] = [m]"
| "replace_message i m (x # xs) =
     (if sint (hm_msgid x) = i then m # xs else x # replace_message i m xs)"

fun erase_message :: "int \<Rightarrow> history_message list \<Rightarrow> history_message list" where
  "erase_message i [] = []"
| "erase_message i (x # xs) = (if sint (hm_msgid x) = i then xs else x # erase_message i xs)"

definition add_found :: "str \<Rightarrow> int \<Rightarrow> history_message \<Rightarrow> found_messages \<Rightarrow> found_messages" where
  "add_found contact i m fm =
     fm(contact \<mapsto> replace_message i m (case fm contact of None \<Rightarrow> [] | Some ms \<Rightarrow> ms))"

definition drop_found :: "str \<Rightarrow> int \<Rightarrow> found_messages \<Rightarrow> found_messages" where
  "drop_found contact i fm =
     (case fm contact of None \<Rightarrow> fm | Some ms \<Rightarrow> fm(contact \<mapsto> erase_message i ms))"

text \<open>
  One block, whose bytes are between the cursors of the stream; \<open>None\<close> where the code would not
  return or would dereference a null pointer.
\<close>

definition search_block ::
    "coded_term \<Rightarrow> int \<Rightarrow> str \<Rightarrow> nat \<Rightarrow> binary_stream \<Rightarrow> search_state \<Rightarrow>
       (binary_stream \<times> search_state) option" where
  "search_block ct min_id contact begin_pos data0 ss =
     (let (wid, data1) = get_id_field (set_output data0 begin_pos); mess_id = sint wid
      in if mess_id = -1 \<or> mess_id \<le> min_id then Some (data1, ss)
         else case admit mess_id (top_ids ss) of
           None \<Rightarrow> Some (data1, ss)
         | Some ids \<Rightarrow>
             let ss1 = ss\<lparr>top_ids := ids\<rparr>;
                 (sticker, data2) = stream_is_sticker (set_output data1 begin_pos)
             in if sticker then Some (data2, ss1)
                else
                  let (text_length, data3) = jump_to_text_field (set_output data2 begin_pos) 0
                  in if text_length = 0 then Some (data3, ss1)
                     else
                       let (pointer, data4) = (if available data3 \<noteq> 0 then read_available data3
                                               else (None, data3))
                       in case kmp_strstr ct pointer (unat text_length) of
                            None \<Rightarrow> None
                          | Some r \<Rightarrow>
                              if r \<noteq> -1 then
                                (case message_unserialize history_message_new (set_output data4 begin_pos) of
                                   (None, data5) \<Rightarrow> None
                                 | (Some (rc, m), data5) \<Rightarrow>
                                     Some (data5,
                                       if rc = 0
                                       then ss1\<lparr>top_ids := top_insert mess_id (top_ids ss1),
                                                found := add_found contact mess_id m (found ss1)\<rparr>
                                       else ss1))
                              else Some (data4, ss1\<lparr>found := drop_found contact mess_id (found ss1)\<rparr>))"

lemma fast_scan_bounds:
  "fast_scan s p e = (Some (q, sz), p') \<Longrightarrow> p \<le> p' \<and> p' = q \<and> p' + 16 + sz \<le> e"
proof (induction s p e rule: fast_scan.induct)
  case (1 s p e)
  note IH = 1(1) [OF _ refl refl] 1(2) [OF _ refl refl _ _ refl refl]
  show ?case
    using 1(3) IH
    by (subst (asm) fast_scan.simps [of s p e])
      (auto simp: Let_def split: if_splits dest: Suc_leD)
qed

lemma fast_read_progress:
  "fast_read_data_block s p b e = (True, s', p', b') \<Longrightarrow> p < p' \<and> p' \<le> e"
  by (auto simp: fast_read_data_block_def Let_def dest!: fast_scan_bounds split: if_splits option.splits prod.splits)

function search_contact ::
    "coded_term \<Rightarrow> int \<Rightarrow> str \<Rightarrow> binary_stream \<Rightarrow> nat \<Rightarrow> nat \<Rightarrow> nat \<Rightarrow> search_state \<Rightarrow>
       (binary_stream \<times> nat \<times> search_state) option" where
  "search_contact ct min_id contact data pos begin_pos end_pos ss =
     (case fast_read_data_block data pos begin_pos end_pos of
        (False, data1, pos1, begin1) \<Rightarrow> Some (data1, pos1, ss)
      | (True, data1, pos1, begin1) \<Rightarrow>
          (case search_block ct min_id contact begin1 data1 ss of
             None \<Rightarrow> None
           | Some (data2, ss1) \<Rightarrow>
               search_contact ct min_id contact data2 pos1 begin1 end_pos ss1))"
  by pat_completeness auto
termination
  by (relation "measure (\<lambda>(ct, min_id, contact, data, pos, b, e, ss). e - pos)")
    (auto dest!: fast_read_progress [OF sym])

declare search_contact.simps [simp del]

text \<open>
  The contacts of the batch with the start of their parts, the next one's start after them;
  the offsets are those of the same contacts.
\<close>

fun search_contacts ::
    "coded_term \<Rightarrow> int \<Rightarrow> (str \<times> nat) list \<Rightarrow> int list \<Rightarrow> binary_stream \<Rightarrow> search_state \<Rightarrow>
       (int list \<times> binary_stream \<times> search_state) option" where
  "search_contacts ct min_id ((contact, start) # (contact', stop) # rest) (off # offs) data ss =
     (case search_contact ct min_id contact data start 0 stop ss of
        None \<Rightarrow> None
      | Some (data1, pos, ss1) \<Rightarrow>
          let off1 = (if pos = start \<and> contact \<noteq> [] then -1 else off);
              off2 = (if off1 \<noteq> -1 then off1 + (int pos - int start) else off1)
          in (case search_contacts ct min_id ((contact', stop) # rest) offs data1 ss1 of
                None \<Rightarrow> None
              | Some (offs', data2, ss2) \<Rightarrow> Some (off2 # offs', data2, ss2)))"
| "search_contacts ct min_id _ offs data ss = Some (offs, data, ss)"

definition search_in_archive ::
    "int list \<Rightarrow> coded_term \<Rightarrow> (str \<times> nat) list \<Rightarrow> binary_stream \<Rightarrow> found_messages \<Rightarrow> int \<Rightarrow>
       (int list \<times> binary_stream \<times> found_messages) option" where
  "search_in_archive offsets ct archive data fm min_id =
     (if archive = [] \<or> length offsets < length archive - 1 then None
      else map_option (\<lambda>(offs, data1, ss). (offs, data1, found ss))
        (search_contacts ct min_id archive offsets data \<lparr>top_ids = [], found = fm\<rparr>))"

end
