(* ===== verification/Search_Properties.thy ===== *)
theory Search_Properties
  imports Archive_Search Samples
begin

section \<open>Searching the history\<close>

text \<open>
  The Knuth-Morris-Pratt matcher on UTF-8 characters against the plain notion of occurrence, the
  failure function it is built on, and the termination of both.
\<close>

text \<open>C22: The prefix table that is built for a term is its failure function: the entry of every position is
  the length of the longest proper border of the term up to there; and the construction always
  ends.\<close>

theorem prefix_table_is_failure_function:
  "\<exists>pre. build_prefix t = Some pre \<and> length pre = length t \<and>
     (\<forall>i < length t. pre ! i < i + 1 \<and> border t (i + 1) (pre ! i) \<and>
       (\<forall>l < i + 1. border t (i + 1) l \<longrightarrow> l \<le> pre ! i))"
proof -
  obtain pre where "build_prefix t = Some pre" "prefix_ok t pre (length t)"
    using build_prefix_ok by blast
  then have "length pre = length t" "\<forall>i < length t. is_prefix t (i + 1) (pre ! i)"
  proof -
    show "length pre = length t" using \<open>prefix_ok t pre (length t)\<close> by (simp add: prefix_ok_def)
    have "is_prefix t (i + 1) (pre ! (i + 1 - 1))" if "i < length t" for i
      using \<open>prefix_ok t pre (length t)\<close> that unfolding prefix_ok_def by (metis Suc_eq_plus1 Suc_leI zero_less_Suc)
    then show "\<forall>i < length t. is_prefix t (i + 1) (pre ! i)" by simp
  qed
  then show ?thesis
    using \<open>build_prefix t = Some pre\<close> by (auto simp: is_prefix_def)
qed

theorem prefix_table_is_failure_function_witness:
  "\<exists>pre. build_prefix [1, 2, 1, 2::int] = Some pre \<and> length pre = 4"
  using prefix_table_is_failure_function [of "[1, 2, 1, 2::int]"] by (auto simp del: One_nat_def)

text \<open>C16: The matcher of a term always ends, and reports a match in a text exactly when the characters of
  the term, each in its lower or its upper case form, occur as consecutive characters of the text;
  the text is UTF-8 and the platform's case conversion keeps characters apart.\<close>

theorem matcher_finds_occurrences:
  assumes "code_term lo up s = Some t" and "case_conversion_ok lo up s" and "s \<noteq> []"
    and "chars_inside buf sz 0"
  shows "\<exists>r. kmp_strstr t (Some buf) sz = Some r \<and>
    (r \<noteq> -1 \<longleftrightarrow> (\<exists>p. p + length (term_chars s) \<le> length (chars_from buf sz 0) \<and>
      (\<forall>k < length (term_chars s). chars_from buf sz 0 ! (p + k) \<in>
         {lower_of lo (term_chars s ! k), up (term_chars s ! k)})))"
  using kmp_strstr_finds [OF assms] by (simp add: occurs_def folds_def)

lemma chars_from_step:
  "chars_from buf sz i = (if i < sz then take (utf8_char_size (buf ! i)) (drop i buf) #
     chars_from buf sz (i + utf8_char_size (buf ! i)) else [])"
  by (rule chars_from.simps)

theorem matcher_finds_occurrences_witness:
  "\<exists>t r. code_term (\<lambda>c. c) (\<lambda>c. c) [97, 98] = Some t \<and>
     kmp_strstr t (Some [120, 97, 98, 120]) 3 = Some r \<and> r \<noteq> -1"
proof -
  obtain t where t: "code_term (\<lambda>c. c) (\<lambda>c. c) [97, 98] = Some t" using code_term_total by blast
  have size: "utf8_char_size 97 = 1" "utf8_char_size 98 = 1" "utf8_char_size 120 = 1"
    by (simp_all add: utf8_char_size_def)
  have chars: "term_chars [97, 98] = [[97], [98]]"
    by (simp add: term_chars_def chars_from_step size)
  have text_chars: "chars_from [120, 97, 98, 120] 3 0 = [[120], [97], [98]]"
    by (simp add: chars_from_step size numeral_3_eq_3)
  have lower: "lower_of (\<lambda>c. c) c = c" for c by (simp add: lower_of_def)
  have "case_conversion_ok (\<lambda>c. c) (\<lambda>c. c) [97, 98]"
    by (simp add: case_conversion_ok_def chars lower char_ok_def size)
  moreover have "chars_inside [120, 97, 98, 120] 3 0"
    by (simp add: chars_inside.simps size numeral_3_eq_3)
  ultimately obtain r where r: "kmp_strstr t (Some [120, 97, 98, 120]) 3 = Some r"
    "r \<noteq> -1 \<longleftrightarrow> (\<exists>p. p + length [[97], [98::byte]] \<le> length [[120], [97], [98::byte]] \<and>
      (\<forall>k < length [[97], [98::byte]]. [[120], [97], [98]] ! (p + k) \<in>
        {lower_of (\<lambda>c. c) ([[97], [98]] ! k), [[97], [98::byte]] ! k}))"
    using matcher_finds_occurrences [OF t, of "[120, 97, 98, 120]" 3] unfolding chars text_chars by blast
  have "1 + length [[97], [98::byte]] \<le> length [[120], [97], [98::byte]] \<and>
      (\<forall>k < length [[97], [98::byte]]. [[120], [97], [98]] ! (1 + k) \<in>
        {lower_of (\<lambda>c. c) ([[97], [98]] ! k), [[97], [98::byte]] ! k})"
    by (simp add: less_Suc_eq numeral_2_eq_2)
  then have "r \<noteq> -1" using r(2) by blast
  with t r(1) show ?thesis by blast
qed

end
