(* ===== verification/Dlg_State.thy ===== *)
theory Dlg_State
  imports Messages_Data
begin

section \<open>The state of a dialog: core/archive/dlg_state\<close>

text \<open>
  A dialog keeps its last message, read positions, deletion mark and flags. \<open>archive_state\<close>
  caches the state and keeps it in a block file of its own; a state from the server is merged
  into it. The clock of a merge is an argument. Loading is \<open>None\<close> where the code would
  dereference a null pointer.
\<close>

subsection \<open>State\<close>

type_synonym dlg_state_head = "str \<times> str"

record dlg_state =
  ds_unread_count :: "u32w option"
  ds_unread_mentions_count :: "i32w option"
  ds_info_version :: "str option"
  ds_last_read_mention :: i64w
  ds_last_msgid :: i64w
  ds_yours_last_read :: i64w
  ds_del_up_to :: i64w
  ds_theirs_last_read :: i64w
  ds_theirs_last_delivered :: i64w
  ds_hidden_msg_id :: i64w
  ds_visible :: bool
  ds_fake :: bool
  ds_official :: bool
  ds_suspicious :: bool
  ds_attention :: bool
  ds_stranger :: bool
  ds_last_message :: history_message
  ds_pinned_message :: history_message
  ds_friendly :: str
  ds_history_patch_version :: patch_version
  ds_patch_version :: str
  ds_heads :: "dlg_state_head list"

definition df_unreads_count :: u32w where "df_unreads_count = 1"
definition df_last_msg_id :: u32w where "df_last_msg_id = 2"
definition df_yours_last_read :: u32w where "df_yours_last_read = 3"
definition df_theirs_last_read :: u32w where "df_theirs_last_read = 4"
definition df_theirs_last_delivered :: u32w where "df_theirs_last_delivered = 5"
definition df_last_message :: u32w where "df_last_message = 7"
definition df_visible :: u32w where "df_visible = 8"
definition df_patch_version :: u32w where "df_patch_version = 10"
definition df_del_up_to :: u32w where "df_del_up_to = 11"
definition df_friendly :: u32w where "df_friendly = 12"
definition df_official :: u32w where "df_official = 13"
definition df_fake :: u32w where "df_fake = 14"
definition df_hidden_msg_id :: u32w where "df_hidden_msg_id = 15"
definition df_unread_mentions_count :: u32w where "df_unread_mentions_count = 16"
definition df_pinned_message :: u32w where "df_pinned_message = 17"
definition df_attention :: u32w where "df_attention = 18"
definition df_suspicious :: u32w where "df_suspicious = 19"
definition df_heads :: u32w where "df_heads = 20"
definition df_head_aimid :: u32w where "df_head_aimid = 21"
definition df_head_friendly :: u32w where "df_head_friendly = 22"
definition df_last_read_mention :: u32w where "df_last_read_mention = 23"
definition df_stranger :: u32w where "df_stranger = 24"
definition df_info_version :: u32w where "df_info_version = 25"

lemmas df_defs = df_unreads_count_def df_last_msg_id_def df_yours_last_read_def
  df_theirs_last_read_def df_theirs_last_delivered_def df_last_message_def df_visible_def
  df_patch_version_def df_del_up_to_def df_friendly_def df_official_def df_fake_def
  df_hidden_msg_id_def df_unread_mentions_count_def df_pinned_message_def df_attention_def
  df_suspicious_def df_heads_def df_head_aimid_def df_head_friendly_def df_last_read_mention_def
  df_stranger_def df_info_version_def

definition dlg_state_new :: dlg_state where
  "dlg_state_new = \<lparr>ds_unread_count = Some 0, ds_unread_mentions_count = Some 0,
     ds_info_version = None, ds_last_read_mention = -1, ds_last_msgid = -1,
     ds_yours_last_read = -1, ds_del_up_to = -1, ds_theirs_last_read = -1,
     ds_theirs_last_delivered = -1, ds_hidden_msg_id = -1, ds_visible = True, ds_fake = False,
     ds_official = False, ds_suspicious = False, ds_attention = False, ds_stranger = False,
     ds_last_message = history_message_new, ds_pinned_message = history_message_new,
     ds_friendly = [], ds_history_patch_version = patch_version_new, ds_patch_version = [],
     ds_heads = []\<rparr>"

definition get_unread_count :: "dlg_state \<Rightarrow> u32w" where
  "get_unread_count s = (case ds_unread_count s of Some n \<Rightarrow> n | None \<Rightarrow> 0)"

definition get_unread_mentions_count :: "dlg_state \<Rightarrow> i32w" where
  "get_unread_mentions_count s = (case ds_unread_mentions_count s of Some n \<Rightarrow> n | None \<Rightarrow> 0)"

definition set_last_msgid :: "i64w \<Rightarrow> dlg_state \<Rightarrow> dlg_state" where
  "set_last_msgid v s = s\<lparr>ds_last_msgid := if sint v \<le> 0 then -1 else v\<rparr>"

definition has_last_msgid :: "dlg_state \<Rightarrow> bool" where
  "has_last_msgid s \<longleftrightarrow> sint (ds_last_msgid s) > 0"

definition clear_last_msgid :: "dlg_state \<Rightarrow> dlg_state" where
  "clear_last_msgid s = s\<lparr>ds_last_msgid := -1\<rparr>"

definition has_last_read_mention :: "dlg_state \<Rightarrow> bool" where
  "has_last_read_mention s \<longleftrightarrow> sint (ds_last_read_mention s) > 0"

definition clear_last_message :: "dlg_state \<Rightarrow> dlg_state" where
  "clear_last_message s = s\<lparr>ds_last_message := history_message_new\<rparr>"

definition has_pinned_message :: "dlg_state \<Rightarrow> bool" where
  "has_pinned_message s \<longleftrightarrow> has_msgid (ds_pinned_message s)"

definition has_history_patch_version :: "dlg_state \<Rightarrow> bool" where
  "has_history_patch_version s \<longleftrightarrow> \<not> pv_is_empty (ds_history_patch_version s)"

definition has_del_up_to :: "dlg_state \<Rightarrow> bool" where
  "has_del_up_to s \<longleftrightarrow> sint (ds_del_up_to s) > 0"

definition dlg_is_empty :: "dlg_state \<Rightarrow> bool" where
  "dlg_is_empty s \<longleftrightarrow> \<not> has_last_msgid s \<and> \<not> has_msgid (ds_last_message s)"

text \<open>The copy keeps the current patch version of the dialog too; only the last identifier goes
  through its setter.\<close>

definition dlg_copy_from :: "dlg_state \<Rightarrow> dlg_state \<Rightarrow> dlg_state" where
  "dlg_copy_from this s =
     set_last_msgid (ds_last_msgid s)
       (this\<lparr>ds_unread_count := ds_unread_count s,
         ds_unread_mentions_count := ds_unread_mentions_count s,
         ds_last_read_mention := ds_last_read_mention s,
         ds_yours_last_read := ds_yours_last_read s, ds_theirs_last_read := ds_theirs_last_read s,
         ds_theirs_last_delivered := ds_theirs_last_delivered s, ds_visible := ds_visible s,
         ds_fake := ds_fake s, ds_last_message := hm_copy (ds_last_message this) (ds_last_message s),
         ds_pinned_message := hm_copy (ds_pinned_message this) (ds_pinned_message s),
         ds_patch_version := ds_patch_version s,
         ds_history_patch_version := ds_history_patch_version s,
         ds_hidden_msg_id := ds_hidden_msg_id s, ds_del_up_to := ds_del_up_to s,
         ds_friendly := ds_friendly s, ds_official := ds_official s,
         ds_suspicious := ds_suspicious s, ds_attention := ds_attention s,
         ds_stranger := ds_stranger s, ds_heads := ds_heads s,
         ds_info_version := ds_info_version s\<rparr>)"

subsection \<open>The stored form\<close>

definition head_pack :: "dlg_state_head \<Rightarrow> tlvpack" where
  "head_pack h = push_child (push_child empty_pack (tlv_string df_head_aimid (fst h)))
     (tlv_string df_head_friendly (snd h))"

definition dlg_push_fields :: "dlg_state \<Rightarrow> tlvpack \<Rightarrow> tlvpack" where
  "dlg_push_fields s p0 =
     (let p1 = fold (\<lambda>t p. push_child p t)
           [tlv_scalar df_unreads_count (mem_of 4 (get_unread_count s)),
            tlv_scalar df_last_msg_id (mem_of 8 (ds_last_msgid s)),
            tlv_scalar df_yours_last_read (mem_of 8 (ds_yours_last_read s)),
            tlv_scalar df_theirs_last_read (mem_of 8 (ds_theirs_last_read s)),
            tlv_scalar df_theirs_last_delivered (mem_of 8 (ds_theirs_last_delivered s)),
            tlv_scalar df_visible (mem_of_bool (ds_visible s)),
            tlv_string df_friendly (ds_friendly s),
            tlv_scalar df_official (mem_of_bool (ds_official s)),
            tlv_scalar df_suspicious (mem_of_bool (ds_suspicious s)),
            tlv_scalar df_fake (mem_of_bool (ds_fake s)),
            tlv_scalar df_hidden_msg_id (mem_of 8 (ds_hidden_msg_id s)),
            tlv_scalar df_unread_mentions_count (mem_of 4 (get_unread_mentions_count s)),
            tlv_scalar df_attention (mem_of_bool (ds_attention s)),
            tlv_scalar df_last_read_mention (mem_of 8 (ds_last_read_mention s)),
            tlv_scalar df_stranger (mem_of_bool (ds_stranger s))] p0;
          p2 = (case ds_info_version s of
                  Some v \<Rightarrow> push_child p1 (tlv_string df_info_version v) | None \<Rightarrow> p1);
          p3 = (if has_history_patch_version s
                then push_child p2 (tlv_string df_patch_version
                       (version_string (ds_history_patch_version s)))
                else p2);
          p4 = (if has_del_up_to s
                then push_child p3 (tlv_scalar df_del_up_to (mem_of 8 (ds_del_up_to s))) else p3);
          p5 = push_message df_last_message (ds_last_message s) p4;
          p6 = (if has_pinned_message s then push_message df_pinned_message (ds_pinned_message s) p5
                else p5)
      in if ds_heads s \<noteq> []
         then push_child p6 (tlv_pack df_heads (push_each 0 head_pack (ds_heads s) empty_pack))
         else p6)"

definition dlg_serialize :: "dlg_state \<Rightarrow> binary_stream \<Rightarrow> binary_stream" where
  "dlg_serialize s data = snd (tlvpack_serialize (dlg_push_fields s empty_pack) data)"

definition set_opt :: "tlvpack \<Rightarrow> u32w \<Rightarrow> (tlv \<Rightarrow> dlg_state \<Rightarrow> dlg_state) \<Rightarrow> dlg_state \<Rightarrow> dlg_state" where
  "set_opt p ty upd s = (case get_item p ty of Some t \<Rightarrow> upd t s | None \<Rightarrow> s)"

definition parse_head :: "tlv \<Rightarrow> dlg_state \<Rightarrow> dlg_state" where
  "parse_head t s =
     (let (_, p, _) = tlvpack_unserialize empty_pack (get_stream t)
      in case (get_item p df_head_aimid, get_item p df_head_friendly) of
           (Some a, Some f) \<Rightarrow> s\<lparr>ds_heads := ds_heads s @ [(str_value a, str_value f)]\<rparr>
         | _ \<Rightarrow> s)"

definition parse_heads :: "tlv \<Rightarrow> dlg_state \<Rightarrow> dlg_state" where
  "parse_heads t s =
     (let (parsed, p, _) = tlvpack_unserialize empty_pack (get_stream t)
      in if parsed then fold parse_head (tlvlist p) s else s)"

definition dlg_unserialize :: "binary_stream \<Rightarrow> dlg_state \<Rightarrow> (bool \<times> dlg_state) option" where
  "dlg_unserialize data s0 =
     (let (parsed, p, _) = tlvpack_unserialize empty_pack data
      in if \<not> parsed then Some (False, s0)
         else
           (case (get_item p df_unreads_count, get_item p df_last_msg_id,
                  get_item p df_yours_last_read, get_item p df_theirs_last_read,
                  get_item p df_theirs_last_delivered, get_item p df_last_message,
                  get_item p df_visible) of
              (Some unreads, Some last_id, Some yours, Some theirs, Some delivered, Some last_msg, Some vis) \<Rightarrow>
                let s1 = (set_last_msgid (i64_value last_id) (s0\<lparr>ds_unread_count := Some (i32_value unreads)\<rparr>))
                           \<lparr>ds_yours_last_read := i64_value yours,
                            ds_theirs_last_read := i64_value theirs,
                            ds_theirs_last_delivered := i64_value delivered,
                            ds_visible := bool_value vis\<rparr>;
                    s2 = set_opt p df_info_version (\<lambda>t s. s\<lparr>ds_info_version := Some (str_value t)\<rparr>) s1;
                    s3 = set_opt p df_last_read_mention (\<lambda>t s. s\<lparr>ds_last_read_mention := i64_value t\<rparr>) s2;
                    s4 = set_opt p df_friendly (\<lambda>t s. s\<lparr>ds_friendly := str_value t\<rparr>) s3;
                    s5 = set_opt p df_patch_version
                           (\<lambda>t s. s\<lparr>ds_history_patch_version := patch_version_of (str_value t)\<rparr>) s4;
                    s6 = set_opt p df_del_up_to (\<lambda>t s. s\<lparr>ds_del_up_to := i64_value t\<rparr>) s5;
                    s7 = set_opt p df_official (\<lambda>t s. s\<lparr>ds_official := bool_value t\<rparr>) s6;
                    s8 = set_opt p df_suspicious (\<lambda>t s. s\<lparr>ds_suspicious := bool_value t\<rparr>) s7;
                    s9 = set_opt p df_fake (\<lambda>t s. s\<lparr>ds_fake := bool_value t\<rparr>) s8;
                    s10 = set_opt p df_hidden_msg_id (\<lambda>t s. s\<lparr>ds_hidden_msg_id := i64_value t\<rparr>) s9;
                    s11 = set_opt p df_unread_mentions_count
                            (\<lambda>t s. s\<lparr>ds_unread_mentions_count := Some (i32_value t)\<rparr>) s10;
                    s12 = set_opt p df_stranger (\<lambda>t s. s\<lparr>ds_stranger := bool_value t\<rparr>) s11
                in (case parse_message last_msg (ds_last_message s12) of
                      None \<Rightarrow> None
                    | Some m \<Rightarrow>
                        let s13 = s12\<lparr>ds_last_message := m\<rparr>
                        in (case (case get_item p df_pinned_message of
                                    None \<Rightarrow> Some s13
                                  | Some t \<Rightarrow> map_option (\<lambda>m. s13\<lparr>ds_pinned_message := m\<rparr>)
                                      (parse_message t (ds_pinned_message s13))) of
                              None \<Rightarrow> None
                            | Some s14 \<Rightarrow>
                                let s15 = set_opt p df_attention (\<lambda>t s. s\<lparr>ds_attention := bool_value t\<rparr>) s14
                                in Some (True, set_opt p df_heads parse_heads s15)))
            | _ \<Rightarrow> Some (False, s0)))"

subsection \<open>The cached state and its file\<close>

record dlg_state_changes =
  del_up_to_changed :: bool
  history_patch_version_changed :: bool
  initial_fill :: bool
  last_message_changed :: bool

definition changes_new :: dlg_state_changes where
  "changes_new = \<lparr>del_up_to_changed = False, history_patch_version_changed = False,
     initial_fill = False, last_message_changed = False\<rparr>"

record archive_state =
  as_state :: "dlg_state option"
  as_storage :: storage

definition state_save :: "fs_env \<Rightarrow> archive_state \<Rightarrow> bool \<times> archive_state" where
  "state_save env a =
     (case as_state a of
        None \<Rightarrow> (False, a)
      | Some s \<Rightarrow>
          (case storage_open env (no_mode\<lparr>sm_write := True, sm_truncate := True\<rparr>) (as_storage a) of
             (False, st) \<Rightarrow> (False, a\<lparr>as_storage := st\<rparr>)
           | (True, st) \<Rightarrow>
               let (r, _, st1, _) = write_data_block env st (dlg_serialize s empty_stream) 0
               in (result r, a\<lparr>as_storage := storage_close st1\<rparr>)))"

text \<open>Loads into the given state; the state is what the load left, also when it failed.\<close>

definition state_load :: "fs_env \<Rightarrow> storage \<Rightarrow> dlg_state \<Rightarrow> (bool \<times> dlg_state) option \<times> storage" where
  "state_load env st0 s =
     (case storage_open env (no_mode\<lparr>sm_read := True\<rparr>) st0 of
        (False, st) \<Rightarrow> (Some (False, s), st)
      | (True, st) \<Rightarrow>
          (case read_data_block st (-1) empty_stream of
             (False, st1, data) \<Rightarrow> (Some (False, s), storage_close st1)
           | (True, st1, data) \<Rightarrow> (dlg_unserialize data s, storage_close st1)))"

definition get_state :: "fs_env \<Rightarrow> archive_state \<Rightarrow> (dlg_state \<times> archive_state) option" where
  "get_state env a =
     (case as_state a of
        Some s \<Rightarrow> Some (s, a)
      | None \<Rightarrow>
          let (r, st) = state_load env (as_storage a) dlg_state_new
          in map_option (\<lambda>(_, s). (s, a\<lparr>as_state := Some s, as_storage := st\<rparr>)) r)"

text \<open>
  Merging a state into the cached one: whether it was merged, the new state and what changed. The
  time is that of the clock.
\<close>

definition merge_obsolete :: "dlg_state \<Rightarrow> dlg_state \<Rightarrow> bool \<Rightarrow> bool \<Rightarrow> bool" where
  "merge_obsolete s new update_history_patch patch_version_changed \<longleftrightarrow>
     (\<not> update_history_patch \<and> \<not> has_last_msgid new \<and> \<not> has_msgid (ds_last_message new) \<and>
        hm_internal_id (ds_last_message new) = [] \<and>
        (sint (ds_del_up_to new) = -1 \<or> ds_del_up_to new = ds_del_up_to s)) \<or>
     (\<not> update_history_patch \<and> \<not> patch_version_changed \<and> has_last_msgid new \<and>
        has_last_msgid s \<and> sint (ds_last_msgid new) < sint (ds_last_msgid s))"

definition merge_deleted :: "u64w \<Rightarrow> dlg_state \<Rightarrow> dlg_state" where
  "merge_deleted now s =
     s\<lparr>ds_unread_count := Some 0, ds_attention := False,
       ds_last_message := (set_outgoing False (hm_merge (ds_last_message s) history_message_new))
         \<lparr>hm_time := now\<rparr>\<rparr>"

definition merge_fields :: "dlg_state \<Rightarrow> dlg_state \<Rightarrow> dlg_state" where
  "merge_fields s new =
     (let s1 = (set_last_msgid (ds_last_msgid new) s)
            \<lparr>ds_visible := ds_visible new, ds_fake := ds_fake new, ds_official := ds_official new,
             ds_suspicious := ds_suspicious new, ds_attention := ds_attention new,
             ds_theirs_last_read := ds_theirs_last_read new,
             ds_theirs_last_delivered := ds_theirs_last_delivered new,
             ds_last_read_mention := ds_last_read_mention new, ds_stranger := ds_stranger new\<rparr>;
          s2 = (if ds_info_version new \<noteq> None then s1\<lparr>ds_info_version := ds_info_version new\<rparr> else s1);
          s3 = (if ds_last_read_mention new = ds_last_msgid new
                then s2\<lparr>ds_unread_mentions_count := Some 0\<rparr>
                else if ds_unread_mentions_count new \<noteq> None
                then s2\<lparr>ds_unread_mentions_count := Some (get_unread_mentions_count new)\<rparr> else s2);
          s4 = s3\<lparr>ds_pinned_message := hm_copy (ds_pinned_message s3) (ds_pinned_message new)\<rparr>;
          s5 = (if sint (ds_hidden_msg_id new) \<noteq> -1
                then s4\<lparr>ds_hidden_msg_id := ds_hidden_msg_id new\<rparr> else s4);
          s6 = (if ds_friendly new \<noteq> [] then s5\<lparr>ds_friendly := ds_friendly new\<rparr> else s5);
          s7 = (if ds_yours_last_read new = ds_last_msgid new then s6\<lparr>ds_unread_count := Some 0\<rparr>
                else if ds_unread_count new \<noteq> None
                then s6\<lparr>ds_unread_count := Some (get_unread_count new)\<rparr> else s6)
      in s7\<lparr>ds_yours_last_read := ds_yours_last_read new\<rparr>)"

definition merge_accepted ::
    "u64w \<Rightarrow> dlg_state \<Rightarrow> dlg_state \<Rightarrow> bool \<Rightarrow> dlg_state_changes \<Rightarrow> dlg_state \<times> dlg_state_changes" where
  "merge_accepted now s new update_history_patch ch1 =
     (let update_del_up_to = (sint (ds_del_up_to new) > sint (ds_del_up_to s));
          ch2 = ch1\<lparr>del_up_to_changed := update_del_up_to\<rparr>;
          s1 = (if update_del_up_to then s\<lparr>ds_del_up_to := ds_del_up_to new\<rparr> else s)
      in if has_last_msgid s1 \<and> update_del_up_to \<and> ds_last_msgid s1 = ds_del_up_to new
         then (merge_deleted now s1, ch2\<lparr>last_message_changed := True\<rparr>)
         else
           let s2 = merge_fields s1 new;
               new_last = ds_last_message new;
               update_last_message =
                 (has_msgid new_last \<or> has_internal_id new_last \<or>
                  (\<not> has_msgid new_last \<and> \<not> has_last_msgid new));
               ch3 = (if update_last_message
                      then ch2\<lparr>last_message_changed :=
                        (hm_msgid (ds_last_message s2) \<noteq> hm_msgid new_last \<or>
                         \<not> contents_equal (ds_last_message s2) new_last)\<rparr>
                      else ch2);
               ch4 = ch3\<lparr>history_patch_version_changed := update_history_patch\<rparr>;
               s3 = (if update_last_message
                     then s2\<lparr>ds_last_message := hm_copy (ds_last_message s2) new_last\<rparr> else s2);
               s4 = (if update_history_patch
                     then s3\<lparr>ds_history_patch_version := ds_history_patch_version new\<rparr> else s3)
           in (s4\<lparr>ds_heads := ds_heads new\<rparr>, ch4))"

definition merge_state ::
    "u64w \<Rightarrow> dlg_state \<Rightarrow> dlg_state \<Rightarrow> dlg_state_changes \<Rightarrow> bool \<times> dlg_state \<times> dlg_state_changes" where
  "merge_state now s new ch0 =
     (let ch1 = ch0\<lparr>initial_fill := dlg_is_empty s\<rparr>;
          update_history_patch = (has_history_patch_version new \<and>
            \<not> pv_eq (ds_history_patch_version new) (ds_history_patch_version s));
          patch_version_changed = (ds_patch_version new \<noteq> [] \<and>
            pv_less (ds_history_patch_version s) (patch_version_of (ds_patch_version new)))
      in if merge_obsolete s new update_history_patch patch_version_changed then (False, s, ch1)
         else (True, merge_accepted now s new update_history_patch ch1))"

definition set_state ::
    "fs_env \<Rightarrow> u64w \<Rightarrow> dlg_state \<Rightarrow> dlg_state_changes \<Rightarrow> archive_state \<Rightarrow> dlg_state_changes \<times> archive_state" where
  "set_state env now new ch a =
     (let s = (case as_state a of Some s \<Rightarrow> s | None \<Rightarrow> dlg_state_new);
          (merged, s1, ch1) = merge_state now s new ch;
          a1 = a\<lparr>as_state := Some s1\<rparr>
      in (ch1, if merged then snd (state_save env a1) else a1))"

definition update_attention_attribute :: "fs_env \<Rightarrow> bool \<Rightarrow> archive_state \<Rightarrow> archive_state" where
  "update_attention_attribute env v a =
     snd (state_save env (a\<lparr>as_state := map_option (\<lambda>s. s\<lparr>ds_attention := v\<rparr>) (as_state a)\<rparr>))"

definition clear_state :: "fs_env \<Rightarrow> archive_state \<Rightarrow> archive_state" where
  "clear_state env a =
     snd (state_save env (a\<lparr>as_state := map_option (\<lambda>s. dlg_copy_from s dlg_state_new) (as_state a)\<rparr>))"

subsection \<open>Merging never goes back\<close>

lemma keep_let: "g a = v \<Longrightarrow> (\<And>x. g x = v \<Longrightarrow> g (b x) = v) \<Longrightarrow> g (let x = a in b x) = v"
  by (simp add: Let_def)

lemma merge_fields_keeps [simp]:
  "ds_del_up_to (merge_fields s new) = ds_del_up_to s"
  "ds_last_message (merge_fields s new) = ds_last_message s"
  "ds_history_patch_version (merge_fields s new) = ds_history_patch_version s"
  unfolding merge_fields_def
  by ((rule keep_let [where g = ds_del_up_to], simp add: set_last_msgid_def)+, simp)
    ((rule keep_let [where g = ds_last_message], simp add: set_last_msgid_def)+, simp,
     (rule keep_let [where g = ds_history_patch_version], simp add: set_last_msgid_def)+, simp)

lemma merge_accepted_del_up_to:
  "sint (ds_del_up_to (fst (merge_accepted now s new b ch))) =
     max (sint (ds_del_up_to s)) (sint (ds_del_up_to new))"
  by (simp add: merge_accepted_def Let_def merge_deleted_def max_def)

lemma merge_state_del_up_to:
  "sint (ds_del_up_to (fst (snd (merge_state now s new ch)))) =
     (if fst (merge_state now s new ch) then max (sint (ds_del_up_to s)) (sint (ds_del_up_to new))
      else sint (ds_del_up_to s))"
  by (simp add: merge_state_def Let_def merge_accepted_del_up_to)

lemma merge_state_unchanged:
  "\<not> fst (merge_state now s new ch) \<Longrightarrow> fst (snd (merge_state now s new ch)) = s"
  by (simp add: merge_state_def Let_def split: if_splits)

text \<open>A state whose last message is older is taken for news only when it brings a new version.\<close>

lemma merge_state_older:
  assumes "has_last_msgid new" and "has_last_msgid s" and "sint (ds_last_msgid new) < sint (ds_last_msgid s)"
  shows "fst (merge_state now s new ch) \<longleftrightarrow>
    has_history_patch_version new \<and> \<not> pv_eq (ds_history_patch_version new) (ds_history_patch_version s) \<or>
    ds_patch_version new \<noteq> [] \<and> pv_less (ds_history_patch_version s) (patch_version_of (ds_patch_version new))"
  using assms by (auto simp: merge_state_def merge_obsolete_def Let_def)

text \<open>Clearing the last message of the cached state is always taken for an obsolete state.\<close>

lemma clearing_is_obsolete:
  "merge_state now s (clear_last_msgid (clear_last_message s)) ch =
     (False, s, ch\<lparr>initial_fill := dlg_is_empty s\<rparr>)"
  by (simp add: merge_state_def merge_obsolete_def clear_last_msgid_def clear_last_message_def
      has_last_msgid_def has_msgid_def history_message_new_def pv_eq_def
      has_history_patch_version_def Let_def)

subsection \<open>The state round trip\<close>

definition dlg_head_items :: "dlg_state_head \<Rightarrow> item list" where
  "dlg_head_items h = [(df_head_aimid, fst h), (df_head_friendly, snd h)]"

definition dlg_items :: "dlg_state \<Rightarrow> item list" where
  "dlg_items s =
     [(df_unreads_count, mem_of 4 (get_unread_count s)), (df_last_msg_id, mem_of 8 (ds_last_msgid s)),
      (df_yours_last_read, mem_of 8 (ds_yours_last_read s)),
      (df_theirs_last_read, mem_of 8 (ds_theirs_last_read s)),
      (df_theirs_last_delivered, mem_of 8 (ds_theirs_last_delivered s)),
      (df_visible, mem_of_bool (ds_visible s)), (df_friendly, ds_friendly s),
      (df_official, mem_of_bool (ds_official s)), (df_suspicious, mem_of_bool (ds_suspicious s)),
      (df_fake, mem_of_bool (ds_fake s)), (df_hidden_msg_id, mem_of 8 (ds_hidden_msg_id s)),
      (df_unread_mentions_count, mem_of 4 (get_unread_mentions_count s)),
      (df_attention, mem_of_bool (ds_attention s)),
      (df_last_read_mention, mem_of 8 (ds_last_read_mention s)),
      (df_stranger, mem_of_bool (ds_stranger s))] @
     opt_item (ds_info_version s \<noteq> None) df_info_version (the (ds_info_version s)) @
     opt_item (has_history_patch_version s) df_patch_version (version_string (ds_history_patch_version s)) @
     opt_item (has_del_up_to s) df_del_up_to (mem_of 8 (ds_del_up_to s)) @
     [(df_last_message, message_bytes (ds_last_message s))] @
     opt_item (has_pinned_message s) df_pinned_message (message_bytes (ds_pinned_message s)) @
     opt_item (ds_heads s \<noteq> []) df_heads (pack_bytes (each_item 0 dlg_head_items (ds_heads s)))"

lemma emits_info:
  "emits f is \<Longrightarrow> emits (\<lambda>p. case x of Some v \<Rightarrow> push_child (f p) (tlv_string ty v) | None \<Rightarrow> f p)
     (is @ opt_item (x \<noteq> None) ty (the x))"
  using emits_push_tlv_string [of f "is" ty "the x"] by (cases x) (simp_all add: opt_item_def)

lemma emits_heads:
  assumes "emits f is"
  shows "emits (\<lambda>p. if hs \<noteq> [] then push_child (f p) (tlv_pack ty (push_each 0 head_pack hs empty_pack)) else f p)
    (is @ opt_item (hs \<noteq> []) ty (pack_bytes (each_item 0 dlg_head_items hs)))"
proof -
  have h: "emits (\<lambda>p. push_child (push_child p (tlv_string df_head_aimid (fst h)))
      (tlv_string df_head_friendly (snd h))) (dlg_head_items h)" for h
  proof -
    have "emits (\<lambda>p. push_child (push_child p (tlv_string df_head_aimid (fst h)))
      (tlv_string df_head_friendly (snd h))) (([] @ [(df_head_aimid, fst h)]) @ [(df_head_friendly, snd h)])"
      by (intro emit_rules)
    then show ?thesis by (simp add: dlg_head_items_def)
  qed
  have "emits (\<lambda>p. push_each 0 (\<lambda>h. (\<lambda>p. push_child (push_child p (tlv_string df_head_aimid (fst h)))
      (tlv_string df_head_friendly (snd h))) empty_pack) hs p) ([] @ each_item 0 dlg_head_items hs)"
    by (rule emits_push_each [OF h emits_id])
  then have "emits (\<lambda>p. push_each 0 head_pack hs p) (each_item 0 dlg_head_items hs)"
    unfolding head_pack_def by simp
  from emits_pack [OF assms this, of ty] show ?thesis
    using assms by (cases "hs = []") (simp_all add: opt_item_def)
qed

lemma emits_dlg: "emits (dlg_push_fields s) (dlg_items s)"
proof -
  have "emits (\<lambda>p. dlg_push_fields s p) (dlg_items s)"
    unfolding dlg_push_fields_def Let_def dlg_items_def append_assoc [symmetric]
    by (intro emits_heads emits_push_message_if emits_push_message emits_push_if
        emits_push_string_if emits_info emits_fold_push)
      (simp add: emits_one)
  then show ?thesis by simp
qed

definition dlg_bytes :: "dlg_state \<Rightarrow> bytes" where
  "dlg_bytes s = pack_bytes (dlg_items s)"

lemma dlg_serialize_content:
  assumes "bs_wf data" and "length (dlg_bytes s) \<le> room data"
  shows "content (dlg_serialize s data) = content data @ dlg_bytes s"
    and "bs_wf (dlg_serialize s data)"
proof -
  have "length (pack_bytes (dlg_items s)) \<le> 2 ^ 32 - 2"
    using assms(2) by (simp add: dlg_bytes_def room_def)
  then have p: "pack_wf (dlg_push_fields s empty_pack)" "items_of (dlg_push_fields s empty_pack) = dlg_items s"
    using emits_dlg [of s] small_pack_bytes by (auto simp: emits_def)
  show "content (dlg_serialize s data) = content data @ dlg_bytes s"
    "bs_wf (dlg_serialize s data)"
    using tlvpack_serialize_facts [OF assms(1) p(1)] p(2) assms(2)
    by (simp_all add: dlg_serialize_def dlg_bytes_def)
qed

text \<open>
  What comes back: counts are set, the patch version of the dialog is forgotten and that of the
  history loses its offline part, a deletion mark is kept when it is positive, and the messages
  take their stored form.
\<close>

definition dlg_stored :: "dlg_state \<Rightarrow> dlg_state" where
  "dlg_stored s = (set_last_msgid (ds_last_msgid s) s)
     \<lparr>ds_unread_count := Some (get_unread_count s),
      ds_unread_mentions_count := Some (get_unread_mentions_count s),
      ds_del_up_to := if has_del_up_to s then ds_del_up_to s else -1,
      ds_last_message := hm_stored (ds_last_message s),
      ds_pinned_message := if has_pinned_message s then hm_stored (ds_pinned_message s)
        else history_message_new,
      ds_history_patch_version := patch_version_of (version_string (ds_history_patch_version s)),
      ds_patch_version := []\<rparr>"

lemma parse_head_items:
  assumes "small (dlg_head_items h)" and "length (pack_bytes (dlg_head_items h)) \<le> 2 ^ 32 - 2"
  shows "parse_head (tlv_make (0, pack_bytes (dlg_head_items h))) s = s\<lparr>ds_heads := ds_heads s @ [h]\<rparr>"
proof -
  have "bs_wf (get_stream (tlv_make (0, pack_bytes (dlg_head_items h))))"
    "content (get_stream (tlv_make (0, pack_bytes (dlg_head_items h)))) = pack_bytes (dlg_head_items h)"
    using assms(2) by (simp_all add: get_stream_make)
  from tlvpack_unserialize_pack_bytes [OF this assms(2)]
  obtain s' where "tlvpack_unserialize empty_pack (get_stream (tlv_make (0, pack_bytes (dlg_head_items h)))) =
      (True, pack_of (dlg_head_items h), s')" by blast
  then show ?thesis
    using assms(1)
    by (simp add: parse_head_def get_item_pack_of dlg_head_items_def df_head_aimid_def
        df_head_friendly_def values_make)
qed

lemma fold_parse_head:
  "small (each_item 0 dlg_head_items hs) \<Longrightarrow>
     fold parse_head (map tlv_make (each_item 0 dlg_head_items hs)) s = s\<lparr>ds_heads := ds_heads s @ hs\<rparr>"
proof (induction hs arbitrary: s)
  case Nil
  then show ?case by (simp add: each_item_def)
next
  case (Cons h hs)
  have len: "length (pack_bytes (dlg_head_items h)) \<le> 2 ^ 32 - 2" "small (each_item 0 dlg_head_items hs)"
    using Cons.prems by (simp_all add: each_item_def)
  show ?case
    using Cons.IH [OF len(2)] parse_head_items [OF small_pack_bytes [OF len(1)] len(1)]
    by (simp add: each_item_def)
qed

declare map_of_append [simp del]

lemma dlg_field:
  "map_of (dlg_items s) df_unreads_count = Some (mem_of 4 (get_unread_count s))"
  "map_of (dlg_items s) df_last_msg_id = Some (mem_of 8 (ds_last_msgid s))"
  "map_of (dlg_items s) df_yours_last_read = Some (mem_of 8 (ds_yours_last_read s))"
  "map_of (dlg_items s) df_theirs_last_read = Some (mem_of 8 (ds_theirs_last_read s))"
  "map_of (dlg_items s) df_theirs_last_delivered = Some (mem_of 8 (ds_theirs_last_delivered s))"
  "map_of (dlg_items s) df_visible = Some (mem_of_bool (ds_visible s))"
  "map_of (dlg_items s) df_friendly = Some (ds_friendly s)"
  "map_of (dlg_items s) df_official = Some (mem_of_bool (ds_official s))"
  "map_of (dlg_items s) df_suspicious = Some (mem_of_bool (ds_suspicious s))"
  "map_of (dlg_items s) df_fake = Some (mem_of_bool (ds_fake s))"
  "map_of (dlg_items s) df_hidden_msg_id = Some (mem_of 8 (ds_hidden_msg_id s))"
  "map_of (dlg_items s) df_unread_mentions_count = Some (mem_of 4 (get_unread_mentions_count s))"
  "map_of (dlg_items s) df_attention = Some (mem_of_bool (ds_attention s))"
  "map_of (dlg_items s) df_last_read_mention = Some (mem_of 8 (ds_last_read_mention s))"
  "map_of (dlg_items s) df_stranger = Some (mem_of_bool (ds_stranger s))"
  by (simp_all add: dlg_items_def df_defs)

lemma dlg_optional_field:
  "map_of (dlg_items s) df_info_version = ds_info_version s"
  "map_of (dlg_items s) df_patch_version = (if has_history_patch_version s
     then Some (version_string (ds_history_patch_version s)) else None)"
  "map_of (dlg_items s) df_del_up_to = (if has_del_up_to s then Some (mem_of 8 (ds_del_up_to s)) else None)"
  "map_of (dlg_items s) df_last_message = Some (message_bytes (ds_last_message s))"
  "map_of (dlg_items s) df_pinned_message = (if has_pinned_message s
     then Some (message_bytes (ds_pinned_message s)) else None)"
  "map_of (dlg_items s) df_heads = (if ds_heads s \<noteq> []
     then Some (pack_bytes (each_item 0 dlg_head_items (ds_heads s))) else None)"
  by (auto simp: dlg_items_def df_defs map_of_Cons_append)

lemma get_dlg_item: "get_item (pack_of is) ty = map_option (\<lambda>d. tlv_make (ty, d)) (map_of is ty)"
  by (rule get_item_pack_of)

lemma set_opt_pack_of:
  "set_opt (pack_of is) ty upd s = (case map_of is ty of Some d \<Rightarrow> upd (tlv_make (ty, d)) s | None \<Rightarrow> s)"
  by (simp add: set_opt_def get_item_pack_of split: option.split)

lemma parse_heads_stored:
  assumes "length (pack_bytes (each_item 0 dlg_head_items hs)) \<le> 2 ^ 32 - 2"
  shows "parse_heads (tlv_make (ty, pack_bytes (each_item 0 dlg_head_items hs))) s =
    s\<lparr>ds_heads := ds_heads s @ hs\<rparr>"
proof -
  have "bs_wf (get_stream (tlv_make (ty, pack_bytes (each_item 0 dlg_head_items hs))))"
    "content (get_stream (tlv_make (ty, pack_bytes (each_item 0 dlg_head_items hs)))) =
      pack_bytes (each_item 0 dlg_head_items hs)"
    using assms by (simp_all add: get_stream_make)
  from tlvpack_unserialize_pack_bytes [OF this assms] show ?thesis
    using fold_parse_head [OF small_pack_bytes [OF assms], of s]
    by (auto simp: parse_heads_def pack_of_def)
qed

lemma dlg_unserialize_bytes:
  assumes "bs_wf data" and "content data = dlg_bytes s" and "length (dlg_bytes s) \<le> 2 ^ 32 - 2"
    and "parts_ok (ds_last_message s)" and "parts_ok (ds_pinned_message s)"
  shows "dlg_unserialize data dlg_state_new = Some (True, dlg_stored s)"
proof -
  obtain data' where p: "tlvpack_unserialize empty_pack data = (True, pack_of (dlg_items s), data')"
    using tlvpack_unserialize_pack_bytes [OF assms(1) assms(2,3) [unfolded dlg_bytes_def]] by blast
  have small: "small (dlg_items s)"
    using assms(3) small_pack_bytes by (simp add: dlg_bytes_def)
  then have len: "length (ds_friendly s) \<le> 2 ^ 32 - 2"
    "length (message_bytes (ds_last_message s)) \<le> 2 ^ 32 - 2"
    by (simp_all add: dlg_items_def)
  have info: "length v \<le> 2 ^ 32 - 2" if "ds_info_version s = Some v" for v
    using small that by (simp add: dlg_items_def opt_item_def)
  have patch: "length (version_string (ds_history_patch_version s)) \<le> 2 ^ 32 - 2" if "has_history_patch_version s"
    using small that by (simp add: dlg_items_def opt_item_def)
  have pinned: "length (message_bytes (ds_pinned_message s)) \<le> 2 ^ 32 - 2" if "has_pinned_message s"
    using small that by (simp add: dlg_items_def opt_item_def)
  have heads: "length (pack_bytes (each_item 0 dlg_head_items (ds_heads s))) \<le> 2 ^ 32 - 2" if "ds_heads s \<noteq> []"
    using small that by (simp add: dlg_items_def opt_item_def)
  have none: "\<not> has_history_patch_version s \<Longrightarrow> patch_version_of (version_string (ds_history_patch_version s)) = patch_version_new"
    by (simp add: has_history_patch_version_def pv_is_empty_def patch_version_of_def patch_version_new_def)
  have i: "set_opt (pack_of (dlg_items s)) df_info_version (\<lambda>t s. s\<lparr>ds_info_version := Some (str_value t)\<rparr>) x =
      x\<lparr>ds_info_version := ds_info_version s\<rparr>" if "ds_info_version x = None" for x
    using that info by (cases "ds_info_version s") (simp_all add: set_opt_pack_of dlg_optional_field values_make)
  have v: "set_opt (pack_of (dlg_items s)) df_patch_version
      (\<lambda>t s. s\<lparr>ds_history_patch_version := patch_version_of (str_value t)\<rparr>) x =
      x\<lparr>ds_history_patch_version := patch_version_of (version_string (ds_history_patch_version s))\<rparr>"
    if "ds_history_patch_version x = patch_version_new" for x
    using that none patch
    by (cases "has_history_patch_version s") (simp_all add: set_opt_pack_of dlg_optional_field values_make)
  have d: "set_opt (pack_of (dlg_items s)) df_del_up_to (\<lambda>t s. s\<lparr>ds_del_up_to := i64_value t\<rparr>) x =
      x\<lparr>ds_del_up_to := if has_del_up_to s then ds_del_up_to s else -1\<rparr>" if "ds_del_up_to x = -1" for x
    using that by (cases "has_del_up_to s") (simp_all add: set_opt_pack_of dlg_optional_field values_make)
  have h: "set_opt (pack_of (dlg_items s)) df_heads parse_heads x = x\<lparr>ds_heads := ds_heads s\<rparr>"
    if "ds_heads x = []" for x
    using that heads parse_heads_stored
    by (cases "ds_heads s = []") (simp_all add: set_opt_pack_of dlg_optional_field)
  have pin: "(case get_item (pack_of (dlg_items s)) df_pinned_message of None \<Rightarrow> Some x
      | Some t \<Rightarrow> map_option (\<lambda>m. x\<lparr>ds_pinned_message := m\<rparr>) (parse_message t (ds_pinned_message x))) =
      Some (x\<lparr>ds_pinned_message := if has_pinned_message s then hm_stored (ds_pinned_message s)
        else history_message_new\<rparr>)" if "ds_pinned_message x = history_message_new" for x
    using that parse_message_stored [OF pinned assms(5)]
    by (cases "has_pinned_message s") (simp_all add: get_dlg_item dlg_optional_field)
  have fields:
    "set_opt (pack_of (dlg_items s)) df_last_read_mention (\<lambda>t s. s\<lparr>ds_last_read_mention := i64_value t\<rparr>) x =
      x\<lparr>ds_last_read_mention := ds_last_read_mention s\<rparr>"
    "set_opt (pack_of (dlg_items s)) df_friendly (\<lambda>t s. s\<lparr>ds_friendly := str_value t\<rparr>) x =
      x\<lparr>ds_friendly := ds_friendly s\<rparr>"
    "set_opt (pack_of (dlg_items s)) df_official (\<lambda>t s. s\<lparr>ds_official := bool_value t\<rparr>) x =
      x\<lparr>ds_official := ds_official s\<rparr>"
    "set_opt (pack_of (dlg_items s)) df_suspicious (\<lambda>t s. s\<lparr>ds_suspicious := bool_value t\<rparr>) x =
      x\<lparr>ds_suspicious := ds_suspicious s\<rparr>"
    "set_opt (pack_of (dlg_items s)) df_fake (\<lambda>t s. s\<lparr>ds_fake := bool_value t\<rparr>) x = x\<lparr>ds_fake := ds_fake s\<rparr>"
    "set_opt (pack_of (dlg_items s)) df_hidden_msg_id (\<lambda>t s. s\<lparr>ds_hidden_msg_id := i64_value t\<rparr>) x =
      x\<lparr>ds_hidden_msg_id := ds_hidden_msg_id s\<rparr>"
    "set_opt (pack_of (dlg_items s)) df_unread_mentions_count
       (\<lambda>t s. s\<lparr>ds_unread_mentions_count := Some (i32_value t)\<rparr>) x =
      x\<lparr>ds_unread_mentions_count := Some (get_unread_mentions_count s)\<rparr>"
    "set_opt (pack_of (dlg_items s)) df_stranger (\<lambda>t s. s\<lparr>ds_stranger := bool_value t\<rparr>) x =
      x\<lparr>ds_stranger := ds_stranger s\<rparr>"
    "set_opt (pack_of (dlg_items s)) df_attention (\<lambda>t s. s\<lparr>ds_attention := bool_value t\<rparr>) x =
      x\<lparr>ds_attention := ds_attention s\<rparr>" for x
    using len by (simp_all add: set_opt_pack_of dlg_field values_make)
  have get: "get_item (pack_of (dlg_items s)) df_unreads_count = Some (tlv_make (df_unreads_count, mem_of 4 (get_unread_count s)))"
    "get_item (pack_of (dlg_items s)) df_last_msg_id = Some (tlv_make (df_last_msg_id, mem_of 8 (ds_last_msgid s)))"
    "get_item (pack_of (dlg_items s)) df_yours_last_read = Some (tlv_make (df_yours_last_read, mem_of 8 (ds_yours_last_read s)))"
    "get_item (pack_of (dlg_items s)) df_theirs_last_read = Some (tlv_make (df_theirs_last_read, mem_of 8 (ds_theirs_last_read s)))"
    "get_item (pack_of (dlg_items s)) df_theirs_last_delivered =
       Some (tlv_make (df_theirs_last_delivered, mem_of 8 (ds_theirs_last_delivered s)))"
    "get_item (pack_of (dlg_items s)) df_last_message = Some (tlv_make (df_last_message, message_bytes (ds_last_message s)))"
    "get_item (pack_of (dlg_items s)) df_visible = Some (tlv_make (df_visible, mem_of_bool (ds_visible s)))"
    by (simp_all add: get_dlg_item dlg_field dlg_optional_field(4))
  have last: "parse_message (tlv_make (df_last_message, message_bytes (ds_last_message s))) history_message_new =
      Some (hm_stored (ds_last_message s))"
    by (rule parse_message_stored [OF len(2) assms(4)])
  have new: "ds_info_version dlg_state_new = None" "ds_history_patch_version dlg_state_new = patch_version_new"
    "ds_del_up_to dlg_state_new = -1" "ds_heads dlg_state_new = []"
    "ds_pinned_message dlg_state_new = history_message_new" "ds_last_message dlg_state_new = history_message_new"
    by (simp_all add: dlg_state_new_def)
  show ?thesis
    by (simp add: dlg_unserialize_def p get fields i v d h pin last values_make new Let_def set_last_msgid_def
        dlg_stored_def) (intro conjI impI; rule dlg_state.equality; simp add: dlg_state_new_def)
qed

text \<open>A saved state is what a new cache over the same file reads.\<close>

lemma dlg_bytes_neq_Nil [simp]: "dlg_bytes s \<noteq> []"
  by (simp add: dlg_bytes_def dlg_items_def item_bytes_def)

lemma state_save_file:
  assumes "can_open env" and "file_stream (as_storage a) = None" and "as_state a = Some s"
    and "length (dlg_bytes s) \<le> 2 ^ 32 - 2"
    and "length (dlg_bytes s) + 16 \<le> capacity (as_storage a)"
  shows "fst (state_save env a)"
    and "file_data (as_storage (snd (state_save env a))) = Some (block_bytes (dlg_bytes s))"
    and "file_stream (as_storage (snd (state_save env a))) = None"
    and "as_state (snd (state_save env a)) = Some s"
proof -
  note o = open_truncate [OF assms(1,2)]
  let ?st = "opened truncate_mode [] (as_storage a)"
  have d: "bs_wf (dlg_serialize s empty_stream)" "content (dlg_serialize s empty_stream) = dlg_bytes s"
    using dlg_serialize_content [of empty_stream s] assms(4) by simp_all
  obtain r off st1 data1 where w: "write_data_block env ?st (dlg_serialize s empty_stream) 0 = (r, off, st1, data1)"
    by (metis prod_cases4)
  have ne: "content (dlg_serialize s empty_stream) \<noteq> []" by (simp add: d(2))
  note w' = write_data_block_at_end [OF o(2) d(1) ne w, unfolded d(2)]
  have fit: "length (logical ?st) + length (block_bytes (dlg_bytes s)) \<le> capacity ?st" using assms(5) by simp
  have r: "result r" "file_data (storage_close st1) = Some (block_bytes (dlg_bytes s))"
    using w'(6) [OF fit] wrote_file(3) [OF w'(2)] fit by simp_all
  have eq: "state_save env a = (True, a\<lparr>as_storage := storage_close st1\<rparr>)"
    using assms(3) o(1) w r(1) by (simp add: state_save_def truncate_mode_def)
  show "fst (state_save env a)" "as_state (snd (state_save env a)) = Some s"
    "file_stream (as_storage (snd (state_save env a))) = None"
    using assms(3) by (simp_all add: eq)
  show "file_data (as_storage (snd (state_save env a))) = Some (block_bytes (dlg_bytes s))"
    by (simp add: eq r(2))
qed

lemma get_state_stored:
  assumes "can_open env" and "file_stream st = None" and "file_data st = Some (block_bytes (dlg_bytes s))"
    and "block_ok (dlg_bytes s)" and "parts_ok (ds_last_message s)" and "parts_ok (ds_pinned_message s)"
  shows "\<exists>st'. get_state env \<lparr>as_state = None, as_storage = st\<rparr> =
    Some (dlg_stored s, \<lparr>as_state = Some (dlg_stored s), as_storage = st'\<rparr>)"
proof -
  let ?st = "opened read_mode (block_bytes (dlg_bytes s)) st"
  note o = open_read [OF assms(1-3)]
  obtain fs where fs: "file_stream ?st = Some fs" "ready fs" "fs_pos fs = 0" using o(2) by blast
  have len: "length (dlg_bytes s) \<le> 2 ^ 32 - 2"
    using assms(4) by (simp add: block_ok_def max_data_block_size_def)
  have "dec_block (drop (start_pos fs (-1)) (file_bytes ?st)) = Some (dlg_bytes s, [])"
    using fs(3) dec_block_block_bytes [OF assms(4), of "[]"] by (simp add: start_pos_def)
  from read_data_block_good [OF fs(1,2) _ bs_wf_empty _ this] obtain st1 data where
    r: "read_data_block ?st (-1) empty_stream = (True, st1, data)" "content data = dlg_bytes s" "bs_wf data"
    by auto
  have "state_load env st dlg_state_new = (Some (True, dlg_stored s), storage_close st1)"
    using o(1) r(1) dlg_unserialize_bytes [OF r(3,2) len assms(5,6)]
    by (simp add: state_load_def read_mode_def)
  then show ?thesis by (simp add: get_state_def)
qed

end
