(* ===== verification/Mentions_Me.thy ===== *)
theory Mentions_Me
  imports Messages_Data
begin

section \<open>The store of mentions: core/archive/mentions_me\<close>

text \<open>
  The messages that mention the user, by identifier, with a block file behind them: every new
  mention is appended, a deletion rewrites the file, and loading puts what the file has in
  front of what memory has. Loading is \<open>None\<close> where the code would dereference a null pointer.
\<close>

record mentions_me =
  mm_loaded :: bool
  mm_storage :: storage
  mm_messages :: "(int \<times> history_message) list"

definition mentions_get_messages :: "mentions_me \<Rightarrow> history_message list" where
  "mentions_get_messages mm = map snd (mm_messages mm)"

text \<open>A block of the file, read into the map; what is left of it when it does not parse.\<close>

definition mentions_unserialize ::
    "binary_stream \<Rightarrow> (int \<times> history_message) list option \<Rightarrow> bool \<times> (int \<times> history_message) list option" where
  "mentions_unserialize data ms0 =
     (case ms0 of
        None \<Rightarrow> (False, None)
      | Some ms \<Rightarrow>
          (case fst (message_unserialize history_message_new data) of
             None \<Rightarrow> (False, None)
           | Some (rc, m) \<Rightarrow>
               if rc \<noteq> 0 then (False, Some ms) else (True, Some (map_put (sint (hm_msgid m)) m ms))))"

definition insert_all :: "(int \<times> history_message) list \<Rightarrow> (int \<times> history_message) list \<Rightarrow> (int \<times> history_message) list" where
  "insert_all es ms = fold (\<lambda>(k, v). map_emplace k v) es ms"

definition mentions_load :: "fs_env \<Rightarrow> mentions_me \<Rightarrow> (bool \<times> mentions_me) option" where
  "mentions_load env mm =
     (if mm_loaded mm then Some (True, mm)
      else case storage_open env (no_mode\<lparr>sm_read := True\<rparr>) (mm_storage mm) of
             (False, st) \<Rightarrow> Some (False, mm\<lparr>mm_storage := st\<rparr>)
           | (True, st) \<Rightarrow>
               let (parsed, st1, ms) = read_loop mentions_unserialize st empty_stream (Some [])
               in map_option (\<lambda>ms.
                    let mm1 = mm\<lparr>mm_storage := storage_close st1, mm_messages := insert_all (mm_messages mm) ms\<rparr>
                    in if \<not> parsed then (False, mm1)
                       else if last_error st1 \<noteq> end_of_file then (False, mm1)
                       else (True, mm1\<lparr>mm_loaded := True\<rparr>)) ms)"

definition mentions_save :: "fs_env \<Rightarrow> history_message \<Rightarrow> mentions_me \<Rightarrow> result_type \<times> mentions_me" where
  "mentions_save env m mm =
     (case storage_open env (no_mode\<lparr>sm_write := True, sm_append := True\<rparr>) (mm_storage mm) of
        (False, st) \<Rightarrow> (\<lparr>result = False, error_code = 0\<rparr>, mm\<lparr>mm_storage := st\<rparr>)
      | (True, st) \<Rightarrow>
          let (r, _, st1, _) = write_data_block env st (message_serialize m empty_stream) 0
          in (r, mm\<lparr>mm_storage := storage_close st1\<rparr>))"

primrec save_mentions :: "fs_env \<Rightarrow> history_message list \<Rightarrow> binary_stream \<Rightarrow> storage \<Rightarrow> storage" where
  "save_mentions env [] data st = st"
| "save_mentions env (m # ms) data st =
     (let (_, _, st1, data1) = write_data_block env st (message_serialize m data) 0
      in save_mentions env ms (reset data1) st1)"

definition mentions_save_all :: "fs_env \<Rightarrow> mentions_me \<Rightarrow> bool \<times> mentions_me" where
  "mentions_save_all env mm =
     (case storage_open env (no_mode\<lparr>sm_write := True, sm_truncate := True\<rparr>) (mm_storage mm) of
        (False, st) \<Rightarrow> (False, mm\<lparr>mm_storage := st\<rparr>)
      | (True, st) \<Rightarrow>
          (True, mm\<lparr>mm_storage := storage_close
             (save_mentions env (map snd (mm_messages mm)) empty_stream st)\<rparr>))"

definition mentions_delete_up_to :: "fs_env \<Rightarrow> int \<Rightarrow> mentions_me \<Rightarrow> mentions_me" where
  "mentions_delete_up_to env i mm =
     (case from_lb i (mm_messages mm) of
        [] \<Rightarrow> if mm_messages mm \<noteq> [] then snd (mentions_save_all env (mm\<lparr>mm_messages := []\<rparr>)) else mm
      | (k, m) # rest \<Rightarrow>
          snd (mentions_save_all env (mm\<lparr>mm_messages := if k = i then rest else (k, m) # rest\<rparr>)))"

definition mentions_first_id :: "mentions_me \<Rightarrow> int option" where
  "mentions_first_id mm = (case mm_messages mm of [] \<Rightarrow> None | e # _ \<Rightarrow> Some (fst e))"

definition mentions_add :: "fs_env \<Rightarrow> history_message \<Rightarrow> mentions_me \<Rightarrow> mentions_me" where
  "mentions_add env m mm =
     (if \<not> has_msgid m then mm
      else if map_find (mm_messages mm) (sint (hm_msgid m)) \<noteq> None then mm
      else snd (mentions_save env m
        (mm\<lparr>mm_messages := map_emplace (sint (hm_msgid m)) m (mm_messages mm)\<rparr>)))"

subsection \<open>What the file holds\<close>

text \<open>The map a file of these messages is read into.\<close>

definition replay :: "history_message list \<Rightarrow> (int \<times> history_message) list" where
  "replay ms = fold (\<lambda>m. map_put (sint (hm_msgid m)) m) (map hm_stored ms) []"

definition mention_ok :: "history_message \<Rightarrow> bool" where
  "mention_ok m \<longleftrightarrow> message_ok m \<and> parts_ok m"

lemma mentions_unserialize_block:
  assumes "mention_ok m" and "holds_block (message_bytes m) data"
  shows "mentions_unserialize data (Some ms) =
    (True, Some (map_put (sint (hm_msgid m)) (hm_stored m) ms))"
  using message_unserialize_bytes [of data m] assms message_okD [of m]
  by (auto simp: mentions_unserialize_def mention_ok_def holds_block_def)

lemma read_loop_mentions:
  assumes "file_stream st = Some s" and "ready s" and "fs_pos s = 0"
    and "file_bytes st = data_blocks ms @ tail" and "dec_block tail = None"
    and "\<forall>m \<in> set ms. mention_ok m"
  shows "\<exists>st'. read_loop mentions_unserialize st empty_stream (Some []) = (True, st', Some (replay ms)) \<and>
    file_bytes (storage_close st') = file_bytes st \<and> file_stream st' \<noteq> None \<and>
    last_error st' = (if tail = [] then end_of_file else last_error st)"
proof -
  define g where "g d a = mentions_unserialize (bs_write empty_stream d) a" for d a
  have step: "mentions_unserialize data a = g d a"
    if d: "d \<in> set (map message_bytes ms)" "holds_block d data" for data d a
  proof -
    obtain m where m: "m \<in> set ms" "d = message_bytes m" using d(1) by auto
    have ok: "mention_ok m" using assms(6) m(1) by blast
    then have "length (message_bytes m) \<le> room empty_stream"
      using message_okD [of m] by (simp add: mention_ok_def)
    then have "holds_block (message_bytes m) (bs_write empty_stream (message_bytes m))"
      using write_facts [OF bs_wf_empty, of "message_bytes m"] by (simp add: holds_block_def)
    then show ?thesis
      using mentions_unserialize_block [OF ok] d(2) m(2)
      by (cases a) (simp_all add: g_def, simp add: mentions_unserialize_def)
  qed
  have run: "run_blocks g (map message_bytes ks) (Some es) =
      (True, Some (fold (\<lambda>m. map_put (sint (hm_msgid m)) m) (map hm_stored ks) es))"
    if "\<forall>m \<in> set ks. mention_ok m" for ks es
    using that
  proof (induction ks arbitrary: es)
    case Nil
    then show ?case by simp
  next
    case (Cons m ks)
    have ok: "mention_ok m" using Cons.prems by simp
    then have "length (message_bytes m) \<le> room empty_stream"
      using message_okD [of m] by (simp add: mention_ok_def)
    then have "holds_block (message_bytes m) (bs_write empty_stream (message_bytes m))"
      using write_facts [OF bs_wf_empty, of "message_bytes m"] by (simp add: holds_block_def)
    then have "g (message_bytes m) (Some es) = (True, Some (map_put (sint (hm_msgid m)) (hm_stored m) es))"
      using mentions_unserialize_block [OF ok] by (simp add: g_def)
    then show ?case using Cons by simp
  qed
  have blocks: "drop (fs_pos s) (file_bytes st) = concat (map block_bytes (map message_bytes ms)) @ tail"
    using assms(3,4) by (simp add: data_blocks_def comp_def)
  have ok: "block_ok d" if "d \<in> set (map message_bytes ms)" for d
    using that assms(6) by (auto simp: mention_ok_def message_ok_def)
  show ?thesis
    using read_loop_blocks [where step = mentions_unserialize and g = g and a = "Some []", OF assms(5) step assms(1,2) blocks ok
        fresh_data_empty] run [OF assms(6), of "[]"]
    by (auto simp: replay_def)
qed

subsection \<open>Loading, adding, deleting\<close>

definition mentions_closed :: "fs_env \<Rightarrow> mentions_me \<Rightarrow> bool" where
  "mentions_closed env mm \<longleftrightarrow> can_open env \<and> file_stream (mm_storage mm) = None"

lemma mentions_load_file:
  assumes "mentions_closed env mm" and "\<not> mm_loaded mm"
    and "file_data (mm_storage mm) = Some (data_blocks ms @ tail)" and "dec_block tail = None"
    and "\<forall>m \<in> set ms. mention_ok m"
  shows "\<exists>st'. mentions_load env mm = Some (tail = [],
      mm\<lparr>mm_storage := st', mm_messages := insert_all (mm_messages mm) (replay ms), mm_loaded := (tail = [])\<rparr>) \<and>
    file_bytes st' = data_blocks ms @ tail \<and> file_stream st' = None"
proof -
  have c: "can_open env" "file_stream (mm_storage mm) = None"
    using assms(1) by (simp_all add: mentions_closed_def)
  note o = open_read [OF c assms(3)]
  let ?st = "opened read_mode (data_blocks ms @ tail) (mm_storage mm)"
  obtain s where s: "file_stream ?st = Some s" "ready s" "fs_pos s = 0" using o(2) by blast
  have f: "file_bytes ?st = data_blocks ms @ tail" by simp
  obtain st' where r: "read_loop mentions_unserialize ?st empty_stream (Some []) = (True, st', Some (replay ms))"
    "file_bytes (storage_close st') = file_bytes ?st" "last_error st' = (if tail = [] then end_of_file else last_error ?st)"
    using read_loop_mentions [OF s f assms(4,5)] by blast
  then show ?thesis
    using o(1) assms(2) by (cases mm) (auto simp: mentions_load_def read_mode_def)
qed

lemma mentions_save_file:
  assumes "mentions_closed env mm" and "length (message_bytes m) \<le> 2 ^ 32 - 2"
    and "length (message_bytes m) + 16 \<le> free_space (mm_storage mm)"
  shows "\<exists>st'. mentions_save env m mm = (\<lparr>result = True, error_code = 0\<rparr>, mm\<lparr>mm_storage := st'\<rparr>) \<and>
    file_data st' = Some (file_bytes (mm_storage mm) @ block_bytes (message_bytes m)) \<and>
    capacity st' = capacity (mm_storage mm) \<and> file_stream st' = None"
proof -
  have c: "can_open env" "file_stream (mm_storage mm) = None"
    using assms(1) by (simp_all add: mentions_closed_def)
  note o = open_append [OF c]
  let ?st = "opened append_mode (file_bytes (mm_storage mm)) (mm_storage mm)"
  have d: "bs_wf (message_serialize m empty_stream)" "content (message_serialize m empty_stream) = message_bytes m"
    using message_serialize_content [of empty_stream m] assms(2) by simp_all
  obtain r off st1 data1 where w: "write_data_block env ?st (message_serialize m empty_stream) 0 = (r, off, st1, data1)"
    by (metis prod_cases4)
  have ne: "content (message_serialize m empty_stream) \<noteq> []" by (simp add: d(2))
  note a = append_block [OF c d(1) ne o(1) w, unfolded d(2)]
  show ?thesis
    using o(1) w a(3) a(4) [OF assms(3)] by (auto simp: mentions_save_def append_mode_def)
qed

lemma save_mentions_file:
  "at_end st \<Longrightarrow> fresh_data data \<Longrightarrow> (\<forall>m \<in> set ms. length (message_bytes m) \<le> 2 ^ 32 - 2) \<Longrightarrow>
     length (logical st) + length (data_blocks ms) \<le> capacity st \<Longrightarrow>
     at_end (save_mentions env ms data st) \<and> capacity (save_mentions env ms data st) = capacity st \<and>
     logical (save_mentions env ms data st) = logical st @ data_blocks ms"
proof (induction ms arbitrary: st data)
  case Nil
  then show ?case by simp
next
  case (Cons m ms)
  have len: "length (message_bytes m) \<le> room data" "length (message_bytes m) \<le> 2 ^ 32 - 2"
    using Cons.prems(2,3) room_ge [of "message_bytes m" data] by (simp_all add: fresh_data_def)
  have d: "bs_wf (message_serialize m data)" "content (message_serialize m data) = message_bytes m"
    using message_serialize_content [OF _ len(1)] fresh_content [OF Cons.prems(2)] Cons.prems(2)
    by (simp_all add: fresh_data_def)
  obtain r off st1 data1 where w: "write_data_block env st (message_serialize m data) 0 = (r, off, st1, data1)"
    by (metis prod_cases4)
  have ne: "content (message_serialize m data) \<noteq> []" by (simp add: d(2))
  have fit: "length (logical st) + length (block_bytes (content (message_serialize m data))) \<le> capacity st"
    using Cons.prems(4) by (simp add: d(2))
  then have st1: "at_end st1" "capacity st1 = capacity st" "logical st1 = logical st @ block_bytes (message_bytes m)"
    using write_data_block_at_end(6) [OF Cons.prems(1) d(1) ne w] by (simp_all add: d(2))
  have wf1: "bs_wf data1"
    using write_data_block_data [OF d(1), of env st 0] d(2) w by simp
  have "at_end (save_mentions env ms (reset data1) st1) \<and>
      capacity (save_mentions env ms (reset data1) st1) = capacity st1 \<and>
      logical (save_mentions env ms (reset data1) st1) = logical st1 @ data_blocks ms"
    using Cons.prems st1 fresh_data_reset [OF wf1] by (intro Cons.IH) simp_all
  then show ?case using w st1 by simp
qed

lemma mentions_save_all_file:
  assumes "mentions_closed env mm" and "\<forall>m \<in> set (map snd (mm_messages mm)). length (message_bytes m) \<le> 2 ^ 32 - 2"
    and "length (data_blocks (map snd (mm_messages mm))) \<le> capacity (mm_storage mm)"
  shows "\<exists>st'. mentions_save_all env mm = (True, mm\<lparr>mm_storage := st'\<rparr>) \<and>
    file_bytes st' = data_blocks (map snd (mm_messages mm)) \<and> file_stream st' = None"
proof -
  have c: "can_open env" "file_stream (mm_storage mm) = None"
    using assms(1) by (simp_all add: mentions_closed_def)
  note o = open_truncate [OF c]
  show ?thesis
    using o(1) save_mentions_file [OF o(2) fresh_data_empty assms(2), of env] assms(3) close_at_end(1)
    by (intro exI [of _ "storage_close (save_mentions env (map snd (mm_messages mm)) empty_stream
        (opened truncate_mode [] (mm_storage mm)))"]) (simp add: mentions_save_all_def truncate_mode_def)
qed

lemma find_insert_all:
  "ordered ms \<Longrightarrow> map_find (insert_all es ms) k =
     (case map_find ms k of Some m \<Rightarrow> Some m | None \<Rightarrow> map_of es k)"
  unfolding insert_all_def by (rule smap.find_fold_emplace)

lemma ordered_insert_all: "ordered ms \<Longrightarrow> ordered (insert_all es ms)"
  unfolding insert_all_def by (rule smap.inv_fold_emplace)

lemma replay_fold: "replay ms = fold (\<lambda>(k, v). map_put k v) (map (\<lambda>m. (sint (hm_msgid m), hm_stored m)) ms) []"
  unfolding replay_def by (simp add: fold_map comp_def)

lemma ordered_replay: "ordered (replay ms)"
  unfolding replay_fold by (rule smap.inv_fold_put) simp

lemma find_replay:
  "map_find (replay ms) k = map_of (rev (map (\<lambda>m. (sint (hm_msgid m), hm_stored m)) ms)) k"
  using smap.find_fold_put [of "[]" "map (\<lambda>m. (sint (hm_msgid m), hm_stored m)) ms" k]
  by (simp add: replay_fold map_find_def [of "[]"] split: option.splits)

end
