(* ===== verification/State_Properties.thy ===== *)
theory State_Properties
  imports Samples Dlg_State Mentions_Me
begin

section \<open>Properties of the dialog state and of the mentions\<close>

text \<open>
  What a merge of a server state may change, and that an accepted state, a new mention and a
  deletion of mentions are what the next start of the program loads.
\<close>

subsection \<open>The state of a dialog\<close>



definition sample_dialog :: dlg_state where
  "sample_dialog = dlg_state_new\<lparr>ds_last_msgid := 7, ds_friendly := [97]\<rparr>"

lemma hm_copy_new: "hm_copy history_message_new history_message_new = history_message_new"
  by (simp add: hm_copy_def history_message_new_def)

lemma sample_dialog_merged:
  "merge_state 0 dlg_state_new sample_dialog changes_new = (True, sample_dialog, changes_new\<lparr>initial_fill := True\<rparr>)"
proof -
  have new: "\<not> has_msgid history_message_new" "\<not> has_internal_id history_message_new"
    by (simp_all add: has_msgid_def has_internal_id_def history_message_new_def)
  have "dlg_is_empty dlg_state_new"
    using new by (simp add: dlg_is_empty_def has_last_msgid_def dlg_state_new_def)
  moreover have "merge_fields dlg_state_new sample_dialog = sample_dialog"
    by (simp add: merge_fields_def sample_dialog_def dlg_state_new_def set_last_msgid_def hm_copy_new
        get_unread_count_def get_unread_mentions_count_def Let_def)
  moreover have "\<not> has_history_patch_version sample_dialog" "has_last_msgid sample_dialog" "\<not> has_last_msgid dlg_state_new"
    "ds_last_message sample_dialog = history_message_new" "ds_patch_version sample_dialog = []"
    "ds_heads sample_dialog = []" "ds_del_up_to sample_dialog = ds_del_up_to dlg_state_new"
    by (simp_all add: has_history_patch_version_def pv_is_empty_def patch_version_new_def has_last_msgid_def
        sample_dialog_def dlg_state_new_def)
  ultimately show ?thesis
    using new by (simp add: merge_state_def merge_obsolete_def merge_accepted_def Let_def changes_new_def)
qed

lemma sample_dialog_size: "length (dlg_bytes sample_dialog) \<le> 2000"
  by (simp add: dlg_bytes_def dlg_items_def sample_dialog_def dlg_state_new_def opt_item_def 
      has_history_patch_version_def pv_is_empty_def patch_version_new_def has_del_up_to_def has_pinned_message_def
      has_msgid_def history_message_new_def message_bytes_def message_items_def head_items_def part_items_def
      option_item_def each_item_def mention_items_def)

text \<open>C6: A state that a merge accepts is on disk when the call returns: after a restart the state is read
  back from the file as the merged one, in its stored form.\<close>

theorem accepted_state_survives_restart:
  assumes "can_open env" and "file_stream (as_storage a) = None" and "as_state a = Some s"
    and "merge_state now s new ch = (True, s1, ch1)"
    and "block_ok (dlg_bytes s1)" and "parts_ok (ds_last_message s1)" and "parts_ok (ds_pinned_message s1)"
    and "length (dlg_bytes s1) + 16 \<le> capacity (as_storage a)"
    and "set_state env now new ch a = (ch2, a1)"
  shows "as_state a1 = Some s1 \<and> ch2 = ch1 \<and>
    (\<exists>a2. get_state env (a1\<lparr>as_state := None\<rparr>) = Some (dlg_stored s1, a2) \<and> as_state a2 = Some (dlg_stored s1))"
proof -
  let ?a = "a\<lparr>as_state := Some s1\<rparr>"
  have len: "length (dlg_bytes s1) \<le> 2 ^ 32 - 2"
    using assms(5) by (simp add: block_ok_def max_data_block_size_def)
  have a1: "a1 = snd (state_save env ?a)" "ch2 = ch1"
    using assms(3,4,9) by (simp_all add: set_state_def)
  note f = state_save_file [of env ?a s1, OF assms(1) _ _ len, simplified, OF assms(2,8)]
  have "file_stream (as_storage a1) = None" "file_data (as_storage a1) = Some (block_bytes (dlg_bytes s1))"
    using f a1 by simp_all
  from get_state_stored [OF assms(1) this assms(5-7)] obtain st' where
    "get_state env \<lparr>as_state = None, as_storage = as_storage a1\<rparr> =
      Some (dlg_stored s1, \<lparr>as_state = Some (dlg_stored s1), as_storage = st'\<rparr>)" by blast
  moreover have fresh: "a1\<lparr>as_state := None\<rparr> = \<lparr>as_state = None, as_storage = as_storage a1\<rparr>" by (cases a1) simp
  moreover have "as_state a1 = Some s1" using f(4) a1(1) by simp
  ultimately show ?thesis using a1(2) unfolding fresh by auto
qed

theorem accepted_state_survives_restart_witness:
  "\<exists>a1 a2. snd (set_state sample_env 0 sample_dialog changes_new
       \<lparr>as_state = Some dlg_state_new, as_storage = sample_storage\<rparr>) = a1 \<and>
     get_state sample_env (a1\<lparr>as_state := None\<rparr>) = Some (dlg_stored sample_dialog, a2)"
proof -
  let ?a = "\<lparr>as_state = Some dlg_state_new, as_storage = sample_storage\<rparr>"
  obtain ch2 a1 where u: "set_state sample_env 0 sample_dialog changes_new ?a = (ch2, a1)" by (metis surj_pair)
  have ok: "block_ok (dlg_bytes sample_dialog)" "parts_ok (ds_last_message sample_dialog)"
    "parts_ok (ds_pinned_message sample_dialog)"
    using sample_dialog_size by (simp_all add: block_ok_def max_data_block_size_def sample_dialog_def
        dlg_state_new_def parts_ok_def history_message_new_def)
  have "length (dlg_bytes sample_dialog) + 16 \<le> capacity (as_storage ?a)"
    using sample_dialog_size by simp
  from accepted_state_survives_restart [OF sample_env_opens _ _ sample_dialog_merged ok this u]
  show ?thesis using u by auto
qed

subsection \<open>The mentions\<close>

lemma reload_mentions:
  assumes "mentions_closed env mm" and "\<not> mm_loaded mm" and "mm_messages mm = []"
    and "file_data (mm_storage mm) = Some (data_blocks ms @ [])" and "\<forall>m \<in> set ms. mention_ok m"
  shows "\<exists>mm1. mentions_load env mm = Some (True, mm1) \<and>
    map_find (mm_messages mm1) k = map_of (rev (map (\<lambda>x. (sint (hm_msgid x), hm_stored x)) ms)) k"
proof -
  have "dec_block [] = None" by (simp add: dec_block_def)
  from mentions_load_file [OF assms(1,2,4) this assms(5)] assms(3)
  have "\<exists>mm1. mentions_load env mm = Some (True, mm1) \<and> mm_messages mm1 = insert_all [] (replay ms)"
    by auto
  then show ?thesis
    using find_replay [of ms k] by (auto simp: insert_all_def)
qed

text \<open>C39: A message that mentions the user is in the file when it was added: after a restart it is found
  under its identifier, and so is the last stored message under every other identifier.\<close>

theorem mention_survives_restart:
  assumes "mentions_closed env mm" and "file_bytes (mm_storage mm) = data_blocks ms"
    and "\<forall>x \<in> set ms. mention_ok x" and "mention_ok m" and "has_msgid m"
    and "map_find (mm_messages mm) (sint (hm_msgid m)) = None"
    and "length (message_bytes m) + 16 \<le> free_space (mm_storage mm)"
    and "restarted = (mentions_add env m mm)\<lparr>mm_loaded := False, mm_messages := []\<rparr>"
  shows "\<exists>mm1. mentions_load env restarted = Some (True, mm1) \<and>
    map_find (mm_messages mm1) k = (if k = sint (hm_msgid m) then Some (hm_stored m)
      else map_of (rev (map (\<lambda>x. (sint (hm_msgid x), hm_stored x)) ms)) k)"
proof -
  let ?mm = "mm\<lparr>mm_messages := map_emplace (sint (hm_msgid m)) m (mm_messages mm)\<rparr>"
  have c: "mentions_closed env ?mm" using assms(1) by (simp add: mentions_closed_def)
  have "length (message_bytes m) \<le> 2 ^ 32 - 2" using assms(4) unfolding mention_ok_def by (blast dest: message_okD)
  from mentions_save_file [OF c this] obtain st' where st':
    "mentions_save env m ?mm = (\<lparr>result = True, error_code = 0\<rparr>, ?mm\<lparr>mm_storage := st'\<rparr>)"
    "file_data st' = Some (data_blocks (ms @ [m]) @ [])" "file_stream st' = None"
    using assms(2,7) by (auto simp: data_blocks_def)
  then have r: "restarted = ?mm\<lparr>mm_storage := st', mm_loaded := False, mm_messages := []\<rparr>"
    using assms(5,6,8) by (simp add: mentions_add_def)
  have "mentions_closed env restarted" "\<not> mm_loaded restarted"
    "file_data (mm_storage restarted) = Some (data_blocks (ms @ [m]) @ [])"
    using assms(1) st' by (simp_all add: r mentions_closed_def)
  from reload_mentions [OF this(1,2) _ this(3), of k] show ?thesis
    using assms(3,4) by (simp add: r)
qed

theorem mention_survives_restart_witness:
  "\<exists>mm1. mentions_load sample_env ((mentions_add sample_env sample_message
       \<lparr>mm_loaded = True, mm_storage = sample_storage, mm_messages = []\<rparr>)\<lparr>mm_loaded := False, mm_messages := []\<rparr>) =
     Some (True, mm1) \<and> map_find (mm_messages mm1) 5 = Some (hm_stored sample_message)"
proof -
  let ?mm = "\<lparr>mm_loaded = True, mm_storage = sample_storage, mm_messages = []\<rparr>"
  have mm: "mentions_closed sample_env ?mm" "file_bytes (mm_storage ?mm) = data_blocks []"
    by (simp_all add: mentions_closed_def)
  have "length (message_bytes sample_message) + 16 \<le> 4096"
    using length_sample_messages(1) by linarith
  then have fit: "length (message_bytes sample_message) + 16 \<le> free_space (mm_storage ?mm)" by simp
  have m: "mention_ok sample_message" "has_msgid sample_message"
    by (simp_all add: mention_ok_def has_msgid_def)
  show ?thesis
    using mention_survives_restart [OF mm _ m _ fit refl, of 5] by (simp add: map_find_def)
qed

lemma ordered_filter: "ordered m \<Longrightarrow> ordered (filter P m)"
  by (induction m) auto

lemma delete_up_to_filter:
  "ordered m \<Longrightarrow> (case from_lb i m of [] \<Rightarrow> [] | (k, v) # rest \<Rightarrow> if k = i then rest else (k, v) # rest) =
     filter (\<lambda>e. i < fst e) m"
proof (induction m)
  case (Cons e m)
  then show ?case
    by (cases "fst e < i"; cases e)
      (auto simp: from_lb_def ordered_def not_less intro!: filter_True [symmetric])
qed (simp add: from_lb_def)

lemma find_filter_above: "map_find (filter (\<lambda>e. i < fst e) m) k = (if i < k then map_find m k else None)"
  by (induction m) (auto simp: map_find_def)

lemma data_blocks_filter: "length (data_blocks (map snd (filter P es))) \<le> length (data_blocks (map snd es))"
  by (induction es) auto

lemma replayed_entries:
  assumes "ordered es" and "\<forall>e \<in> set es. fst e = sint (hm_msgid (snd e))"
  shows "map_of (rev (map (\<lambda>x. (sint (hm_msgid x), hm_stored x)) (map snd es))) k = map_option hm_stored (map_find es k)"
proof -
  have e: "map (\<lambda>x. (sint (hm_msgid x), hm_stored x)) (map snd es) = map (\<lambda>(a, b). (a, hm_stored b)) es"
    using assms(2) by (auto simp: case_prod_beta)
  have "distinct (map fst es)" using assms(1) by (simp add: ordered_def strict_sorted_iff)
  then have "map_of (rev es) = map_of es"
    using map_of_inject_set [of "rev es" es] by (simp add: rev_map [symmetric])
  then show ?thesis
    unfolding e by (simp add: rev_map map_of_map map_find_def)
qed

text \<open>Deleting the mentions up to an identifier is on disk when the call returns: what a restart loads are
  exactly the mentions above it, in their stored form.\<close>

lemma mention_deletion_survives_restart:
  assumes "mentions_closed env mm" and "ordered (mm_messages mm)"
    and "\<forall>e \<in> set (mm_messages mm). fst e = sint (hm_msgid (snd e)) \<and> mention_ok (snd e)"
    and "length (data_blocks (map snd (mm_messages mm))) \<le> capacity (mm_storage mm)"
    and "\<exists>e \<in> set (mm_messages mm). i < fst e"
    and "restarted = (mentions_delete_up_to env i mm)\<lparr>mm_loaded := False, mm_messages := []\<rparr>"
  shows "\<exists>mm1. mentions_load env restarted = Some (True, mm1) \<and>
    map_find (mm_messages mm1) k = (if i < k then map_option hm_stored (map_find (mm_messages mm) k) else None)"
proof -
  define left where "left = filter (\<lambda>e. i < fst e) (mm_messages mm)"
  let ?mm = "mm\<lparr>mm_messages := left\<rparr>"
  have del: "mentions_delete_up_to env i mm = snd (mentions_save_all env ?mm)"
    using delete_up_to_filter [OF assms(2), of i] assms(5)
    by (auto simp: mentions_delete_up_to_def left_def split: list.splits)
  have sub: "set left \<subseteq> set (mm_messages mm)" "left \<noteq> []" "ordered left"
    using assms(2,5) by (auto simp: left_def filter_empty_conv ordered_filter)
  have c: "mentions_closed env ?mm" using assms(1) by (simp add: mentions_closed_def)
  have ok: "\<forall>m \<in> set (map snd left). mention_ok m" using assms(3) sub(1) by auto
  then have small: "\<forall>m \<in> set (map snd (mm_messages ?mm)). length (message_bytes m) \<le> 2 ^ 32 - 2"
    by (auto simp: mention_ok_def dest!: message_okD)
  have "length (data_blocks (map snd left)) \<le> length (data_blocks (map snd (mm_messages mm)))"
    unfolding left_def by (rule data_blocks_filter)
  then obtain st' where st': "mentions_save_all env ?mm = (True, ?mm\<lparr>mm_storage := st'\<rparr>)"
    "file_bytes st' = data_blocks (map snd left)" "file_stream st' = None"
    using mentions_save_all_file [OF c small] assms(4) by auto
  have "file_bytes st' \<noteq> []" using st'(2) sub(2) by (cases left) (simp_all add: block_bytes_def)
  then have f: "file_data st' = Some (data_blocks (map snd left) @ [])"
    using st'(2) by (simp add: file_data_of_bytes)
  have r: "restarted = ?mm\<lparr>mm_storage := st', mm_loaded := False, mm_messages := []\<rparr>"
    using del st'(1) assms(6) by simp
  have "mentions_closed env restarted" "\<not> mm_loaded restarted"
    "file_data (mm_storage restarted) = Some (data_blocks (map snd left) @ [])"
    using assms(1) st'(3) f by (simp_all add: r mentions_closed_def)
  from reload_mentions [OF this(1,2) _ this(3) ok, of k]
  have load: "\<exists>mm1. mentions_load env restarted = Some (True, mm1) \<and> map_find (mm_messages mm1) k =
      map_of (rev (map (\<lambda>x. (sint (hm_msgid x), hm_stored x)) (map snd left))) k"
    by (simp add: r)
  have "map_of (rev (map (\<lambda>x. (sint (hm_msgid x), hm_stored x)) (map snd left))) k =
      map_option hm_stored (map_find left k)"
    using sub by (intro replayed_entries) (use assms(3) in auto)
  also have "map_find left k = (if i < k then map_find (mm_messages mm) k else None)"
    using find_filter_above [of i "mm_messages mm" k] by (simp add: left_def)
  finally have "map_of (rev (map (\<lambda>x. (sint (hm_msgid x), hm_stored x)) (map snd left))) k =
      map_option hm_stored (if i < k then map_find (mm_messages mm) k else None)" .
  with load show ?thesis by (simp split: if_splits)
qed

end
