(* ===== verification/Json.thy ===== *)
theory Json
  imports Prelude
begin

section \<open>JSON values\<close>

text \<open>
  What the code sees of a parsed JSON document: the kinds of values, and the members of an object by
  name. A number is an integer when it was written as one; an integer has the 32-bit or 64-bit kind when
  it is in that range. Searching a member in a value that is no object is a failed assertion.
\<close>

datatype json = js_null | js_bool bool | js_int int | js_double | js_string str
  | js_array "json list" | js_object "(str \<times> json) list"

type_synonym members = "(str \<times> json) list"

definition member :: "members \<Rightarrow> string \<Rightarrow> json option" where
  "member ms k = map_of ms (ascii k)"

definition js_int64 :: "json \<Rightarrow> i64w option" where
  "js_int64 j = (case j of js_int n \<Rightarrow> if - (2 ^ 63) \<le> n \<and> n < 2 ^ 63 then Some (word_of_int n) else None | _ \<Rightarrow> None)"

definition js_int32 :: "json \<Rightarrow> i32w option" where
  "js_int32 j = (case j of js_int n \<Rightarrow> if - (2 ^ 31) \<le> n \<and> n < 2 ^ 31 then Some (word_of_int n) else None | _ \<Rightarrow> None)"

text \<open>A member is read when it is there and of the kind; otherwise the old value stays.\<close>

definition int64_member :: "members \<Rightarrow> string \<Rightarrow> i64w \<Rightarrow> i64w" where
  "int64_member ms k old =
     (case Option.bind (member ms k) js_int64 of Some n \<Rightarrow> n | None \<Rightarrow> old)"

definition int32_member :: "members \<Rightarrow> string \<Rightarrow> i32w \<Rightarrow> i32w" where
  "int32_member ms k old =
     (case Option.bind (member ms k) js_int32 of Some n \<Rightarrow> n | None \<Rightarrow> old)"

text \<open>\<open>GetString\<close> gives a C string, which ends at the first null character.\<close>

definition string_member :: "members \<Rightarrow> string \<Rightarrow> str \<Rightarrow> str" where
  "string_member ms k old =
     (case member ms k of Some (js_string s) \<Rightarrow> takeWhile (\<lambda>c. c \<noteq> 0) s | _ \<Rightarrow> old)"

definition bool_member :: "members \<Rightarrow> string \<Rightarrow> bool \<Rightarrow> bool" where
  "bool_member ms k old = (case member ms k of Some (js_bool b) \<Rightarrow> b | _ \<Rightarrow> old)"

definition object_member :: "members \<Rightarrow> string \<Rightarrow> members option" where
  "object_member ms k = (case member ms k of Some (js_object os) \<Rightarrow> Some os | _ \<Rightarrow> None)"

definition array_member :: "members \<Rightarrow> string \<Rightarrow> json list option" where
  "array_member ms k = (case member ms k of Some (js_array xs) \<Rightarrow> Some xs | _ \<Rightarrow> None)"

definition members_of_object :: "json \<Rightarrow> members option" where
  "members_of_object j = (case j of js_object ms \<Rightarrow> Some ms | _ \<Rightarrow> None)"

subsection \<open>The helpers of core/tools/json_helper\<close>

text \<open>\<open>unserialize_value\<close> for the types of its result: \<open>None\<close> when it returns false and leaves the value alone.\<close>

definition unserialize_string :: "members \<Rightarrow> string \<Rightarrow> str option" where
  "unserialize_string ms k = (case member ms k of Some (js_string s) \<Rightarrow> Some s | _ \<Rightarrow> None)"

definition unserialize_int :: "members \<Rightarrow> string \<Rightarrow> i32w option" where
  "unserialize_int ms k = Option.bind (member ms k) js_int32"

definition js_uint32 :: "json \<Rightarrow> u32w option" where
  "js_uint32 j = (case j of js_int n \<Rightarrow> if 0 \<le> n \<and> n < 2 ^ 32 then Some (word_of_int n) else None | _ \<Rightarrow> None)"

definition unserialize_uint :: "members \<Rightarrow> string \<Rightarrow> u32w option" where
  "unserialize_uint ms k = Option.bind (member ms k) js_uint32"

text \<open>A number of 32 bits counts as true when it is not 0.\<close>

definition unserialize_bool :: "members \<Rightarrow> string \<Rightarrow> bool option" where
  "unserialize_bool ms k =
     (case member ms k of
        Some (js_bool b) \<Rightarrow> Some b
      | Some (js_int n) \<Rightarrow> if - (2 ^ 31) \<le> n \<and> n < 2 ^ 32 then Some (n \<noteq> 0) else None
      | _ \<Rightarrow> None)"

definition or_old :: "'a option \<Rightarrow> 'a \<Rightarrow> 'a" where
  "or_old v old = (case v of Some x \<Rightarrow> x | None \<Rightarrow> old)"

text \<open>Writing appends a member.\<close>

definition add_member :: "string \<Rightarrow> json \<Rightarrow> members \<Rightarrow> members" where
  "add_member k j ms = ms @ [(ascii k, j)]"

lemma ascii_eq [simp]: "ascii s = ascii t \<longleftrightarrow> s = t"
proof
  have inj: "inj (\<lambda>c :: char. (word_of_nat (of_char c) :: byte))"
  proof (rule injI)
    fix c d :: char
    assume "(word_of_nat (of_char c) :: byte) = word_of_nat (of_char d)"
    then have "(of_char c :: nat) mod 2 ^ 8 = of_char d mod 2 ^ 8"
      by (simp add: word_of_nat_eq_iff take_bit_eq_mod)
    then show "c = d" by simp
  qed
  show "s = t" if "ascii s = ascii t" using that inj by (simp add: ascii_def inj_map_eq_map)
qed simp

lemma member_add [simp]:
  "member (add_member k j ms) l = (case member ms l of Some x \<Rightarrow> Some x | None \<Rightarrow> if k = l then Some j else None)"
  by (auto simp: member_def add_member_def map_add_def split: option.splits)

lemma member_Nil [simp]: "member [] k = None"
  by (simp add: member_def)

end
