(* ===== verification/Gallery.thy ===== *)
theory Gallery
  imports Messages_Data Json
begin

section \<open>The media gallery of a dialog: core/archive/gallery_cache\<close>

text \<open>
  The pictures, files and links of a dialog, oldest first, each with the identifier of the entry
  that follows it on the server, so that a gap in the cache shows; a state with the counts and the
  first and last entry of the server; and a file for each of them. The cache of a dialog has both
  files; the gallery that is built from an answer of the server has none, and only its data are used.
\<close>

subsection \<open>Entries\<close>

record gallery_entry_id =
  ge_msg_id :: i64w
  ge_seq :: i64w

definition entry_id :: "i64w \<Rightarrow> i64w \<Rightarrow> gallery_entry_id" where
  "entry_id m s = \<lparr>ge_msg_id = m, ge_seq = s\<rparr>"

definition no_entry :: gallery_entry_id where "no_entry = entry_id 0 0"

definition entry_empty :: "gallery_entry_id \<Rightarrow> bool" where
  "entry_empty e \<longleftrightarrow> ge_msg_id e = 0 \<and> ge_seq e = 0"

definition entry_valid :: "gallery_entry_id \<Rightarrow> bool" where
  "entry_valid e \<longleftrightarrow> ge_msg_id e \<noteq> -1 \<and> ge_seq e \<noteq> -1"

definition entry_less :: "gallery_entry_id \<Rightarrow> gallery_entry_id \<Rightarrow> bool" where
  "entry_less a b \<longleftrightarrow>
     (if ge_msg_id a = ge_msg_id b then sint (ge_seq a) < sint (ge_seq b)
      else sint (ge_msg_id a) < sint (ge_msg_id b))"

definition entry_greater :: "gallery_entry_id \<Rightarrow> gallery_entry_id \<Rightarrow> bool" where
  "entry_greater a b \<longleftrightarrow>
     (if ge_msg_id a = ge_msg_id b then sint (ge_seq a) > sint (ge_seq b)
      else sint (ge_msg_id a) > sint (ge_msg_id b))"

record gallery_item =
  gi_id :: gallery_entry_id
  gi_next :: gallery_entry_id
  gi_url :: str
  gi_caption :: str
  gi_type :: str
  gi_sender :: str
  gi_outgoing :: bool
  gi_time :: i64w
  gi_action :: str

definition gallery_item_new :: gallery_item where
  "gallery_item_new = \<lparr>gi_id = no_entry, gi_next = no_entry, gi_url = [], gi_caption = [], gi_type = [],
     gi_sender = [], gi_outgoing = False, gi_time = 0, gi_action = []\<rparr>"

definition gf_item_pack :: u32w where "gf_item_pack = 1"
definition gf_msg_id :: u32w where "gf_msg_id = 2"
definition gf_seq :: u32w where "gf_seq = 3"
definition gf_next_msg_id :: u32w where "gf_next_msg_id = 4"
definition gf_next_seq :: u32w where "gf_next_seq = 5"
definition gf_url :: u32w where "gf_url = 6"
definition gf_type :: u32w where "gf_type = 7"
definition gf_sender :: u32w where "gf_sender = 8"
definition gf_outgoing :: u32w where "gf_outgoing = 9"
definition gf_time :: u32w where "gf_time = 10"
definition gf_caption :: u32w where "gf_caption = 11"

lemmas gf_defs = gf_msg_id_def gf_seq_def gf_next_msg_id_def gf_next_seq_def gf_url_def gf_type_def
  gf_sender_def gf_outgoing_def gf_time_def gf_caption_def

text \<open>The time is written as 32 bits.\<close>

definition item_push_fields :: "gallery_item \<Rightarrow> tlvpack \<Rightarrow> tlvpack" where
  "item_push_fields g p = fold (\<lambda>t p. push_child p t)
     [tlv_scalar gf_msg_id (mem_of 8 (ge_msg_id (gi_id g))),
      tlv_scalar gf_seq (mem_of 8 (ge_seq (gi_id g))),
      tlv_scalar gf_next_msg_id (mem_of 8 (ge_msg_id (gi_next g))),
      tlv_scalar gf_next_seq (mem_of 8 (ge_seq (gi_next g))),
      tlv_string gf_url (gi_url g),
      tlv_string gf_type (gi_type g),
      tlv_string gf_sender (gi_sender g),
      tlv_scalar gf_outgoing (mem_of_bool (gi_outgoing g)),
      tlv_scalar gf_time (mem_of 4 (ucast (gi_time g) :: i32w)),
      tlv_string gf_caption (gi_caption g)] p"

definition gallery_item_serialize :: "gallery_item \<Rightarrow> binary_stream \<Rightarrow> binary_stream" where
  "gallery_item_serialize g data = snd (tlvpack_serialize (item_push_fields g empty_pack) data)"

definition set_item_field :: "tlv \<Rightarrow> gallery_item \<Rightarrow> gallery_item" where
  "set_item_field t g =
     (let ty = tlv_type t
      in if ty = gf_msg_id then g\<lparr>gi_id := (gi_id g)\<lparr>ge_msg_id := i64_value t\<rparr>\<rparr>
         else if ty = gf_seq then g\<lparr>gi_id := (gi_id g)\<lparr>ge_seq := i64_value t\<rparr>\<rparr>
         else if ty = gf_next_msg_id then g\<lparr>gi_next := (gi_next g)\<lparr>ge_msg_id := i64_value t\<rparr>\<rparr>
         else if ty = gf_next_seq then g\<lparr>gi_next := (gi_next g)\<lparr>ge_seq := i64_value t\<rparr>\<rparr>
         else if ty = gf_url then g\<lparr>gi_url := str_value t\<rparr>
         else if ty = gf_type then g\<lparr>gi_type := str_value t\<rparr>
         else if ty = gf_sender then g\<lparr>gi_sender := str_value t\<rparr>
         else if ty = gf_outgoing then g\<lparr>gi_outgoing := bool_value t\<rparr>
         else if ty = gf_time then g\<lparr>gi_time := scast (i32_value t)\<rparr>
         else if ty = gf_caption then g\<lparr>gi_caption := str_value t\<rparr>
         else g)"

definition gallery_item_unserialize :: "gallery_item \<Rightarrow> binary_stream \<Rightarrow> bool \<times> gallery_item" where
  "gallery_item_unserialize g data =
     (let (parsed, p, _) = tlvpack_unserialize empty_pack data
      in if parsed then (True, fold set_item_field (tlvlist p) g) else (False, g))"

definition item_memory_usage :: "gallery_item \<Rightarrow> nat" where
  "item_memory_usage g = 24 + 24 + length (gi_url g) + length (gi_type g) + length (gi_sender g) + 1 + 8
     + length (gi_action g)"

subsection \<open>The state of a gallery\<close>

record gallery_state =
  gt_patch_version :: str
  gt_last_entry :: gallery_entry_id
  gt_first_entry :: gallery_entry_id
  gt_images :: i32w
  gt_videos :: i32w
  gt_files :: i32w
  gt_links :: i32w
  gt_ptt :: i32w
  gt_audio :: i32w
  gt_patch_version_changed :: bool

definition gallery_state_new :: gallery_state where
  "gallery_state_new = \<lparr>gt_patch_version = [], gt_last_entry = no_entry, gt_first_entry = entry_id (-1) (-1),
     gt_images = 0, gt_videos = 0, gt_files = 0, gt_links = 0, gt_ptt = 0, gt_audio = 0,
     gt_patch_version_changed = False\<rparr>"

definition gallery_state_eq :: "gallery_state \<Rightarrow> gallery_state \<Rightarrow> bool" where
  "gallery_state_eq a b \<longleftrightarrow>
     gt_patch_version a = gt_patch_version b \<and> gt_last_entry a = gt_last_entry b \<and>
     gt_images a = gt_images b \<and> gt_videos a = gt_videos b \<and> gt_files a = gt_files b \<and>
     gt_links a = gt_links b \<and> gt_ptt a = gt_ptt b \<and> gt_audio a = gt_audio b"

record gallery_patch =
  gp_msg_id :: i64w
  gp_type :: str

definition gs_patch_version :: u32w where "gs_patch_version = 1"
definition gs_last_entry_msg :: u32w where "gs_last_entry_msg = 2"
definition gs_last_entry_seq :: u32w where "gs_last_entry_seq = 3"
definition gs_first_entry_msg :: u32w where "gs_first_entry_msg = 4"
definition gs_first_entry_seq :: u32w where "gs_first_entry_seq = 5"
definition gs_images :: u32w where "gs_images = 6"
definition gs_videos :: u32w where "gs_videos = 7"
definition gs_files :: u32w where "gs_files = 8"
definition gs_links :: u32w where "gs_links = 9"
definition gs_ptt :: u32w where "gs_ptt = 10"
definition gs_audio :: u32w where "gs_audio = 11"
definition gs_patch_version_changed :: u32w where "gs_patch_version_changed = 12"

lemmas gs_defs = gs_patch_version_def gs_last_entry_msg_def gs_last_entry_seq_def gs_first_entry_msg_def
  gs_first_entry_seq_def gs_images_def gs_videos_def gs_files_def gs_links_def gs_ptt_def gs_audio_def
  gs_patch_version_changed_def

definition state_push_fields :: "gallery_state \<Rightarrow> tlvpack \<Rightarrow> tlvpack" where
  "state_push_fields s p = fold (\<lambda>t p. push_child p t)
     [tlv_string gs_patch_version (gt_patch_version s),
      tlv_scalar gs_last_entry_msg (mem_of 8 (ge_msg_id (gt_last_entry s))),
      tlv_scalar gs_last_entry_seq (mem_of 8 (ge_seq (gt_last_entry s))),
      tlv_scalar gs_first_entry_msg (mem_of 8 (ge_msg_id (gt_first_entry s))),
      tlv_scalar gs_first_entry_seq (mem_of 8 (ge_seq (gt_first_entry s))),
      tlv_scalar gs_images (mem_of 4 (gt_images s)),
      tlv_scalar gs_videos (mem_of 4 (gt_videos s)),
      tlv_scalar gs_files (mem_of 4 (gt_files s)),
      tlv_scalar gs_links (mem_of 4 (gt_links s)),
      tlv_scalar gs_ptt (mem_of 4 (gt_ptt s)),
      tlv_scalar gs_audio (mem_of 4 (gt_audio s)),
      tlv_scalar gs_patch_version_changed (mem_of_bool (gt_patch_version_changed s))] p"

definition set_state_field :: "tlv \<Rightarrow> gallery_state \<Rightarrow> gallery_state" where
  "set_state_field t s =
     (let ty = tlv_type t
      in if ty = gs_patch_version then s\<lparr>gt_patch_version := str_value t\<rparr>
         else if ty = gs_last_entry_msg then s\<lparr>gt_last_entry := (gt_last_entry s)\<lparr>ge_msg_id := i64_value t\<rparr>\<rparr>
         else if ty = gs_last_entry_seq then s\<lparr>gt_last_entry := (gt_last_entry s)\<lparr>ge_seq := i64_value t\<rparr>\<rparr>
         else if ty = gs_first_entry_msg then s\<lparr>gt_first_entry := (gt_first_entry s)\<lparr>ge_msg_id := i64_value t\<rparr>\<rparr>
         else if ty = gs_first_entry_seq then s\<lparr>gt_first_entry := (gt_first_entry s)\<lparr>ge_seq := i64_value t\<rparr>\<rparr>
         else if ty = gs_images then s\<lparr>gt_images := i32_value t\<rparr>
         else if ty = gs_videos then s\<lparr>gt_videos := i32_value t\<rparr>
         else if ty = gs_files then s\<lparr>gt_files := i32_value t\<rparr>
         else if ty = gs_links then s\<lparr>gt_links := i32_value t\<rparr>
         else if ty = gs_ptt then s\<lparr>gt_ptt := i32_value t\<rparr>
         else if ty = gs_audio then s\<lparr>gt_audio := i32_value t\<rparr>
         else if ty = gs_patch_version_changed then s\<lparr>gt_patch_version_changed := bool_value t\<rparr>
         else s)"

subsection \<open>A gallery\<close>

record gallery_storage =
  gs_aimid :: str
  gs_my_aimid :: str
  gs_state :: gallery_state
  gs_items :: "gallery_item list"
  gs_patches :: "gallery_patch list"
  gs_older_entry_id :: gallery_entry_id
  gs_first_entry_reached :: bool
  gs_loaded :: bool
  gs_del_up_to :: i64w
  gs_cache_storage :: storage
  gs_state_storage :: storage
  gs_hole_requested :: bool
  gs_first_load :: bool
  gs_last_check :: int

definition max_block_size :: nat where "max_block_size = 1000"
definition max_items_size :: nat where "max_items_size = 20000"

text \<open>Times are in seconds.\<close>

definition consistency_check_period :: int where "consistency_check_period = 24 * 60 * 60"

definition gallery_new :: "int \<Rightarrow> storage \<Rightarrow> storage \<Rightarrow> gallery_storage" where
  "gallery_new now cache state = \<lparr>gs_aimid = [], gs_my_aimid = [], gs_state = gallery_state_new, gs_items = [],
     gs_patches = [], gs_older_entry_id = no_entry, gs_first_entry_reached = False, gs_loaded = False,
     gs_del_up_to = -1, gs_cache_storage = cache, gs_state_storage = state, gs_hole_requested = False,
     gs_first_load = False, gs_last_check = now - consistency_check_period\<rparr>"

definition gallery_of_server :: "int \<Rightarrow> str \<Rightarrow> gallery_storage" where
  "gallery_of_server now aimid = (gallery_new now storage_new storage_new)\<lparr>gs_aimid := aimid\<rparr>"

definition gallery_copy :: "gallery_storage \<Rightarrow> gallery_storage" where
  "gallery_copy g = g\<lparr>gs_my_aimid := [], gs_loaded := False, gs_cache_storage := storage_new,
     gs_state_storage := storage_new, gs_hole_requested := False\<rparr>"

definition gallery_free :: "gallery_storage \<Rightarrow> gallery_storage" where
  "gallery_free g = g\<lparr>gs_aimid := [], gs_state := gallery_state_new, gs_items := [], gs_patches := [],
     gs_older_entry_id := no_entry, gs_first_entry_reached := False, gs_loaded := False,
     gs_first_load := False\<rparr>"

definition set_aimid :: "str \<Rightarrow> gallery_storage \<Rightarrow> gallery_storage" where
  "set_aimid a g = g\<lparr>gs_aimid := a\<rparr>"

definition set_my_aimid :: "str \<Rightarrow> gallery_storage \<Rightarrow> gallery_storage" where
  "set_my_aimid a g = g\<lparr>gs_my_aimid := a\<rparr>"

definition set_first_entry_reached :: "bool \<Rightarrow> gallery_storage \<Rightarrow> gallery_storage" where
  "set_first_entry_reached b g = g\<lparr>gs_first_entry_reached := b\<rparr>"

definition gallery_erased :: "gallery_storage \<Rightarrow> bool" where
  "gallery_erased g \<longleftrightarrow> gs_del_up_to g \<noteq> -1"

definition clear_hole_request :: "gallery_storage \<Rightarrow> gallery_storage" where
  "clear_hole_request g = g\<lparr>gs_hole_requested := False\<rparr>"

definition gallery_memory_usage :: "gallery_storage \<Rightarrow> nat" where
  "gallery_memory_usage g = sum_list (map item_memory_usage (gs_items g))"

subsection \<open>The two files\<close>

definition items_pack :: "gallery_item list \<Rightarrow> tlvpack" where
  "items_pack xs = fold (\<lambda>g p. push_child p (tlv_stream gf_item_pack (gallery_item_serialize g empty_stream))) xs empty_pack"

definition serialize_items :: "fs_env \<Rightarrow> gallery_item list \<Rightarrow> storage \<Rightarrow> bool \<times> storage" where
  "serialize_items env xs st =
     (let (r, _, st1, _) = write_data_block env st (snd (tlvpack_serialize (items_pack xs) empty_stream)) 0
      in (result r, st1))"

text \<open>The loop over the entries; \<open>acc\<close> are those of the block that is being filled.\<close>

primrec save_items :: "fs_env \<Rightarrow> gallery_item list \<Rightarrow> gallery_item list \<Rightarrow> storage \<Rightarrow> bool \<times> storage" where
  "save_items env acc [] st = (if acc \<noteq> [] then serialize_items env acc st else (True, st))"
| "save_items env acc (x # xs) st =
     (let items = acc @ [x]
      in if max_block_size \<le> length items then
           (case serialize_items env items st of
              (False, st1) \<Rightarrow> (False, st1)
            | (True, st1) \<Rightarrow> save_items env [] xs st1)
         else save_items env items xs st)"

definition save_cache :: "fs_env \<Rightarrow> gallery_storage \<Rightarrow> bool \<times> gallery_storage" where
  "save_cache env g =
     (case storage_open env (no_mode\<lparr>sm_write := True, sm_truncate := True\<rparr>) (gs_cache_storage g) of
        (False, st) \<Rightarrow> (False, g\<lparr>gs_cache_storage := st\<rparr>)
      | (True, st) \<Rightarrow>
          let (r, st1) = save_items env [] (gs_items g) st
          in (r, g\<lparr>gs_cache_storage := storage_close st1\<rparr>))"

definition save_state :: "fs_env \<Rightarrow> gallery_storage \<Rightarrow> bool \<times> gallery_storage" where
  "save_state env g =
     (case storage_open env (no_mode\<lparr>sm_write := True, sm_truncate := True\<rparr>) (gs_state_storage g) of
        (False, st) \<Rightarrow> (False, g\<lparr>gs_state_storage := st\<rparr>)
      | (True, st) \<Rightarrow>
          let (r, _, st1, _) =
            write_data_block env st (snd (tlvpack_serialize (state_push_fields (gs_state g) empty_pack) empty_stream)) 0
          in (result r, g\<lparr>gs_state_storage := storage_close st1\<rparr>))"

text \<open>
  A block of the cache file. Reading a pack empties the stream, so the loop over what is available
  in the block runs at most once.
\<close>

primrec load_items :: "tlv list \<Rightarrow> gallery_item list \<Rightarrow> bool \<times> gallery_item list" where
  "load_items [] items = (True, items)"
| "load_items (t # ts) items =
     (case gallery_item_unserialize gallery_item_new (get_stream t) of
        (False, _) \<Rightarrow> (False, items)
      | (True, g) \<Rightarrow> load_items ts (items @ [g]))"

definition load_cache_block :: "binary_stream \<Rightarrow> gallery_item list \<Rightarrow> bool \<times> gallery_item list" where
  "load_cache_block data items =
     (if available data = 0 then (True, items)
      else
        let (parsed, p, _) = tlvpack_unserialize empty_pack data
        in if parsed then load_items (tlvlist p) items else (False, items))"

definition load_state_block :: "binary_stream \<Rightarrow> gallery_state \<Rightarrow> bool \<times> gallery_state" where
  "load_state_block data s =
     (if available data = 0 then (True, s)
      else
        let (parsed, p, _) = tlvpack_unserialize empty_pack data
        in if parsed then (True, fold set_state_field (tlvlist p) s) else (False, s))"

definition load_cache_from_local :: "fs_env \<Rightarrow> gallery_storage \<Rightarrow> bool \<times> gallery_storage" where
  "load_cache_from_local env g =
     (case storage_open env (no_mode\<lparr>sm_read := True\<rparr>) (gs_cache_storage g) of
        (False, st) \<Rightarrow> (False, g\<lparr>gs_cache_storage := st\<rparr>)
      | (True, st) \<Rightarrow>
          let (parsed, st1, items) = read_loop load_cache_block st empty_stream (gs_items g);
              g1 = g\<lparr>gs_cache_storage := storage_close st1, gs_items := items\<rparr>
          in (parsed \<and> last_error st1 = end_of_file, g1))"

definition load_state_from_local :: "fs_env \<Rightarrow> gallery_storage \<Rightarrow> bool \<times> gallery_storage" where
  "load_state_from_local env g =
     (case storage_open env (no_mode\<lparr>sm_read := True\<rparr>) (gs_state_storage g) of
        (False, st) \<Rightarrow> (False, g\<lparr>gs_state_storage := st\<rparr>)
      | (True, st) \<Rightarrow>
          let (parsed, st1, s) = read_loop load_state_block st empty_stream (gs_state g);
              g1 = g\<lparr>gs_state_storage := storage_close st1, gs_state := s\<rparr>
          in (parsed \<and> last_error st1 = end_of_file, g1))"

definition gallery_load_from_local :: "fs_env \<Rightarrow> gallery_storage \<Rightarrow> gallery_storage" where
  "gallery_load_from_local env g =
     (if gs_loaded g then g
      else
        let g1 = snd (load_state_from_local env g);
            g2 = snd (load_cache_from_local env g1)
        in g2\<lparr>gs_first_load := True, gs_loaded := True\<rparr>)"

subsection \<open>Merging an answer of the server\<close>

definition same_entry :: "gallery_entry_id \<Rightarrow> gallery_item \<Rightarrow> bool" where
  "same_entry e x \<longleftrightarrow> gi_id x = e"

definition has_entry :: "gallery_entry_id \<Rightarrow> gallery_item list \<Rightarrow> bool" where
  "has_entry e items \<longleftrightarrow> (\<exists>x \<in> set items. gi_id x = e)"

text \<open>The \<open>next_\<close> of the last of these entries is set, if there is one.\<close>

definition link_last :: "gallery_entry_id \<Rightarrow> gallery_item list \<Rightarrow> gallery_item list" where
  "link_last e xs = (if xs = [] then [] else butlast xs @ [(last xs)\<lparr>gi_next := e\<rparr>])"

definition first_id :: "gallery_item list \<Rightarrow> gallery_entry_id" where
  "first_id xs = (case xs of [] \<Rightarrow> no_entry | x # _ \<Rightarrow> gi_id x)"

text \<open>What the server deleted, up to a message.\<close>

definition erase_up_to :: "fs_env \<Rightarrow> i64w \<Rightarrow> gallery_storage \<Rightarrow> gallery_storage" where
  "erase_up_to env d g =
     (if d = -1 then g
      else
        let items = dropWhile (\<lambda>x. \<not> sint (ge_msg_id (gi_id x)) > sint d) (gs_items g);
            s = gs_state g;
            s1 = (if items = [] then s\<lparr>gt_first_entry := no_entry\<rparr>
              else if entry_valid (gt_first_entry s) \<and> \<not> entry_empty (gt_first_entry s)
              then s\<lparr>gt_first_entry := first_id items\<rparr> else s)
        in snd (save_state env (g\<lparr>gs_items := items, gs_state := s1\<rparr>)))"

definition merge_hole :: "gallery_storage \<Rightarrow> gallery_entry_id \<Rightarrow> gallery_item list \<Rightarrow> bool" where
  "merge_hole other till items =
     (if entry_empty (gs_older_entry_id other)
      then (if entry_empty till then False else \<not> has_entry till items)
      else \<not> has_entry (gs_older_entry_id other) items)"

text \<open>One new entry, and whether the oldest ones had to go.\<close>

definition insert_item :: "bool \<Rightarrow> gallery_item \<Rightarrow> gallery_item list \<Rightarrow> gallery_item list \<times> bool" where
  "insert_item hole i items =
     (case items of
        [] \<Rightarrow> ([i], False)
      | first # _ \<Rightarrow>
          if entry_less (gi_id i) (gi_id first) then (i\<lparr>gi_next := gi_id first\<rparr> # items, False)
          else
            let before = takeWhile (\<lambda>x. entry_less (gi_id x) (gi_id i)) items;
                after = dropWhile (\<lambda>x. entry_less (gi_id x) (gi_id i)) items;
                items1 = (if hole then before else link_last (gi_id i) before) @ i\<lparr>gi_next := first_id after\<rparr> # after
            in (drop (length items1 - max_items_size) items1, max_items_size < length items1))"

definition added :: "gallery_item \<Rightarrow> gallery_item" where
  "added i = i\<lparr>gi_action := ascii ''add''\<rparr>"

primrec merge_items :: "bool \<Rightarrow> gallery_item list \<Rightarrow> gallery_item list \<Rightarrow> gallery_item list \<times> gallery_item list \<times> bool" where
  "merge_items hole [] items = (items, [], False)"
| "merge_items hole (i # is) items =
     (if has_entry (gi_id i) items then merge_items hole is items
      else
        let (items1, full1) = insert_item hole i items;
            (items2, changes, full2) = merge_items hole is items1
        in (items2, added i # changes, full1 \<or> full2))"

definition merge_first_entry :: "fs_env \<Rightarrow> gallery_storage \<Rightarrow> bool \<Rightarrow> gallery_storage \<Rightarrow> gallery_storage" where
  "merge_first_entry env other max_count_reached g =
     (let s = gs_state g
      in if gs_first_entry_reached other \<or> max_count_reached then
           let s1 = s\<lparr>gt_first_entry := first_id (gs_items g)\<rparr>;
               s2 = (if gs_items g = [] then s1\<lparr>gt_last_entry := no_entry\<rparr> else s1)
           in snd (save_state env (g\<lparr>gs_state := s2\<rparr>))
         else if \<not> entry_valid (gt_first_entry s) then
           snd (save_state env (g\<lparr>gs_state := s\<lparr>gt_first_entry := no_entry,
             gt_patch_version := gt_patch_version (gs_state other)\<rparr>\<rparr>))
         else g)"

text \<open>The entries of a message go; \<open>kept\<close> are those in front of the iterator.\<close>

primrec patch_items :: "gallery_patch \<Rightarrow> gallery_item list \<Rightarrow> gallery_item list \<Rightarrow> gallery_item list" where
  "patch_items p kept [] = kept"
| "patch_items p kept (x # xs) =
     (if ge_msg_id (gi_id x) = gp_msg_id p
      then patch_items p (if kept \<noteq> [] \<and> gp_type p = ascii ''del'' then link_last (first_id xs) kept else kept) xs
      else patch_items p (kept @ [x]) xs)"

definition patch_change :: "gallery_patch \<Rightarrow> gallery_item" where
  "patch_change p = gallery_item_new\<lparr>gi_id := entry_id (gp_msg_id p) 0, gi_action := gp_type p\<rparr>"

text \<open>An entry at the border of the request that the answer does not have any more.\<close>

definition erase_item :: "fs_env \<Rightarrow> gallery_entry_id \<Rightarrow> gallery_storage \<Rightarrow> gallery_storage" where
  "erase_item env e g =
     (if \<not> has_entry e (gs_items g) then g
      else
        let kept = takeWhile (\<lambda>x. \<not> same_entry e x) (gs_items g);
            rest = tl (dropWhile (\<lambda>x. \<not> same_entry e x) (gs_items g));
            s = gs_state g
        in if kept = [] \<and> rest = [] then
             snd (save_state env (g\<lparr>gs_items := [],
               gs_state := s\<lparr>gt_last_entry := no_entry, gt_first_entry := entry_id (-1) (-1)\<rparr>\<rparr>))
           else if kept = [] then
             snd (save_state env (g\<lparr>gs_items := rest, gs_state := s\<lparr>gt_first_entry := first_id rest\<rparr>\<rparr>))
           else
             let g1 = g\<lparr>gs_items := link_last (first_id rest) kept @ rest\<rparr>
             in if gt_last_entry s = e
                then snd (save_state env (g1\<lparr>gs_state := s\<lparr>gt_last_entry := no_entry\<rparr>\<rparr>))
                else g1)"

text \<open>What lies between the borders of a request that was answered completely is chained.\<close>

primrec chain_between ::
    "gallery_entry_id \<Rightarrow> gallery_entry_id \<Rightarrow> bool \<Rightarrow> gallery_item list \<Rightarrow> gallery_item list \<Rightarrow> gallery_item list" where
  "chain_between from till reached kept [] = kept"
| "chain_between from till reached kept (x # xs) =
     (if entry_greater (gi_id x) from \<and> reached then kept @ x # xs
      else
        let reached1 = (reached \<or> entry_greater (gi_id x) from);
            kept1 = (if entry_less (gi_id x) till then kept else link_last (gi_id x) kept)
        in chain_between from till reached1 (kept1 @ [x]) xs)"

definition answer_page :: nat where "answer_page = 1000"

definition merge_from_server ::
    "fs_env \<Rightarrow> gallery_storage \<Rightarrow> gallery_entry_id \<Rightarrow> gallery_entry_id \<Rightarrow> gallery_storage \<Rightarrow> gallery_item list \<times> gallery_storage" where
  "merge_from_server env other from till g0 =
     (let g1 = erase_up_to env (gs_del_up_to other) g0;
          hole = merge_hole other till (gs_items g1);
          (items, changes, full) = merge_items hole (gs_items other) (gs_items g1);
          g2 = merge_first_entry env other full (g1\<lparr>gs_items := items\<rparr>);
          g3 = g2\<lparr>gs_items := fold (\<lambda>p xs. patch_items p [] xs) (gs_patches other) (gs_items g2)\<rparr>;
          g4 = (if \<not> entry_empty from \<and> \<not> has_entry from (gs_items other) then erase_item env from g3 else g3);
          g5 = (if length (gs_items other) < answer_page \<and> \<not> entry_empty till \<and> \<not> has_entry till (gs_items other)
            then erase_item env till g4 else g4);
          g6 = (if length (gs_items other) < answer_page \<and> \<not> entry_empty from \<and> \<not> entry_empty till
            then g5\<lparr>gs_items := chain_between from till False [] (gs_items g5)\<rparr> else g5);
          g7 = snd (save_cache env g6);
          g8 = (if gt_patch_version (gs_state g7) \<noteq> gt_patch_version (gs_state other)
            then snd (save_state env (g7\<lparr>gs_state := (gs_state g7)\<lparr>gt_patch_version_changed := True\<rparr>\<rparr>)) else g7)
      in (changes @ map patch_change (gs_patches other), g8))"

definition gallery_set_state :: "fs_env \<Rightarrow> gallery_state \<Rightarrow> bool \<Rightarrow> gallery_storage \<Rightarrow> gallery_storage" where
  "gallery_set_state env new store_patch_version g =
     (let old = gs_state g;
          s = new\<lparr>gt_first_entry := gt_first_entry old\<rparr>;
          s1 = (if \<not> store_patch_version \<and> entry_valid (gt_first_entry s)
            then s\<lparr>gt_patch_version := gt_patch_version old,
              gt_patch_version_changed := (gt_patch_version old \<noteq> gt_patch_version new)\<rparr>
            else s\<lparr>gt_patch_version_changed := False\<rparr>)
      in snd (save_state env (g\<lparr>gs_state := s1\<rparr>)))"

subsection \<open>Reading a gallery\<close>

text \<open>
  A page of entries of the given types. The first loop goes from the newest entry, the second from
  the given entry towards older ones, or for a negative size towards newer ones. \<open>count\<close> is one less
  than the number of entries found; \<open>None\<close> for the flag leaves that of the caller.
\<close>

fun newest_entries ::
    "str list \<Rightarrow> int \<Rightarrow> gallery_item list \<Rightarrow> int \<Rightarrow> gallery_item list \<Rightarrow> gallery_item list \<times> int \<times> bool" where
  "newest_entries types page [] count res = (res, count, True)"
| "newest_entries types page (x # xs) count res =
     (if count = page then (res, count, False)
      else if gi_type x \<in> set types then newest_entries types page xs (count + 1) (res @ [x])
      else newest_entries types page xs count res)"

text \<open>From an entry: those to visit in this order, and whether the walk ends behind the last entry.\<close>

fun entries_from ::
    "str list \<Rightarrow> int \<Rightarrow> gallery_item list \<Rightarrow> int \<Rightarrow> gallery_item list \<Rightarrow> gallery_item list \<times> int \<times> bool" where
  "entries_from types page [] count res = (res, count, \<not> 0 < page)"
| "entries_from types page (x # xs) count res =
     (if count = \<bar>page\<bar> then (res, count, False)
      else
        let (res1, count1) = (if gi_type x \<in> set types then (res @ [x], count + 1) else (res, count))
        in entries_from types page xs count1 res1)"

definition get_items ::
    "gallery_entry_id \<Rightarrow> str list \<Rightarrow> int \<Rightarrow> gallery_storage \<Rightarrow> gallery_item list \<times> bool option" where
  "get_items from types page g =
     (let items = gs_items g;
          at_end = Some (\<not> entry_empty (gt_first_entry (gs_state g)));
          cut = (\<lambda>res count. if count = \<bar>page\<bar> then butlast res else res)
      in if items = [] then ([], Some True)
         else if entry_empty from then
           let (res, count, end) = newest_entries types page (rev items) (-1) []
           in (cut res count, if end then at_end else None)
         else if \<not> has_entry from items then ([], Some True)
         else
           let older = takeWhile (\<lambda>x. \<not> same_entry from x) items;
               newer = tl (dropWhile (\<lambda>x. \<not> same_entry from x) items)
           in if 0 < page \<and> older = [] then ([], at_end)
              else
                let (res, count, end) = entries_from types page (if 0 < page then rev older else newer) (-1) []
                in (cut res count, if end then at_end else None))"

definition get_items_of_message ::
    "i64w \<Rightarrow> str list \<Rightarrow> gallery_storage \<Rightarrow> gallery_item list \<times> (nat \<times> nat) option" where
  "get_items_of_message m types g =
     (if gs_items g = [] then ([], None)
      else
        let xs = filter (\<lambda>x. gi_type x \<in> set types) (gs_items g)
        in (filter (\<lambda>x. ge_msg_id (gi_id x) = m) xs,
            Some (length (filter (\<lambda>x. sint (ge_msg_id (gi_id x)) < sint m) xs), length xs)))"

subsection \<open>Holes\<close>

definition clear_gallery :: "fs_env \<Rightarrow> gallery_storage \<Rightarrow> gallery_storage" where
  "clear_gallery env g =
     snd (save_state env (snd (save_cache env (g\<lparr>gs_items := [], gs_state := gallery_state_new\<rparr>))))"

text \<open>
  The quotient of the two counts, the smaller one above, is at least 0.95; with counts below \<open>2 ^ 31\<close>
  the comparison of the doubles is that of the fractions. No entries and a state without entries
  give an undefined quotient, which fails the comparison.
\<close>

definition consistent_counts :: "nat \<Rightarrow> int \<Rightarrow> bool" where
  "consistent_counts n m \<longleftrightarrow>
     (if m < 0 then False
      else if n = 0 \<and> m = 0 then False
      else if int n \<le> m then 19 * m \<le> 20 * int n
      else 19 * int n \<le> 20 * m)"

definition count_from_state :: "gallery_state \<Rightarrow> int" where
  "count_from_state s = sint (gt_audio s + gt_files s + gt_images s + gt_links s + gt_videos s + gt_ptt s)"

definition check_consistency :: "int \<Rightarrow> gallery_storage \<Rightarrow> bool \<times> gallery_storage" where
  "check_consistency now g =
     (if \<not> gs_loaded g \<or> now - gs_last_check g < consistency_check_period then (True, g)
      else (consistent_counts (length (gs_items g)) (count_from_state (gs_state g)), g\<lparr>gs_last_check := now\<rparr>))"

text \<open>The first entry that is not the one its predecessor announces, with that predecessor.\<close>

fun broken_link :: "gallery_item list \<Rightarrow> (gallery_entry_id \<times> gallery_entry_id) option" where
  "broken_link (x # y # xs) = (if gi_next x \<noteq> gi_id y then Some (gi_id y, gi_id x) else broken_link (y # xs))"
| "broken_link _ = None"

text \<open>The result is the request to send, from and till, if there is one.\<close>

definition gallery_next_hole ::
    "fs_env \<Rightarrow> int \<Rightarrow> gallery_storage \<Rightarrow> (gallery_entry_id \<times> gallery_entry_id) option \<times> gallery_storage" where
  "gallery_next_hole env now g =
     (let s = gs_state g; items = gs_items g; req = g\<lparr>gs_hole_requested := True\<rparr>
      in if gs_hole_requested g then (None, g)
         else if gs_first_load g then
           (Some (no_entry, if \<not> entry_empty (gt_last_entry s) then gt_last_entry s else no_entry),
            req\<lparr>gs_first_load := False\<rparr>)
         else if items = [] then
           (if \<not> entry_valid (gt_first_entry s) then (Some (no_entry, no_entry), req)
            else if \<not> entry_empty (gt_last_entry s) then (Some (gt_last_entry s, no_entry), g)
            else (None, g))
         else if entry_empty (gt_first_entry s) \<or> gt_first_entry s \<noteq> first_id items then
           (Some (first_id items, no_entry), req)
         else if gi_id (last items) \<noteq> gt_last_entry s \<and> entry_less (gi_id (last items)) (gt_last_entry s) then
           (Some (gt_last_entry s, gi_id (last items)), req)
         else
           (case broken_link items of
              Some h \<Rightarrow> (Some h, req)
            | None \<Rightarrow>
                let (consistent, g1) = check_consistency now g
                in if consistent then (None, g1)
                   else (Some (no_entry, no_entry), (clear_gallery env g1)\<lparr>gs_hole_requested := True\<rparr>)))"

text \<open>The entries of the messages between two, and the chain at the older one, are forgotten.\<close>

primrec cut_between :: "i64w \<Rightarrow> i64w \<Rightarrow> bool \<Rightarrow> gallery_item list \<Rightarrow> gallery_item list" where
  "cut_between from till found [] = []"
| "cut_between from till found (x # xs) =
     (if ge_msg_id (gi_id x) = from then x # xs
      else if ge_msg_id (gi_id x) = till \<and> \<not> found then x\<lparr>gi_next := no_entry\<rparr> # cut_between from till True xs
      else if found then cut_between from till found xs
      else x # cut_between from till found xs)"

definition make_hole :: "fs_env \<Rightarrow> i64w \<Rightarrow> i64w \<Rightarrow> gallery_storage \<Rightarrow> gallery_storage" where
  "make_hole env from till g =
     snd (save_cache env (g\<lparr>gs_items :=
       (if from = -1 then [] else cut_between from till (till = -1) (gs_items g))\<rparr>))"

subsection \<open>The answer of the server\<close>

text \<open>
  An answer is parsed into a gallery. \<open>None\<close> is a failed assertion of the JSON library: an entry, a
  part of the answer or a patch that is no object, or an entry without an identifier.
\<close>

definition json_entry_id :: "members \<Rightarrow> gallery_entry_id \<Rightarrow> gallery_entry_id" where
  "json_entry_id ms e =
     e\<lparr>ge_msg_id := int64_member ms ''mid'' (ge_msg_id e),
       ge_seq := (case Option.bind (member ms ''seq'') js_int32 of Some n \<Rightarrow> scast n | None \<Rightarrow> ge_seq e)\<rparr>"

definition json_item :: "str \<Rightarrow> json \<Rightarrow> gallery_item option" where
  "json_item my_aimid j =
     (case members_of_object j of
        None \<Rightarrow> None
      | Some ms \<Rightarrow>
          (case object_member ms ''id'' of
             None \<Rightarrow> None
           | Some ids \<Rightarrow>
               let sender = string_member ms ''sender'' []
               in Some (gallery_item_new\<lparr>gi_id := json_entry_id ids no_entry,
                    gi_caption := string_member ms ''caption'' [],
                    gi_type := string_member ms ''type'' [],
                    gi_url := string_member ms ''url'' [],
                    gi_sender := sender,
                    gi_outgoing := (bool_member ms ''outgoing'' False \<or> my_aimid = sender),
                    gi_time := (case Option.bind (member ms ''time'') js_int32 of Some n \<Rightarrow> scast n | None \<Rightarrow> 0)\<rparr>)))"

primrec json_items :: "str \<Rightarrow> json list \<Rightarrow> gallery_item list \<Rightarrow> gallery_item list option" where
  "json_items my_aimid [] items = Some items"
| "json_items my_aimid (j # js) items =
     Option.bind (json_item my_aimid j) (\<lambda>x. json_items my_aimid js (items @ [x]))"

definition unserialize_entries :: "members \<Rightarrow> gallery_storage \<Rightarrow> gallery_storage option" where
  "unserialize_entries ms g =
     (case array_member ms ''entries'' of
        None \<Rightarrow> Some g
      | Some js \<Rightarrow> map_option (\<lambda>items. g\<lparr>gs_items := items\<rparr>) (json_items (gs_my_aimid g) js (gs_items g)))"

definition json_gallery_state :: "members \<Rightarrow> gallery_state \<Rightarrow> gallery_state" where
  "json_gallery_state ms s =
     (let s1 = s\<lparr>gt_patch_version := string_member ms ''galleryPatchVersion'' (gt_patch_version s)\<rparr>;
          s2 = (case object_member ms ''lastEntryId'' of
                  None \<Rightarrow> s1
                | Some es \<Rightarrow> s1\<lparr>gt_last_entry := json_entry_id es (gt_last_entry s1)\<rparr>)
      in case object_member ms ''itemsCount'' of
           None \<Rightarrow> s2
         | Some cs \<Rightarrow> s2\<lparr>gt_images := int32_member cs ''image'' (gt_images s2),
             gt_videos := int32_member cs ''video'' (gt_videos s2),
             gt_files := int32_member cs ''file'' (gt_files s2),
             gt_links := int32_member cs ''link'' (gt_links s2),
             gt_ptt := int32_member cs ''ptt'' (gt_ptt s2),
             gt_audio := int32_member cs ''audio'' (gt_audio s2)\<rparr>)"

definition json_patch :: "json \<Rightarrow> gallery_patch option" where
  "json_patch j =
     map_option (\<lambda>ms.
       case object_member ms ''action'' of
         None \<Rightarrow> \<lparr>gp_msg_id = 0, gp_type = []\<rparr>
       | Some as \<Rightarrow> \<lparr>gp_msg_id = int64_member as ''msgId'' 0, gp_type = string_member as ''type'' []\<rparr>)
     (members_of_object j)"

primrec json_patches :: "json list \<Rightarrow> gallery_patch list \<Rightarrow> gallery_patch list option" where
  "json_patches [] ps = Some ps"
| "json_patches (j # js) ps = Option.bind (json_patch j) (\<lambda>p. json_patches js (ps @ [p]))"

definition unserialize_subreqs :: "members \<Rightarrow> gallery_storage \<Rightarrow> gallery_storage option" where
  "unserialize_subreqs ms g =
     (case array_member ms ''subreqs'' of
        Some (j # _) \<Rightarrow>
          Option.bind (members_of_object j) (\<lambda>rs.
            unserialize_entries rs
              (g\<lparr>gs_first_entry_reached := bool_member rs ''includeStart'' (gs_first_entry_reached g)\<rparr>))
      | _ \<Rightarrow> Some g)"

definition unserialize_tail :: "members \<Rightarrow> gallery_storage \<Rightarrow> gallery_storage option" where
  "unserialize_tail ms g =
     (case object_member ms ''tail'' of
        None \<Rightarrow> Some g
      | Some ts \<Rightarrow>
          map_option (\<lambda>g1.
            case object_member ts ''olderEntryId'' of
              None \<Rightarrow> g1
            | Some es \<Rightarrow> g1\<lparr>gs_older_entry_id := json_entry_id es (gs_older_entry_id g1)\<rparr>)
          (unserialize_entries ts g))"

text \<open>The result is 1 when the answer has no state, else 0.\<close>

definition gallery_unserialize :: "json \<Rightarrow> bool \<Rightarrow> gallery_storage \<Rightarrow> (int \<times> gallery_storage) option" where
  "gallery_unserialize j parse_for_patches g =
     (case members_of_object j of
        None \<Rightarrow> None
      | Some ms \<Rightarrow>
          let g1 = g\<lparr>gs_del_up_to := int64_member ms ''delUpto'' (gs_del_up_to g)\<rparr>
          in case object_member ms ''galleryState'' of
               None \<Rightarrow> Some (1, g1)
             | Some ss \<Rightarrow>
                 let g2 = g1\<lparr>gs_state := json_gallery_state ss (gs_state g1)\<rparr>
                 in Option.bind (unserialize_subreqs ms g2) (\<lambda>g3.
                      Option.bind (unserialize_tail ms g3) (\<lambda>g4.
                        if parse_for_patches then
                          map_option (\<lambda>ps. (0, g4\<lparr>gs_patches := ps\<rparr>))
                            (json_patches (case array_member ms ''patch'' of Some js \<Rightarrow> js | None \<Rightarrow> []) (gs_patches g4))
                        else Some (0, g4))))"

end
