(* ===== verification/Contact_Archive.thy ===== *)
theory Contact_Archive
  imports Archive_Index Messages_Data Dlg_State Mentions_Me Gallery "HOL-Library.Monad_Syntax"
begin

section \<open>The archive of a contact: core/archive/contact_archive\<close>

text \<open>
  The index, the data file, the dialog state, the mentions and the gallery of one contact, each with
  its own files, and the operations that keep them together. The time of an
  insertion and the file system's environment are arguments; an operation is \<open>None\<close> where
  the code would dereference a null pointer or would not return.
\<close>

subsection \<open>State\<close>

record contact_archive =
  ca_index :: archive_index
  ca_data :: storage
  ca_state :: archive_state
  ca_mentions :: mentions_me
  ca_gallery :: gallery_storage
  ca_local_loaded :: bool

text \<open>The constructor: the files of the index, of the messages, of the state, of the mentions, and the two of
  the gallery.\<close>

definition contact_archive_new ::
    "int \<Rightarrow> storage \<Rightarrow> storage \<Rightarrow> storage \<Rightarrow> storage \<Rightarrow> storage \<Rightarrow> storage \<Rightarrow> contact_archive" where
  "contact_archive_new now index db state mentions cache gallery =
     \<lparr>ca_index = archive_index_new\<lparr>ai_storage := index\<rparr>, ca_data = db,
      ca_state = \<lparr>as_state = None, as_storage = state\<rparr>,
      ca_mentions = \<lparr>mm_loaded = False, mm_storage = mentions, mm_messages = []\<rparr>,
      ca_gallery = gallery_new now cache gallery, ca_local_loaded = False\<rparr>"

datatype get_message_policy = get_all | skip_patches_and_deleted

definition entry_of_message :: "history_message \<Rightarrow> index_entry" where
  "entry_of_message m = (hm_flags m, hm_time m, hm_msgid m, hm_prev_msg_id m, hm_data_offset m,
     hm_data_size m, hm_update_patch_version m, has_shared_contact_with_sn m)"

subsection \<open>Reading\<close>

text \<open>
  The headers of a range; when the policy leaves nothing of them, the search goes on before them.
\<close>

partial_function (option) get_messages_loop ::
    "fs_env \<Rightarrow> archive_index \<Rightarrow> int \<Rightarrow> int \<Rightarrow> get_message_policy \<Rightarrow> storage \<Rightarrow> int \<Rightarrow> message_header list \<Rightarrow>
       (history_message list \<times> storage) option" where
  "get_messages_loop env ai early later policy st from headers0 =
     (let headers = snd (serialize_from ai from early later headers0 False)
      in case headers of
           [] \<Rightarrow> Some ([], st)
         | h # _ \<Rightarrow>
             let headers1 = (if policy = skip_patches_and_deleted
                             then filter (\<lambda>h. \<not> (is_patch h \<or> is_deleted h)) headers else headers)
             in if policy = skip_patches_and_deleted \<and> headers1 = []
                then get_messages_loop env ai early later policy st (get_id h) headers1
                else
                  (case get_messages env headers1 [] st of
                     (None, st1) \<Rightarrow> None
                   | (Some (errs, ms), st1) \<Rightarrow> Some (ms, st1)))"

declare get_messages_loop.simps [code]

definition archive_get_messages ::
    "fs_env \<Rightarrow> int \<Rightarrow> int \<Rightarrow> int \<Rightarrow> get_message_policy \<Rightarrow> contact_archive \<Rightarrow>
       (history_message list \<times> contact_archive) option" where
  "archive_get_messages env from early later policy ca =
     map_option (\<lambda>(ms, st). (ms, ca\<lparr>ca_data := st\<rparr>))
       (get_messages_loop env (ca_index ca) early later policy (ca_data ca) from [])"

definition get_messages_index :: "int \<Rightarrow> int \<Rightarrow> int \<Rightarrow> message_header list \<Rightarrow> contact_archive \<Rightarrow> message_header list" where
  "get_messages_index from early later headers ca =
     snd (serialize_from (ca_index ca) from early later headers True)"

text \<open>The messages of some headers; what could not be read is invalidated in the index.\<close>

definition buddies_from_headers ::
    "fs_env \<Rightarrow> message_header list \<Rightarrow> contact_archive \<Rightarrow>
       (bool \<times> history_message list \<times> (int \<times> int) list \<times> contact_archive) option" where
  "buddies_from_headers env headers ca =
     (if headers = [] then Some (False, [], [], ca)
      else
        case get_messages env headers [] (ca_data ca) of
          (None, st) \<Rightarrow> None
        | (Some (errs, ms), st) \<Rightarrow>
            let ai = fold (\<lambda>(i, e) ai. if 0 < i then invalidate_message_data i True ai else ai) errs (ca_index ca)
            in Some (ms \<noteq> [], ms, errs, ca\<lparr>ca_data := st, ca_index := ai\<rparr>))"

definition headers_of_ids :: "archive_index \<Rightarrow> int list \<Rightarrow> message_header list" where
  "headers_of_ids ai ids = filter (\<lambda>h. \<not> is_patch h) (List.map_filter (get_header ai) ids)"

definition buddies_from_ids ::
    "fs_env \<Rightarrow> int list \<Rightarrow> contact_archive \<Rightarrow>
       (bool \<times> history_message list \<times> (int \<times> int) list \<times> contact_archive) option" where
  "buddies_from_ids env ids ca = buddies_from_headers env (headers_of_ids (ca_index ca) ids) ca"

subsection \<open>The dialog state\<close>

definition get_dlg_state :: "fs_env \<Rightarrow> contact_archive \<Rightarrow> (dlg_state \<times> contact_archive) option" where
  "get_dlg_state env ca = map_option (\<lambda>(s, a). (s, ca\<lparr>ca_state := a\<rparr>)) (get_state env (ca_state ca))"

definition set_dlg_state ::
    "fs_env \<Rightarrow> u64w \<Rightarrow> dlg_state \<Rightarrow> dlg_state_changes \<Rightarrow> contact_archive \<Rightarrow> dlg_state_changes \<times> contact_archive" where
  "set_dlg_state env now s ch ca =
     (let (ch1, a) = set_state env now s ch (ca_state ca) in (ch1, ca\<lparr>ca_state := a\<rparr>))"

definition clear_dlg_state :: "fs_env \<Rightarrow> contact_archive \<Rightarrow> contact_archive" where
  "clear_dlg_state env ca = ca\<lparr>ca_state := clear_state env (ca_state ca)\<rparr>"

definition archive_delete_up_to :: "fs_env \<Rightarrow> u64w \<Rightarrow> int \<Rightarrow> contact_archive \<Rightarrow> contact_archive option" where
  "archive_delete_up_to env now up_to ca =
     map_option (\<lambda>(dlg, ca1).
       let last = ds_last_message dlg;
           is_last_message_obsolete = (has_msgid last \<and> sint (hm_msgid last) \<le> up_to);
           is_last_msgid_obsolete = (has_last_msgid dlg \<and> sint (ds_last_msgid dlg) \<le> up_to);
           ca2 = (if is_last_message_obsolete \<or> is_last_msgid_obsolete
                  then snd (set_dlg_state env now (clear_last_msgid (clear_last_message dlg)) changes_new ca1)
                  else ca1)
       in ca2\<lparr>ca_index := delete_up_to env up_to (ca_index ca2)\<rparr>) (get_dlg_state env ca)"

subsection \<open>Loading\<close>

text \<open>The first load reads the index, the mentions and the gallery and applies the deletion mark of the state.\<close>

definition archive_load_from_local ::
    "fs_env \<Rightarrow> int \<Rightarrow> u64w \<Rightarrow> contact_archive \<Rightarrow> (bool \<times> contact_archive) option" where
  "archive_load_from_local env now clock ca0 =
     (if ca_local_loaded ca0 then Some (False, ca0)
      else do {
        let ca = ca0\<lparr>ca_local_loaded := True\<rparr>;
        let (loaded, ai) = load_from_local env now (ca_index ca);
        let ai1 = (if \<not> loaded \<and> ai_last_error ai \<noteq> file_not_exist then snd (save_all env ai) else ai);
        (mloaded, mm) \<leftarrow> mentions_load env (ca_mentions ca);
        let mm1 = (if \<not> mloaded then snd (mentions_save_all env mm) else mm);
        let ca1 = ca\<lparr>ca_index := ai1, ca_mentions := mm1,
          ca_gallery := gallery_load_from_local env (ca_gallery ca)\<rparr>;
        let first_id = get_first_msgid (ca_index ca1);
        ca2 \<leftarrow> (if 0 < first_id then do {
                   (dlg, ca2) \<leftarrow> get_dlg_state env ca1;
                   if has_del_up_to dlg \<and> first_id < sint (ds_del_up_to dlg)
                   then archive_delete_up_to env clock (sint (ds_del_up_to dlg)) ca2
                   else Some ca2
                 } else Some ca1);
        ca3 \<leftarrow> (case mentions_first_id (ca_mentions ca2) of
                   None \<Rightarrow> Some ca2
                 | Some _ \<Rightarrow> do {
                     (dlg, ca3) \<leftarrow> get_dlg_state env ca2;
                     let del_up = (if has_del_up_to dlg then sint (ds_del_up_to dlg) else -1);
                     let last_read = (if has_last_read_mention dlg
                                      then sint (ds_last_read_mention dlg) else -1);
                     let res = max del_up last_read;
                     Some (if 0 < res
                           then ca3\<lparr>ca_mentions := mentions_delete_up_to env res (ca_mentions ca3)\<rparr>
                           else ca3)
                   });
        Some (True, ca3)
      })"

subsection \<open>Inserting a block of history\<close>

text \<open>
  A message that the index knows already is left out unless it brings something new: another
  patch flag, a newer version, a quote with a chat name, another previous identifier, a contact,
  or the stored data are invalid.
\<close>

definition skip_duplicate :: "message_header \<Rightarrow> history_message \<Rightarrow> bool" where
  "skip_duplicate existing m =
     (let is_patch_operation = (hm_is_patch m \<noteq> is_patch existing);
          is_version_updated = pv_greater (hm_update_patch_version m) (hpatch_version (hdr existing));
          is_valid_data = is_message_data_valid existing;
          quote_with_chat_name = (hm_quotes m \<noteq> [] \<and> q_chat_name (hd (hm_quotes m)) \<noteq> []);
          is_prev_id_changed = (sint (hm_prev_msg_id m) \<noteq> get_prev_msgid existing);
          shared_contact_sn_added =
            (has_shared_contact_with_sn m \<and> \<not> hshared_contact_sn (hdr existing))
      in \<not> is_patch_operation \<and> \<not> quote_with_chat_name \<and> \<not> is_prev_id_changed \<and>
         \<not> is_version_updated \<and> is_valid_data \<and> \<not> shared_contact_sn_added)"

definition accept_message :: "archive_index \<Rightarrow> int \<Rightarrow> history_message \<Rightarrow> history_message option" where
  "accept_message ai del_up_to m =
     (if (case get_header ai (sint (hm_msgid m)) of Some e \<Rightarrow> skip_duplicate e m | None \<Rightarrow> False) then None
      else if has_msgid m \<and> sint (hm_msgid m) \<le> del_up_to then None
      else if has_prev_msgid m \<and> sint (hm_prev_msg_id m) \<le> del_up_to
      then Some (hm_set_prev_msgid (-1) m)
      else Some m)"

definition update_files ::
    "fs_env \<Rightarrow> int \<Rightarrow> history_message list \<Rightarrow> message_header list \<Rightarrow> contact_archive \<Rightarrow>
       message_header list \<times> result_type \<times> contact_archive" where
  "update_files env now ms headers ca =
     (let (r, ms1, st) = data_update env ms (ca_data ca); ca1 = ca\<lparr>ca_data := st\<rparr>
      in if \<not> result r then (headers, r, ca1)
         else
           let (r2, headers2, ai) = index_update env now (map entry_of_message ms1) (ca_index ca1)
           in (headers2, r2, ca1\<lparr>ca_index := ai\<rparr>))"

text \<open>
  The headers inserted, the state of the dialog and the result; the first two arguments for the
  headers and the result are those the caller passes in.
\<close>

definition insert_history_block ::
    "fs_env \<Rightarrow> int \<Rightarrow> history_message list \<Rightarrow> message_header list \<Rightarrow> result_type \<Rightarrow> int \<Rightarrow> bool \<Rightarrow> contact_archive \<Rightarrow>
       (message_header list \<times> dlg_state \<times> result_type \<times> contact_archive) option" where
  "insert_history_block env now data headers res from has_older_message_id ca0 =
     do {
       (dlg, ca) \<leftarrow> get_dlg_state env ca0;
       let insert_data = List.map_filter (accept_message (ca_index ca) (sint (ds_del_up_to dlg))) data;
       if insert_data \<noteq> [] then
         let (hs, r, ca1) = update_files env now insert_data headers ca in Some (hs, dlg, r, ca1)
       else if from \<noteq> -1 \<and> \<not> has_older_message_id then do {
         (found, ms, errs, ca1) \<leftarrow> buddies_from_ids env [from] ca;
         if \<not> found then Some (headers, dlg, res, ca1)
         else
           let ms1 = (case ms of [] \<Rightarrow> [] | m # rest \<Rightarrow> hm_set_prev_msgid (-1) m # rest);
               (hs, r, ca2) = update_files env now ms1 headers ca1
           in Some (hs, dlg, r, ca2)
       }
       else Some (headers, dlg, res, ca)
     }"

definition update_message_data ::
    "fs_env \<Rightarrow> int \<Rightarrow> history_message \<Rightarrow> contact_archive \<Rightarrow> contact_archive option" where
  "update_message_data env now m ca =
     (case get_header (ca_index ca) (sint (hm_msgid m)) of
        None \<Rightarrow> Some ca
      | Some existing \<Rightarrow>
          (case get_messages env [existing] [] (ca_data ca) of
             (None, st) \<Rightarrow> None
           | (Some (errs, block), st) \<Rightarrow>
               let block1 = (case block of [] \<Rightarrow> [] | b # rest \<Rightarrow> hm_merge b m # rest);
                   (_, _, ca1) = update_files env now block1 [existing] (ca\<lparr>ca_data := st\<rparr>)
               in Some ca1))"

subsection \<open>Dropping, invalidating, freeing\<close>

definition drop_history :: "fs_env \<Rightarrow> contact_archive \<Rightarrow> contact_archive" where
  "drop_history env ca = ca\<lparr>ca_index := snd (save_all env (index_free (ca_index ca))),
     ca_data := drop_data env (ca_data ca)\<rparr>"

definition invalidate_ids ::
    "fs_env \<Rightarrow> int \<Rightarrow> u64w \<Rightarrow> int list \<Rightarrow> contact_archive \<Rightarrow> contact_archive option" where
  "invalidate_ids env now clock ids ca =
     map_option (\<lambda>(_, ca1). ca1\<lparr>ca_index := snd (save_all env
         (fold (\<lambda>i. invalidate_message_data i False) ids (ca_index ca1)))\<rparr>)
       (archive_load_from_local env now clock ca)"

definition invalidate_range ::
    "fs_env \<Rightarrow> int \<Rightarrow> u64w \<Rightarrow> int \<Rightarrow> int \<Rightarrow> int \<Rightarrow> contact_archive \<Rightarrow> contact_archive option" where
  "invalidate_range env now clock from before_count after_count ca =
     map_option (\<lambda>(_, ca1). ca1\<lparr>ca_index := snd (save_all env
         (invalidate_message_range from before_count after_count (ca_index ca1)))\<rparr>)
       (archive_load_from_local env now clock ca)"

text \<open>A debugging aid: every header is erased when its coin says so.\<close>

definition index_make_holes :: "bool list \<Rightarrow> archive_index \<Rightarrow> archive_index" where
  "index_make_holes coins ai = ai\<lparr>headers_index :=
     map fst (filter (\<lambda>(e, erase). \<not> erase) (zip (headers_index ai)
       (coins @ replicate (length (headers_index ai) - length coins) False)))\<rparr>"

definition archive_make_holes ::
    "fs_env \<Rightarrow> int \<Rightarrow> u64w \<Rightarrow> bool list \<Rightarrow> contact_archive \<Rightarrow> contact_archive option" where
  "archive_make_holes env now clock coins ca =
     map_option (\<lambda>(_, ca1). ca1\<lparr>ca_index := snd (save_all env (index_make_holes coins (ca_index ca1)))\<rparr>)
       (archive_load_from_local env now clock ca)"

definition archive_optimize :: "fs_env \<Rightarrow> contact_archive \<Rightarrow> contact_archive" where
  "archive_optimize env ca =
     (if need_optimize (ca_index ca) then ca\<lparr>ca_index := index_optimize env (ca_index ca)\<rparr> else ca)"

definition archive_free :: "contact_archive \<Rightarrow> contact_archive" where
  "archive_free ca = ca\<lparr>ca_index := index_free (ca_index ca), ca_gallery := gallery_free (ca_gallery ca),
     ca_local_loaded := False\<rparr>"

definition add_mention :: "fs_env \<Rightarrow> history_message \<Rightarrow> contact_archive \<Rightarrow> contact_archive" where
  "add_mention env m ca = ca\<lparr>ca_mentions := mentions_add env m (ca_mentions ca)\<rparr>"

subsection \<open>The gallery of the contact\<close>

definition merge_server_gallery ::
    "fs_env \<Rightarrow> gallery_storage \<Rightarrow> gallery_entry_id \<Rightarrow> gallery_entry_id \<Rightarrow> contact_archive \<Rightarrow>
       gallery_item list \<times> contact_archive" where
  "merge_server_gallery env other from till ca =
     (let (changes, g) = merge_from_server env other from till (ca_gallery ca)
      in (changes, ca\<lparr>ca_gallery := g\<rparr>))"

definition set_gallery_state :: "fs_env \<Rightarrow> gallery_state \<Rightarrow> bool \<Rightarrow> contact_archive \<Rightarrow> contact_archive" where
  "set_gallery_state env s store_patch_version ca =
     ca\<lparr>ca_gallery := gallery_set_state env s store_patch_version (ca_gallery ca)\<rparr>"

definition get_gallery_holes ::
    "fs_env \<Rightarrow> int \<Rightarrow> contact_archive \<Rightarrow> (gallery_entry_id \<times> gallery_entry_id) option \<times> contact_archive" where
  "get_gallery_holes env now ca =
     (let (hole, g) = gallery_next_hole env now (ca_gallery ca)
      in (hole, ca\<lparr>ca_gallery := g\<rparr>))"

definition get_gallery_entries ::
    "gallery_entry_id \<Rightarrow> str list \<Rightarrow> int \<Rightarrow> contact_archive \<Rightarrow> gallery_item list \<times> bool option" where
  "get_gallery_entries from types page ca = get_items from types page (ca_gallery ca)"

definition get_gallery_entries_by_msg ::
    "i64w \<Rightarrow> str list \<Rightarrow> contact_archive \<Rightarrow> gallery_item list \<times> (nat \<times> nat) option" where
  "get_gallery_entries_by_msg m types ca = get_items_of_message m types (ca_gallery ca)"

definition archive_clear_hole_request :: "contact_archive \<Rightarrow> contact_archive" where
  "archive_clear_hole_request ca = ca\<lparr>ca_gallery := clear_hole_request (ca_gallery ca)\<rparr>"

definition make_gallery_hole :: "fs_env \<Rightarrow> i64w \<Rightarrow> i64w \<Rightarrow> contact_archive \<Rightarrow> contact_archive" where
  "make_gallery_hole env from till ca = ca\<lparr>ca_gallery := make_hole env from till (ca_gallery ca)\<rparr>"

definition load_gallery_state_from_local :: "fs_env \<Rightarrow> contact_archive \<Rightarrow> contact_archive" where
  "load_gallery_state_from_local env ca = ca\<lparr>ca_gallery := snd (load_state_from_local env (ca_gallery ca))\<rparr>"

subsection \<open>The loop of a range request ends\<close>

lemma before_lb_shorter: "ordered m \<Longrightarrow> e \<in> set m \<Longrightarrow> length (before_lb (fst e) m) < length m"
  by (induction m) (auto simp: before_lb_def)

lemma before_lb_before_lb: "k \<le> from \<Longrightarrow> before_lb k (before_lb from m) = before_lb k m"
  by (induction m) (auto simp: before_lb_def)

lemma serialize_from_early:
  assumes "serialize_from ai from early later [] False = (b, h # hs)"
    and "\<forall>h \<in> set (h # hs). is_patch h \<or> is_deleted h" and "index_wf ai"
  shows "length (before_lb (get_id h) (headers_index ai)) <
      length (if from = -1 then headers_index ai else before_lb from (headers_index ai))"
    and "get_id h \<noteq> -1"
proof -
  define before where "before = (if from = -1 then headers_index ai else before_lb from (headers_index ai))"
  have ne: "headers_index ai \<noteq> []" "from = -1 \<or> from_lb from (headers_index ai) \<noteq> []"
    using assms(1) by (auto simp: serialize_from_def Let_def split: if_splits)
  define E where "E = (if early > 0 then rev (first_alive (nat early) (rev (visible before))) else [])"
  define L where "L = (if later > 0 \<and> from \<noteq> -1
       then take (nat later) (filter (\<lambda>h. \<not> is_deleted h) (visible (from_lb from (headers_index ai)))) else [])"
  have "h # hs = E @ L"
    using serialize_from_eq [OF ne, of early later "[]" False] assms(1)
    by (simp add: E_def L_def before_def split: if_splits)
  moreover have "\<not> is_deleted x \<and> \<not> is_patch x" if "x \<in> set L" for x
    using that by (auto simp: L_def visible_def dest!: in_set_takeD split: if_splits)
  ultimately have "h \<in> set E"
    using assms(2) by (cases E) auto
  moreover have "set (first_alive (nat early) (rev (visible before))) \<subseteq> set (rev (visible before))"
    using first_alive_prefix [of "rev (visible before)" "nat early"] by (metis Un_upper1 set_append)
  ultimately have "h \<in> set (visible before)"
    by (auto simp: E_def split: if_splits)
  then obtain e where e: "e \<in> set before" "snd e = h" by (auto simp: visible_def)
  have ord: "ordered before" "set before \<subseteq> set (headers_index ai)"
    using assms(3) ordered_before_lb by (auto simp: before_def index_wf_def before_lb_def dest: set_takeWhileD)
  then have id: "get_id h = fst e" "0 < fst e"
    using e assms(3) by (auto simp: index_wf_def)
  then show "get_id h \<noteq> -1" by simp
  have "before_lb (fst e) before = before_lb (fst e) (headers_index ai)"
    using before_lb_before_lb [of "fst e" "from" "headers_index ai"] before_lb_less [of e "from" "headers_index ai"] e(1)
    by (auto simp: before_def split: if_splits)
  then show "length (before_lb (get_id h) (headers_index ai)) <
      length (if from = -1 then headers_index ai else before_lb from (headers_index ai))"
    using before_lb_shorter [OF ord(1) e(1)] id(1) by (simp add: before_def)
qed

lemma collect_early_set:
  "set es \<subseteq> M \<Longrightarrow> set acc \<subseteq> snd ` M \<Longrightarrow> set (collect_early c n es acc) \<subseteq> snd ` M"
  by (induction c n es acc rule: collect_early.induct) auto

lemma collect_later_set:
  "set es \<subseteq> M \<Longrightarrow> set acc \<subseteq> snd ` M \<Longrightarrow> set (collect_later c n es acc) \<subseteq> snd ` M"
  by (induction c n es acc rule: collect_later.induct) (auto simp: Let_def)

lemma set_before_from_lb: "set (before_lb k m) \<subseteq> set m" "set (from_lb k m) \<subseteq> set m"
  by (auto simp: before_lb_def from_lb_def dest: set_takeWhileD set_dropWhileD)

lemma serialize_from_headers:
  assumes "serialize_from ai from early later [] False = (b, headers)"
  shows "set headers \<subseteq> snd ` set (headers_index ai)"
proof -
  have "set (snd (serialize_from ai from early later [] False)) \<subseteq> snd ` set (headers_index ai)"
    unfolding serialize_from_def Let_def
    by (simp add: collect_early_set collect_later_set set_before_from_lb)
  then show ?thesis using assms by simp
qed

text \<open>With the headers of a range request, reading either gives messages or breaks down.\<close>

lemma get_messages_loop_ends:
  assumes "index_wf ai"
  shows "(\<exists>ms st'. get_messages_loop env ai early later policy st from [] = Some (ms, st')) \<or>
    (\<exists>hs. hs \<noteq> [] \<and> set hs \<subseteq> snd ` set (headers_index ai) \<and> fst (get_messages env hs [] st) = None)"
proof (induction "length (if from = -1 then headers_index ai else before_lb from (headers_index ai))"
    arbitrary: "from" rule: less_induct)
  case less
  obtain b headers where h: "serialize_from ai from early later [] False = (b, headers)" by (metis surj_pair)
  have sub: "set headers \<subseteq> snd ` set (headers_index ai)"
    using serialize_from_headers [OF h] by simp
  define headers1 where "headers1 = (if policy = skip_patches_and_deleted
      then filter (\<lambda>h. \<not> (is_patch h \<or> is_deleted h)) headers else headers)"
  note step = get_messages_loop.simps [of env ai early later policy st "from" "[]", unfolded h snd_conv Let_def,
      folded headers1_def]
  show ?case
  proof (cases headers)
    case Nil
    then show ?thesis using step by simp
  next
    case (Cons x xs)
    show ?thesis
    proof (cases "policy = skip_patches_and_deleted \<and> headers1 = []")
      case True
      then have all: "\<forall>h \<in> set (x # xs). is_patch h \<or> is_deleted h"
        using Cons by (auto simp: headers1_def filter_empty_conv split: if_splits)
      note e = serialize_from_early [OF h [unfolded Cons] all assms]
      have "length (if get_id x = -1 then headers_index ai else before_lb (get_id x) (headers_index ai)) <
          length (if from = -1 then headers_index ai else before_lb from (headers_index ai))"
        using e by simp
      from less [OF this] show ?thesis
        using True Cons step by simp
    next
      case False
      then have ne: "headers1 \<noteq> []" "set headers1 \<subseteq> snd ` set (headers_index ai)"
        using Cons sub by (auto simp: headers1_def)
      obtain r st1 where r: "get_messages env headers1 [] st = (r, st1)" by (metis surj_pair)
      then have loop: "get_messages_loop env ai early later policy st from [] =
          (case r of None \<Rightarrow> None | Some (errs, ms) \<Rightarrow> Some (ms, st1))"
        using False Cons step by (auto split: option.split)
      show ?thesis
        using loop ne r by (cases r) auto
    qed
  qed
qed

end
