(* ===== verification/Contact_Properties.thy ===== *)
theory Contact_Properties
  imports Samples Contact_Archive Index_Steps
begin

section \<open>Properties of a contact's archive\<close>

text \<open>
  Requests for messages, the insertion of a block of history and the deletion of old messages,
  over the index, the data file and the dialog state together.
\<close>

declare map_of_append [simp del]

subsection \<open>Reading what the index knows\<close>

text \<open>The data file has a message and its edits at every place the index records.\<close>

definition rendered :: "bytes \<Rightarrow> message_header \<Rightarrow> history_message \<Rightarrow> bool" where
  "rendered f h x \<longleftrightarrow> (\<exists>m es. stored_at f h m \<and> list_all2 (stored_at f) (edits_of h) es \<and>
     length es \<le> 1024 \<and> x = shown h es m)"

definition readable :: "bytes \<Rightarrow> archive_index \<Rightarrow> bool" where
  "readable f ai \<longleftrightarrow> (\<forall>h \<in> snd ` set (headers_index ai). \<exists>x. rendered f h x)"

lemma rendered_parts:
  "list_all2 (rendered f) hs xs \<Longrightarrow> \<exists>ms ess. list_all2 (stored_at f) hs ms \<and>
     list_all2 (\<lambda>h es. list_all2 (stored_at f) (edits_of h) es \<and> length es \<le> 1024) hs ess \<and>
     xs = map (\<lambda>(h, es, m). shown h es m) (zip hs (zip ess ms))"
proof (induction hs xs rule: list_all2_induct)
  case (Cons h hs x xs)
  then obtain ms ess m es where "list_all2 (stored_at f) hs ms" "stored_at f h m"
    "list_all2 (\<lambda>h es. list_all2 (stored_at f) (edits_of h) es \<and> length es \<le> 1024) hs ess"
    "list_all2 (stored_at f) (edits_of h) es" "length es \<le> 1024" "x = shown h es m"
    "xs = map (\<lambda>(h, es, m). shown h es m) (zip hs (zip ess ms))"
    by (auto simp: rendered_def)
  then show ?case by (intro exI [of _ "m # ms"] exI [of _ "es # ess"]) simp
qed simp

lemma get_messages_rendered:
  assumes "can_open env" and "file_stream st = None" and "file_data st = Some f"
    and "list_all2 (rendered f) hs xs"
  shows "\<exists>st'. get_messages env hs [] st = (Some ([], xs), st') \<and> file_data st' = Some f \<and> file_stream st' = None"
  using rendered_parts [OF assms(4)] get_messages_stored [OF assms(1-3)] by blast

lemma readable_headers:
  assumes "readable f ai" and "set hs \<subseteq> snd ` set (headers_index ai)"
  shows "\<exists>xs. list_all2 (rendered f) hs xs"
proof -
  have "\<forall>h \<in> set hs. \<exists>x. rendered f h x"
    by (intro ballI, rule bspec [OF assms(1) [unfolded readable_def] subsetD [OF assms(2)]])
  then show ?thesis by (induction hs) (auto simp: list_all2_Cons1)
qed

text \<open>The entries in front of which a range request starts.\<close>

definition range_before :: "int \<Rightarrow> archive_index \<Rightarrow> (int \<times> message_header) list" where
  "range_before from ai = (if from = -1 then headers_index ai else before_lb from (headers_index ai))"

lemma nothing_alive_before:
  assumes "serialize_from ai from early later [] False = (b, hs)" and "0 < early"
    and "from = -1 \<or> from_lb from (headers_index ai) \<noteq> []" and "\<forall>h \<in> set hs. is_patch h \<or> is_deleted h"
  shows "\<forall>e \<in> set (range_before from ai). is_patch (snd e) \<or> is_deleted (snd e)"
proof (cases "headers_index ai = []")
  case True
  then show ?thesis by (simp add: range_before_def before_lb_def)
next
  case False
  let ?B = "rev (visible (range_before from ai))"
  have "set (first_alive (nat early) ?B) \<subseteq> set hs"
    using serialize_from_eq [OF False assms(3), of early later "[]" False] assms(1,2)
    by (auto simp: range_before_def)
  moreover have "set (first_alive (nat early) ?B) \<subseteq> set ?B"
    using first_alive_prefix [of ?B "nat early"] by (metis Un_upper1 set_append)
  ultimately have "\<forall>h \<in> set (first_alive (nat early) ?B). is_deleted h"
    using assms(4) by (auto simp: visible_def)
  then have "filter (\<lambda>h. \<not> is_deleted h) (first_alive (nat early) ?B) = []"
    by (simp add: filter_empty_conv)
  then have "min (nat early) (length (filter (\<lambda>h. \<not> is_deleted h) ?B)) = 0"
    using alive_first_alive [of "nat early" ?B] by simp
  then have "length (filter (\<lambda>h. \<not> is_deleted h) ?B) = 0" using assms(2) by linarith
  then have "filter (\<lambda>h. \<not> is_deleted h) ?B = []" by (simp only: length_0_conv)
  then show ?thesis by (auto simp: filter_empty_conv visible_def)
qed

lemma key_in_from_lb:
  assumes "e \<in> set m" shows "from_lb (fst e) m \<noteq> []"
  using assms by (auto simp: from_lb_def dropWhile_eq_Nil_conv)

lemma get_messages_loop_readable:
  assumes "can_open env" and "file_stream st = None" and "file_data st = Some f"
    and "readable f ai" and "index_wf ai" and "0 < early"
  shows "from = -1 \<or> from_lb from (headers_index ai) \<noteq> [] \<Longrightarrow>
    \<exists>hs xs st'. get_messages_loop env ai early later policy st from [] = Some (xs, st') \<and>
      list_all2 (rendered f) hs xs \<and> set hs \<subseteq> snd ` set (headers_index ai) \<and>
      (policy = skip_patches_and_deleted \<longrightarrow> (\<forall>h \<in> set hs. \<not> is_patch h \<and> \<not> is_deleted h)) \<and>
      (hs = [] \<longrightarrow> (\<forall>e \<in> set (range_before from ai). is_patch (snd e) \<or> is_deleted (snd e)))"
proof (induction "length (range_before from ai)" arbitrary: "from" rule: less_induct)
  case less
  obtain b headers where h: "serialize_from ai from early later [] False = (b, headers)" by (metis surj_pair)
  have sub: "set headers \<subseteq> snd ` set (headers_index ai)"
    using serialize_from_headers [OF h] .
  note none_alive = nothing_alive_before [OF h assms(6) less.prems]
  define headers1 where "headers1 = (if policy = skip_patches_and_deleted
      then filter (\<lambda>h. \<not> (is_patch h \<or> is_deleted h)) headers else headers)"
  note step = get_messages_loop.simps [of env ai early later policy st "from" "[]", unfolded h snd_conv Let_def,
      folded headers1_def]
  show ?case
  proof (cases headers)
    case Nil
    then have "\<forall>e \<in> set (range_before from ai). is_patch (snd e) \<or> is_deleted (snd e)"
      using none_alive by simp
    then show ?thesis using Nil step by (intro exI [of _ "[]"]) simp
  next
    case (Cons x xs)
    show ?thesis
    proof (cases "policy = skip_patches_and_deleted \<and> headers1 = []")
      case True
      then have all: "\<forall>h \<in> set headers. is_patch h \<or> is_deleted h"
        by (auto simp: headers1_def filter_empty_conv)
      note e = serialize_from_early [OF h [unfolded Cons] all [unfolded Cons] assms(5)]
      obtain y where y: "y \<in> set (headers_index ai)" "snd y = x" using sub Cons by auto
      then have "get_id x = fst y" using assms(5) by (auto simp: index_wf_def)
      then have lb: "get_id x = -1 \<or> from_lb (get_id x) (headers_index ai) \<noteq> []"
        using key_in_from_lb [OF y(1)] by simp
      have "length (range_before (get_id x) ai) < length (range_before from ai)"
        using e by (simp add: range_before_def)
      from less.hyps [OF this lb] show ?thesis
        using True Cons step none_alive [OF all] by auto
    next
      case False
      then have ne: "headers1 \<noteq> []" "set headers1 \<subseteq> snd ` set (headers_index ai)"
        using Cons sub by (auto simp: headers1_def)
      obtain xs' where xs': "list_all2 (rendered f) headers1 xs'"
        using readable_headers [OF assms(4) ne(2)] by blast
      from get_messages_rendered [OF assms(1-3) this] obtain st' where
        "get_messages env headers1 [] st = (Some ([], xs'), st')" by blast
      then show ?thesis
        using False Cons step ne xs'
        by (intro exI [of _ headers1] exI [of _ xs'] exI [of _ st']) (auto simp: headers1_def)
    qed
  qed
qed

text \<open>C14: A request for the messages before a point always returns, however many deleted messages and edits
  lie in between: what it returns are messages of the index as the data file has them, with their
  edits applied, none of them deleted or an edit when the caller asked to skip these; and it is empty
  only when no message before the point is left.\<close>

theorem range_request_pages_back:
  assumes "can_open env" and "file_stream (ca_data ca) = None" and "file_data (ca_data ca) = Some f"
    and "readable f (ca_index ca)" and "index_wf (ca_index ca)" and "0 < early"
    and "from = -1 \<or> from_lb from (headers_index (ca_index ca)) \<noteq> []"
  shows "\<exists>hs xs ca1. archive_get_messages env from early later policy ca = Some (xs, ca1) \<and>
    list_all2 (rendered f) hs xs \<and> set hs \<subseteq> snd ` set (headers_index (ca_index ca)) \<and>
    (policy = skip_patches_and_deleted \<longrightarrow> (\<forall>h \<in> set hs. \<not> is_patch h \<and> \<not> is_deleted h)) \<and>
    (xs = [] \<longrightarrow> (\<forall>e \<in> set (range_before from (ca_index ca)). is_patch (snd e) \<or> is_deleted (snd e)))"
proof -
  obtain hs xs st' where "get_messages_loop env (ca_index ca) early later policy (ca_data ca) from [] = Some (xs, st')"
    "list_all2 (rendered f) hs xs" "set hs \<subseteq> snd ` set (headers_index (ca_index ca))"
    "policy = skip_patches_and_deleted \<longrightarrow> (\<forall>h \<in> set hs. \<not> is_patch h \<and> \<not> is_deleted h)"
    "hs = [] \<longrightarrow> (\<forall>e \<in> set (range_before from (ca_index ca)). is_patch (snd e) \<or> is_deleted (snd e))"
    using get_messages_loop_readable [OF assms(1-6), of "from" later policy] assms(7) by blast
  then show ?thesis
    by (intro exI [of _ hs] exI [of _ xs] exI [of _ "ca\<lparr>ca_data := st'\<rparr>"]) (auto simp: archive_get_messages_def)
qed

definition sample_archive :: "bytes \<Rightarrow> (int \<times> message_header) list \<Rightarrow> contact_archive" where
  "sample_archive f es = \<lparr>ca_index = sample_index\<lparr>headers_index := es\<rparr>,
     ca_data = sample_storage\<lparr>file_data := Some f\<rparr>,
     ca_state = \<lparr>as_state = Some dlg_state_new, as_storage = sample_storage\<rparr>,
     ca_mentions = \<lparr>mm_loaded = True, mm_storage = sample_storage, mm_messages = []\<rparr>,
     ca_gallery = gallery_new 0 sample_storage sample_storage, ca_local_loaded = True\<rparr>"

lemma sample_archive_fields [simp]:
  "headers_index (ca_index (sample_archive f es)) = es" "ai_storage (ca_index (sample_archive f es)) = sample_storage"
  "file_data (ca_data (sample_archive f es)) = Some f" "file_stream (ca_data (sample_archive f es)) = None"
  "free_space (ca_data (sample_archive f es)) = 4096"
  "as_state (ca_state (sample_archive f es)) = Some dlg_state_new"
  by (simp_all add: sample_archive_def sample_index_def sample_storage_def storage_new_def)

lemma sample_stored: "stored_at (block_bytes (message_bytes sample_message)) (sample_header 5 (-1) fl) sample_message"
proof -
  have "dec_block (block_bytes (message_bytes sample_message) @ []) = Some (message_bytes sample_message, [])"
    using sample_messages_ok(1) by (intro dec_block_block_bytes) (simp add: message_ok_def)
  then show ?thesis by (auto simp: stored_at_def header_offset_def)
qed

theorem range_request_pages_back_witness:
  "\<exists>x xs ca1. archive_get_messages sample_env (-1) 10 0 skip_patches_and_deleted
     (sample_archive (block_bytes (message_bytes sample_message)) [(5, sample_header 5 (-1) 0)]) = Some (x # xs, ca1)"
proof -
  let ?f = "block_bytes (message_bytes sample_message)"
  let ?ca = "sample_archive ?f [(5, sample_header 5 (-1) 0)]"
  have alive: "\<not> is_modified (sample_header 5 (-1) 0)" "\<not> is_patch (sample_header 5 (-1) 0)"
    "\<not> is_deleted (sample_header 5 (-1) 0)"
    by (simp_all add: is_modified_def is_patch_def is_deleted_def flag_def)
  have "readable ?f (ca_index ?ca)"
    using sample_stored [of 0] alive(1) by (auto simp: readable_def rendered_def edits_of_def)
  moreover have "index_wf (ca_index ?ca)" by (simp add: index_wf_def)
  ultimately show ?thesis
    using range_request_pages_back [OF sample_env_opens sample_archive_fields(4,3), of ?f "[(5, sample_header 5 (-1) 0)]" 10 "-1" 0
        skip_patches_and_deleted] alive
    by (auto simp: range_before_def neq_Nil_conv)
qed

subsection \<open>Deleting old messages\<close>

text \<open>C40: Deleting the messages up to an identifier leaves the dialog's state as it is: the cleared last
  message and last identifier are rejected by the merge as an obsolete state, so a dialog whose last
  message was deleted still shows it; the index itself keeps only the newer messages.\<close>

theorem deletion_keeps_last_message:
  assumes "archive_delete_up_to env now up_to ca = Some ca1" and "as_state (ca_state ca) = Some dlg"
    and "index_wf (ca_index ca)"
  shows "ca_state ca1 = ca_state ca \<and>
    fst ` set (headers_index (ca_index ca1)) = {k \<in> fst ` set (headers_index (ca_index ca)). up_to < k}"
proof -
  have state: "ca_state ca = \<lparr>as_state = Some dlg, as_storage = as_storage (ca_state ca)\<rparr>"
    using assms(2) by (cases "ca_state ca") simp
  have "get_dlg_state env ca = Some (dlg, ca)" by (simp add: get_dlg_state_def get_state_def assms(2))
  moreover have "snd (set_dlg_state env now (clear_last_msgid (clear_last_message dlg)) changes_new ca) = ca"
    using state by (simp add: set_dlg_state_def set_state_def assms(2) clearing_is_obsolete)
  ultimately have "ca1 = ca\<lparr>ca_index := delete_up_to env up_to (ca_index ca)\<rparr>"
    using assms(1) by (simp add: archive_delete_up_to_def Let_def split: if_splits)
  then show ?thesis using delete_up_to_keys(1) [OF assms(3)] by simp
qed

theorem deletion_keeps_last_message_witness:
  "\<exists>ca1. archive_delete_up_to sample_env 0 9
       ((sample_archive [] [(5, sample_header 5 (-1) 0)])\<lparr>ca_state :=
          \<lparr>as_state = Some (dlg_state_new\<lparr>ds_last_msgid := 5\<rparr>), as_storage = sample_storage\<rparr>\<rparr>) = Some ca1 \<and>
     map_option ds_last_msgid (as_state (ca_state ca1)) = Some 5"
proof -
  let ?ca = "(sample_archive [] [(5, sample_header 5 (-1) 0)])\<lparr>ca_state :=
          \<lparr>as_state = Some (dlg_state_new\<lparr>ds_last_msgid := 5\<rparr>), as_storage = sample_storage\<rparr>\<rparr>"
  obtain ca1 where d: "archive_delete_up_to sample_env 0 9 ?ca = Some ca1"
    by (simp add: archive_delete_up_to_def get_dlg_state_def get_state_def)
  have "index_wf (ca_index ?ca)" by (simp add: index_wf_def)
  then show ?thesis using d deletion_keeps_last_message [OF d] by simp
qed

end
