(* ===== verification/Not_Sent_Messages.thy ===== *)
theory Not_Sent_Messages
  imports Messages_Data
begin

section \<open>Messages that are not delivered yet: core/archive/not_sent_messages\<close>

text \<open>
  A message to be sent, a request to delete one, and \<open>pending_operations\<close>, which keeps both by
  contact, each kind in a block file that is rewritten on every change. A pending message is a value
  here: the code shares its \<open>history_message\<close> with the caller. The clock, the generator of
  identifiers and the existence of a local file are arguments.
\<close>

subsection \<open>A pending message\<close>

type_synonym delete_operation = i32w

definition del_min :: delete_operation where "del_min = 0"
definition del_up_to_op :: delete_operation where "del_up_to_op = 2"
definition del_for_me :: delete_operation where "del_for_me = 3"
definition del_for_all :: delete_operation where "del_for_all = 4"
definition del_max :: delete_operation where "del_max = 5"

definition nf_contact :: u32w where "nf_contact = 1"
definition nf_message :: u32w where "nf_message = 2"
definition nf_duplicated :: u32w where "nf_duplicated = 3"
definition nf_modified :: u32w where "nf_modified = 4"
definition nf_network_request_id :: u32w where "nf_network_request_id = 5"
definition nf_deleted :: u32w where "nf_deleted = 6"
definition nf_delete_op :: u32w where "nf_delete_op = 7"

lemmas nf_defs = nf_contact_def nf_message_def nf_duplicated_def nf_modified_def
  nf_network_request_id_def nf_deleted_def nf_delete_op_def

record not_sent_message =
  ns_aimid :: str
  ns_message :: history_message
  ns_duplicated :: bool
  ns_post_time :: int
  ns_calc_sent_stat :: bool
  ns_create_time :: int
  ns_updated_id :: i64w
  ns_modified :: bool
  ns_network_request_id :: str
  ns_deleted :: bool
  ns_delete_operation :: delete_operation

definition not_sent_new :: "int \<Rightarrow> not_sent_message" where
  "not_sent_new now = \<lparr>ns_aimid = [], ns_message = history_message_new, ns_duplicated = False,
     ns_post_time = 0, ns_calc_sent_stat = False, ns_create_time = now, ns_updated_id = -1,
     ns_modified = False, ns_network_request_id = [], ns_deleted = False,
     ns_delete_operation = del_for_all\<rparr>"

definition str_contains :: "str \<Rightarrow> str \<Rightarrow> bool" where
  "str_contains s p \<longleftrightarrow> list_ex (\<lambda>i. take (length p) (drop i s) = p) [0..<Suc (length s)]"

definition not_sent_create ::
    "str \<Rightarrow> str \<Rightarrow> message_type \<Rightarrow> u64w \<Rightarrow> str \<Rightarrow> str \<Rightarrow> int \<Rightarrow> not_sent_message" where
  "not_sent_create aimid body ty message_time internal_id generated now =
     (let m1 = history_message_new\<lparr>hm_internal_id := (if internal_id = [] then generated else internal_id)\<rparr>;
          m2 = (set_outgoing True m1)\<lparr>hm_time := message_time\<rparr>;
          m3 = (if ty = Sticker then init_sticker_from_text body m2 else set_text body m2);
          m4 = (if str_contains aimid (ascii ''@chat.agent'') then set_chat_data chat_data_new m3 else m3)
      in (not_sent_new now)\<lparr>ns_aimid := aimid, ns_message := m4\<rparr>)"

text \<open>A message that replaces another: what the copy leaves out gets its initial value.\<close>

definition not_sent_resend :: "not_sent_message \<Rightarrow> str \<Rightarrow> u64w \<Rightarrow> int \<Rightarrow> not_sent_message" where
  "not_sent_resend x wimid message_time now =
     (not_sent_new now)\<lparr>ns_aimid := ns_aimid x, ns_duplicated := ns_duplicated x,
        ns_post_time := ns_post_time x,
        ns_message := (ns_message x)\<lparr>hm_wimid := wimid, hm_time := message_time\<rparr>,
        ns_modified := ns_modified x, ns_network_request_id := ns_network_request_id x,
        ns_deleted := ns_deleted x, ns_delete_operation := ns_delete_operation x\<rparr>"

definition content_ptt :: i32w where "content_ptt = 5"

definition make_outgoing_file_sharing ::
    "(str \<Rightarrow> bool) \<Rightarrow> str \<Rightarrow> int \<Rightarrow> str \<Rightarrow> u64w \<Rightarrow> str \<Rightarrow> quote list \<Rightarrow> str \<Rightarrow> (str \<times> str) list \<Rightarrow>
       i64w option \<Rightarrow> not_sent_message option" where
  "make_outgoing_file_sharing is_exist generated now aimid message_time local_path quotes description mentions duration =
     (let x = not_sent_create aimid [] File_sharing message_time [] generated now;
          (found, m) = init_file_sharing_from_local_path is_exist local_path duration
            (if duration \<noteq> None then Some content_ptt else None) (ns_message x)
      in if \<not> found then None
         else Some (x\<lparr>ns_message :=
           set_mentions mentions (attach_quotes quotes (m\<lparr>hm_description := description\<rparr>))\<rparr>))"

definition make_incoming_file_sharing :: "int \<Rightarrow> str \<Rightarrow> u64w \<Rightarrow> str \<Rightarrow> str \<Rightarrow> str \<Rightarrow> not_sent_message" where
  "make_incoming_file_sharing now aimid message_time uri internal_id generated =
     (let x = not_sent_create aimid uri File_sharing message_time internal_id generated now
      in x\<lparr>ns_message := init_file_sharing_from_link uri (ns_message x)\<rparr>)"

definition ns_internal_id :: "not_sent_message \<Rightarrow> str" where
  "ns_internal_id x = hm_internal_id (ns_message x)"

definition get_network_request_id :: "not_sent_message \<Rightarrow> str" where
  "get_network_request_id x =
     (if ns_network_request_id x = [] then ns_internal_id x else ns_network_request_id x)"

definition set_updated_id :: "i64w \<Rightarrow> not_sent_message \<Rightarrow> not_sent_message" where
  "set_updated_id v x = x\<lparr>ns_message := (ns_message x)\<lparr>hm_msgid := v\<rparr>\<rparr>"

definition is_ready_to_send :: "not_sent_message \<Rightarrow> bool" where
  "is_ready_to_send x =
     (if ns_duplicated x then False
      else case hm_file_sharing (ns_message x) of
             Some fs \<Rightarrow> fs_local_path fs = []
           | None \<Rightarrow> True)"

definition mark_duplicated :: "not_sent_message \<Rightarrow> not_sent_message" where
  "mark_duplicated x = x\<lparr>ns_duplicated := True\<rparr>"

definition set_failed :: "not_sent_message \<Rightarrow> not_sent_message" where
  "set_failed x = x\<lparr>ns_duplicated := False\<rparr>"

definition set_delete_operation :: "delete_operation \<Rightarrow> not_sent_message \<Rightarrow> not_sent_message" where
  "set_delete_operation op x =
     x\<lparr>ns_delete_operation := op,
       ns_message := (if op = del_for_all then the (make_modified (Some (ns_message x)))
                      else if op = del_for_me then the (make_deleted (Some (ns_message x)))
                      else ns_message x)\<rparr>"

definition not_sent_serialize :: "not_sent_message \<Rightarrow> tlvpack \<Rightarrow> tlvpack" where
  "not_sent_serialize x p =
     push_message nf_message (ns_message x) (fold (\<lambda>t p. push_child p t)
       [tlv_string nf_contact (ns_aimid x),
        tlv_scalar nf_duplicated (mem_of_bool (ns_duplicated x)),
        tlv_scalar nf_modified (mem_of_bool (ns_modified x)),
        tlv_string nf_network_request_id (ns_network_request_id x),
        tlv_scalar nf_deleted (mem_of_bool (ns_deleted x)),
        tlv_scalar nf_delete_op (mem_of 4 (ns_delete_operation x))] p)"

text \<open>The message of a pack, if it is one; \<open>None\<close> when parsing it dereferences a null pointer.\<close>

definition not_sent_of_pack :: "int \<Rightarrow> tlvpack \<Rightarrow> not_sent_message option option" where
  "not_sent_of_pack now p =
     (case (get_item p nf_message, get_item p nf_contact) of
        (Some tm, Some ta) \<Rightarrow>
          let x0 = not_sent_new now;
              x = x0\<lparr>ns_aimid := str_value ta,
                ns_duplicated := field_or p nf_duplicated bool_value (ns_duplicated x0),
                ns_modified := field_or p nf_modified bool_value (ns_modified x0),
                ns_network_request_id := field_or p nf_network_request_id str_value (ns_network_request_id x0),
                ns_deleted := field_or p nf_deleted bool_value (ns_deleted x0),
                ns_delete_operation := field_or p nf_delete_op i32_value (ns_delete_operation x0)\<rparr>
          in map_option (\<lambda>(rc, m). if rc = 0 then Some (x\<lparr>ns_message := m\<rparr>) else None)
               (fst (message_unserialize (ns_message x) (get_stream tm)))
      | _ \<Rightarrow> Some None)"

subsection \<open>A request to delete a message\<close>

definition dmf_contact :: u32w where "dmf_contact = 1"
definition dmf_message_id :: u32w where "dmf_message_id = 2"
definition dmf_internal_id :: u32w where "dmf_internal_id = 3"
definition dmf_operation :: u32w where "dmf_operation = 4"

lemmas dmf_defs = dmf_contact_def dmf_message_id_def dmf_internal_id_def dmf_operation_def

record delete_message =
  dm_aimid :: str
  dm_message_id :: i64w
  dm_internal_id :: str
  dm_operation :: delete_operation

definition delete_message_new :: delete_message where
  "delete_message_new = \<lparr>dm_aimid = [], dm_message_id = -1, dm_internal_id = [], dm_operation = del_min\<rparr>"

definition dm_eq :: "delete_message \<Rightarrow> delete_message \<Rightarrow> bool" where
  "dm_eq d e \<longleftrightarrow> dm_message_id d = dm_message_id e \<and> dm_operation d = dm_operation e"

definition delete_serialize :: "delete_message \<Rightarrow> tlvpack \<Rightarrow> tlvpack" where
  "delete_serialize d p = fold (\<lambda>t p. push_child p t)
     [tlv_string dmf_contact (dm_aimid d), tlv_scalar dmf_message_id (mem_of 8 (dm_message_id d)),
      tlv_string dmf_internal_id (dm_internal_id d),
      tlv_scalar dmf_operation (mem_of 4 (dm_operation d))] p"

definition delete_of_pack :: "tlvpack \<Rightarrow> delete_message option" where
  "delete_of_pack p =
     (case (get_item p dmf_contact, get_item p dmf_message_id, get_item p dmf_operation, get_item p dmf_internal_id) of
        (Some ta, Some tm, Some to, Some ti) \<Rightarrow>
          let op = i32_value to
          in if sint op \<le> sint del_min \<or> sint del_max \<le> sint op then None
             else Some \<lparr>dm_aimid = str_value ta, dm_message_id = i64_value tm,
               dm_internal_id = str_value ti, dm_operation = op\<rparr>
      | _ \<Rightarrow> None)"

subsection \<open>Pending operations: state and files\<close>

record pending_operations =
  po_messages :: "(str \<times> not_sent_message list) list"
  po_deletes :: "(str \<times> delete_message list) list"
  po_sent_storage :: storage
  po_delete_storage :: storage
  po_loaded :: bool

text \<open>\<open>entries_of\<close> is the list that \<open>operator[]\<close> of the map gives, \<open>push_entry\<close> appends to it.\<close>

definition entries_of :: "str \<Rightarrow> (str \<times> 'a list) list \<Rightarrow> 'a list" where
  "entries_of aimid m = (case map_find m aimid of Some xs \<Rightarrow> xs | None \<Rightarrow> [])"

definition push_entry :: "str \<Rightarrow> 'a \<Rightarrow> (str \<times> 'a list) list \<Rightarrow> (str \<times> 'a list) list" where
  "push_entry aimid x m = map_put aimid (entries_of aimid m @ [x]) m"

definition push_pack :: "u32w \<Rightarrow> (tlvpack \<Rightarrow> tlvpack) \<Rightarrow> tlvpack \<Rightarrow> tlvpack" where
  "push_pack ty f p = push_child p (tlv_stream ty (snd (tlvpack_serialize (f empty_pack) empty_stream)))"

definition save_pendings ::
    "fs_env \<Rightarrow> ('a \<Rightarrow> tlvpack \<Rightarrow> tlvpack) \<Rightarrow> (str \<times> 'a list) list \<Rightarrow> storage \<Rightarrow> bool \<times> storage" where
  "save_pendings env ser m st0 =
     (case storage_open env (no_mode\<lparr>sm_write := True, sm_truncate := True\<rparr>) st0 of
        (False, st) \<Rightarrow> (False, st)
      | (True, st) \<Rightarrow>
          let pack_root = fold (\<lambda>x. push_pack 0 (ser x)) (concat (map snd m)) empty_pack;
              block_data = snd (tlvpack_serialize pack_root empty_stream);
              (r, _, st1, _) = write_data_block env st block_data 0
          in (result r, storage_close st1))"

text \<open>Entries that do not parse are left out; each goes to the contact it names.\<close>

primrec load_entries ::
    "(tlvpack \<Rightarrow> 'a option option) \<Rightarrow> ('a \<Rightarrow> str) \<Rightarrow> tlv list \<Rightarrow> (str \<times> 'a list) list \<Rightarrow> (str \<times> 'a list) list option" where
  "load_entries mk aimid [] m = Some m"
| "load_entries mk aimid (t # ts) m =
     (let (parsed, p, _) = tlvpack_unserialize empty_pack (get_stream t)
      in if \<not> parsed then load_entries mk aimid ts m
         else case mk p of
                None \<Rightarrow> None
              | Some None \<Rightarrow> load_entries mk aimid ts m
              | Some (Some x) \<Rightarrow> load_entries mk aimid ts (push_entry (aimid x) x m))"

definition load_pendings ::
    "fs_env \<Rightarrow> (tlvpack \<Rightarrow> 'a option option) \<Rightarrow> ('a \<Rightarrow> str) \<Rightarrow> storage \<Rightarrow> (str \<times> 'a list) list \<Rightarrow>
       (bool \<times> (str \<times> 'a list) list) option \<times> storage" where
  "load_pendings env mk aimid st0 m =
     (case storage_open env (no_mode\<lparr>sm_read := True\<rparr>) st0 of
        (False, st) \<Rightarrow> (Some (False, m), st)
      | (True, st) \<Rightarrow>
          (case read_data_block st (-1) empty_stream of
             (False, st1, data) \<Rightarrow> (Some (False, m), storage_close st1)
           | (True, st1, data) \<Rightarrow>
               let (parsed, pack_root, _) = tlvpack_unserialize empty_pack data
               in (if \<not> parsed then Some (False, m)
                   else map_option (Pair True) (load_entries mk aimid (tlvlist pack_root) m),
                   storage_close st1)))"

definition save_sent :: "fs_env \<Rightarrow> pending_operations \<Rightarrow> pending_operations" where
  "save_sent env po =
     po\<lparr>po_sent_storage := snd (save_pendings env not_sent_serialize (po_messages po) (po_sent_storage po))\<rparr>"

definition save_deletes :: "fs_env \<Rightarrow> pending_operations \<Rightarrow> pending_operations" where
  "save_deletes env po =
     po\<lparr>po_delete_storage := snd (save_pendings env delete_serialize (po_deletes po) (po_delete_storage po))\<rparr>"

definition load_sent :: "fs_env \<Rightarrow> int \<Rightarrow> pending_operations \<Rightarrow> pending_operations option" where
  "load_sent env now po =
     (let (r, st) = load_pendings env (not_sent_of_pack now) ns_aimid (po_sent_storage po) (po_messages po)
      in map_option (\<lambda>(_, m). po\<lparr>po_messages := m, po_sent_storage := st\<rparr>) r)"

definition load_deletes :: "fs_env \<Rightarrow> pending_operations \<Rightarrow> pending_operations option" where
  "load_deletes env po =
     (let (r, st) = load_pendings env (\<lambda>p. Some (delete_of_pack p)) dm_aimid (po_delete_storage po) (po_deletes po)
      in map_option (\<lambda>(_, m). po\<lparr>po_deletes := m, po_delete_storage := st\<rparr>) r)"

definition load_if_need :: "fs_env \<Rightarrow> int \<Rightarrow> pending_operations \<Rightarrow> pending_operations option" where
  "load_if_need env now po =
     map_option (\<lambda>po. po\<lparr>po_loaded := True\<rparr>)
       (if \<not> po_loaded po then Option.bind (load_sent env now po) (load_deletes env) else Some po)"

definition pending_operations_new :: "fs_env \<Rightarrow> int \<Rightarrow> storage \<Rightarrow> storage \<Rightarrow> pending_operations option" where
  "pending_operations_new env now sent deletes =
     load_if_need env now \<lparr>po_messages = [], po_deletes = [], po_sent_storage = sent,
       po_delete_storage = deletes, po_loaded = False\<rparr>"

subsection \<open>Searching the pending messages\<close>

text \<open>In the order of the contacts, then in the order of the list.\<close>

primrec find_pending :: "('a \<Rightarrow> bool) \<Rightarrow> (str \<times> 'a list) list \<Rightarrow> 'a option" where
  "find_pending P [] = None"
| "find_pending P (e # es) = (case find P (snd e) of Some x \<Rightarrow> Some x | None \<Rightarrow> find_pending P es)"

primrec update_first :: "('a \<Rightarrow> bool) \<Rightarrow> ('a \<Rightarrow> 'a) \<Rightarrow> 'a list \<Rightarrow> 'a list" where
  "update_first P f [] = []"
| "update_first P f (x # xs) = (if P x then f x # xs else x # update_first P f xs)"

primrec update_pending :: "('a \<Rightarrow> bool) \<Rightarrow> ('a \<Rightarrow> 'a) \<Rightarrow> (str \<times> 'a list) list \<Rightarrow> (str \<times> 'a list) list" where
  "update_pending P f [] = []"
| "update_pending P f (e # es) =
     (if list_ex P (snd e) then (fst e, update_first P f (snd e)) # es else e # update_pending P f es)"

primrec erase_first :: "('a \<Rightarrow> bool) \<Rightarrow> 'a list \<Rightarrow> 'a option \<times> 'a list" where
  "erase_first P [] = (None, [])"
| "erase_first P (x # xs) =
     (if P x then (Some x, xs) else (let (y, ys) = erase_first P xs in (y, x # ys)))"

definition get_message_by_internal_id :: "str \<Rightarrow> pending_operations \<Rightarrow> not_sent_message option" where
  "get_message_by_internal_id iid po = find_pending (\<lambda>x. ns_internal_id x = iid) (po_messages po)"

definition get_first_ready_to_send :: "pending_operations \<Rightarrow> not_sent_message option" where
  "get_first_ready_to_send po = find_pending is_ready_to_send (po_messages po)"

definition exist_message :: "str \<Rightarrow> pending_operations \<Rightarrow> bool" where
  "exist_message aimid po \<longleftrightarrow> entries_of aimid (po_messages po) \<noteq> []"

definition get_pending_file_sharing_messages :: "pending_operations \<Rightarrow> not_sent_message list" where
  "get_pending_file_sharing_messages po =
     filter (\<lambda>x. hm_file_sharing (ns_message x) \<noteq> None \<and> \<not> is_ready_to_send x)
       (concat (map snd (po_messages po)))"

text \<open>A file to be uploaded that is no longer there hides its message.\<close>

definition pending_get_messages :: "(str \<Rightarrow> bool) \<Rightarrow> str \<Rightarrow> pending_operations \<Rightarrow> history_message list" where
  "pending_get_messages is_exist aimid po =
     map (\<lambda>x. hm_copy history_message_new (ns_message x))
       (filter (\<lambda>x. case hm_file_sharing (ns_message x) of
            Some fs \<Rightarrow> \<not> (fs_uri fs = [] \<and> \<not> is_exist (fs_local_path fs)) | None \<Rightarrow> True)
          (entries_of aimid (po_messages po)))"

subsection \<open>Adding and changing\<close>

definition insert_message :: "fs_env \<Rightarrow> str \<Rightarrow> not_sent_message \<Rightarrow> pending_operations \<Rightarrow> pending_operations" where
  "insert_message env aimid x po =
     (let xs = entries_of aimid (po_messages po);
          same = (\<lambda>y. ns_internal_id x = ns_internal_id y);
          xs1 = (if list_ex same xs then update_first same (\<lambda>_. x) xs else xs @ [x])
      in save_sent env (po\<lparr>po_messages := map_put aimid xs1 (po_messages po)\<rparr>))"

definition replace_keeping_file :: "not_sent_message \<Rightarrow> not_sent_message \<Rightarrow> not_sent_message" where
  "replace_keeping_file x y =
     (let fs = (case hm_file_sharing (ns_message y) of Some fs \<Rightarrow> fs | None \<Rightarrow> file_sharing_new)
      in if file_sharing_is_empty fs then x
         else x\<lparr>ns_message := (ns_message x)\<lparr>hm_file_sharing := Some fs\<rparr>\<rparr>)"

definition update_message_if_exist ::
    "fs_env \<Rightarrow> str \<Rightarrow> not_sent_message \<Rightarrow> pending_operations \<Rightarrow> bool \<times> pending_operations" where
  "update_message_if_exist env aimid x po =
     (case map_find (po_messages po) aimid of
        None \<Rightarrow> (False, po)
      | Some xs \<Rightarrow>
          let same = (\<lambda>y. ns_internal_id x = ns_internal_id y)
          in if list_ex same xs
             then (True, save_sent env (po\<lparr>po_messages :=
               map_put aimid (update_first same (replace_keeping_file x) xs) (po_messages po)\<rparr>))
             else (False, po))"

definition update_by_id :: "str \<Rightarrow> (not_sent_message \<Rightarrow> not_sent_message) \<Rightarrow> pending_operations \<Rightarrow> pending_operations" where
  "update_by_id iid f po = po\<lparr>po_messages := update_pending (\<lambda>x. ns_internal_id x = iid) f (po_messages po)\<rparr>"

definition pending_mark_duplicated :: "fs_env \<Rightarrow> str \<Rightarrow> pending_operations \<Rightarrow> pending_operations" where
  "pending_mark_duplicated env iid po =
     (case get_message_by_internal_id iid po of
        None \<Rightarrow> po
      | Some _ \<Rightarrow> save_sent env (update_by_id iid mark_duplicated po))"

definition update_message_post_time :: "str \<Rightarrow> int \<Rightarrow> pending_operations \<Rightarrow> pending_operations" where
  "update_message_post_time iid time_point po =
     (case get_message_by_internal_id iid po of
        None \<Rightarrow> po
      | Some _ \<Rightarrow> update_by_id iid (\<lambda>x. x\<lparr>ns_post_time := time_point\<rparr>) po)"

definition failed_pending_message :: "fs_env \<Rightarrow> str \<Rightarrow> pending_operations \<Rightarrow> pending_operations" where
  "failed_pending_message env iid po =
     (case get_message_by_internal_id iid po of
        None \<Rightarrow> po
      | Some _ \<Rightarrow> save_sent env (update_by_id iid set_failed po))"

subsection \<open>Deleting\<close>

definition concerns :: "delete_message \<Rightarrow> not_sent_message \<Rightarrow> bool" where
  "concerns d x \<longleftrightarrow>
     (0 < sint (dm_message_id d) \<and> dm_message_id d = hm_msgid (ns_message x)) \<or>
     (dm_internal_id d \<noteq> [] \<and> dm_internal_id d = ns_internal_id x)"

definition mark_deleted :: "delete_message \<Rightarrow> not_sent_message \<Rightarrow> not_sent_message" where
  "mark_deleted d x =
     (if concerns d x then set_delete_operation (dm_operation d) (x\<lparr>ns_deleted := True\<rparr>) else x)"

definition insert_deleted_message :: "fs_env \<Rightarrow> str \<Rightarrow> delete_message \<Rightarrow> pending_operations \<Rightarrow> pending_operations" where
  "insert_deleted_message env contact d po =
     (let xs = entries_of contact (po_messages po);
          po1 = (if list_ex (concerns d) xs
                 then save_sent env (po\<lparr>po_messages := map_put contact (map (mark_deleted d) xs) (po_messages po)\<rparr>)
                 else po)
      in if 0 < sint (dm_message_id d)
         then save_deletes env (po1\<lparr>po_deletes := push_entry contact d (po_deletes po1)\<rparr>)
         else po1)"

definition remove_deleted_message ::
    "fs_env \<Rightarrow> str \<Rightarrow> delete_message \<Rightarrow> pending_operations \<Rightarrow> int \<times> pending_operations" where
  "remove_deleted_message env contact d po =
     (case map_find (po_deletes po) contact of
        None \<Rightarrow> (-1, save_deletes env po)
      | Some ds \<Rightarrow>
          let ds1 = filter (\<lambda>e. \<not> dm_eq d e) ds
          in (if list_ex (dm_eq d) ds then 0 else -1,
              save_deletes env (po\<lparr>po_deletes :=
                if ds1 = [] then map_erase contact (po_deletes po) else map_put contact ds1 (po_deletes po)\<rparr>)))"

definition get_first_pending_delete_message :: "pending_operations \<Rightarrow> (str \<times> delete_message) option" where
  "get_first_pending_delete_message po =
     (case po_deletes po of
        (contact, d # ds) # rest \<Rightarrow> Some (contact, d)
      | _ \<Rightarrow> None)"

subsection \<open>Removing what was delivered\<close>

record message_stat_time =
  st_create_time :: int
  st_need_stat :: bool
  st_contact :: str
  st_msg_id :: i64w

definition stat_new :: message_stat_time where
  "stat_new = \<lparr>st_create_time = 0, st_need_stat = False, st_contact = [], st_msg_id = -1\<rparr>"

definition stat_of :: "i64w \<Rightarrow> not_sent_message \<Rightarrow> message_stat_time" where
  "stat_of msgid x = \<lparr>st_create_time = ns_create_time x, st_need_stat = ns_calc_sent_stat x,
     st_contact = ns_aimid x, st_msg_id = msgid\<rparr>"

definition same_id :: "str \<Rightarrow> not_sent_message \<Rightarrow> bool" where
  "same_id iid x \<longleftrightarrow> ns_internal_id x = iid \<or> get_network_request_id x = iid"

text \<open>The first match of every contact goes; the statistics are those of the last.\<close>

primrec remove_from_contacts ::
    "fs_env \<Rightarrow> str \<Rightarrow> str list \<Rightarrow> message_stat_time \<Rightarrow> pending_operations \<Rightarrow> message_stat_time \<times> pending_operations" where
  "remove_from_contacts env iid [] st po = (st, po)"
| "remove_from_contacts env iid (k # ks) st po =
     (case erase_first (same_id iid) (entries_of k (po_messages po)) of
        (None, _) \<Rightarrow> remove_from_contacts env iid ks st po
      | (Some x, xs) \<Rightarrow>
          remove_from_contacts env iid ks (stat_of (hm_msgid (ns_message x)) x)
            (save_sent env (po\<lparr>po_messages := map_put k xs (po_messages po)\<rparr>)))"

definition remove_by_id :: "fs_env \<Rightarrow> str \<Rightarrow> pending_operations \<Rightarrow> message_stat_time \<times> pending_operations" where
  "remove_by_id env iid po = remove_from_contacts env iid (map fst (po_messages po)) stat_new po"

definition drop_pending :: "fs_env \<Rightarrow> str \<Rightarrow> pending_operations \<Rightarrow> pending_operations" where
  "drop_pending env aimid po =
     (let po1 = (if map_find (po_messages po) aimid \<noteq> None
                 then save_sent env (po\<lparr>po_messages := map_erase aimid (po_messages po)\<rparr>) else po)
      in if map_find (po_deletes po1) aimid \<noteq> None
         then save_deletes env (po1\<lparr>po_deletes := map_erase aimid (po_deletes po1)\<rparr>) else po1)"

text \<open>
  The messages of a block of history are delivered: one deleted meanwhile becomes a request to
  delete it, one modified meanwhile stays, to be sent again under a new request identifier, the
  others go. The scan of one contact's list has the number of entries left to look at as its first
  argument, the position, whether something matched, and the count of identifiers generated.
\<close>

record scan_state =
  sc_stats :: "message_stat_time list"
  sc_save :: bool
  sc_generated :: nat
  sc_po :: pending_operations

definition set_entries :: "str \<Rightarrow> not_sent_message list \<Rightarrow> pending_operations \<Rightarrow> pending_operations" where
  "set_entries aimid xs po = po\<lparr>po_messages := map_put aimid xs (po_messages po)\<rparr>"

definition erase_nth :: "nat \<Rightarrow> 'a list \<Rightarrow> 'a list" where
  "erase_nth i xs = take i xs @ drop (Suc i) xs"

primrec remove_scan ::
    "fs_env \<Rightarrow> (nat \<Rightarrow> str) \<Rightarrow> str \<Rightarrow> bool \<Rightarrow> history_message \<Rightarrow> nat \<Rightarrow> nat \<Rightarrow> scan_state \<Rightarrow> scan_state" where
  "remove_scan env gen aimid remove_if_modified block 0 i s = s"
| "remove_scan env gen aimid remove_if_modified block (Suc n) i s =
     (let po = sc_po s; xs = entries_of aimid (po_messages po); x = xs ! i
      in if \<not> same_id (hm_internal_id block) x then remove_scan env gen aimid remove_if_modified block n (Suc i) s
         else
           let s1 = s\<lparr>sc_stats := sc_stats s @ [stat_of (hm_msgid block) x], sc_save := True\<rparr>
           in if ns_deleted x then
                let d = \<lparr>dm_aimid = aimid, dm_message_id = hm_msgid block, dm_internal_id = ns_internal_id x,
                      dm_operation = ns_delete_operation x\<rparr>;
                    po1 = insert_deleted_message env aimid d po;
                    po2 = set_entries aimid (erase_nth i (entries_of aimid (po_messages po1))) po1
                in remove_scan env gen aimid remove_if_modified block n i (s1\<lparr>sc_po := po2\<rparr>)
              else if ns_modified x \<and> \<not> remove_if_modified then
                let x1 = (set_updated_id (hm_msgid block) x)
                      \<lparr>ns_modified := False, ns_network_request_id := gen (sc_generated s)\<rparr>
                in remove_scan env gen aimid remove_if_modified block n (Suc i)
                     (s1\<lparr>sc_generated := Suc (sc_generated s), sc_po := set_entries aimid (xs[i := x1]) po\<rparr>)
              else remove_scan env gen aimid remove_if_modified block n i
                     (s1\<lparr>sc_po := set_entries aimid (erase_nth i xs) po\<rparr>))"

definition remove_delivered ::
    "fs_env \<Rightarrow> (nat \<Rightarrow> str) \<Rightarrow> str \<Rightarrow> bool \<Rightarrow> history_message list \<Rightarrow> pending_operations \<Rightarrow>
       message_stat_time list \<times> pending_operations" where
  "remove_delivered env gen aimid remove_if_modified data po0 =
     (let po = po0\<lparr>po_messages := map_emplace aimid [] (po_messages po0)\<rparr>
      in if entries_of aimid (po_messages po) = [] then ([], po)
         else
           let s = fold (\<lambda>block s. remove_scan env gen aimid remove_if_modified block
                 (length (entries_of aimid (po_messages (sc_po s)))) 0 s) data
                 \<lparr>sc_stats = [], sc_save = False, sc_generated = 0, sc_po = po\<rparr>;
               po1 = sc_po s;
               po2 = (if entries_of aimid (po_messages po1) = []
                      then po1\<lparr>po_messages := map_erase aimid (po_messages po1)\<rparr> else po1)
           in (sc_stats s, if sc_save s then save_sent env po2 else po2))"

text \<open>The server has a message: it goes, unless it was modified meanwhile; a deletion is passed on.\<close>

definition delivered :: "i64w \<Rightarrow> i64w \<Rightarrow> not_sent_message \<Rightarrow> not_sent_message" where
  "delivered hist_msg_id before_hist_msg_id x =
     x\<lparr>ns_message := hm_set_prev_msgid before_hist_msg_id ((ns_message x)\<lparr>hm_msgid := hist_msg_id\<rparr>)\<rparr>"

definition update_with_imstate ::
    "fs_env \<Rightarrow> str \<Rightarrow> i64w \<Rightarrow> i64w \<Rightarrow> pending_operations \<Rightarrow> not_sent_message option \<times> pending_operations" where
  "update_with_imstate env iid hist_msg_id before_hist_msg_id po0 =
     (case get_message_by_internal_id iid po0 of
        None \<Rightarrow> (None, po0)
      | Some _ \<Rightarrow>
          if sint hist_msg_id \<le> 0 then (None, po0)
          else
            let po1 = update_by_id iid (delivered hist_msg_id before_hist_msg_id) po0;
                x = the (get_message_by_internal_id iid po1);
                d = \<lparr>dm_aimid = ns_aimid x, dm_message_id = hist_msg_id, dm_internal_id = iid,
                  dm_operation = ns_delete_operation x\<rparr>;
                po2 = (if ns_deleted x then insert_deleted_message env (ns_aimid x) d po1 else po1);
                res = get_message_by_internal_id iid po2;
                po3 = (if ns_deleted x then snd (remove_by_id env iid po2)
                       else if ns_modified x then po2
                       else snd (remove_by_id env iid po2))
            in (res, save_sent env po3))"

subsection \<open>The files of pending operations\<close>

text \<open>The map after a load: the entries of every contact in the order of the file.\<close>

lemma emits_push_pack:
  assumes "emits f is" and "emits g js"
  shows "emits (\<lambda>p. push_pack ty g (f p)) (is @ [(ty, pack_bytes js)])"
  unfolding emits_def
proof (intro impI allI)
  fix p assume s: "small (is @ [(ty, pack_bytes js)])" and p: "pack_wf p"
  have len: "length (pack_bytes js) \<le> 2 ^ 32 - 2" using s by simp
  have g: "pack_wf (g empty_pack)" "items_of (g empty_pack) = js"
    using assms(2) small_pack_bytes [OF len] by (auto simp: emits_def)
  have room: "length (pack_bytes (items_of (g empty_pack))) \<le> room empty_stream"
    using len g(2) by (simp add: room_def)
  note d = tlvpack_serialize_facts [OF bs_wf_empty g(1) room]
  have "tlv_wf (tlv_stream ty (snd (tlvpack_serialize (g empty_pack) empty_stream)))"
    using d(2,4) by (intro tlv_wf_stream) simp_all
  moreover have "pack_wf (f p)" "items_of (f p) = items_of p @ is"
    using assms(1) s p by (simp_all add: emits_def)
  ultimately show "pack_wf (push_pack ty g (f p)) \<and>
      items_of (push_pack ty g (f p)) = items_of p @ is @ [(ty, pack_bytes js)]"
    using d(1) by (simp add: push_pack_def item_of_stream g(2))
qed

lemma emits_fold_packs:
  "(\<And>x. emits (ser x) (items x)) \<Longrightarrow>
     emits (\<lambda>p. fold (\<lambda>x. push_pack 0 (ser x)) xs p) (map (\<lambda>x. (0, pack_bytes (items x))) xs)"
proof (induction xs)
  case Nil
  then show ?case by (simp add: emits_id)
next
  case (Cons x xs)
  have "emits (\<lambda>p. push_pack 0 (ser x) p) ([] @ [(0, pack_bytes (items x))])"
    by (rule emits_push_pack [OF emits_id Cons.prems])
  from emits_comp [OF this Cons.IH [OF Cons.prems]] show ?case by simp
qed

lemma entries_of_new: "\<forall>e \<in> set m. fst e < k \<Longrightarrow> entries_of k m = []"
  by (induction m) (auto simp: entries_of_def map_find_def split: option.splits)

lemma map_put_last:
  "\<forall>e \<in> set m. fst e < k \<Longrightarrow> map_put k v m = m @ [(k, v)]"
  "\<forall>e \<in> set m. fst e < k \<Longrightarrow> map_put k v (m @ [(k, w)]) = m @ [(k, v)]"
  by (induction m) (auto simp: less_le_not_le)

lemma entries_of_last: "\<forall>e \<in> set m. fst e < k \<Longrightarrow> entries_of k (m @ [(k, v)]) = v"
  by (induction m) (auto simp: entries_of_def map_find_def split: option.splits)

lemma push_entries_same:
  "(\<forall>x \<in> set xs. f x = k) \<Longrightarrow> \<forall>e \<in> set m. fst e < k \<Longrightarrow>
     fold (\<lambda>x. push_entry (f x) x) xs (m @ [(k, ys)]) = m @ [(k, ys @ xs)]"
  by (induction xs arbitrary: ys) (simp_all add: push_entry_def entries_of_last map_put_last)

lemma push_entries_grouped:
  "ordered (m @ es) \<Longrightarrow> \<forall>(k, xs) \<in> set es. xs \<noteq> [] \<and> (\<forall>x \<in> set xs. f x = k) \<Longrightarrow>
     fold (\<lambda>x. push_entry (f x) x) (concat (map snd es)) m = m @ es"
proof (induction es arbitrary: m)
  case Nil
  then show ?case by simp
next
  case (Cons e es)
  obtain k x xs where e: "e = (k, x # xs)" "f x = k" "\<forall>x \<in> set xs. f x = k"
    using Cons.prems(2) by (cases e) (auto simp: neq_Nil_conv)
  have less: "\<forall>e \<in> set m. fst e < k" using Cons.prems(1) e(1) by (auto simp: ordered_append)
  have "fold (\<lambda>x. push_entry (f x) x) (x # xs) m = m @ [(k, [x] @ xs)]"
    using push_entries_same [OF e(3) less, of "[x]"] e(2) less
    by (simp add: push_entry_def entries_of_new map_put_last)
  then show ?case
    using Cons.IH [of "m @ [e]"] Cons.prems e(1) by simp
qed

text \<open>
  What the two kinds of entries promise, so that saving and loading are inverse: the serializer
  pushes the fields \<open>items\<close>, and a pack of these fields is read as the stored form of the entry,
  which names the same contact.
\<close>

locale pending_codec =
  fixes ser :: "'a \<Rightarrow> tlvpack \<Rightarrow> tlvpack" and mk :: "tlvpack \<Rightarrow> 'a option option"
    and aimid :: "'a \<Rightarrow> str" and items :: "'a \<Rightarrow> item list" and ok :: "'a \<Rightarrow> bool" and stored :: "'a \<Rightarrow> 'a"
  assumes emits_ser: "emits (ser x) (items x)"
    and mk_items: "ok x \<Longrightarrow> small (items x) \<Longrightarrow> mk (pack_of (items x)) = Some (Some (stored x))"
    and aimid_stored: "aimid (stored x) = aimid x"
begin

lemma root_content:
  assumes "length (pack_bytes (map (\<lambda>x. (0, pack_bytes (items x))) xs)) \<le> 2 ^ 32 - 2"
  shows "content (snd (tlvpack_serialize (fold (\<lambda>x. push_pack 0 (ser x)) xs empty_pack) empty_stream)) =
      pack_bytes (map (\<lambda>x. (0, pack_bytes (items x))) xs)"
    and "bs_wf (snd (tlvpack_serialize (fold (\<lambda>x. push_pack 0 (ser x)) xs empty_pack) empty_stream))"
proof -
  let ?p = "fold (\<lambda>x. push_pack 0 (ser x)) xs empty_pack"
  let ?is = "map (\<lambda>x. (0, pack_bytes (items x))) xs"
  have p: "pack_wf ?p" "items_of ?p = ?is"
    using emits_fold_packs [of ser items xs, OF emits_ser] small_pack_bytes [OF assms] by (auto simp: emits_def)
  have "length (pack_bytes (items_of ?p)) \<le> room empty_stream"
    using assms p(2) by (simp add: room_def)
  from tlvpack_serialize_facts [OF bs_wf_empty p(1) this] show
    "content (snd (tlvpack_serialize ?p empty_stream)) = pack_bytes ?is"
    "bs_wf (snd (tlvpack_serialize ?p empty_stream))"
    using p(2) by simp_all
qed

lemma load_entries_items:
  "\<forall>x \<in> set xs. ok x \<Longrightarrow> small (map (\<lambda>x. (0, pack_bytes (items x))) xs) \<Longrightarrow>
     load_entries mk aimid (map tlv_make (map (\<lambda>x. (0, pack_bytes (items x))) xs)) m =
       Some (fold (\<lambda>x. push_entry (aimid x) x) (map stored xs) m)"
proof (induction xs arbitrary: m)
  case Nil
  then show ?case by simp
next
  case (Cons x xs)
  have len: "length (pack_bytes (items x)) \<le> 2 ^ 32 - 2" using Cons.prems(2) by simp
  obtain s' where "tlvpack_unserialize empty_pack (get_stream (tlv_make (0, pack_bytes (items x)))) =
      (True, pack_of (items x), s')"
    using tlvpack_unserialize_pack_bytes [OF get_stream_make(2,1) [OF len] len] by blast
  moreover have "mk (pack_of (items x)) = Some (Some (stored x))"
    using Cons.prems(1) small_pack_bytes [OF len] by (intro mk_items) simp_all
  ultimately show ?case
    using Cons.IH Cons.prems by simp
qed

lemma save_load:
  assumes "can_open env" and "file_stream st = None" and "ordered m"
    and "\<forall>(k, xs) \<in> set m. xs \<noteq> [] \<and> (\<forall>x \<in> set xs. aimid x = k \<and> ok x)"
    and "bytes = pack_bytes (map (\<lambda>x. (0, pack_bytes (items x))) (concat (map snd m)))"
    and "block_ok bytes" and "length bytes + 16 \<le> capacity st"
    and "st1 = snd (save_pendings env ser m st)"
  shows "\<exists>b. fst (load_pendings env mk aimid st1 []) = Some (b, map (\<lambda>(k, xs). (k, map stored xs)) m)"
proof -
  let ?xs = "concat (map snd m)"
  let ?d = "snd (tlvpack_serialize (fold (\<lambda>x. push_pack 0 (ser x)) ?xs empty_pack) empty_stream)"
  have len: "length bytes \<le> 2 ^ 32 - 2" using assms(6) by (simp add: block_ok_def max_data_block_size_def)
  then have d: "content ?d = bytes" "bs_wf ?d" using root_content [of ?xs] assms(5) by simp_all
  show ?thesis
  proof (cases "m = []")
    case True
    then have e: "available ?d = 0" using d assms(5) by (simp add: available_content)
    note o = open_truncate [OF assms(1,2)]
    have "st1 = storage_close (opened truncate_mode [] st)"
      using o(1) e True by (simp add: assms(8) save_pendings_def truncate_mode_def write_data_block_def Let_def)
    then have "file_stream st1 = None" "file_data st1 = Some []" using empty_file [OF assms(1,2)] by simp_all
    from read_empty_file [OF assms(1) this] show ?thesis
      using True by (auto simp: load_pendings_def read_mode_def)
  next
    case False
    then have "?xs \<noteq> []" using assms(4) by (cases m) auto
    then have ne: "content ?d \<noteq> []" using d(1) assms(5) by (cases ?xs) (simp_all add: item_bytes_def)
    obtain st2 st3 off data' where
      w: "storage_open env truncate_mode st = (True, st2)"
        "write_data_block env st2 ?d 0 = (\<lparr>result = True, error_code = 0\<rparr>, off, st3, data')"
        "file_data (storage_close st3) = Some (block_bytes bytes)"
      using rewrite_file [OF assms(1,2) d(2) ne] d(1) assms(7) by auto
    have st1: "st1 = storage_close st3"
      using w(1,2) by (simp add: assms(8) save_pendings_def truncate_mode_def)
    have f: "file_stream st1 = None" "file_data st1 = Some (block_bytes bytes)" using w(3) by (simp_all add: st1)
    obtain st4 st5 data where
      r: "storage_open env read_mode st1 = (True, st4)" "read_data_block st4 (-1) empty_stream = (True, st5, data)"
        "content data = bytes" "bs_wf data"
      using read_one_block [OF assms(1) f assms(6)] by blast
    let ?is = "map (\<lambda>x. (0, pack_bytes (items x))) ?xs"
    obtain s' where u: "tlvpack_unserialize empty_pack data = (True, pack_of ?is, s')"
      using tlvpack_unserialize_pack_bytes [OF r(4) r(3) [unfolded assms(5)]] len assms(5) by auto
    have "\<forall>x \<in> set ?xs. ok x" using assms(4) by auto
    then have "load_entries mk aimid (map tlv_make ?is) [] =
        Some (fold (\<lambda>x. push_entry (aimid x) x) (map stored ?xs) [])"
      using small_pack_bytes len assms(5) by (intro load_entries_items) auto
    moreover have "map stored ?xs = concat (map snd (map (\<lambda>(k, xs). (k, map stored xs)) m))"
      by (simp add: map_concat comp_def case_prod_beta)
    moreover have "fold (\<lambda>x. push_entry (aimid x) x) (concat (map snd (map (\<lambda>(k, xs). (k, map stored xs)) m))) [] =
        [] @ map (\<lambda>(k, xs). (k, map stored xs)) m"
      using assms(3,4)
      by (intro push_entries_grouped) (auto simp: ordered_def aimid_stored comp_def case_prod_beta)
    ultimately have "load_entries mk aimid (map tlv_make ?is) [] = Some (map (\<lambda>(k, xs). (k, map stored xs)) m)"
      by simp
    then show ?thesis
      using r(1,2) u by (intro exI [of _ True]) (simp add: load_pendings_def read_mode_def pack_of_def)
  qed
qed

end

text \<open>Pending messages and requests to delete keep this promise.\<close>

definition ns_items :: "not_sent_message \<Rightarrow> item list" where
  "ns_items x = [(nf_contact, ns_aimid x), (nf_duplicated, mem_of_bool (ns_duplicated x)),
     (nf_modified, mem_of_bool (ns_modified x)), (nf_network_request_id, ns_network_request_id x),
     (nf_deleted, mem_of_bool (ns_deleted x)), (nf_delete_op, mem_of 4 (ns_delete_operation x)),
     (nf_message, message_bytes (ns_message x))]"

definition ns_stored :: "int \<Rightarrow> not_sent_message \<Rightarrow> not_sent_message" where
  "ns_stored now x = (not_sent_new now)\<lparr>ns_aimid := ns_aimid x, ns_message := hm_stored (ns_message x),
     ns_duplicated := ns_duplicated x, ns_modified := ns_modified x,
     ns_network_request_id := ns_network_request_id x, ns_deleted := ns_deleted x,
     ns_delete_operation := ns_delete_operation x\<rparr>"

lemma emits_not_sent: "emits (not_sent_serialize x) (ns_items x)"
proof -
  have "emits (\<lambda>p. not_sent_serialize x p)
    ([(nf_contact, ns_aimid x), (nf_duplicated, mem_of_bool (ns_duplicated x)),
      (nf_modified, mem_of_bool (ns_modified x)), (nf_network_request_id, ns_network_request_id x),
      (nf_deleted, mem_of_bool (ns_deleted x)), (nf_delete_op, mem_of 4 (ns_delete_operation x))] @
     [(nf_message, message_bytes (ns_message x))])"
    unfolding not_sent_serialize_def
    by (intro emits_push_message emits_fold_push) (simp add: emits_one)
  then show ?thesis by (simp add: ns_items_def)
qed

lemma not_sent_of_items:
  assumes "parts_ok (ns_message x)" and "small (ns_items x)"
  shows "not_sent_of_pack now (pack_of (ns_items x)) = Some (Some (ns_stored now x))"
proof -
  have len: "length (message_bytes (ns_message x)) \<le> 2 ^ 32 - 2" "length (ns_aimid x) \<le> 2 ^ 32 - 2"
    "length (ns_network_request_id x) \<le> 2 ^ 32 - 2"
    using assms(2) by (simp_all add: ns_items_def)
  have "\<exists>s'. message_unserialize history_message_new (get_stream (tlv_make (nf_message, message_bytes (ns_message x)))) =
      (Some (0, hm_stored (ns_message x)), s')"
    using message_unserialize_bytes [OF get_stream_make(2,1) [OF len(1)] len(1) assms(1)] by blast
  then have m: "fst (message_unserialize history_message_new
      (get_stream (tlv_make (nf_message, message_bytes (ns_message x))))) = Some (0, hm_stored (ns_message x))"
    by auto
  show ?thesis
    using len(2,3)
    by (simp add: not_sent_of_pack_def get_item_pack_of field_or_def ns_items_def nf_defs values_make
        m [unfolded nf_defs] not_sent_new_def ns_stored_def Let_def)
qed

interpretation sent: pending_codec not_sent_serialize "not_sent_of_pack now" ns_aimid ns_items
    "\<lambda>x. parts_ok (ns_message x)" "ns_stored now" for now
  by unfold_locales (simp_all add: emits_not_sent not_sent_of_items ns_stored_def)

definition dm_items :: "delete_message \<Rightarrow> item list" where
  "dm_items d = [(dmf_contact, dm_aimid d), (dmf_message_id, mem_of 8 (dm_message_id d)),
     (dmf_internal_id, dm_internal_id d), (dmf_operation, mem_of 4 (dm_operation d))]"

definition dm_ok :: "delete_message \<Rightarrow> bool" where
  "dm_ok d \<longleftrightarrow> sint del_min < sint (dm_operation d) \<and> sint (dm_operation d) < sint del_max"

lemma emits_delete: "emits (delete_serialize d) (dm_items d)"
proof -
  have "emits (\<lambda>p. delete_serialize d p) (dm_items d)"
    unfolding delete_serialize_def dm_items_def by (intro emits_fold_push) (simp add: emits_one)
  then show ?thesis by simp
qed

lemma delete_of_items:
  assumes "dm_ok d" and "small (dm_items d)"
  shows "delete_of_pack (pack_of (dm_items d)) = Some d"
proof -
  have "length (dm_aimid d) \<le> 2 ^ 32 - 2" "length (dm_internal_id d) \<le> 2 ^ 32 - 2"
    using assms(2) by (simp_all add: dm_items_def)
  then show ?thesis
    using assms(1)
    by (simp add: delete_of_pack_def get_item_pack_of dm_items_def dmf_defs values_make dm_ok_def Let_def)
qed

interpretation deletes: pending_codec delete_serialize "\<lambda>p. Some (delete_of_pack p)" dm_aimid dm_items dm_ok "\<lambda>d. d"
  by unfold_locales (simp_all add: emits_delete delete_of_items)

end
