(* ===== verification/Pending_Properties.thy ===== *)
theory Pending_Properties
  imports Samples Not_Sent_Messages
begin

section \<open>Properties of the pending messages\<close>

text \<open>
  What is pending survives a restart, every message that is ready is delivered once the server
  answers, and a message deleted before it was delivered becomes a request to delete it.
\<close>

subsection \<open>The map of pending messages\<close>

definition messages_of :: "pending_operations \<Rightarrow> not_sent_message list" where
  "messages_of po = concat (map snd (po_messages po))"

lemma map_put_existing:
  "ordered m \<Longrightarrow> k \<in> fst ` set m \<Longrightarrow> map_put k v m = map (\<lambda>e. (fst e, if fst e = k then v else snd e)) m"
  by (induction k v m rule: map_put.induct) (auto intro!: map_idI [symmetric])

lemma entries_of_existing: "ordered m \<Longrightarrow> e \<in> set m \<Longrightarrow> entries_of (fst e) m = snd e"
  by (metis entries_of_def map_find_Some_iff option.simps(5) prod.collapse)

lemma po_messages_save [simp]:
  "po_messages (save_sent env po) = po_messages po" "po_messages (save_deletes env po) = po_messages po"
  "po_deletes (save_sent env po) = po_deletes po" "po_deletes (save_deletes env po) = po_deletes po"
  by (simp_all add: save_sent_def save_deletes_def)

lemma erase_first_none: "fst (erase_first P xs) = None \<Longrightarrow> snd (erase_first P xs) = xs"
  by (induction xs) (auto simp: split_beta split: if_splits)

lemma erase_first_unique: "length (filter P xs) \<le> 1 \<Longrightarrow> snd (erase_first P xs) = filter (\<lambda>x. \<not> P x) xs"
proof (induction xs)
  case (Cons x xs)
  then show ?case
    by (cases "P x") (auto simp: split_beta filter_empty_conv intro!: filter_True [symmetric])
qed simp

lemma remove_from_contacts_messages:
  "ordered (po_messages po) \<Longrightarrow> set ks \<subseteq> fst ` set (po_messages po) \<Longrightarrow> distinct ks \<Longrightarrow>
     po_messages (snd (remove_from_contacts env iid ks st po)) =
       map (\<lambda>e. (fst e, if fst e \<in> set ks then snd (erase_first (same_id iid) (snd e)) else snd e)) (po_messages po) \<and>
     po_deletes (snd (remove_from_contacts env iid ks st po)) = po_deletes po"
proof (induction ks arbitrary: st po)
  case Nil
  then show ?case by simp
next
  case (Cons k ks)
  obtain e where e: "e \<in> set (po_messages po)" "fst e = k" using Cons.prems(2) by auto
  then have entries: "entries_of k (po_messages po) = snd e"
    using entries_of_existing [OF Cons.prems(1)] by blast
  have same: "snd e' = snd e" if "e' \<in> set (po_messages po)" "fst e' = k" for e'
    using that entries_of_existing [OF Cons.prems(1), of e'] entries by simp
  obtain r xs where r: "erase_first (same_id iid) (snd e) = (r, xs)" by (metis surj_pair)
  show ?case
  proof (cases r)
    case None
    then have "xs = snd e" using erase_first_none [of "same_id iid" "snd e"] r by simp
    then show ?thesis
      using Cons.IH [of po st] Cons.prems r None entries same by (auto simp: split_beta)
  next
    case (Some x)
    define po1 where "po1 = save_sent env (po\<lparr>po_messages := map_put k xs (po_messages po)\<rparr>)"
    have m: "po_messages po1 = map (\<lambda>e. (fst e, if fst e = k then xs else snd e)) (po_messages po)"
      using map_put_existing [OF Cons.prems(1), of k xs] Cons.prems(2) by (simp add: po1_def)
    have "ordered (po_messages po1)" "fst ` set (po_messages po1) = fst ` set (po_messages po)"
      using Cons.prems(1) by (simp_all add: m ordered_def comp_def image_image)
    then have "po_messages (snd (remove_from_contacts env iid ks (stat_of (hm_msgid (ns_message x)) x) po1)) =
        map (\<lambda>e. (fst e, if fst e \<in> set ks then snd (erase_first (same_id iid) (snd e)) else snd e)) (po_messages po1) \<and>
        po_deletes (snd (remove_from_contacts env iid ks (stat_of (hm_msgid (ns_message x)) x) po1)) = po_deletes po1"
      using Cons.IH [of po1] Cons.prems(2,3) by simp
    moreover have "po_deletes po1 = po_deletes po" by (simp add: po1_def)
    ultimately show ?thesis
      using r Some entries same Cons.prems(3) by (auto simp: m po1_def [symmetric])
  qed
qed

lemma ordered_distinct: "ordered m \<Longrightarrow> distinct (map fst m)"
  by (simp add: ordered_def strict_sorted_iff)

lemma remove_by_id_messages:
  assumes "ordered (po_messages po)"
  shows "po_messages (snd (remove_by_id env iid po)) =
      map (\<lambda>e. (fst e, snd (erase_first (same_id iid) (snd e)))) (po_messages po)"
    and "po_deletes (snd (remove_by_id env iid po)) = po_deletes po"
  using remove_from_contacts_messages [OF assms, of "map fst (po_messages po)" env iid stat_new]
    ordered_distinct [OF assms] by (simp_all add: remove_by_id_def)

text \<open>
  No two pending messages share an identifier, and no request identifier is that of another
  message.
\<close>

definition ids_ok :: "pending_operations \<Rightarrow> bool" where
  "ids_ok po \<longleftrightarrow> ordered (po_messages po) \<and> distinct (map ns_internal_id (messages_of po)) \<and>
     (\<forall>x \<in> set (messages_of po). \<forall>y \<in> set (messages_of po).
        same_id (ns_internal_id x) y \<longrightarrow> ns_internal_id y = ns_internal_id x)"

lemma concat_map_filter: "concat (map (\<lambda>e. filter P (snd e)) m) = filter P (concat (map snd m))"
  by (induction m) simp_all

lemma distinct_filter_le_1:
  "distinct (map f xs) \<Longrightarrow> \<forall>x \<in> set xs. P x \<longrightarrow> f x = c \<Longrightarrow> length (filter P xs) \<le> 1"
proof (induction xs)
  case (Cons x xs)
  show ?case
  proof (cases "P x")
    case True
    have "\<not> P y" if "y \<in> set xs" for y
    proof
      assume "P y"
      then have "f y = f x" using Cons.prems(2) True that by simp
      then show False using Cons.prems(1) imageI [OF that, of f] by simp
    qed
    then have "\<forall>y \<in> set xs. \<not> P y" by blast
    then show ?thesis by (simp add: filter_False)
  qed (use Cons in simp)
qed simp

lemma distinct_sublist: "e \<in> set m \<Longrightarrow> distinct (map f (concat (map snd m))) \<Longrightarrow> distinct (map f (snd e))"
  by (induction m) auto

lemma update_first_unique:
  "length (filter P xs) \<le> 1 \<Longrightarrow> update_first P f xs = map (\<lambda>x. if P x then f x else x) xs"
proof (induction xs)
  case (Cons x xs)
  show ?case
  proof (cases "P x")
    case True
    then have "\<forall>y \<in> set xs. \<not> P y" using Cons.prems by (simp add: filter_empty_conv)
    then show ?thesis using True by (simp add: map_idI)
  qed (use Cons in simp)
qed simp

lemma update_pending_unique:
  "length (filter P (concat (map snd m))) \<le> 1 \<Longrightarrow>
     update_pending P f m = map (\<lambda>e. (fst e, map (\<lambda>x. if P x then f x else x) (snd e))) m"
proof (induction m)
  case (Cons e m)
  have one: "length (filter P (snd e)) + length (filter P (concat (map snd m))) \<le> 1" using Cons.prems by simp
  show ?case
  proof (cases "list_ex P (snd e)")
    case True
    then have "filter P (snd e) \<noteq> []" by (auto simp: list_ex_iff filter_empty_conv)
    then have "length (filter P (snd e)) = 1" "filter P (concat (map snd m)) = []"
      using one by (cases "filter P (snd e)"; simp)+
    moreover from this(2) have "map (\<lambda>e. (fst e, map (\<lambda>x. if P x then f x else x) (snd e))) m = m"
      by (auto simp: filter_empty_conv intro!: map_idI prod_eqI)
    ultimately show ?thesis using True update_first_unique [of P "snd e" f] by simp
  next
    case False
    then have "map (\<lambda>x. if P x then f x else x) (snd e) = snd e"
      by (auto simp: list_ex_iff intro!: map_idI)
    then show ?thesis using False Cons.IH one by simp
  qed
qed simp

lemma find_append: "find P (xs @ ys) = (case find P xs of Some x \<Rightarrow> Some x | None \<Rightarrow> find P ys)"
  by (induction xs) simp_all

lemma find_pending_concat: "find_pending P m = find P (concat (map snd m))"
  by (induction m) (simp_all add: find_append split: option.split)

lemma ids_okD:
  assumes "ids_ok po"
  shows "ordered (po_messages po)" and "distinct (map ns_internal_id (messages_of po))"
    and "x \<in> set (messages_of po) \<Longrightarrow> y \<in> set (messages_of po) \<Longrightarrow> same_id (ns_internal_id x) y \<Longrightarrow>
      ns_internal_id y = ns_internal_id x"
    and "x \<in> set (messages_of po) \<Longrightarrow> y \<in> set (messages_of po) \<Longrightarrow> ns_internal_id y = ns_internal_id x \<Longrightarrow> y = x"
proof -
  show d: "distinct (map ns_internal_id (messages_of po))" and "ordered (po_messages po)"
    using assms unfolding ids_ok_def by blast+
  show "x \<in> set (messages_of po) \<Longrightarrow> y \<in> set (messages_of po) \<Longrightarrow> same_id (ns_internal_id x) y \<Longrightarrow>
      ns_internal_id y = ns_internal_id x"
    using assms unfolding ids_ok_def by blast
  show "x \<in> set (messages_of po) \<Longrightarrow> y \<in> set (messages_of po) \<Longrightarrow> ns_internal_id y = ns_internal_id x \<Longrightarrow> y = x"
    using d unfolding distinct_map by (blast dest: inj_onD)
qed

lemma ids_ok_one:
  assumes "ids_ok po" and "x \<in> set (messages_of po)"
  shows "length (filter (\<lambda>y. ns_internal_id y = ns_internal_id x) (messages_of po)) \<le> 1"
  by (rule distinct_filter_le_1 [OF ids_okD(2) [OF assms(1)], where c = "ns_internal_id x"]) simp

lemma find_by_id:
  assumes "ids_ok po" and "x \<in> set (messages_of po)"
  shows "get_message_by_internal_id (ns_internal_id x) po = Some x"
proof -
  have "find (\<lambda>y. ns_internal_id y = ns_internal_id x) (messages_of po) \<noteq> None"
    using assms(2) unfolding find_None_iff by blast
  then obtain y where y: "find (\<lambda>y. ns_internal_id y = ns_internal_id x) (messages_of po) = Some y" by blast
  then have "y \<in> set (messages_of po)" "ns_internal_id y = ns_internal_id x"
    unfolding find_Some_iff by force+
  then have "y = x" using ids_okD(4) [OF assms(1)] assms(2) by blast
  then show ?thesis using y by (simp add: get_message_by_internal_id_def find_pending_concat messages_of_def)
qed

lemma remove_by_id_filter:
  assumes "ids_ok po" and "x \<in> set (messages_of po)"
  shows "messages_of (snd (remove_by_id env (ns_internal_id x) po)) =
    filter (\<lambda>y. ns_internal_id y \<noteq> ns_internal_id x) (messages_of po)"
proof -
  let ?P = "same_id (ns_internal_id x)"
  have same: "?P y \<longleftrightarrow> ns_internal_id y = ns_internal_id x" if "y \<in> set (messages_of po)" for y
    using ids_okD(3) [OF assms(1)] assms(2) that unfolding same_id_def by blast
  have "snd (erase_first ?P (snd e)) = filter (\<lambda>y. \<not> ?P y) (snd e)" if e: "e \<in> set (po_messages po)" for e
  proof (rule erase_first_unique, rule distinct_filter_le_1)
    show "distinct (map ns_internal_id (snd e))"
      using distinct_sublist [OF e ids_okD(2) [OF assms(1), unfolded messages_of_def]] .
    show "\<forall>y \<in> set (snd e). ?P y \<longrightarrow> ns_internal_id y = ns_internal_id x"
      using same e by (auto simp: messages_of_def)
  qed
  then have "map (\<lambda>e. snd (erase_first ?P (snd e))) (po_messages po) =
      map (\<lambda>e. filter (\<lambda>y. \<not> ?P y) (snd e)) (po_messages po)" by simp
  moreover have "map snd (po_messages (snd (remove_by_id env (ns_internal_id x) po))) =
      map (\<lambda>e. snd (erase_first ?P (snd e))) (po_messages po)"
    by (simp add: remove_by_id_messages [OF ids_okD(1) [OF assms(1)]] comp_def)
  ultimately have "messages_of (snd (remove_by_id env (ns_internal_id x) po)) = filter (\<lambda>y. \<not> ?P y) (messages_of po)"
    by (simp only: messages_of_def concat_map_filter)
  then show ?thesis using same by (simp cong: filter_cong)
qed

subsection \<open>Delivery\<close>

lemma ids_okI:
  assumes "ordered (po_messages po)" and "distinct (map ns_internal_id (messages_of po))"
    and "\<And>x y. x \<in> set (messages_of po) \<Longrightarrow> y \<in> set (messages_of po) \<Longrightarrow> same_id (ns_internal_id x) y \<Longrightarrow>
      ns_internal_id y = ns_internal_id x"
  shows "ids_ok po"
  using assms unfolding ids_ok_def by blast

text \<open>Changing the messages of every contact and keeping their identifiers keeps the invariant.\<close>

lemma messages_of_mapped:
  assumes "po_messages po' = map (\<lambda>e. (fst e, map (g (fst e)) (snd e))) (po_messages po)"
    and "\<And>k y. ns_internal_id (g k y) = ns_internal_id y \<and> ns_network_request_id (g k y) = ns_network_request_id y"
  shows "map ns_internal_id (messages_of po') = map ns_internal_id (messages_of po)"
    and "y \<in> set (messages_of po') \<Longrightarrow> \<exists>k y'. y' \<in> set (messages_of po) \<and> y = g k y'"
proof -
  have "map ns_internal_id (concat (map (\<lambda>e. map (g (fst e)) (snd e)) m)) = map ns_internal_id (concat (map snd m))" for m
    using assms(2) by (induction m) (simp_all add: comp_def)
  then show "map ns_internal_id (messages_of po') = map ns_internal_id (messages_of po)"
    by (simp add: messages_of_def assms(1) comp_def)
  show "y \<in> set (messages_of po') \<Longrightarrow> \<exists>k y'. y' \<in> set (messages_of po) \<and> y = g k y'"
    by (auto simp: messages_of_def assms(1))
qed

lemma ids_ok_mapped:
  assumes "ids_ok po" and "po_messages po' = map (\<lambda>e. (fst e, map (g (fst e)) (snd e))) (po_messages po)"
    and "\<And>k y. ns_internal_id (g k y) = ns_internal_id y \<and> ns_network_request_id (g k y) = ns_network_request_id y"
  shows "ids_ok po'"
proof (rule ids_okI)
  note m = messages_of_mapped [OF assms(2,3)]
  show "ordered (po_messages po')" using ids_okD(1) [OF assms(1)] by (simp add: assms(2) ordered_def comp_def)
  show "distinct (map ns_internal_id (messages_of po'))" unfolding m(1) by (rule ids_okD(2) [OF assms(1)])
  fix y z assume "y \<in> set (messages_of po')" "z \<in> set (messages_of po')"
  then obtain k y' l z' where d: "y' \<in> set (messages_of po)" "z' \<in> set (messages_of po)" "y = g k y'" "z = g l z'"
    using m(2) by meson
  have e: "ns_internal_id y = ns_internal_id y'" "ns_internal_id z = ns_internal_id z'" "same_id i z = same_id i z'" for i
    using assms(3) by (simp_all add: d(3,4) same_id_def get_network_request_id_def)
  show "same_id (ns_internal_id y) z \<Longrightarrow> ns_internal_id z = ns_internal_id y"
    unfolding e by (rule ids_okD(3) [OF assms(1) d(1,2)])
qed

lemma update_by_id_messages:
  assumes "ids_ok po" and "x \<in> set (messages_of po)"
    and "\<And>y. ns_internal_id (f y) = ns_internal_id y \<and> ns_network_request_id (f y) = ns_network_request_id y"
  shows "messages_of (update_by_id (ns_internal_id x) f po) =
      map (\<lambda>y. if ns_internal_id y = ns_internal_id x then f y else y) (messages_of po)"
    and "ids_ok (update_by_id (ns_internal_id x) f po)"
    and "po_deletes (update_by_id (ns_internal_id x) f po) = po_deletes po"
proof -
  let ?g = "\<lambda>y. if ns_internal_id y = ns_internal_id x then f y else y"
  have u: "po_messages (update_by_id (ns_internal_id x) f po) = map (\<lambda>e. (fst e, map ?g (snd e))) (po_messages po)"
    using update_pending_unique [OF ids_ok_one [OF assms(1,2), unfolded messages_of_def], of f]
    by (simp add: update_by_id_def)
  show "messages_of (update_by_id (ns_internal_id x) f po) = map ?g (messages_of po)"
    by (simp add: messages_of_def u map_concat comp_def)
  show "ids_ok (update_by_id (ns_internal_id x) f po)"
    by (rule ids_ok_mapped [OF assms(1) u]) (simp add: assms(3))
  show "po_deletes (update_by_id (ns_internal_id x) f po) = po_deletes po"
    by (simp add: update_by_id_def)
qed

lemma messages_of_save [simp]: "messages_of (save_sent env po) = messages_of po" "messages_of (save_deletes env po) = messages_of po"
  by (simp_all add: messages_of_def)

lemma ids_ok_save [simp]: "ids_ok (save_sent env po) = ids_ok po" "ids_ok (save_deletes env po) = ids_ok po"
  by (simp_all add: ids_ok_def)

lemma ids_ok_remove:
  assumes "ids_ok po" and "x \<in> set (messages_of po)"
  shows "ids_ok (snd (remove_by_id env (ns_internal_id x) po))"
proof -
  let ?po = "snd (remove_by_id env (ns_internal_id x) po)"
  have m: "messages_of ?po = filter (\<lambda>y. ns_internal_id y \<noteq> ns_internal_id x) (messages_of po)"
    by (rule remove_by_id_filter [OF assms])
  have "ordered (po_messages ?po)"
    using ids_okD(1) [OF assms(1)]
    by (simp add: remove_by_id_messages [OF ids_okD(1) [OF assms(1)]] ordered_def comp_def)
  moreover have "distinct (map ns_internal_id (messages_of ?po))"
    unfolding m by (rule distinct_map_filter [OF ids_okD(2) [OF assms(1)]])
  moreover have "\<forall>y \<in> set (messages_of ?po). \<forall>z \<in> set (messages_of ?po).
      same_id (ns_internal_id y) z \<longrightarrow> ns_internal_id z = ns_internal_id y"
    using ids_okD(3) [OF assms(1)] unfolding m by simp
  ultimately show ?thesis unfolding ids_ok_def by blast
qed

text \<open>What the deletion of one message does to the others.\<close>

lemma mark_deleted_ids:
  "ns_internal_id (mark_deleted d y) = ns_internal_id y \<and>
   ns_network_request_id (mark_deleted d y) = ns_network_request_id y"
  by (simp add: mark_deleted_def set_delete_operation_def ns_internal_id_def make_modified_def make_deleted_def set_patch_def
    set_deleted_def set_modified_def)

definition marked_in :: "str \<Rightarrow> delete_message \<Rightarrow> str \<Rightarrow> not_sent_message \<Rightarrow> not_sent_message" where
  "marked_in k d l y = (if l = k then mark_deleted d y else y)"

lemma marked_in_ids:
  "ns_internal_id (marked_in k d l y) = ns_internal_id y \<and>
   ns_network_request_id (marked_in k d l y) = ns_network_request_id y"
  by (simp add: marked_in_def mark_deleted_ids)

lemma insert_deleted_messages:
  assumes "ordered (po_messages po)"
  shows "po_messages (insert_deleted_message env k d po) =
      map (\<lambda>e. (fst e, map (marked_in k d (fst e)) (snd e))) (po_messages po)"
    and "po_deletes (insert_deleted_message env k d po) =
      (if 0 < sint (dm_message_id d) then push_entry k d (po_deletes po) else po_deletes po)"
proof -
  let ?xs = "entries_of k (po_messages po)"
  have same: "map (marked_in k d (fst e)) (snd e) = (if fst e = k then map (mark_deleted d) ?xs else snd e)"
    if "e \<in> set (po_messages po)" for e
    using entries_of_existing [OF assms(1) that] by (cases "fst e = k") (simp_all add: marked_in_def [abs_def])
  show "po_deletes (insert_deleted_message env k d po) =
      (if 0 < sint (dm_message_id d) then push_entry k d (po_deletes po) else po_deletes po)"
    by (simp add: insert_deleted_message_def Let_def)
  have put: "map_put k (map (mark_deleted d) ?xs) (po_messages po) =
      map (\<lambda>e. (fst e, map (marked_in k d (fst e)) (snd e))) (po_messages po)" if "list_ex (concerns d) ?xs"
  proof -
    have "?xs \<noteq> []" using that by auto
    then obtain v where "map_find (po_messages po) k = Some v"
      unfolding entries_of_def by (cases "map_find (po_messages po) k") simp_all
    then have "(k, v) \<in> set (po_messages po)" unfolding map_find_Some_iff [OF assms(1)] .
    then have "k \<in> fst ` set (po_messages po)" using image_iff by fastforce
    from map_put_existing [OF assms(1) this] show ?thesis
      by (simp add: same cong: map_cong)
  qed
  have keep: "map (\<lambda>e. (fst e, map (marked_in k d (fst e)) (snd e))) (po_messages po) = po_messages po"
    if "\<not> list_ex (concerns d) ?xs"
  proof (rule map_idI)
    fix e assume e: "e \<in> set (po_messages po)"
    have "map (mark_deleted d) ?xs = ?xs"
      using that by (auto simp: mark_deleted_def list_ex_iff intro!: map_idI)
    then show "(fst e, map (marked_in k d (fst e)) (snd e)) = e"
      using same [OF e] entries_of_existing [OF assms(1) e] by (cases "fst e = k") auto
  qed
  show "po_messages (insert_deleted_message env k d po) =
      map (\<lambda>e. (fst e, map (marked_in k d (fst e)) (snd e))) (po_messages po)"
    using put keep by (simp add: insert_deleted_message_def Let_def)
qed

text \<open>
  A message that was not modified meanwhile goes when the server has it, the others stay; one that
  was deleted leaves a request to delete it.
\<close>

lemma delivered_ids:
  "ns_internal_id (delivered hist before y) = ns_internal_id y \<and>
   ns_network_request_id (delivered hist before y) = ns_network_request_id y"
  by (simp add: delivered_def ns_internal_id_def hm_set_prev_msgid_def)

lemma delivered_flags:
  "ns_deleted (delivered hist before y) = ns_deleted y" "ns_modified (delivered hist before y) = ns_modified y"
  "ns_aimid (delivered hist before y) = ns_aimid y"
  "ns_delete_operation (delivered hist before y) = ns_delete_operation y"
  by (simp_all add: delivered_def)

lemma filter_map_untouched:
  "(\<And>y. P (f y) = P y) \<Longrightarrow> (\<And>y. g y = (if P y then y else f y)) \<Longrightarrow> filter P (map g xs) = filter P xs"
  by (induction xs) simp_all

definition request_of :: "i64w \<Rightarrow> not_sent_message \<Rightarrow> delete_message" where
  "request_of hist x = \<lparr>dm_aimid = ns_aimid x, dm_message_id = hist, dm_internal_id = ns_internal_id x,
     dm_operation = ns_delete_operation x\<rparr>"

lemma filter_mapped:
  assumes "po_messages po' = map (\<lambda>e. (fst e, map (g (fst e)) (snd e))) (po_messages po)"
    and "\<And>k y. P (g k y) = P y" and "\<And>k y. y \<in> set (messages_of po) \<Longrightarrow> P y \<Longrightarrow> g k y = y"
  shows "filter P (messages_of po') = filter P (messages_of po)"
proof -
  have one: "(\<And>y. y \<in> set ys \<Longrightarrow> P y \<Longrightarrow> h y = y) \<Longrightarrow> (\<And>y. P (h y) = P y) \<Longrightarrow>
      filter P (map h ys) = filter P ys" for h and ys :: "not_sent_message list"
    by (induction ys) simp_all
  have "(\<And>k y. y \<in> set (concat (map snd m)) \<Longrightarrow> P y \<Longrightarrow> g k y = y) \<Longrightarrow>
      filter P (concat (map (\<lambda>e. map (g (fst e)) (snd e)) m)) = filter P (concat (map snd m))" for m
  proof (induction m)
    case (Cons e m)
    have "filter P (map (g (fst e)) (snd e)) = filter P (snd e)"
      using Cons.prems by (intro one assms(2)) simp
    then show ?case using Cons by simp
  qed simp
  from this [of "po_messages po"] show ?thesis
    using assms(3) by (simp add: messages_of_def assms(1) comp_def)
qed

lemma delivered_message_goes:
  assumes "ids_ok po" and "x \<in> set (messages_of po)" and "0 < sint hist"
    and "ns_deleted x \<or> \<not> ns_modified x" and "\<forall>y \<in> set (messages_of po). hm_msgid (ns_message y) \<noteq> hist"
  shows "messages_of (snd (update_with_imstate env (ns_internal_id x) hist before po)) =
      filter (\<lambda>y. ns_internal_id y \<noteq> ns_internal_id x) (messages_of po)"
    and "ids_ok (snd (update_with_imstate env (ns_internal_id x) hist before po))"
    and "po_deletes (snd (update_with_imstate env (ns_internal_id x) hist before po)) =
      (if ns_deleted x then push_entry (ns_aimid x) (request_of hist x) (po_deletes po) else po_deletes po)"
proof -
  let ?f = "delivered hist before" and ?P = "\<lambda>y. ns_internal_id y \<noteq> ns_internal_id x"
  define po1 where "po1 = update_by_id (ns_internal_id x) ?f po"
  note u = update_by_id_messages [OF assms(1,2) delivered_ids [of hist before], folded po1_def]
  have fx: "?f x \<in> set (messages_of po1)" using assms(2) by (auto simp: u(1))
  have ident: "ns_internal_id (?f x) = ns_internal_id x" using delivered_ids by blast
  have g: "get_message_by_internal_id (ns_internal_id x) po1 = Some (?f x)"
    using find_by_id [OF u(2) fx] ident by simp
  have m1: "filter ?P (messages_of po1) = filter ?P (messages_of po)"
    unfolding u(1) by (rule filter_map_untouched [where f = ?f]) (simp_all add: delivered_ids)
  define po2 where "po2 = (if ns_deleted x then insert_deleted_message env (ns_aimid x) (request_of hist x) po1 else po1)"
  have res: "snd (update_with_imstate env (ns_internal_id x) hist before po) =
      save_sent env (snd (remove_by_id env (ns_internal_id x) po2))"
    using find_by_id [OF assms(1,2)] assms(3,4) g
    by (auto simp: update_with_imstate_def Let_def po1_def [symmetric] delivered_flags po2_def request_of_def)
  have pos: "0 < sint (dm_message_id (request_of hist x))" using assms(3) by (simp add: request_of_def)
  note ins = insert_deleted_messages [OF ids_okD(1) [OF u(2)], of env "ns_aimid x"]
  have un: "marked_in k (request_of hist x) l y = y" if "y \<in> set (messages_of po1)" "?P y" for k l y
  proof -
    have "y \<in> set (messages_of po)" using that m1 by (metis (mono_tags, lifting) mem_Collect_eq set_filter)
    then show ?thesis
      using that(2) assms(5) by (auto simp: marked_in_def mark_deleted_def concerns_def request_of_def)
  qed
  have m2: "filter ?P (messages_of po2) = filter ?P (messages_of po)"
    using filter_mapped [OF ins(1), of ?P] marked_in_ids un m1 by (simp add: po2_def)
  have ids2: "ids_ok po2"
    using ids_ok_mapped [OF u(2) ins(1) marked_in_ids] u(2) by (simp add: po2_def)
  have "ns_internal_id x \<in> ns_internal_id ` set (messages_of po2)"
  proof -
    have "map ns_internal_id (messages_of po2) = map ns_internal_id (messages_of po1)"
      using messages_of_mapped(1) [OF ins(1) marked_in_ids] by (simp add: po2_def)
    then show ?thesis using fx ident by (metis image_eqI list.set_map)
  qed
  then obtain x2 where x2: "x2 \<in> set (messages_of po2)" "ns_internal_id x2 = ns_internal_id x" by auto
  show "messages_of (snd (update_with_imstate env (ns_internal_id x) hist before po)) = filter ?P (messages_of po)"
    using remove_by_id_filter [OF ids2 x2(1), of env] x2(2) by (simp add: res m2)
  show "ids_ok (snd (update_with_imstate env (ns_internal_id x) hist before po))"
    using ids_ok_remove [OF ids2 x2(1), of env] x2(2) by (simp add: res)
  show "po_deletes (snd (update_with_imstate env (ns_internal_id x) hist before po)) =
      (if ns_deleted x then push_entry (ns_aimid x) (request_of hist x) (po_deletes po) else po_deletes po)"
    using remove_by_id_messages(2) [OF ids_okD(1) [OF ids2]] ins(2) pos u(3) by (simp add: res po2_def)
qed

text \<open>
  The sender takes the first message that is ready and the server answers with its identifier, at
  most \<open>n\<close> times.
\<close>

primrec deliver_all ::
    "fs_env \<Rightarrow> (nat \<Rightarrow> i64w) \<Rightarrow> (nat \<Rightarrow> i64w) \<Rightarrow> nat \<Rightarrow> pending_operations \<Rightarrow> pending_operations" where
  "deliver_all env reply before 0 po = po"
| "deliver_all env reply before (Suc n) po =
     (case get_first_ready_to_send po of
        None \<Rightarrow> po
      | Some x \<Rightarrow> deliver_all env reply before n
          (snd (update_with_imstate env (ns_internal_id x) (reply n) (before n) po)))"

lemma find_member: "find P xs = Some x \<Longrightarrow> x \<in> set xs \<and> P x"
  by (induction xs) (auto split: if_splits)

definition requests :: "pending_operations \<Rightarrow> delete_message list" where
  "requests po = concat (map snd (po_deletes po))"

lemma push_entry_facts:
  assumes "ordered m"
  shows "ordered (push_entry k d m)" and "d \<in> set (concat (map snd (push_entry k d m)))"
    and "e \<in> set (concat (map snd m)) \<Longrightarrow> e \<in> set (concat (map snd (push_entry k d m)))"
proof -
  show o: "ordered (push_entry k d m)" using assms by (simp add: push_entry_def ordered_put)
  have new: "(k, entries_of k m @ [d]) \<in> set (push_entry k d m)"
    using map_find_Some_iff [OF o, of k "entries_of k m @ [d]"] by (simp add: push_entry_def find_put [OF assms])
  then show "d \<in> set (concat (map snd (push_entry k d m)))" by force
  assume "e \<in> set (concat (map snd m))"
  then obtain l v where l: "(l, v) \<in> set m" "e \<in> set v" by auto
  show "e \<in> set (concat (map snd (push_entry k d m)))"
  proof (cases "l = k")
    case True
    then have "entries_of k m = v" using entries_of_existing [OF assms l(1)] by simp
    then show ?thesis using new l(2) by force
  next
    case False
    then have "(l, v) \<in> set (push_entry k d m)"
      using map_find_Some_iff [OF o, of l v] map_find_Some_iff [OF assms, of l v] l(1)
      by (simp add: push_entry_def find_put [OF assms])
    then show ?thesis using l(2) by force
  qed
qed

text \<open>C3: With pending identifiers that are distinct and no message modified while it waits, as many
  answers of the server as there are messages deliver everything that is ready, whatever the order:
  the messages that are not ready stay in their order, no ready message is left, and each message that
  was deleted while it waited has left a request to delete it on the server.\<close>

theorem every_ready_message_is_delivered:
  assumes "ids_ok po" and "ordered (po_deletes po)"
    and "\<forall>x \<in> set (messages_of po). is_ready_to_send x \<longrightarrow> ns_deleted x \<or> \<not> ns_modified x"
    and "\<forall>i. 0 < sint (reply i)"
    and "\<forall>i. \<forall>x \<in> set (messages_of po). hm_msgid (ns_message x) \<noteq> reply i"
    and "length (messages_of po) \<le> n"
  shows "messages_of (deliver_all env reply before n po) =
      filter (\<lambda>x. \<not> is_ready_to_send x) (messages_of po) \<and>
    get_first_ready_to_send (deliver_all env reply before n po) = None \<and>
    (\<forall>x \<in> set (messages_of po). is_ready_to_send x \<and> ns_deleted x \<longrightarrow>
      (\<exists>d \<in> set (requests (deliver_all env reply before n po)).
        dm_aimid d = ns_aimid x \<and> dm_internal_id d = ns_internal_id x \<and>
        dm_operation d = ns_delete_operation x)) \<and>
    set (requests po) \<subseteq> set (requests (deliver_all env reply before n po))"
  using assms
proof (induction n arbitrary: po)
  case 0
  then have "messages_of po = []" by simp
  then show ?case by (simp add: get_first_ready_to_send_def find_pending_concat messages_of_def [symmetric])
next
  case (Suc n)
  show ?case
  proof (cases "get_first_ready_to_send po")
    case None
    then have "\<forall>x \<in> set (messages_of po). \<not> is_ready_to_send x"
      unfolding get_first_ready_to_send_def find_pending_concat messages_of_def find_None_iff by blast
    then show ?thesis using None by (simp add: filter_True)
  next
    case (Some x)
    then have x: "x \<in> set (messages_of po)" "is_ready_to_send x"
      using find_member [of is_ready_to_send "messages_of po"]
      by (simp_all add: get_first_ready_to_send_def find_pending_concat messages_of_def)
    define po' where "po' = snd (update_with_imstate env (ns_internal_id x) (reply n) (before n) po)"
    have pre: "0 < sint (reply n)" "ns_deleted x \<or> \<not> ns_modified x"
      "\<forall>y \<in> set (messages_of po). hm_msgid (ns_message y) \<noteq> reply n"
      using Suc.prems(3-5) x by blast+
    note goes = delivered_message_goes [OF Suc.prems(1) x(1) pre, of env "before n", folded po'_def]
    have sub: "set (messages_of po') \<subseteq> set (messages_of po)" by (simp add: goes(1))
    have o: "ordered (po_deletes po')"
      using Suc.prems(2) by (simp add: goes(3) push_entry_facts(1) [OF Suc.prems(2)])
    have "length (messages_of po') < length (messages_of po)"
      unfolding goes(1) by (rule length_filter_less [OF x(1)]) simp
    then have len: "length (messages_of po') \<le> n" using Suc.prems(6) by simp
    have flags: "\<forall>x \<in> set (messages_of po'). is_ready_to_send x \<longrightarrow> ns_deleted x \<or> \<not> ns_modified x"
      using Suc.prems(3) sub by blast
    have fresh: "\<forall>i. \<forall>x \<in> set (messages_of po'). hm_msgid (ns_message x) \<noteq> reply i"
      using Suc.prems(5) sub by blast
    note all = Suc.IH [OF goes(2) o flags Suc.prems(4) fresh len]
    note IH = conjunct1 [OF all] conjunct1 [OF conjunct2 [OF all]] conjunct1 [OF conjunct2 [OF conjunct2 [OF all]]]
      conjunct2 [OF conjunct2 [OF conjunct2 [OF all]]]
    have step: "deliver_all env reply before (Suc n) po = deliver_all env reply before n po'"
      by (simp add: Some po'_def)
    have "\<not> is_ready_to_send y \<Longrightarrow> ns_internal_id y \<noteq> ns_internal_id x" if "y \<in> set (messages_of po)" for y
      using ids_okD(4) [OF Suc.prems(1) x(1) that] x(2) by blast
    then have f: "filter (\<lambda>x. \<not> is_ready_to_send x) (messages_of po') =
        filter (\<lambda>x. \<not> is_ready_to_send x) (messages_of po)"
      unfolding goes(1) filter_filter by (intro filter_cong) auto
    have r: "set (requests po) \<subseteq> set (requests po')"
      unfolding requests_def goes(3) by (rule subsetI, cases "ns_deleted x")
        (simp_all only: if_True if_False push_entry_facts(3) [OF Suc.prems(2)])
    have "\<exists>d \<in> set (requests (deliver_all env reply before n po')). dm_aimid d = ns_aimid y \<and>
        dm_internal_id d = ns_internal_id y \<and> dm_operation d = ns_delete_operation y"
      if y: "y \<in> set (messages_of po)" "is_ready_to_send y" "ns_deleted y" for y
    proof (cases "ns_internal_id y = ns_internal_id x")
      case True
      then have "y = x" using ids_okD(4) [OF Suc.prems(1) x(1) y(1)] by blast
      then have "request_of (reply n) x \<in> set (requests po')"
        using push_entry_facts(2) [OF Suc.prems(2)] y(3) by (simp add: requests_def goes(3))
      then show ?thesis
        using IH(4) \<open>y = x\<close> by (intro bexI [of _ "request_of (reply n) x"]) (auto simp: request_of_def)
    next
      case False
      then show ?thesis using IH(3) y by (simp add: goes(1))
    qed
    then show ?thesis using IH(1,2,4) r unfolding step f by blast
  qed
qed

definition sample_pending :: pending_operations where
  "sample_pending =
     (let x = (\<lambda>i. (not_sent_new 0)\<lparr>ns_aimid := [97], ns_message := history_message_new\<lparr>hm_internal_id := [i]\<rparr>\<rparr>)
      in \<lparr>po_messages = [([97], [x 1, mark_duplicated (x 2), (x 3)\<lparr>ns_deleted := True\<rparr>])], po_deletes = [],
          po_sent_storage = sample_storage, po_delete_storage = sample_storage, po_loaded = True\<rparr>)"

lemma sample_pending_simps [simp]:
  "ids_ok sample_pending" "po_deletes sample_pending = []" "ordered (po_messages sample_pending)"
  "po_sent_storage sample_pending = sample_storage" "po_delete_storage sample_pending = sample_storage"
  by (simp_all add: sample_pending_def ids_ok_def messages_of_def Let_def ns_internal_id_def same_id_def
      get_network_request_id_def mark_duplicated_def not_sent_new_def ordered_def)

theorem every_ready_message_is_delivered_witness:
  "get_first_ready_to_send (deliver_all sample_env (\<lambda>_. 100) (\<lambda>_. 0) 3 sample_pending) = None"
proof -
  have "\<forall>x \<in> set (messages_of sample_pending). is_ready_to_send x \<longrightarrow> ns_deleted x \<or> \<not> ns_modified x"
    "\<forall>i::nat. \<forall>x \<in> set (messages_of sample_pending). hm_msgid (ns_message x) \<noteq> (\<lambda>_. 100) i"
    "length (messages_of sample_pending) \<le> 3"
    by (simp_all add: sample_pending_def messages_of_def Let_def not_sent_new_def mark_duplicated_def
        history_message_new_def)
  then show ?thesis
    using every_ready_message_is_delivered [of sample_pending "\<lambda>_. 100" 3 sample_env "\<lambda>_. 0"] by simp
qed

subsection \<open>Restart\<close>

text \<open>C8: What is pending survives a restart: the object that the constructor builds over the two files has,
  contact by contact and in their order, the stored form of every message that was pending and the
  same requests to delete.\<close>

theorem pending_survives_restart:
  assumes "can_open env" and "file_stream (po_sent_storage po) = None" and "file_stream (po_delete_storage po) = None"
    and "ordered (po_messages po)" and "ordered (po_deletes po)"
    and "\<forall>(k, xs) \<in> set (po_messages po). xs \<noteq> [] \<and> (\<forall>x \<in> set xs. ns_aimid x = k \<and> parts_ok (ns_message x))"
    and "\<forall>(k, ds) \<in> set (po_deletes po). ds \<noteq> [] \<and> (\<forall>d \<in> set ds. dm_aimid d = k \<and> dm_ok d)"
    and "bytes = pack_bytes (map (\<lambda>x. (0, pack_bytes (ns_items x))) (messages_of po))"
    and "block_ok bytes"
    and "length bytes + 16 \<le> capacity (po_sent_storage po)"
    and "dbytes = pack_bytes (map (\<lambda>d. (0, pack_bytes (dm_items d))) (requests po))"
    and "block_ok dbytes"
    and "length dbytes + 16 \<le> capacity (po_delete_storage po)"
    and "po1 = save_deletes env (save_sent env po)"
  shows "\<exists>po2. pending_operations_new env now (po_sent_storage po1) (po_delete_storage po1) = Some po2 \<and>
    po_messages po2 = map (\<lambda>(k, xs). (k, map (ns_stored now) xs)) (po_messages po) \<and>
    po_deletes po2 = po_deletes po"
proof -
  have st: "po_sent_storage po1 = snd (save_pendings env not_sent_serialize (po_messages po) (po_sent_storage po))"
    "po_delete_storage po1 = snd (save_pendings env delete_serialize (po_deletes po) (po_delete_storage po))"
    by (simp_all add: assms(14) save_sent_def save_deletes_def)
  obtain b where s: "fst (load_pendings env (not_sent_of_pack now) ns_aimid (po_sent_storage po1) []) =
      Some (b, map (\<lambda>(k, xs). (k, map (ns_stored now) xs)) (po_messages po))"
    using sent.save_load [OF assms(1,2,4,6) assms(8) [unfolded messages_of_def] assms(9,10) st(1)] by blast
  obtain c where d: "fst (load_pendings env (\<lambda>p. Some (delete_of_pack p)) dm_aimid (po_delete_storage po1) []) =
      Some (c, map (\<lambda>(k, xs). (k, map (\<lambda>d. d) xs)) (po_deletes po))"
    using deletes.save_load [OF assms(1,3,5,7) assms(11) [unfolded requests_def] assms(12,13) st(2)] by blast
  show ?thesis
    using s d by (simp add: pending_operations_new_def load_if_need_def load_sent_def load_deletes_def
        split_beta)
qed

lemma sample_pending_entry:
  "po_messages sample_pending = [([97], messages_of sample_pending)]"
  "x \<in> set (messages_of sample_pending) \<Longrightarrow> ns_aimid x = [97] \<and> parts_ok (ns_message x)"
  by (auto simp: sample_pending_def messages_of_def Let_def not_sent_new_def mark_duplicated_def
      history_message_new_def parts_ok_def)

lemma sample_pending_bytes:
  "length (pack_bytes (map (\<lambda>x. (0, pack_bytes (ns_items x))) (messages_of sample_pending))) \<le> 2000"
  by (simp add: sample_pending_def messages_of_def Let_def not_sent_new_def mark_duplicated_def ns_items_def
      history_message_new_def message_bytes_def message_items_def head_items_def part_items_def
      option_item_def each_item_def mention_items_def opt_item_def patch_version_new_def)

theorem pending_survives_restart_witness:
  "\<exists>po2. pending_operations_new sample_env 1 (po_sent_storage (save_deletes sample_env (save_sent sample_env sample_pending)))
      (po_delete_storage (save_deletes sample_env (save_sent sample_env sample_pending))) = Some po2 \<and>
    po_messages po2 = map (\<lambda>(k, xs). (k, map (ns_stored 1) xs)) (po_messages sample_pending)"
proof -
  let ?b = "pack_bytes (map (\<lambda>x. (0, pack_bytes (ns_items x))) (messages_of sample_pending))"
  have ne: "messages_of sample_pending \<noteq> []" by (simp add: sample_pending_def messages_of_def Let_def)
  have e: "\<forall>(k, xs) \<in> set (po_messages sample_pending). xs \<noteq> [] \<and>
      (\<forall>x \<in> set xs. ns_aimid x = k \<and> parts_ok (ns_message x))"
    unfolding sample_pending_entry(1) using sample_pending_entry(2) ne by fastforce
  have b: "block_ok ?b" "length ?b + 16 \<le> capacity (po_sent_storage sample_pending)"
  proof -
    have "capacity (po_sent_storage sample_pending) = 4096" by simp
    then show "length ?b + 16 \<le> capacity (po_sent_storage sample_pending)"
      using sample_pending_bytes by linarith
    show "block_ok ?b"
      unfolding block_ok_def max_data_block_size_def using sample_pending_bytes by linarith
  qed
  have f: "file_stream (po_sent_storage sample_pending) = None" "file_stream (po_delete_storage sample_pending) = None"
    "ordered (po_deletes sample_pending)"
    by simp_all
  have d: "\<forall>(k, ds) \<in> set (po_deletes sample_pending). ds \<noteq> [] \<and> (\<forall>d \<in> set ds. dm_aimid d = k \<and> dm_ok d)"
    "block_ok []" "length ([] :: byte list) + 16 \<le> capacity (po_delete_storage sample_pending)"
    "[] = pack_bytes (map (\<lambda>d. (0, pack_bytes (dm_items d))) (requests sample_pending))"
    by (simp_all add: block_ok_def max_data_block_size_def requests_def)
  from pending_survives_restart [OF sample_env_opens f(1,2) sample_pending_simps(3) f(3) e d(1) refl b d(4,2,3) refl, of 1]
  show ?thesis by blast
qed

subsection \<open>Deleting a message that waits\<close>

text \<open>C15: A message that is deleted before the server has it is not lost from sight: it stays until its
  identifier arrives, and then it goes and the request to delete it, with that identifier and the
  operation that was asked for, is appended to the requests of its contact.\<close>

theorem deletion_of_waiting_message_reaches_server:
  assumes "ids_ok po" and "(k, xs) \<in> set (po_messages po)" and "x \<in> set xs" and "ns_aimid x = k"
    and "dm_internal_id d = ns_internal_id x" and "ns_internal_id x \<noteq> []" and "sint (dm_message_id d) \<le> 0"
    and "0 < sint hist" and "\<forall>y \<in> set (messages_of po). hm_msgid (ns_message y) \<noteq> hist"
    and "po1 = insert_deleted_message env k d po"
  shows "po_deletes po1 = po_deletes po \<and> get_message_by_internal_id (ns_internal_id x) po1 = Some (mark_deleted d x) \<and>
    messages_of (snd (update_with_imstate env (ns_internal_id x) hist before po1)) =
      filter (\<lambda>y. ns_internal_id y \<noteq> ns_internal_id x) (messages_of po) \<and>
    po_deletes (snd (update_with_imstate env (ns_internal_id x) hist before po1)) =
      push_entry k \<lparr>dm_aimid = k, dm_message_id = hist, dm_internal_id = ns_internal_id x,
        dm_operation = dm_operation d\<rparr> (po_deletes po)"
proof -
  let ?P = "\<lambda>y. ns_internal_id y \<noteq> ns_internal_id x"
  have x: "x \<in> set (messages_of po)" using assms(2,3) by (force simp: messages_of_def)
  note ins = insert_deleted_messages [OF ids_okD(1) [OF assms(1)], of env k d, folded assms(10)]
  have x1: "mark_deleted d x \<in> set (messages_of po1)"
    using assms(2,3) by (force simp: messages_of_def ins(1) marked_in_def)
  have ok: "ids_ok po1" by (rule ids_ok_mapped [OF assms(1) ins(1) marked_in_ids])
  have ident: "ns_internal_id (mark_deleted d x) = ns_internal_id x" using mark_deleted_ids by blast
  have un: "marked_in k d l y = y" if "?P y" for l y
    using that assms(5,7) by (auto simp: marked_in_def mark_deleted_def concerns_def)
  have f: "filter ?P (messages_of po1) = filter ?P (messages_of po)"
    using filter_mapped [OF ins(1), of ?P] marked_in_ids un by simp
  have c: "concerns d x" using assms(5,6) by (simp add: concerns_def)
  have msgid: "hm_msgid (ns_message (marked_in k d l y)) = hm_msgid (ns_message y)" for l y
    by (simp add: marked_in_def mark_deleted_def set_delete_operation_def make_modified_def make_deleted_def
        set_patch_def set_deleted_def set_modified_def)
  then have fresh: "\<forall>y \<in> set (messages_of po1). hm_msgid (ns_message y) \<noteq> hist"
    using messages_of_mapped(2) [OF ins(1) marked_in_ids] assms(9) by metis
  have del: "ns_deleted (mark_deleted d x)" "ns_delete_operation (mark_deleted d x) = dm_operation d"
    "ns_aimid (mark_deleted d x) = k"
    using c assms(4) by (simp_all add: mark_deleted_def set_delete_operation_def)
  note goes = delivered_message_goes [OF ok x1 assms(8) disjI1 [OF del(1)] fresh, of env before, unfolded ident]
  have "po_deletes po1 = po_deletes po" using ins(2) assms(7) by simp
  moreover have "get_message_by_internal_id (ns_internal_id x) po1 = Some (mark_deleted d x)"
    using find_by_id [OF ok x1] ident by simp
  ultimately show ?thesis
    using goes(1,3) del ident by (simp add: f request_of_def)
qed

theorem deletion_of_waiting_message_reaches_server_witness:
  "requests (snd (update_with_imstate sample_env [1] 100 0 (insert_deleted_message sample_env [97]
      \<lparr>dm_aimid = [97], dm_message_id = -1, dm_internal_id = [1], dm_operation = del_for_me\<rparr> sample_pending))) =
    [\<lparr>dm_aimid = [97], dm_message_id = 100, dm_internal_id = [1], dm_operation = del_for_me\<rparr>]"
proof -
  let ?x = "(not_sent_new 0)\<lparr>ns_aimid := [97], ns_message := history_message_new\<lparr>hm_internal_id := [1]\<rparr>\<rparr>"
  let ?d = "\<lparr>dm_aimid = [97], dm_message_id = -1, dm_internal_id = [1], dm_operation = del_for_me\<rparr> :: delete_message"
  have m: "([97], messages_of sample_pending) \<in> set (po_messages sample_pending)" "?x \<in> set (messages_of sample_pending)"
    "\<forall>y \<in> set (messages_of sample_pending). hm_msgid (ns_message y) \<noteq> 100"
    by (simp_all add: sample_pending_def messages_of_def Let_def not_sent_new_def mark_duplicated_def
        history_message_new_def)
  have i: "ns_aimid ?x = [97]" "dm_internal_id ?d = ns_internal_id ?x" "ns_internal_id ?x \<noteq> []"
    "sint (dm_message_id ?d) \<le> 0" "0 < sint (100 :: i64w)"
    by (simp_all add: ns_internal_id_def)
  from deletion_of_waiting_message_reaches_server [OF sample_pending_simps(1) m(1,2) i m(3) refl, of sample_env 0]
  show ?thesis by (simp add: requests_def push_entry_def entries_of_def map_find_def ns_internal_id_def)
qed

end
