(* ===== verification/Url_Parser.thy ===== *)
theory Url_Parser
  imports Prelude
begin

section \<open>Finding links in a text: common.shared/url_parser\<close>

text \<open>
  The parser takes the bytes of a text one at a time and keeps the link it is in the middle of. A
  byte that starts a longer UTF-8 character is collected first. The table of top level domains,
  which is generated from a list of names, and the flavour of the build are parameters. The counters
  of the code have 32 bits; a text of the program is shorter than \<open>2 ^ 31\<close>, so they are
  unbounded here. Two things that the language leaves undefined give \<open>None\<close>: reading the last
  character of an empty buffer, and changing \<open>compare_buf_\<close> while the loop of \<open>fallback\<close> runs over it;
  so does writing outside of \<open>char_buf_\<close>.
\<close>

subsection \<open>Links\<close>

datatype url_type =
  ut_undefined | ut_image | ut_video | ut_filesharing | ut_site | ut_email | ut_ftp | ut_icqprotocol | ut_profile

datatype url_protocol =
  pr_undefined | pr_http | pr_ftp | pr_https | pr_ftps | pr_icq | pr_agent | pr_biz | pr_dit

datatype url_extension =
  ex_undefined | ex_3gp | ex_avi | ex_bmp | ex_flv | ex_gif | ex_jpeg | ex_jpg | ex_mkv | ex_mov | ex_mpeg4
  | ex_svg | ex_png | ex_tiff | ex_webm | ex_wmv

record url =
  u_type :: url_type
  u_protocol :: url_protocol
  u_extension :: url_extension
  u_url :: str
  u_original :: str

definition url_new :: url where
  "url_new = \<lparr>u_type = ut_undefined, u_protocol = pr_undefined, u_extension = ex_undefined, u_url = [],
     u_original = []\<rparr>"

definition is_filesharing :: "url \<Rightarrow> bool" where "is_filesharing u \<longleftrightarrow> u_type u = ut_filesharing"
definition is_image :: "url \<Rightarrow> bool" where "is_image u \<longleftrightarrow> u_type u = ut_image"
definition is_video :: "url \<Rightarrow> bool" where "is_video u \<longleftrightarrow> u_type u = ut_video"
definition is_site :: "url \<Rightarrow> bool" where "is_site u \<longleftrightarrow> u_type u = ut_site"
definition is_email :: "url \<Rightarrow> bool" where "is_email u \<longleftrightarrow> u_type u = ut_email"
definition is_ftp :: "url \<Rightarrow> bool" where "is_ftp u \<longleftrightarrow> u_type u = ut_ftp"

definition has_prtocol :: "url \<Rightarrow> bool" where
  "has_prtocol u \<longleftrightarrow> 4 \<le> length (u_original u) \<and> take 4 (u_original u) = ascii ''http''"

definition url_eq :: "url \<Rightarrow> url \<Rightarrow> bool" where
  "url_eq u v \<longleftrightarrow> u_type u = u_type v \<and> u_protocol u = u_protocol v \<and> u_extension u = u_extension v \<and> u_url u = u_url v"

definition type_name :: "url_type \<Rightarrow> string" where
  "type_name t = (case t of
     ut_undefined \<Rightarrow> ''undefined'' | ut_image \<Rightarrow> ''image'' | ut_video \<Rightarrow> ''video'' | ut_filesharing \<Rightarrow> ''filesharing''
   | ut_site \<Rightarrow> ''site'' | ut_email \<Rightarrow> ''email'' | ut_ftp \<Rightarrow> ''ftp'' | _ \<Rightarrow> ''#unknown'')"

definition protocol_name :: "url_protocol \<Rightarrow> string" where
  "protocol_name p = (case p of
     pr_undefined \<Rightarrow> ''undefined'' | pr_http \<Rightarrow> ''http'' | pr_ftp \<Rightarrow> ''ftp'' | pr_https \<Rightarrow> ''https''
   | pr_ftps \<Rightarrow> ''ftps'' | pr_icq \<Rightarrow> ''icq'' | pr_agent \<Rightarrow> ''magent'' | pr_biz \<Rightarrow> ''myteam-messenger''
   | pr_dit \<Rightarrow> ''itd-messenger'')"

definition extension_name :: "url_extension \<Rightarrow> string" where
  "extension_name e = (case e of
     ex_undefined \<Rightarrow> ''undefined'' | ex_avi \<Rightarrow> ''avi'' | ex_bmp \<Rightarrow> ''bmp'' | ex_flv \<Rightarrow> ''flv'' | ex_gif \<Rightarrow> ''gif''
   | ex_jpeg \<Rightarrow> ''jpeg'' | ex_jpg \<Rightarrow> ''jpg'' | ex_mkv \<Rightarrow> ''mkv'' | ex_mov \<Rightarrow> ''mov'' | ex_mpeg4 \<Rightarrow> ''mpeg4''
   | ex_png \<Rightarrow> ''png'' | ex_tiff \<Rightarrow> ''tiff'' | ex_webm \<Rightarrow> ''webm'' | ex_wmv \<Rightarrow> ''wmv'' | ex_3gp \<Rightarrow> ''3gp''
   | ex_svg \<Rightarrow> ''svg'')"

subsection \<open>The state of the parser\<close>

text \<open>
  The states of the code in three groups: those of a scheme, those of a file extension, the others.
\<close>

datatype scheme_state =
  s_protocol_t1 | s_protocol_t2 | s_protocol_p | s_protocol_s | s_protocol_c | s_protocol_q
  | s_protocol_a | s_protocol_g | s_protocol_e | s_protocol_n | s_protocol_t | s_protocol_y
  | s_protocol_r | s_protocol_s1 | s_protocol_m | s_protocol_m1 | s_protocol_d | s_delimeter_dash

datatype extension_state =
  s_jpg_p | s_jpg_g | s_jpg_e | s_png_n | s_png_g | s_gif_i | s_gif_f | s_bmp_m | s_bmp_p | s_tiff_i
  | s_tiff_f1 | s_tiff_f2 | s_avi_v | s_avi_i | s_mkv_k | s_mkv_v | s_mov_v | s_mpeg4_e | s_mpeg4_g
  | s_mpeg4_4 | s_flv_l | s_flv_v | s_3gp_g | s_3gp_p | s_svg_s | s_svg_v | s_svg_g | s_webm_e
  | s_webm_b | s_webm_m | s_wmv_v

datatype parser_state =
  s_lookup | s_lookup_without_fixed_urls | s_check_www | s_www_2 | s_www_3 | s_www_4 | s_compare
  | s_compare_safe | s_delimeter_colon | s_delimeter_slash1 | s_delimeter_slash2 | s_filesharing_id
  | s_profile_id | s_check_filesharing | s_password | s_host | s_host_n | s_host_at | s_host_dot
  | s_host_colon | s_host_slash | s_port | s_port_dot | s_port_slash | s_path | s_path_dot
  | s_path_slash | s_query_or_end | s_query | s_scheme scheme_state | s_ext extension_state

record compare_item =
  ci_str :: str
  ci_ok_state :: parser_state
  ci_match :: bool
  ci_safe_pos :: int

text \<open>\<open>up_clears\<close> counts how often \<open>compare_buf_\<close> was cleared: a loop over it must not see that.\<close>

record url_parser =
  up_state :: parser_state
  up_protocol :: url_protocol
  up_buf :: str
  up_domain :: str
  up_compare_buf :: str
  up_clears :: nat
  up_compare_pos :: nat
  up_fixed_urls :: "compare_item list"
  up_compare_set :: "byte list"
  up_ok_state :: parser_state
  up_fallback_state :: parser_state
  up_safe_position :: int
  up_extension :: url_extension
  up_is_not_email :: bool
  up_is_email :: bool
  up_has_protocol_prefix :: bool
  up_domain_segments :: nat
  up_ipv4_segments :: nat
  up_id_length :: nat
  up_char_buf :: "byte list"
  up_char_pos :: nat
  up_char_size :: nat
  up_is_utf8 :: bool
  up_url :: url
  up_need_to_check_domain :: bool
  up_tail_size :: nat
  up_files_urls :: "str list"

record url_env =
  is_biz :: bool
  is_dit :: bool
  is_valid_domain :: "str \<Rightarrow> bool"

definition min_filesharing_id_length :: nat where "min_filesharing_id_length = 33"
definition min_profile_id_length :: nat where "min_profile_id_length = 1"

definition reset :: "url_parser \<Rightarrow> url_parser" where
  "reset p = p\<lparr>up_state := s_lookup, up_protocol := pr_undefined, up_buf := [], up_domain := [],
     up_compare_pos := 0, up_extension := ex_undefined, up_is_not_email := False, up_is_email := False,
     up_has_protocol_prefix := False, up_domain_segments := 1, up_ipv4_segments := 1, up_id_length := 0,
     up_char_pos := 0, up_char_size := 0, up_is_utf8 := False,
     up_url := (up_url p)\<lparr>u_type := ut_undefined\<rparr>, up_need_to_check_domain := True, up_tail_size := 0\<rparr>"

subsection \<open>Characters\<close>

definition one_of :: "byte \<Rightarrow> string \<Rightarrow> bool" where
  "one_of c s \<longleftrightarrow> c \<in> set (ascii s)"

definition utf8_char_size :: "byte \<Rightarrow> nat" where
  "utf8_char_size b =
     (if and b 0xE0 = 0xC0 then 2 else if and b 0xF0 = 0xE0 then 3 else if and b 0xF8 = 0xF0 then 4
      else if and b 0xFC = 0xF8 then 5 else if and b 0xFE = 0xFC then 6 else 1)"

definition left_double_quote :: bytes where "left_double_quote = [0xC2, 0xAB]"
definition right_double_quote :: bytes where "right_double_quote = [0xC2, 0xBB]"
definition left_quote :: bytes where "left_quote = [0xE2, 0x80, 0x98]"
definition right_quote :: bytes where "right_quote = [0xE2, 0x80, 0x99]"
definition nbsp :: bytes where "nbsp = [0xC2, 0xA0]"

definition cur :: "url_parser \<Rightarrow> byte" where
  "cur p = up_char_buf p ! 0"

definition char_is :: "bytes \<Rightarrow> url_parser \<Rightarrow> bool" where
  "char_is s p \<longleftrightarrow> up_char_size p = length s \<and> take (length s) (up_char_buf p) = s"

definition isspace :: "byte \<Rightarrow> bool" where
  "isspace c \<longleftrightarrow> c = 32 \<or> 9 \<le> c \<and> c \<le> 13"

definition is_space :: "url_parser \<Rightarrow> bool" where
  "is_space p \<longleftrightarrow> char_is nbsp p \<or> \<not> up_is_utf8 p \<and> isspace (cur p)"

definition is_digit :: "byte \<Rightarrow> bool" where
  "is_digit c \<longleftrightarrow> 48 \<le> c \<and> c \<le> 57"

definition is_digit_char :: "url_parser \<Rightarrow> bool" where
  "is_digit_char p \<longleftrightarrow> \<not> up_is_utf8 p \<and> is_digit (cur p)"

definition is_letter :: "url_parser \<Rightarrow> bool" where
  "is_letter p \<longleftrightarrow> up_is_utf8 p \<or> 0x41 \<le> cur p \<and> cur p \<le> 0x5A \<or> 0x61 \<le> cur p \<and> cur p \<le> 0x7A"

definition is_letter_or_digit :: "url_parser \<Rightarrow> bool" where
  "is_letter_or_digit p \<longleftrightarrow> is_letter p \<or> is_digit (cur p)"

definition is_allowable_char :: "url_parser \<Rightarrow> bool" where
  "is_allowable_char p \<longleftrightarrow> is_letter_or_digit p \<or>
     one_of (cur p) ''-._~!$&'' \<or> cur p = 39 \<or> one_of (cur p) ''()*+,;=:%?#{}@/[]'' \<or> cur p = 34"

definition is_allowable_query_char :: "url_parser \<Rightarrow> bool" where
  "is_allowable_query_char p \<longleftrightarrow> is_allowable_char p \<or> one_of (cur p) ''/?''"

definition is_ending_char :: "byte \<Rightarrow> bool" where
  "is_ending_char c \<longleftrightarrow> one_of c ''.,!?'' \<or> c = 34 \<or> c = 39 \<or> c = 96 \<or> one_of c ''>]);''"

definition is_allowed_profile_id_char :: "url_parser \<Rightarrow> bool" where
  "is_allowed_profile_id_char p \<longleftrightarrow> is_letter_or_digit p \<or> one_of (cur p) ''._@-''"

definition is_valid_top_level_domain :: "url_env \<Rightarrow> url_parser \<Rightarrow> bool" where
  "is_valid_top_level_domain env p \<longleftrightarrow>
     (if up_domain p = [] then False
      else if up_protocol p \<noteq> pr_undefined then True
      else if up_domain_segments p = 4 \<and> up_ipv4_segments p = 4 then True
      else is_valid_domain env (up_domain p))"

definition is_ipv4_segment :: "str \<Rightarrow> bool" where
  "is_ipv4_segment s \<longleftrightarrow> 1 \<le> length s \<and> length s \<le> 3 \<and> list_all is_digit s"

definition char_bytes :: "url_parser \<Rightarrow> bytes" where
  "char_bytes p = take (up_char_size p) (up_char_buf p)"

definition save_to_domain :: "url_parser \<Rightarrow> url_parser" where
  "save_to_domain p = p\<lparr>up_domain := up_domain p @ char_bytes p\<rparr>"

definition save_char_buf :: "url_parser \<Rightarrow> url_parser" where
  "save_char_buf p = p\<lparr>up_buf := up_buf p @ char_bytes p\<rparr>"

subsection \<open>A link is found\<close>

definition scheme_prefix :: "url_protocol \<Rightarrow> str" where
  "scheme_prefix p = (case p of
     pr_undefined \<Rightarrow> ascii ''http://'' | pr_http \<Rightarrow> ascii ''http://'' | pr_ftp \<Rightarrow> ascii ''ftp://''
   | pr_https \<Rightarrow> ascii ''https://'' | pr_ftps \<Rightarrow> ascii ''ftps://'' | pr_icq \<Rightarrow> ascii ''icq://''
   | pr_agent \<Rightarrow> ascii ''magent://'' | pr_biz \<Rightarrow> ascii ''myteam-messenger://''
   | pr_dit \<Rightarrow> ascii ''itd-messenger://'')"

definition make_url :: "url_type \<Rightarrow> url_parser \<Rightarrow> url" where
  "make_url ty p =
     (if \<not> up_has_protocol_prefix p \<and> ty \<noteq> ut_email
      then \<lparr>u_type = ty, u_protocol = (if up_protocol p = pr_undefined then pr_http else up_protocol p),
        u_extension = up_extension p, u_url = scheme_prefix (up_protocol p) @ up_buf p, u_original = up_buf p\<rparr>
      else \<lparr>u_type = ty, u_protocol = up_protocol p, u_extension = up_extension p,
        u_url = up_buf p, u_original = up_buf p\<rparr>)"

text \<open>The states in which the end of the text ends no link.\<close>

definition is_refused :: "url_parser \<Rightarrow> bool" where
  "is_refused p = (case up_state p of
     s_lookup \<Rightarrow> True
   | s_scheme s \<Rightarrow> s \<noteq> s_protocol_d \<and> s \<noteq> s_delimeter_dash
   | s_check_www \<Rightarrow> True | s_www_2 \<Rightarrow> True | s_www_3 \<Rightarrow> True | s_www_4 \<Rightarrow> True
   | s_compare \<Rightarrow> True
   | s_delimeter_colon \<Rightarrow> True | s_delimeter_slash1 \<Rightarrow> True | s_delimeter_slash2 \<Rightarrow> True
   | s_check_filesharing \<Rightarrow> True | s_password \<Rightarrow> True | s_host_colon \<Rightarrow> True
   | s_host \<Rightarrow> up_protocol p = pr_undefined
   | _ \<Rightarrow> False)"

text \<open>The last characters that cannot end a link, from the back, and their number.\<close>

primrec trim_back :: "bytes \<Rightarrow> (bytes \<times> nat) option" where
  "trim_back [] = None"
| "trim_back (c # cs) =
     (if is_ending_char c then map_option (apsnd Suc) (trim_back cs) else Some (c # cs, 0))"

definition trim_buf :: "url_parser \<Rightarrow> url_parser option" where
  "trim_buf p =
     (case trim_back (rev (up_buf p)) of
        None \<Rightarrow> None
      | Some (b, n) \<Rightarrow>
          let q = p\<lparr>up_buf := rev b, up_tail_size := up_tail_size p + n\<rparr>
          in if last (up_buf q) \<noteq> 41 then Some q
             else
               let b1 = butlast (up_buf q)
               in if b1 = [] then None
                  else if last b1 \<noteq> 47 then Some q
                  else Some (q\<lparr>up_buf := b1, up_tail_size := up_tail_size q + 1\<rparr>))"

definition site_type :: "url_parser \<Rightarrow> url_type" where
  "site_type p = (if up_protocol p = pr_ftp \<or> up_protocol p = pr_ftps then ut_ftp else ut_site)"

definition image_extensions :: "url_extension list" where
  "image_extensions = [ex_bmp, ex_gif, ex_jpeg, ex_jpg, ex_png, ex_svg, ex_tiff]"

definition video_extensions :: "url_extension list" where
  "video_extensions = [ex_3gp, ex_avi, ex_flv, ex_mkv, ex_mov, ex_mpeg4, ex_webm, ex_wmv]"

definition found_url :: "url_env \<Rightarrow> url_parser \<Rightarrow> bool \<times> url_parser" where
  "found_url env p =
     (if up_is_email p \<and> up_protocol p = pr_undefined then (True, p\<lparr>up_url := make_url ut_email p\<rparr>)
      else if up_extension p \<in> set image_extensions then (True, p\<lparr>up_url := make_url ut_image p\<rparr>)
      else if up_extension p \<in> set video_extensions then (True, p\<lparr>up_url := make_url ut_video p\<rparr>)
      else if up_state p = s_filesharing_id \<and> min_filesharing_id_length \<le> up_id_length p
        then (True, p\<lparr>up_url := make_url ut_filesharing p\<rparr>)
      else if up_need_to_check_domain p \<and> \<not> is_valid_top_level_domain env p then (False, p)
      else (True, p\<lparr>up_url := make_url (site_type p) p\<rparr>))"

definition save_url :: "url_env \<Rightarrow> url_parser \<Rightarrow> (bool \<times> url_parser) option" where
  "save_url env p =
     (if is_refused p then Some (False, p)
      else if up_state p = s_compare_safe then Some (True, p\<lparr>up_url := make_url (site_type p) p\<rparr>)
      else if up_state p = s_profile_id then Some (True, p\<lparr>up_url := make_url ut_profile p\<rparr>)
      else if up_domain_segments p = 1 \<and> up_state p \<noteq> s_filesharing_id \<and> up_protocol p = pr_undefined
        then Some (False, p)
      else
        (case trim_buf p of
           None \<Rightarrow> None
         | Some q \<Rightarrow>
             Some (found_url env (if char_is nbsp q then q\<lparr>up_tail_size := up_tail_size q + 1\<rparr> else q))))"

definition has_url :: "url_parser \<Rightarrow> bool" where
  "has_url p \<longleftrightarrow> u_type (up_url p) \<noteq> ut_undefined"

definition skipping_chars :: "url_parser \<Rightarrow> bool" where
  "skipping_chars p \<longleftrightarrow> up_state p = s_lookup"

definition raw_url_length :: "url_parser \<Rightarrow> nat" where
  "raw_url_length p = length (up_buf p)"

subsection \<open>Comparing with the fixed links\<close>

datatype compare_result = cr_match | cr_no_match | cr_in_progress

definition to_lower :: "byte \<Rightarrow> byte" where
  "to_lower c = (if 65 \<le> c \<and> c \<le> 90 then c + 32 else c)"

text \<open>The text to compare with ends in a zero byte; what is behind that is not equal to anything.\<close>

definition is_equal :: "bytes \<Rightarrow> url_parser \<Rightarrow> bool" where
  "is_equal t p \<longleftrightarrow>
     (if \<not> up_is_utf8 p then cur p = hd (t @ [0]) \<or> to_lower (cur p) = hd (t @ [0])
      else take (up_char_size p) (t @ [0]) = char_bytes p)"

record compare_scan =
  cs_partial :: bool
  cs_end :: bool
  cs_min_safe :: int
  cs_ok :: parser_state

definition is_skipped :: "nat \<Rightarrow> compare_item \<Rightarrow> bool" where
  "is_skipped pos item \<longleftrightarrow> pos \<noteq> 0 \<and> \<not> ci_match item \<or> length (ci_str item) - 1 < pos"

definition scan_item :: "url_parser \<Rightarrow> nat \<Rightarrow> compare_item \<Rightarrow> compare_scan \<Rightarrow> compare_item \<times> compare_scan" where
  "scan_item p pos item s =
     (if is_skipped pos item then (item, s)
      else
        let matches = is_equal (drop pos (ci_str item)) p;
            end_reached = cs_end s \<and> length (ci_str item) - 1 = pos
        in (item\<lparr>ci_match := matches\<rparr>,
            \<lparr>cs_partial = cs_partial s \<or> matches, cs_end = end_reached,
              cs_min_safe = (if matches \<and> ci_safe_pos item < cs_min_safe s \<or> cs_min_safe s = -1
                then ci_safe_pos item else cs_min_safe s),
              cs_ok = (if end_reached \<and> matches then ci_ok_state item else cs_ok s)\<rparr>))"

primrec scan_items ::
    "url_parser \<Rightarrow> nat \<Rightarrow> compare_item list \<Rightarrow> compare_scan \<Rightarrow> compare_item list \<times> compare_scan" where
  "scan_items p pos [] s = ([], s)"
| "scan_items p pos (item # items) s =
     (let (i, s1) = scan_item p pos item s; (is, s2) = scan_items p pos items s1 in (i # is, s2))"

definition compare_fixed_urls :: "nat \<Rightarrow> url_parser \<Rightarrow> compare_result \<times> url_parser" where
  "compare_fixed_urls pos p0 =
     (let (items, s) = scan_items p0 pos (up_fixed_urls p0)
            \<lparr>cs_partial = False, cs_end = True, cs_min_safe = -1, cs_ok = up_ok_state p0\<rparr>;
          p = p0\<lparr>up_fixed_urls := items, up_ok_state := cs_ok s\<rparr>;
          cb = up_compare_buf p @ char_bytes p;
          q = (if cs_partial s
               then p\<lparr>up_compare_buf := cb, up_buf := up_buf p @ [cb ! up_compare_pos p],
                 up_compare_pos := up_compare_pos p + up_char_size p, up_safe_position := cs_min_safe s\<rparr>
               else p)
      in (if cs_partial s \<and> \<not> cs_end s then cr_in_progress
          else if cs_partial s \<and> cs_end s then cr_match else cr_no_match, q))"

definition start_fixed_urls_compare :: "parser_state \<Rightarrow> url_parser \<Rightarrow> url_parser" where
  "start_fixed_urls_compare fallback_state p0 =
     (let p = p0\<lparr>up_compare_pos := 0, up_safe_position := 0, up_compare_buf := [],
            up_clears := Suc (up_clears p0), up_fallback_state := fallback_state,
            up_fixed_urls := map (\<lambda>item. item\<lparr>ci_match := False\<rparr>) (up_fixed_urls p0)\<rparr>;
          (r, q) = compare_fixed_urls (up_compare_pos p) p
      in q\<lparr>up_state := (case r of cr_match \<Rightarrow> up_ok_state q | cr_no_match \<Rightarrow> up_fallback_state q
             | cr_in_progress \<Rightarrow> s_compare)\<rparr>)"

subsection \<open>One character\<close>

text \<open>
  How the switch over the states is left: by \<open>return\<close>, by \<open>break\<close> (then the character is appended
  to the buffer), through \<open>fallback\<close>, or into what the language leaves undefined.
\<close>

datatype outcome = Return url_parser | Break url_parser | Fallback url_parser | Undefined

definition to_state :: "parser_state \<Rightarrow> url_parser \<Rightarrow> outcome" where
  "to_state s p = Break (p\<lparr>up_state := s\<rparr>)"

definition reset_parser :: "url_parser \<Rightarrow> outcome" where
  "reset_parser p = Return (reset p)"

definition uri_found :: "url_env \<Rightarrow> url_parser \<Rightarrow> outcome" where
  "uri_found env p =
     (case save_url env p of
        None \<Rightarrow> Undefined
      | Some (True, q) \<Rightarrow> Return q
      | Some (False, q) \<Rightarrow> Return (reset q))"

definition found_if_domain :: "url_env \<Rightarrow> url_parser \<Rightarrow> outcome" where
  "found_if_domain env p = (if is_valid_top_level_domain env p then uri_found env p else reset_parser p)"

definition state_if_domain :: "url_env \<Rightarrow> parser_state \<Rightarrow> url_parser \<Rightarrow> outcome" where
  "state_if_domain env s p =
     (if \<not> up_is_email p \<and> is_valid_top_level_domain env p then to_state s p else reset_parser p)"

definition host_case :: "url_env \<Rightarrow> url_parser \<Rightarrow> outcome" where
  "host_case env p =
     (let c = cur p
      in if one_of c ''.'' then to_state s_host_dot p
         else if one_of c '':'' then to_state s_host_colon p
         else if one_of c ''@'' then to_state s_host_at p
         else if one_of c ''/'' then (if up_protocol p = pr_undefined then reset_parser p else Break p)
         else if one_of c ''?'' then
           (if up_protocol p \<notin> {pr_icq, pr_agent, pr_biz, pr_dit} then reset_parser p else Break p)
         else if \<not> is_allowable_char p then
           (if up_protocol p \<noteq> pr_undefined then uri_found env p else reset_parser p)
         else Break (save_to_domain p))"

text \<open>Setting the state to \<open>host\<close> and processing the character again.\<close>

definition reprocess_host :: "url_env \<Rightarrow> url_parser \<Rightarrow> outcome" where
  "reprocess_host env p = host_case env (p\<lparr>up_state := s_host\<rparr>)"

definition no_scheme :: "url_env \<Rightarrow> url_parser \<Rightarrow> outcome" where
  "no_scheme env p = reprocess_host env (p\<lparr>up_protocol := pr_undefined\<rparr>)"

definition blank_or_no_scheme :: "url_env \<Rightarrow> url_parser \<Rightarrow> outcome" where
  "blank_or_no_scheme env p = (if is_space p then reset_parser p else no_scheme env p)"

definition lookup_case :: "url_env \<Rightarrow> url_parser \<Rightarrow> outcome" where
  "lookup_case env p =
     (let c = cur p;
          scheme = (\<lambda>pr. Break (p\<lparr>up_protocol := pr, up_state := s_scheme s_protocol_t1\<rparr>))
      in if one_of c ''wW'' then to_state s_www_2 p
         else if one_of c ''hH'' then scheme pr_http
         else if one_of c ''fF'' then scheme pr_ftp
         else if one_of c ''iI'' then scheme pr_icq
         else if one_of c ''mM'' then scheme pr_agent
         else if char_is left_double_quote p then Return p
         else if char_is left_quote p then Return p
         else if is_letter_or_digit p then to_state s_host (save_to_domain p)
         else Return p)"

definition scheme_case :: "url_env \<Rightarrow> scheme_state \<Rightarrow> url_parser \<Rightarrow> outcome" where
  "scheme_case env s p =
     (let c = cur p;
          go = (\<lambda>t. to_state (s_scheme t) p);
          colon_or_e = (if one_of c '':'' then to_state s_delimeter_slash1 p
            else if one_of c ''eE'' then go s_protocol_e
            else if is_allowable_char p then no_scheme env p
            else reset_parser p)
      in case s of
        s_protocol_t1 \<Rightarrow>
          (if one_of c ''tT'' then go (if up_protocol p = pr_ftp then s_protocol_p else s_protocol_t2)
           else if one_of c ''cC'' \<and> up_protocol p = pr_icq \<and> \<not> is_biz env \<and> \<not> is_dit env then go s_protocol_c
           else if one_of c ''aA'' \<and> up_protocol p = pr_agent \<and> \<not> is_biz env \<and> \<not> is_dit env then go s_protocol_a
           else if one_of c ''yY'' \<and> is_biz env
             then to_state (s_scheme s_protocol_y) (p\<lparr>up_protocol := pr_biz\<rparr>)
           else blank_or_no_scheme env p)
      | s_protocol_t2 \<Rightarrow>
          (if one_of c ''tT'' then go s_protocol_p else if one_of c ''dD'' then go s_protocol_d
           else blank_or_no_scheme env p)
      | s_protocol_p \<Rightarrow>
          (if one_of c ''pP'' then go s_protocol_s else if one_of c ''dD'' then go s_protocol_d
           else blank_or_no_scheme env p)
      | s_protocol_c \<Rightarrow> (if one_of c ''qQ'' then go s_protocol_q else blank_or_no_scheme env p)
      | s_protocol_t \<Rightarrow> colon_or_e
      | s_protocol_q \<Rightarrow> colon_or_e
      | s_protocol_s \<Rightarrow>
          (if one_of c ''sS'' then to_state s_delimeter_colon
             (p\<lparr>up_protocol := (if up_protocol p = pr_http then pr_https else pr_ftps)\<rparr>)
           else if one_of c ''.'' then to_state s_host_dot (p\<lparr>up_protocol := pr_undefined\<rparr>)
           else if one_of c '':'' then to_state s_delimeter_slash1 p
           else if is_allowable_char p then no_scheme env p
           else reset_parser p)
      | s_protocol_a \<Rightarrow>
          (if one_of c ''gG'' then go s_protocol_g else if one_of c ''mM'' then go s_protocol_m
           else blank_or_no_scheme env p)
      | s_protocol_g \<Rightarrow> (if one_of c ''eE'' then go s_protocol_e else blank_or_no_scheme env p)
      | s_protocol_e \<Rightarrow>
          (if one_of c ''nN'' then go s_protocol_n else if one_of c ''aA'' then go s_protocol_a
           else if one_of c ''sS'' then go s_protocol_s1 else if one_of c ''gG'' then go s_protocol_g
           else if one_of c ''rR'' then go s_protocol_r else blank_or_no_scheme env p)
      | s_protocol_n \<Rightarrow>
          (if one_of c ''tT'' then go s_protocol_t else if one_of c ''gG'' then go s_protocol_g
           else blank_or_no_scheme env p)
      | s_protocol_y \<Rightarrow> (if one_of c ''tT'' then go s_protocol_t else blank_or_no_scheme env p)
      | s_protocol_m \<Rightarrow> (if one_of c ''-'' then go s_delimeter_dash else blank_or_no_scheme env p)
      | s_protocol_m1 \<Rightarrow> (if one_of c ''eE'' then go s_protocol_e else blank_or_no_scheme env p)
      | s_protocol_s1 \<Rightarrow>
          (if one_of c ''sS'' then go s_protocol_s1 else if one_of c ''eE'' then go s_protocol_e
           else blank_or_no_scheme env p)
      | s_protocol_r \<Rightarrow> (if one_of c '':'' then to_state s_delimeter_slash1 p else blank_or_no_scheme env p)
      | s_protocol_d \<Rightarrow>
          (if one_of c ''-'' \<and> is_dit env
             then to_state (s_scheme s_delimeter_dash) (p\<lparr>up_protocol := pr_dit\<rparr>)
           else blank_or_no_scheme env p)
      | s_delimeter_dash \<Rightarrow> (if one_of c ''mM'' then go s_protocol_m1 else blank_or_no_scheme env p))"

definition path_or_reset :: "url_parser \<Rightarrow> outcome" where
  "path_or_reset p = (if is_allowable_char p then to_state s_path p else reset_parser p)"

definition host_or_reset :: "url_parser \<Rightarrow> outcome" where
  "host_or_reset p = (if is_allowable_char p then to_state s_host p else reset_parser p)"

definition save_host_or_reset :: "url_parser \<Rightarrow> outcome" where
  "save_host_or_reset p =
     (if is_allowable_char p then to_state s_host (save_to_domain p) else reset_parser p)"

text \<open>The characters that an extension goes on with, and where to; \<open>Some\<close> completes it.\<close>

definition extension_moves :: "extension_state \<Rightarrow> (string \<times> url_extension option \<times> extension_state) list" where
  "extension_moves s = (case s of
     s_jpg_p \<Rightarrow> [(''pP'', None, s_jpg_g)]
   | s_jpg_g \<Rightarrow> [(''gG'', Some ex_jpg, s_jpg_g), (''eE'', None, s_jpg_e)]
   | s_jpg_e \<Rightarrow> [(''gG'', Some ex_jpeg, s_jpg_e)]
   | s_png_n \<Rightarrow> [(''nN'', None, s_png_g)]
   | s_png_g \<Rightarrow> [(''gG'', Some ex_png, s_png_g)]
   | s_gif_i \<Rightarrow> [(''iI'', None, s_gif_f)]
   | s_gif_f \<Rightarrow> [(''fF'', Some ex_gif, s_gif_f)]
   | s_bmp_m \<Rightarrow> [(''mM'', None, s_bmp_p)]
   | s_bmp_p \<Rightarrow> [(''pP'', Some ex_bmp, s_bmp_p)]
   | s_tiff_i \<Rightarrow> [(''iI'', None, s_tiff_f1)]
   | s_tiff_f1 \<Rightarrow> [(''fF'', None, s_tiff_f2)]
   | s_tiff_f2 \<Rightarrow> [(''fF'', Some ex_tiff, s_tiff_f2)]
   | s_avi_v \<Rightarrow> [(''vV'', None, s_avi_i)]
   | s_avi_i \<Rightarrow> [(''iI'', Some ex_avi, s_avi_i)]
   | s_mkv_k \<Rightarrow> [(''kK'', None, s_mkv_v), (''oO'', None, s_mov_v), (''pP'', None, s_mpeg4_e)]
   | s_mkv_v \<Rightarrow> [(''vV'', Some ex_mkv, s_mkv_v)]
   | s_mov_v \<Rightarrow> [(''vV'', Some ex_mov, s_mov_v)]
   | s_mpeg4_e \<Rightarrow> [(''eE'', None, s_mpeg4_g), (''4'', Some ex_mpeg4, s_mpeg4_e)]
   | s_mpeg4_g \<Rightarrow> [(''gG'', None, s_mpeg4_4)]
   | s_mpeg4_4 \<Rightarrow> [(''4'', Some ex_mpeg4, s_mpeg4_4)]
   | s_svg_s \<Rightarrow> []
   | s_svg_v \<Rightarrow> [(''vV'', None, s_svg_g)]
   | s_svg_g \<Rightarrow> [(''gG'', Some ex_svg, s_svg_g)]
   | s_flv_l \<Rightarrow> [(''lL'', None, s_flv_v)]
   | s_flv_v \<Rightarrow> [(''vV'', Some ex_flv, s_flv_v)]
   | s_3gp_g \<Rightarrow> [(''gG'', None, s_3gp_p)]
   | s_3gp_p \<Rightarrow> [(''pP'', Some ex_3gp, s_3gp_p)]
   | s_webm_e \<Rightarrow> [(''eE'', None, s_webm_b), (''mM'', None, s_wmv_v)]
   | s_webm_b \<Rightarrow> [(''bB'', None, s_webm_m)]
   | s_webm_m \<Rightarrow> [(''mM'', Some ex_webm, s_webm_m)]
   | s_wmv_v \<Rightarrow> [(''vV'', Some ex_wmv, s_wmv_v)])"

text \<open>The state \<open>svg_s\<close> has no case in the switch; nothing leads to it.\<close>

definition extension_case :: "extension_state \<Rightarrow> url_parser \<Rightarrow> outcome" where
  "extension_case s p =
     (if s = s_svg_s then Break p
      else case find (\<lambda>(cs, _, _). one_of (cur p) cs) (extension_moves s) of
        Some (_, None, t) \<Rightarrow> to_state (s_ext t) p
      | Some (_, Some e, _) \<Rightarrow> to_state s_query_or_end (p\<lparr>up_extension := e\<rparr>)
      | None \<Rightarrow> path_or_reset p)"

definition path_dot_moves :: "(string \<times> extension_state) list" where
  "path_dot_moves =
     [(''jJ'', s_jpg_p), (''pP'', s_png_n), (''gG'', s_gif_i), (''bB'', s_bmp_m), (''tT'', s_tiff_i),
      (''aA'', s_avi_v), (''mM'', s_mkv_k), (''fF'', s_flv_l), (''sS'', s_svg_v), (''3'', s_3gp_g),
      (''wW'', s_webm_e)]"

definition path_dot_case :: "url_env \<Rightarrow> url_parser \<Rightarrow> outcome" where
  "path_dot_case env p =
     (case find (\<lambda>(cs, _). one_of (cur p) cs) path_dot_moves of
        Some (_, t) \<Rightarrow> to_state (s_ext t) p
      | None \<Rightarrow> if is_allowable_char p then to_state s_path p
               else if is_space p then uri_found env p
               else reset_parser p)"

definition host_n_case :: "url_env \<Rightarrow> url_parser \<Rightarrow> outcome" where
  "host_n_case env p =
     (let c = cur p
      in if one_of c ''.'' then to_state s_host_dot p
         else if one_of c '':'' then state_if_domain env s_host_colon p
         else if one_of c ''@'' then
           (if up_is_email p \<or> up_is_not_email p then reset_parser p
            else to_state s_host (p\<lparr>up_is_email := True\<rparr>))
         else if one_of c ''/'' then state_if_domain env s_host_slash p
         else if one_of c ''?'' then
           (if up_is_email p then uri_found env p
            else if is_valid_top_level_domain env p then to_state s_query p
            else reset_parser p)
         else if one_of c ''#'' then state_if_domain env s_query p
         else if is_space p then found_if_domain env p
         else if is_ending_char c then found_if_domain env p
         else if char_is right_double_quote p then found_if_domain env p
         else if char_is right_quote p then found_if_domain env p
         else if \<not> is_letter_or_digit p \<and> \<not> one_of c ''-'' then reset_parser p
         else Break (save_to_domain p))"

definition host_dot_case :: "url_env \<Rightarrow> url_parser \<Rightarrow> outcome" where
  "host_dot_case env p0 =
     (let p = p0\<lparr>up_domain_segments := Suc (up_domain_segments p0),
            up_ipv4_segments := up_ipv4_segments p0 + (if is_ipv4_segment (up_domain p0) then 1 else 0)\<rparr>
      in if is_letter_or_digit p then to_state s_host_n (save_to_domain (p\<lparr>up_domain := []\<rparr>))
         else if is_space p then uri_found env (p\<lparr>up_domain_segments := up_domain_segments p0\<rparr>)
         else reset_parser p)"

definition path_case :: "url_env \<Rightarrow> url_parser \<Rightarrow> outcome" where
  "path_case env p =
     (let c = cur p
      in if one_of c ''.'' then to_state s_path_dot p
         else if one_of c ''/'' then to_state s_path_slash p
         else if one_of c ''?'' then to_state s_query p
         else if is_space p then uri_found env p
         else if char_is right_double_quote p then found_if_domain env p
         else if char_is right_quote p then found_if_domain env p
         else if is_allowable_char p then Break p
         else if is_ending_char c then found_if_domain env p
         else Break p)"

definition id_case :: "url_env \<Rightarrow> url_parser \<Rightarrow> outcome" where
  "id_case env p0 =
     (let p = p0\<lparr>up_id_length := Suc (up_id_length p0)\<rparr>
      in if is_space p then
           (if min_profile_id_length \<le> up_id_length p then uri_found env p
            else uri_found env (p\<lparr>up_state := s_host, up_need_to_check_domain := False\<rparr>))
         else if \<not> is_allowed_profile_id_char p then reset_parser p
         else Break p)"

definition compare_case :: "url_parser \<Rightarrow> outcome" where
  "compare_case p =
     (let (r, q) = compare_fixed_urls (up_compare_pos p) p
      in case r of
           cr_no_match \<Rightarrow> Fallback q
         | cr_match \<Rightarrow> Return (q\<lparr>up_state := up_ok_state q\<rparr>)
         | cr_in_progress \<Rightarrow> Return q)"

definition in_compare_set :: "url_parser \<Rightarrow> bool" where
  "in_compare_set p \<longleftrightarrow> cur p \<in> set (up_compare_set p)"

definition process_switch :: "url_env \<Rightarrow> url_parser \<Rightarrow> outcome" where
  "process_switch env p =
     (let c = cur p
      in case up_state p of
        s_lookup \<Rightarrow>
          (if in_compare_set p then Return (start_fixed_urls_compare s_lookup_without_fixed_urls p)
           else lookup_case env p)
      | s_lookup_without_fixed_urls \<Rightarrow> lookup_case env p
      | s_scheme s \<Rightarrow> scheme_case env s p
      | s_check_www \<Rightarrow>
          (if one_of c ''wW'' then to_state s_www_2 p
           else if in_compare_set p then Return (start_fixed_urls_compare s_host p)
           else save_host_or_reset p)
      | s_www_2 \<Rightarrow> (if one_of c ''wW'' then to_state s_www_3 p else host_or_reset p)
      | s_www_3 \<Rightarrow> (if one_of c ''wW'' then to_state s_www_4 p else host_or_reset p)
      | s_www_4 \<Rightarrow> (if one_of c ''.'' then to_state s_check_filesharing p else host_or_reset p)
      | s_compare \<Rightarrow>
          compare_case (if up_safe_position p \<noteq> 0 \<and> up_safe_position p \<le> int (up_compare_pos p)
            then p\<lparr>up_state := s_compare_safe\<rparr> else p)
      | s_compare_safe \<Rightarrow> compare_case p
      | s_delimeter_colon \<Rightarrow>
          (if one_of c '':'' then to_state s_delimeter_slash1 p
           else if one_of c ''.'' then to_state s_host_dot (p\<lparr>up_protocol := pr_undefined\<rparr>)
           else if is_allowable_char p then to_state s_host (p\<lparr>up_protocol := pr_undefined\<rparr>)
           else reprocess_host env p)
      | s_delimeter_slash1 \<Rightarrow> (if one_of c ''/'' then to_state s_delimeter_slash2 p else reset_parser p)
      | s_delimeter_slash2 \<Rightarrow>
          (if one_of c ''/'' then to_state s_check_www (p\<lparr>up_has_protocol_prefix := True\<rparr>) else reset_parser p)
      | s_filesharing_id \<Rightarrow> id_case env p
      | s_profile_id \<Rightarrow> id_case env p
      | s_check_filesharing \<Rightarrow>
          (if in_compare_set p then Return (start_fixed_urls_compare s_host p) else save_host_or_reset p)
      | s_password \<Rightarrow>
          (if one_of c ''@'' then to_state s_host p
           else if \<not> is_allowable_char p then reset_parser p
           else Break p)
      | s_host \<Rightarrow> host_case env p
      | s_host_n \<Rightarrow> host_n_case env p
      | s_host_at \<Rightarrow>
          (if \<not> is_allowable_char p then reset_parser p
           else if up_protocol p \<noteq> pr_undefined then to_state s_host p
           else if up_is_email p \<or> up_is_not_email p then reset_parser p
           else to_state s_host (p\<lparr>up_is_email := True\<rparr>))
      | s_host_dot \<Rightarrow> host_dot_case env p
      | s_host_colon \<Rightarrow>
          (if is_digit_char p then to_state s_port p
           else if is_allowable_char p then to_state s_password p
           else reset_parser p)
      | s_host_slash \<Rightarrow>
          (if one_of c ''/'' then Break p
           else if is_allowable_char p then to_state s_path p
           else if is_space p then uri_found env p
           else reset_parser p)
      | s_port \<Rightarrow>
          (if one_of c ''/'' then
             (if is_valid_top_level_domain env p then to_state s_port_slash p else reset_parser p)
           else if is_digit_char p then Break p
           else if one_of c ''@'' then to_state s_host p
           else if is_allowable_char p then to_state s_password p
           else reset_parser p)
      | s_port_dot \<Rightarrow> (if is_digit_char p then to_state s_port p else reset_parser p)
      | s_port_slash \<Rightarrow>
          (if is_letter_or_digit p then to_state s_path p
           else if is_space p then uri_found env p
           else reset_parser p)
      | s_path \<Rightarrow> path_case env p
      | s_path_dot \<Rightarrow> path_dot_case env p
      | s_path_slash \<Rightarrow>
          (if is_space p then uri_found env p
           else if one_of c ''?'' then to_state s_query p
           else path_or_reset p)
      | s_ext s \<Rightarrow> extension_case s p
      | s_query_or_end \<Rightarrow>
          (if is_space p then uri_found env p
           else if one_of c ''>'' then uri_found env p
           else if one_of c ''?!,#/:.'' then to_state s_query p
           else if one_of c ''_'' then to_state s_path p
           else if is_letter_or_digit p then to_state s_query (p\<lparr>up_extension := ex_undefined\<rparr>)
           else reset_parser p)
      | s_query \<Rightarrow>
          (if is_space p then uri_found env p
           else if \<not> is_allowable_query_char p then reset_parser p
           else Break p))"

subsection \<open>One byte\<close>

text \<open>
  The state of \<open>char_buf_\<close> after a byte, and whether a character is complete. \<open>None\<close> is a write behind
  the end of the array.
\<close>

definition collect_byte :: "byte \<Rightarrow> url_parser \<Rightarrow> (bool \<times> url_parser) option" where
  "collect_byte c p0 =
     (if length (up_char_buf p0) \<le> up_char_pos p0 then None
      else
        let p = p0\<lparr>up_char_buf := (up_char_buf p0)[up_char_pos p0 := c]\<rparr>
        in if 0 < up_char_pos p then
             let q = p\<lparr>up_char_pos := Suc (up_char_pos p)\<rparr>
             in if up_char_pos q < up_char_size q then Some (False, q)
                else Some (True, q\<lparr>up_char_pos := 0\<rparr>)
           else
             let q = p\<lparr>up_char_size := utf8_char_size c, up_is_utf8 := 1 < utf8_char_size c\<rparr>
             in if \<not> up_is_utf8 q then Some (True, q)
                else Some (False, q\<lparr>up_char_pos := Suc (up_char_pos q)\<rparr>))"

text \<open>
  The loop of \<open>fallback\<close>: the bytes of \<open>compare_buf_\<close> are processed again, and that must not clear
  \<open>compare_buf_\<close> meanwhile.
\<close>

primrec replay :: "(byte \<Rightarrow> url_parser \<Rightarrow> url_parser option) \<Rightarrow> bytes \<Rightarrow> url_parser \<Rightarrow> url_parser option" where
  "replay f [] p = Some p"
| "replay f (c # cs) p =
     Option.bind (f c p) (\<lambda>q. if up_clears q = up_clears p then replay f cs q else None)"

definition fallback ::
    "(byte \<Rightarrow> url_parser \<Rightarrow> url_parser option) \<Rightarrow> byte \<Rightarrow> url_parser \<Rightarrow> url_parser option" where
  "fallback f last_char p0 =
     (let p = p0\<lparr>up_state := up_fallback_state p0\<rparr>
      in if length (up_buf p) < up_compare_pos p then None
         else Option.bind
           (replay f (up_compare_buf p)
             (p\<lparr>up_buf := take (length (up_buf p) - up_compare_pos p) (up_buf p)\<rparr>))
           (f last_char))"

text \<open>The number is how deeply calls of \<open>fallback\<close> may be nested.\<close>

primrec process_within :: "url_env \<Rightarrow> nat \<Rightarrow> byte \<Rightarrow> url_parser \<Rightarrow> url_parser option" where
  "process_within env 0 = (\<lambda>c p. None)"
| "process_within env (Suc n) = (\<lambda>c p0.
     (case collect_byte c p0 of
        None \<Rightarrow> None
      | Some (False, p) \<Rightarrow> Some p
      | Some (True, p) \<Rightarrow>
          (case process_switch env p of
             Return q \<Rightarrow> Some q
           | Break q \<Rightarrow> Some (save_char_buf q)
           | Fallback q \<Rightarrow> fallback (process_within env n) (cur q) q
           | Undefined \<Rightarrow> None)))"

definition process_char :: "url_env \<Rightarrow> byte \<Rightarrow> url_parser \<Rightarrow> url_parser option" where
  "process_char env = process_within env 2"

definition finish :: "url_env \<Rightarrow> url_parser \<Rightarrow> url_parser option" where
  "finish env p = map_option snd (save_url env p)"

subsection \<open>A whole text\<close>

definition fixed_item :: "str \<Rightarrow> int \<Rightarrow> parser_state \<Rightarrow> compare_item" where
  "fixed_item s safe ok = \<lparr>ci_str = s, ci_ok_state = ok, ci_match = False, ci_safe_pos = safe\<rparr>"

definition icq_com :: str where "icq_com = ascii ''icq.com/files/''"
definition icq_com_safe_pos :: int where "icq_com_safe_pos = 6"
definition chat_my_com :: str where "chat_my_com = ascii ''chat.my.com/files/''"
definition chat_my_com_safe_pos :: int where "chat_my_com_safe_pos = 10"
definition files_icq_net :: str where "files_icq_net = ascii ''files.icq.net''"
definition files_myteam_mail_ru :: str where "files_myteam_mail_ru = ascii ''files.myteam.mail.ru''"
definition get_suffix :: str where "get_suffix = ascii ''/get/''"

definition init_fixed_urls_compare :: "url_parser \<Rightarrow> url_parser" where
  "init_fixed_urls_compare p =
     (let items = up_fixed_urls p
            @ map (\<lambda>u. fixed_item (u @ get_suffix) (int (length u) - 1) s_filesharing_id) (up_files_urls p)
            @ [fixed_item icq_com icq_com_safe_pos s_filesharing_id,
               fixed_item chat_my_com chat_my_com_safe_pos s_filesharing_id]
      in p\<lparr>up_fixed_urls := items,
           up_compare_set := up_compare_set p @ map (\<lambda>i. hd (ci_str i)) (filter (\<lambda>i. ci_str i \<noteq> []) items)\<rparr>)"

definition url_parser_new :: "url_env \<Rightarrow> str \<Rightarrow> url_parser" where
  "url_parser_new env files_url =
     (let p = \<lparr>up_state = s_lookup, up_protocol = pr_undefined, up_buf = [], up_domain = [],
            up_compare_buf = [], up_clears = 0, up_compare_pos = 0, up_fixed_urls = [], up_compare_set = [],
            up_ok_state = s_lookup, up_fallback_state = s_lookup, up_safe_position = 0,
            up_extension = ex_undefined, up_is_not_email = False, up_is_email = False,
            up_has_protocol_prefix = False, up_domain_segments = 1, up_ipv4_segments = 1, up_id_length = 0,
            up_char_buf = replicate 6 0, up_char_pos = 0, up_char_size = 0, up_is_utf8 = False,
            up_url = url_new, up_need_to_check_domain = True, up_tail_size = 0,
            up_files_urls =
              (if is_biz env
               then [files_icq_net, files_myteam_mail_ru] @
                 (if files_url \<in> {files_icq_net, files_myteam_mail_ru} then [] else [files_url])
               else [files_url])\<rparr>
      in init_fixed_urls_compare (reset p))"

definition add_fixed_urls :: "compare_item list \<Rightarrow> url_parser \<Rightarrow> url_parser" where
  "add_fixed_urls items p = fold (\<lambda>item p.
     if ci_str item = [] then p
     else p\<lparr>up_compare_set := up_compare_set p @ [hd (ci_str item)],
       up_fixed_urls := up_fixed_urls p @ [item]\<rparr>) items p"

primrec parse_from :: "url_env \<Rightarrow> bytes \<Rightarrow> url_parser \<Rightarrow> url list \<Rightarrow> (url list \<times> url_parser) option" where
  "parse_from env [] p urls = Some (urls, p)"
| "parse_from env (c # cs) p urls =
     Option.bind (process_char env c p) (\<lambda>q.
       if has_url q then parse_from env cs (reset q) (urls @ [up_url q]) else parse_from env cs q urls)"

definition parse_urls :: "url_env \<Rightarrow> str \<Rightarrow> str \<Rightarrow> url list option" where
  "parse_urls env source files_url =
     Option.bind (parse_from env source (url_parser_new env files_url) []) (\<lambda>(urls, p).
       map_option (\<lambda>q. if has_url q then urls @ [up_url q] else urls) (finish env p))"

end
