(* ===== verification/Url_Steps.thy ===== *)
theory Url_Steps
  imports Url_Parser "HOL-Library.Sublist"
begin

section \<open>Steps of the link parser\<close>

text \<open>
  What one character of a text can do to the parser: the switch over its states either goes on with
  the link, forgets it, starts a comparison with the fixed links, or ends the link. Over that, an
  invariant of the parser for texts of single bytes below 128.
\<close>

subsection \<open>The outcomes of the switch\<close>

text \<open>What the switch leaves alone.\<close>

definition same_text :: "url_parser \<Rightarrow> url_parser \<Rightarrow> bool" where
  "same_text p q \<longleftrightarrow>
     up_buf q = up_buf p \<and> up_url q = up_url p \<and> up_tail_size q = up_tail_size p \<and>
     up_char_buf q = up_char_buf p \<and> up_char_pos q = up_char_pos p \<and> up_char_size q = up_char_size p \<and>
     up_is_utf8 q = up_is_utf8 p \<and> up_compare_buf q = up_compare_buf p \<and> up_clears q = up_clears p \<and>
     up_compare_pos q = up_compare_pos p \<and> up_fixed_urls q = up_fixed_urls p \<and>
     up_compare_set q = up_compare_set p \<and> up_fallback_state q = up_fallback_state p"

definition waiting :: "url_parser \<Rightarrow> bool" where
  "waiting p \<longleftrightarrow> up_state p = s_lookup \<or> up_state p = s_lookup_without_fixed_urls"

definition comparing :: "url_parser \<Rightarrow> bool" where
  "comparing p \<longleftrightarrow> up_state p = s_compare \<or> up_state p = s_compare_safe"

definition host_char :: "byte \<Rightarrow> bool" where
  "host_char c \<longleftrightarrow> 0x41 \<le> c \<and> c \<le> 0x5A \<or> 0x61 \<le> c \<and> c \<le> 0x7A \<or> is_digit c \<or> c = 45 \<or> c = 46 \<or> c = 47"

inductive switch_effect :: "url_env \<Rightarrow> url_parser \<Rightarrow> outcome \<Rightarrow> bool" for env p where
  effect_break: "same_text p q \<Longrightarrow> \<not> waiting q \<Longrightarrow> \<not> comparing q \<Longrightarrow> waiting p \<longrightarrow> is_letter_or_digit p \<Longrightarrow>
    switch_effect env p (Break q)"
| effect_reset: "same_text p q \<Longrightarrow> \<not> waiting p \<Longrightarrow> switch_effect env p (Return (reset q))"
| effect_skip: "waiting p \<Longrightarrow> switch_effect env p (Return p)"
| effect_start_lookup: "up_state p = s_lookup \<Longrightarrow> in_compare_set p \<Longrightarrow>
    switch_effect env p (Return (start_fixed_urls_compare s_lookup_without_fixed_urls p))"
| effect_start_host: "up_state p = s_check_www \<or> up_state p = s_check_filesharing \<Longrightarrow> in_compare_set p \<Longrightarrow>
    switch_effect env p (Return (start_fixed_urls_compare s_host p))"
| effect_found: "same_text p q \<Longrightarrow> \<not> waiting p \<Longrightarrow> \<not> waiting q \<Longrightarrow> \<not> comparing q \<Longrightarrow> up_is_utf8 p \<or> \<not> host_char (cur p) \<Longrightarrow>
    switch_effect env p (uri_found env q)"

lemma one_of_simps [simp]: "one_of c [] = False" "one_of c (x # s) = (c = word_of_nat (of_char x) \<or> one_of c s)"
  by (simp_all add: one_of_def ascii_def)

lemma byte_le: "(c :: byte) \<le> d \<longleftrightarrow> unat c \<le> unat d" "(c :: byte) = d \<longleftrightarrow> unat c = unat d"
  by (simp_all add: word_le_nat_alt word_unat_eq_iff)

lemma host_char_facts:
  assumes "host_char c"
  shows "\<not> isspace c" and "c \<noteq> 46 \<Longrightarrow> \<not> is_ending_char c" and "c \<notin> {58, 64, 63, 35, 62}"
    and "(0x41 \<le> c \<and> c \<le> 0x5A \<or> 0x61 \<le> c \<and> c \<le> 0x7A) \<or> is_digit c \<or> c = 45 \<or> c = 46 \<or> c = 47"
proof -
  show a: "(0x41 \<le> c \<and> c \<le> 0x5A \<or> 0x61 \<le> c \<and> c \<le> 0x7A) \<or> is_digit c \<or> c = 45 \<or> c = 46 \<or> c = 47"
    using assms by (auto simp: host_char_def)
  have n: "65 \<le> unat c \<and> unat c \<le> 90 \<or> 97 \<le> unat c \<and> unat c \<le> 122 \<or> 45 \<le> unat c \<and> unat c \<le> 57"
    using a by (auto simp: is_digit_def byte_le)
  show "\<not> isspace c" using n by (simp add: isspace_def byte_le) linarith
  show "c \<notin> {58, 64, 63, 35, 62}" using n by (simp add: byte_le) linarith
  show "c \<noteq> 46 \<Longrightarrow> \<not> is_ending_char c" using n by (simp add: is_ending_char_def byte_le) linarith
qed

lemma letter_or_digit_ends_nothing:
  "\<not> up_is_utf8 p \<Longrightarrow> is_letter_or_digit p \<Longrightarrow> \<not> is_ending_char (cur p)"
  using host_char_facts(2) [of "cur p"] by (auto simp: is_letter_or_digit_def is_letter_def host_char_def byte_le is_digit_def)

lemma host_char_allowable: "\<not> up_is_utf8 p \<Longrightarrow> host_char (cur p) \<Longrightarrow> is_allowable_char p"
  using host_char_facts(4) [of "cur p"] by (auto simp: is_allowable_char_def is_letter_or_digit_def is_letter_def)

lemma host_char_no_space: "\<not> up_is_utf8 p \<Longrightarrow> up_char_size p = 1 \<Longrightarrow> host_char (cur p) \<Longrightarrow> \<not> is_space p"
  using host_char_facts(1) [of "cur p"] by (simp add: is_space_def char_is_def nbsp_def)

lemma same_text_upd [simp]:
  "same_text p p"
  "same_text p (q\<lparr>up_state := s\<rparr>) = same_text p q" "same_text p (q\<lparr>up_protocol := pr\<rparr>) = same_text p q"
  "same_text p (q\<lparr>up_extension := e\<rparr>) = same_text p q" "same_text p (q\<lparr>up_is_email := b\<rparr>) = same_text p q"
  "same_text p (q\<lparr>up_has_protocol_prefix := b\<rparr>) = same_text p q" "same_text p (q\<lparr>up_id_length := n\<rparr>) = same_text p q"
  "same_text p (q\<lparr>up_domain_segments := n\<rparr>) = same_text p q" "same_text p (q\<lparr>up_ipv4_segments := n\<rparr>) = same_text p q"
  "same_text p (q\<lparr>up_domain := d\<rparr>) = same_text p q" "same_text p (q\<lparr>up_need_to_check_domain := b\<rparr>) = same_text p q"
  "same_text p (save_to_domain q) = same_text p q"
  by (simp_all add: same_text_def save_to_domain_def)

lemma same_text_chars:
  "same_text p q \<Longrightarrow> cur q = cur p \<and> is_space q = is_space p \<and> is_allowable_char q = is_allowable_char p \<and>
     is_letter_or_digit q = is_letter_or_digit p \<and> is_digit_char q = is_digit_char p \<and> char_is s q = char_is s p"
  by (simp add: same_text_def cur_def is_space_def char_is_def is_allowable_char_def is_letter_or_digit_def
      is_letter_def is_digit_char_def)

lemma state_upd [simp]:
  "waiting (p\<lparr>up_state := s\<rparr>) = (s = s_lookup \<or> s = s_lookup_without_fixed_urls)"
  "comparing (p\<lparr>up_state := s\<rparr>) = (s = s_compare \<or> s = s_compare_safe)"
  "up_state (save_to_domain p) = up_state p" 
  by (simp_all add: waiting_def comparing_def save_to_domain_def)

lemma effect_to_state:
  "same_text p q \<Longrightarrow> s \<notin> {s_lookup, s_lookup_without_fixed_urls, s_compare, s_compare_safe} \<Longrightarrow>
     waiting p \<longrightarrow> is_letter_or_digit p \<Longrightarrow> switch_effect env p (to_state s q)"
  unfolding to_state_def by (rule effect_break) simp_all

lemma effect_reset_parser: "same_text p q \<Longrightarrow> \<not> waiting p \<Longrightarrow> switch_effect env p (reset_parser q)"
  unfolding reset_parser_def by (rule effect_reset)

lemma chars_upd [simp]:
  "cur (p\<lparr>up_id_length := n\<rparr>) = cur p" "is_space (p\<lparr>up_id_length := n\<rparr>) = is_space p"
  "is_allowed_profile_id_char (p\<lparr>up_id_length := n\<rparr>) = is_allowed_profile_id_char p"
  "is_space (p\<lparr>up_domain_segments := n, up_ipv4_segments := m\<rparr>) = is_space p"
  "is_letter_or_digit (p\<lparr>up_domain_segments := n, up_ipv4_segments := m\<rparr>) = is_letter_or_digit p"
  by (simp_all add: cur_def is_space_def char_is_def is_allowed_profile_id_char_def is_letter_or_digit_def is_letter_def)

text \<open>A state in the middle of a link.\<close>

definition inside :: "url_parser \<Rightarrow> bool" where
  "inside p \<longleftrightarrow> \<not> waiting p \<and> \<not> comparing p"

lemma inside_upd [simp]:
  "inside (p\<lparr>up_protocol := pr\<rparr>) = inside p" "inside (p\<lparr>up_id_length := n\<rparr>) = inside p"
  "inside (p\<lparr>up_extension := e\<rparr>) = inside p" "inside (p\<lparr>up_domain := d\<rparr>) = inside p"
  "inside (p\<lparr>up_domain_segments := n\<rparr>) = inside p" "inside (p\<lparr>up_ipv4_segments := n\<rparr>) = inside p"
  "inside (p\<lparr>up_need_to_check_domain := b\<rparr>) = inside p" "inside (save_to_domain p) = inside p"
  "inside (p\<lparr>up_state := s\<rparr>) = (s \<notin> {s_lookup, s_lookup_without_fixed_urls, s_compare, s_compare_safe})"
  by (auto simp: inside_def waiting_def comparing_def save_to_domain_def)

lemma to_state_in:
  "inside p \<Longrightarrow> same_text p q \<Longrightarrow>
     s \<notin> {s_lookup, s_lookup_without_fixed_urls, s_compare, s_compare_safe} \<Longrightarrow> switch_effect env p (to_state s q)"
  by (intro effect_to_state) (simp_all add: inside_def)

lemma break_in: "inside p \<Longrightarrow> same_text p q \<Longrightarrow> inside q \<Longrightarrow> switch_effect env p (Break q)"
  by (intro effect_break) (simp_all add: inside_def)

lemma reset_in: "inside p \<Longrightarrow> same_text p q \<Longrightarrow> switch_effect env p (reset_parser q)"
  by (intro effect_reset_parser) (simp_all add: inside_def)

lemma found_in:
  "inside p \<Longrightarrow> same_text p q \<Longrightarrow> inside q \<Longrightarrow> up_is_utf8 p \<or> \<not> host_char (cur p) \<Longrightarrow>
     switch_effect env p (uri_found env q)"
  by (intro effect_found) (simp_all add: inside_def)

text \<open>A complete character: a longer one, or one byte.\<close>

definition complete :: "url_parser \<Rightarrow> bool" where
  "complete p \<longleftrightarrow> up_is_utf8 p \<or> up_char_size p = 1"

lemma found_space:
  "inside p \<Longrightarrow> complete p \<Longrightarrow> same_text p q \<Longrightarrow> inside q \<Longrightarrow> is_space p \<Longrightarrow> switch_effect env p (uri_found env q)"
  using host_char_no_space [of p] by (intro found_in) (auto simp: complete_def)

lemma found_odd:
  "inside p \<Longrightarrow> same_text p q \<Longrightarrow> inside q \<Longrightarrow> \<not> is_allowable_char p \<Longrightarrow> switch_effect env p (uri_found env q)"
  using host_char_allowable [of p] by (intro found_in) auto

lemma found_byte:
  "inside p \<Longrightarrow> same_text p q \<Longrightarrow> inside q \<Longrightarrow> cur p = c \<Longrightarrow> \<not> host_char c \<Longrightarrow> switch_effect env p (uri_found env q)"
  by (intro found_in) auto

lemma found_ending:
  "inside p \<Longrightarrow> same_text p q \<Longrightarrow> inside q \<Longrightarrow> is_ending_char (cur p) \<Longrightarrow> cur p \<noteq> 46 \<Longrightarrow>
     switch_effect env p (uri_found env q)"
  using host_char_facts(2) [of "cur p"] by (intro found_in) auto

lemma found_long:
  "inside p \<Longrightarrow> complete p \<Longrightarrow> same_text p q \<Longrightarrow> inside q \<Longrightarrow> char_is s p \<Longrightarrow> length s \<noteq> 1 \<Longrightarrow>
     switch_effect env p (uri_found env q)"
  by (intro found_in) (auto simp: char_is_def complete_def)

lemma effect_if: "(b \<Longrightarrow> switch_effect env p x) \<Longrightarrow> (\<not> b \<Longrightarrow> switch_effect env p y) \<Longrightarrow> switch_effect env p (if b then x else y)"
  by simp

lemmas effect_rules = effect_if to_state_in break_in reset_in

lemma host_case_effect:
  "inside p \<Longrightarrow> same_text p q \<Longrightarrow> inside q \<Longrightarrow> switch_effect env p (host_case env q)"
  using same_text_chars [of p q] unfolding host_case_def Let_def
  by (intro effect_rules found_odd) simp_all

lemma no_scheme_effect: "inside p \<Longrightarrow> same_text p q \<Longrightarrow> switch_effect env p (no_scheme env q)"
  unfolding no_scheme_def reprocess_host_def by (rule host_case_effect) simp_all

lemma blank_or_no_scheme_effect: "inside p \<Longrightarrow> same_text p q \<Longrightarrow> switch_effect env p (blank_or_no_scheme env q)"
  unfolding blank_or_no_scheme_def by (intro effect_rules no_scheme_effect)

lemma scheme_case_effect: "inside p \<Longrightarrow> switch_effect env p (scheme_case env s p)"
  unfolding scheme_case_def Let_def
  by (cases s; simp only: scheme_state.case; intro effect_rules no_scheme_effect blank_or_no_scheme_effect; simp)

lemma lookup_case_effect:
  assumes "waiting p" and "\<not> up_is_utf8 p"
  shows "switch_effect env p (lookup_case env p)"
proof -
  have b: "one_of (cur p) ''wWhHfFiImM'' \<Longrightarrow> is_letter_or_digit p"
    by (auto simp: is_letter_or_digit_def is_letter_def)
  show ?thesis
    unfolding lookup_case_def Let_def
    by (intro effect_if effect_to_state effect_break effect_skip) (use assms b in auto)
qed

lemma extension_case_effect: "inside p \<Longrightarrow> switch_effect env p (extension_case s p)"
  unfolding extension_case_def path_or_reset_def
  by (auto split: option.split intro!: effect_rules)

lemma path_dot_case_effect: "inside p \<Longrightarrow> complete p \<Longrightarrow> switch_effect env p (path_dot_case env p)"
  unfolding path_dot_case_def
  by (auto split: option.split intro!: effect_rules found_space)

lemma found_if_domain_effect:
  "(same_text p q \<Longrightarrow> switch_effect env p (uri_found env q)) \<Longrightarrow> inside p \<Longrightarrow> same_text p q \<Longrightarrow>
     switch_effect env p (found_if_domain env q)"
  unfolding found_if_domain_def by (intro effect_rules) simp_all

lemma state_if_domain_effect:
  "inside p \<Longrightarrow> s \<notin> {s_lookup, s_lookup_without_fixed_urls, s_compare, s_compare_safe} \<Longrightarrow>
     switch_effect env p (state_if_domain env s p)"
  unfolding state_if_domain_def by (intro effect_rules) simp_all

lemma quotes_long: "length right_double_quote \<noteq> 1" "length right_quote \<noteq> 1"
  by (simp_all add: right_double_quote_def right_quote_def)

lemmas found_quote = found_long [OF _ _ _ _ _ quotes_long(1)] found_long [OF _ _ _ _ _ quotes_long(2)]

lemma host_n_case_effect: "inside p \<Longrightarrow> complete p \<Longrightarrow> switch_effect env p (host_n_case env p)"
  unfolding host_n_case_def Let_def
  by (intro effect_rules found_if_domain_effect state_if_domain_effect)
    (auto intro: found_space found_ending found_quote found_byte simp: host_char_def is_digit_def byte_le)

lemma host_dot_case_effect: "inside p \<Longrightarrow> complete p \<Longrightarrow> switch_effect env p (host_dot_case env p)"
  unfolding host_dot_case_def Let_def
  by (intro effect_rules found_space) simp_all

lemma path_case_effect: "inside p \<Longrightarrow> complete p \<Longrightarrow> switch_effect env p (path_case env p)"
  unfolding path_case_def Let_def
  by (intro effect_rules found_if_domain_effect)
    (auto intro: found_space found_ending found_quote found_odd)

lemma id_case_effect: "inside p \<Longrightarrow> complete p \<Longrightarrow> switch_effect env p (id_case env p)"
  unfolding id_case_def Let_def
  by (intro effect_rules found_space) simp_all

lemma inside_cases:
  "up_state p \<notin> {s_lookup, s_lookup_without_fixed_urls, s_compare, s_compare_safe} \<Longrightarrow> inside p"
  by (simp add: inside_def waiting_def comparing_def)

lemmas in_state_defs = path_or_reset_def host_or_reset_def save_host_or_reset_def reprocess_host_def

lemma process_switch_effect:
  assumes "complete p" and "waiting p \<longrightarrow> \<not> up_is_utf8 p" and "\<not> comparing p"
  shows "switch_effect env p (process_switch env p)"
proof (cases "waiting p")
  case True
  then have l: "switch_effect env p (lookup_case env p)" using assms(2) by (intro lookup_case_effect) simp_all
  from True show ?thesis
    unfolding waiting_def
  proof
    assume s: "up_state p = s_lookup"
    show ?thesis
      unfolding process_switch_def Let_def s parser_state.case
      by (intro effect_if effect_start_lookup l s)
  next
    assume s: "up_state p = s_lookup_without_fixed_urls"
    show ?thesis unfolding process_switch_def Let_def s parser_state.case by (rule l)
  qed
next
  case False
  then have i: "inside p" using assms(3) by (simp add: inside_def)
  then have ns: "up_state p \<notin> {s_lookup, s_lookup_without_fixed_urls, s_compare, s_compare_safe}"
    by (auto simp: inside_def waiting_def comparing_def)
  have g: "switch_effect env p (uri_found env p)" if "cur p = 62"
    using that i by (intro found_byte [where c = 62]) (simp_all add: host_char_def is_digit_def)
  have sp: "switch_effect env p (uri_found env p)" if "is_space p"
    using that i assms(1) by (intro found_space) simp_all
  show ?thesis
  proof (cases "up_state p")
    case s_query_or_end
    then show ?thesis
      by (simp only: process_switch_def Let_def parser_state.case)
        (intro effect_rules g sp; use i in simp)
  next
    case s_check_www
    then show ?thesis
      by (simp only: process_switch_def Let_def parser_state.case in_state_defs)
        (intro effect_rules effect_start_host; use i in simp)
  next
    case s_check_filesharing
    then show ?thesis
      by (simp only: process_switch_def Let_def parser_state.case in_state_defs)
        (intro effect_rules effect_start_host; use i in simp)
  qed (use ns in \<open>simp; fail\<close> |
      simp only: process_switch_def Let_def parser_state.case in_state_defs,
      (intro effect_rules sp scheme_case_effect host_case_effect host_n_case_effect host_dot_case_effect
         path_case_effect path_dot_case_effect id_case_effect extension_case_effect; use i assms(1) in simp))+
qed


unbundle bit_operations_syntax

subsection \<open>Single bytes\<close>

definition ascii_byte :: "byte \<Rightarrow> bool" where
  "ascii_byte c \<longleftrightarrow> unat c < 128"

lemma ascii_byte_bit: "ascii_byte c \<Longrightarrow> and c 0x80 = 0"
proof -
  assume "ascii_byte c"
  then have "take_bit 7 c = c" by (simp add: ascii_byte_def word_unat_eq_iff unsigned_take_bit_eq take_bit_eq_mod unat_mod)
  then have b: "\<not> bit c 7" by (metis bit_take_bit_iff less_irrefl)
  have p: "(0x80 :: byte) = 2 ^ 7" by simp
  show ?thesis using b unfolding p by (intro bit_eqI) (auto simp: bit_and_iff bit_exp_iff simp del: power_numeral)
qed

lemma utf8_char_size_ascii:
  assumes "ascii_byte c"
  shows "utf8_char_size c = 1"
proof -
  have "and c m \<noteq> v" if "and m 0x80 = 0x80" "and v 0x80 = 0x80" for m v :: byte
  proof
    assume "and c m = v"
    then have "and (and c 0x80) m = and v 0x80" by (metis and.assoc and.commute)
    then show False using ascii_byte_bit [OF assms] that(2) by simp
  qed
  then show ?thesis by (simp add: utf8_char_size_def)
qed

definition with_char :: "byte \<Rightarrow> url_parser \<Rightarrow> url_parser" where
  "with_char c p = p\<lparr>up_char_buf := (up_char_buf p)[0 := c], up_char_size := 1, up_is_utf8 := False\<rparr>"

lemma collect_ascii:
  "ascii_byte c \<Longrightarrow> length (up_char_buf p) = 6 \<Longrightarrow> up_char_pos p = 0 \<Longrightarrow>
     collect_byte c p = Some (True, with_char c p)"
  by (simp add: collect_byte_def utf8_char_size_ascii with_char_def Let_def)

lemma with_char_simps [simp]:
  "up_state (with_char c p) = up_state p" "up_buf (with_char c p) = up_buf p" "up_url (with_char c p) = up_url p"
  "up_tail_size (with_char c p) = up_tail_size p" "up_char_pos (with_char c p) = up_char_pos p"
  "up_char_size (with_char c p) = 1" "up_is_utf8 (with_char c p) = False"
  "up_compare_buf (with_char c p) = up_compare_buf p" "up_clears (with_char c p) = up_clears p"
  "up_compare_pos (with_char c p) = up_compare_pos p" "up_fixed_urls (with_char c p) = up_fixed_urls p"
  "up_compare_set (with_char c p) = up_compare_set p" "up_fallback_state (with_char c p) = up_fallback_state p"
  "length (up_char_buf (with_char c p)) = length (up_char_buf p)"
  "up_char_buf p \<noteq> [] \<Longrightarrow> cur (with_char c p) = c"
  "up_char_buf p \<noteq> [] \<Longrightarrow> char_bytes (with_char c p) = [c]"
  "waiting (with_char c p) = waiting p" "comparing (with_char c p) = comparing p" "inside (with_char c p) = inside p"
  "complete (with_char c p)"
  by (auto simp: with_char_def cur_def char_bytes_def waiting_def comparing_def inside_def complete_def
      neq_Nil_conv)

subsection \<open>The comparison\<close>

definition fixed_ok :: "url_parser \<Rightarrow> bool" where
  "fixed_ok p \<longleftrightarrow>
     (\<forall>s \<in> ci_str ` set (up_fixed_urls p). s \<noteq> [] \<and> list_all host_char s \<and> hd s \<noteq> 46) \<and>
     ci_ok_state ` set (up_fixed_urls p) \<subseteq> {s_filesharing_id, s_profile_id} \<and>
     set (up_compare_set p) \<subseteq> hd ` ci_str ` set (up_fixed_urls p)"

lemma scan_item_facts:
  "ci_str (fst (scan_item p pos i s)) = ci_str i" "ci_ok_state (fst (scan_item p pos i s)) = ci_ok_state i"
  "ci_safe_pos (fst (scan_item p pos i s)) = ci_safe_pos i"
  "cs_partial (snd (scan_item p pos i s)) \<longleftrightarrow>
     cs_partial s \<or> \<not> is_skipped pos i \<and> is_equal (drop pos (ci_str i)) p"
  "(cs_partial s \<and> cs_end s \<longrightarrow> cs_ok s \<in> K) \<Longrightarrow> ci_ok_state i \<in> K \<Longrightarrow>
     cs_partial (snd (scan_item p pos i s)) \<and> cs_end (snd (scan_item p pos i s)) \<longrightarrow> cs_ok (snd (scan_item p pos i s)) \<in> K"
  by (auto simp: scan_item_def Let_def)

lemma scan_items_Cons:
  "fst (scan_items p pos (i # is) s) =
     fst (scan_item p pos i s) # fst (scan_items p pos is (snd (scan_item p pos i s)))"
  "snd (scan_items p pos (i # is) s) = snd (scan_items p pos is (snd (scan_item p pos i s)))"
  by (simp_all add: split_beta)

declare scan_items.simps(2) [simp del]

lemma scan_items_same:
  "map ci_str (fst (scan_items p pos items s)) = map ci_str items"
  "map ci_ok_state (fst (scan_items p pos items s)) = map ci_ok_state items"
  by (induction items arbitrary: s) (simp_all add: scan_items_Cons scan_item_facts)

lemma scan_items_partial:
  "cs_partial (snd (scan_items p pos items s)) \<longleftrightarrow>
     cs_partial s \<or> (\<exists>i \<in> set items. \<not> is_skipped pos i \<and> is_equal (drop pos (ci_str i)) p)"
  by (induction items arbitrary: s) (auto simp: scan_items_Cons scan_item_facts)

lemma scan_items_ok:
  "(cs_partial s \<and> cs_end s \<longrightarrow> cs_ok s \<in> K) \<Longrightarrow> ci_ok_state ` set items \<subseteq> K \<Longrightarrow>
     cs_partial (snd (scan_items p pos items s)) \<and> cs_end (snd (scan_items p pos items s)) \<longrightarrow>
     cs_ok (snd (scan_items p pos items s)) \<in> K"
proof (induction items arbitrary: s)
  case (Cons i items)
  show ?case
    using Cons.IH [OF scan_item_facts(5) [OF Cons.prems(1)]] Cons.prems(2) by (simp add: scan_items_Cons)
qed simp

definition one_byte :: "url_parser \<Rightarrow> bool" where
  "one_byte p \<longleftrightarrow> \<not> up_is_utf8 p \<and> char_bytes p = [cur p] \<and> up_char_size p = 1"

lemma one_byte_with_char [simp]: "up_char_buf p \<noteq> [] \<Longrightarrow> one_byte (with_char c p)"
  by (simp add: one_byte_def)

lemma host_char_to_lower: "host_char (to_lower c) \<Longrightarrow> host_char c"
  by (auto simp: to_lower_def host_char_def byte_le split: if_splits)

lemma is_equal_host_char:
  assumes "one_byte p" and "is_equal (drop pos s) p" and "pos < length s" and "list_all host_char s"
  shows "host_char (cur p)"
proof -
  have "hd (drop pos s @ [0]) = s ! pos" using assms(3) by (simp add: hd_append hd_drop_conv_nth)
  moreover have "host_char (s ! pos)" using assms(3,4) by (simp add: list_all_length)
  ultimately show ?thesis
    using assms(1,2) host_char_to_lower [of "cur p"] by (auto simp: is_equal_def one_byte_def)
qed

definition scanned :: "nat \<Rightarrow> url_parser \<Rightarrow> compare_item list \<times> compare_scan" where
  "scanned pos p = scan_items p pos (up_fixed_urls p)
     \<lparr>cs_partial = False, cs_end = True, cs_min_safe = -1, cs_ok = up_ok_state p\<rparr>"

lemma fixed_ok_scanned:
  assumes "fixed_ok p" and "up_fixed_urls q = fst (scanned pos p)" and "up_compare_set q = up_compare_set p"
  shows "fixed_ok q"
proof -
  note same = scan_items_same [of p pos "up_fixed_urls p", folded scanned_def]
  have s: "map ci_str (up_fixed_urls q) = map ci_str (up_fixed_urls p)"
    "map ci_ok_state (up_fixed_urls q) = map ci_ok_state (up_fixed_urls p)"
    by (simp_all add: assms(2) scanned_def scan_items_same)
  have set: "ci_str ` set (up_fixed_urls q) = ci_str ` set (up_fixed_urls p)"
    "ci_ok_state ` set (up_fixed_urls q) = ci_ok_state ` set (up_fixed_urls p)"
    using s by (metis list.set_map)+
  show ?thesis
    unfolding fixed_ok_def set assms(3) by (rule assms(1) [unfolded fixed_ok_def])
qed

lemma compare_fixed_urls_cases:
  assumes "fixed_ok p" and "one_byte p" and "up_compare_pos p = length (up_compare_buf p)"
    and "compare_fixed_urls pos p = (r, q)"
  shows "fixed_ok q"
    and "r = cr_no_match \<Longrightarrow> q = p\<lparr>up_fixed_urls := up_fixed_urls q, up_ok_state := up_ok_state q\<rparr>"
    and "r \<noteq> cr_no_match \<Longrightarrow> host_char (cur p) \<and>
      q = p\<lparr>up_fixed_urls := up_fixed_urls q, up_ok_state := up_ok_state q, up_safe_position := up_safe_position q,
        up_compare_buf := up_compare_buf p @ [cur p], up_buf := up_buf p @ [cur p],
        up_compare_pos := Suc (up_compare_pos p)\<rparr>"
    and "r = cr_match \<Longrightarrow> up_ok_state q \<in> {s_filesharing_id, s_profile_id}"
    and "r = cr_no_match \<Longrightarrow> i \<in> set (up_fixed_urls p) \<Longrightarrow> is_skipped pos i \<or> \<not> is_equal (drop pos (ci_str i)) p"
proof -
  define items s where "items = fst (scanned pos p)" and "s = snd (scanned pos p)"
  have scan: "scan_items p pos (up_fixed_urls p)
      \<lparr>cs_partial = False, cs_end = True, cs_min_safe = -1, cs_ok = up_ok_state p\<rparr> = (items, s)"
    by (simp add: items_def s_def scanned_def)
  have r: "r = (if cs_partial s \<and> \<not> cs_end s then cr_in_progress else if cs_partial s \<and> cs_end s then cr_match else cr_no_match)"
    and q: "q = (if cs_partial s
      then p\<lparr>up_fixed_urls := items, up_ok_state := cs_ok s, up_compare_buf := up_compare_buf p @ [cur p],
        up_buf := up_buf p @ [cur p], up_compare_pos := Suc (up_compare_pos p), up_safe_position := cs_min_safe s\<rparr>
      else p\<lparr>up_fixed_urls := items, up_ok_state := cs_ok s\<rparr>)"
    using assms(2,3,4) scan by (auto simp: compare_fixed_urls_def Let_def one_byte_def char_bytes_def nth_append)
  show "fixed_ok q"
    by (rule fixed_ok_scanned [OF assms(1)]) (simp_all add: q items_def)
  have partial: "cs_partial s \<longleftrightarrow>
      (\<exists>i \<in> set (up_fixed_urls p). \<not> is_skipped pos i \<and> is_equal (drop pos (ci_str i)) p)"
    by (simp add: s_def scanned_def scan_items_partial)
  have np: "r = cr_no_match \<longleftrightarrow> \<not> cs_partial s" by (simp add: r)
  have "q = p\<lparr>up_fixed_urls := up_fixed_urls q, up_ok_state := up_ok_state q\<rparr>" if "\<not> cs_partial s"
    unfolding q if_not_P [OF that] by simp
  then show "r = cr_no_match \<Longrightarrow> q = p\<lparr>up_fixed_urls := up_fixed_urls q, up_ok_state := up_ok_state q\<rparr>"
    unfolding np .
  show "r = cr_no_match \<Longrightarrow> i \<in> set (up_fixed_urls p) \<Longrightarrow> is_skipped pos i \<or> \<not> is_equal (drop pos (ci_str i)) p"
    using partial unfolding np by blast
  have "host_char (cur p)" if pt: "cs_partial s"
  proof -
    obtain i where i: "i \<in> set (up_fixed_urls p)" "\<not> is_skipped pos i" "is_equal (drop pos (ci_str i)) p"
      using pt partial by blast
    then have "ci_str i \<noteq> []" "list_all host_char (ci_str i)" using assms(1) by (auto simp: fixed_ok_def)
    then show ?thesis
      using i is_equal_host_char [OF assms(2), of pos "ci_str i"] by (cases "ci_str i") (auto simp: is_skipped_def)
  qed
  moreover have "q = p\<lparr>up_fixed_urls := up_fixed_urls q, up_ok_state := up_ok_state q, up_safe_position := up_safe_position q,
      up_compare_buf := up_compare_buf p @ [cur p], up_buf := up_buf p @ [cur p],
      up_compare_pos := Suc (up_compare_pos p)\<rparr>" if "cs_partial s"
    unfolding q if_P [OF that] by simp
  ultimately show "r \<noteq> cr_no_match \<Longrightarrow> host_char (cur p) \<and>
      q = p\<lparr>up_fixed_urls := up_fixed_urls q, up_ok_state := up_ok_state q, up_safe_position := up_safe_position q,
        up_compare_buf := up_compare_buf p @ [cur p], up_buf := up_buf p @ [cur p],
        up_compare_pos := Suc (up_compare_pos p)\<rparr>"
    unfolding np by blast
  have "cs_partial s \<and> cs_end s \<longrightarrow> cs_ok s \<in> {s_filesharing_id, s_profile_id}"
    unfolding s_def scanned_def
    by (rule scan_items_ok) (use assms(1) in \<open>auto simp: fixed_ok_def\<close>)
  then show "r = cr_match \<Longrightarrow> up_ok_state q \<in> {s_filesharing_id, s_profile_id}"
    by (simp add: r q split: if_splits)
qed

subsection \<open>Ending a link\<close>

definition has_core :: "bytes \<Rightarrow> bool" where
  "has_core b \<longleftrightarrow> (\<exists>c \<in> set b. \<not> is_ending_char c)"

lemma has_core_append [simp]: "has_core (a @ b) = (has_core a \<or> has_core b)" "\<not> has_core []"
  "has_core [c] = (\<not> is_ending_char c)"
  by (auto simp: has_core_def)

lemma trim_back_facts:
  "\<exists>c \<in> set b. \<not> is_ending_char c \<Longrightarrow>
     \<exists>r d. trim_back b = Some (r, length d) \<and> b = d @ r \<and> r \<noteq> [] \<and> \<not> is_ending_char (hd r)"
proof (induction b)
  case (Cons c b)
  show ?case
  proof (cases "is_ending_char c")
    case True
    then obtain r d where "trim_back b = Some (r, length d)" "b = d @ r" "r \<noteq> []" "\<not> is_ending_char (hd r)"
      using Cons by auto
    then show ?thesis using True by (intro exI [of _ r] exI [of _ "c # d"]) simp
  next
    case False
    then show ?thesis by (intro exI [of _ "c # b"] exI [of _ "[]"]) simp
  qed
qed simp

lemma trim_buf_facts:
  assumes "has_core (up_buf p)"
  shows "\<exists>tl q. trim_buf p = Some q \<and> up_buf p = up_buf q @ tl \<and> up_buf q \<noteq> [] \<and>
    \<not> is_ending_char (last (up_buf q)) \<and>
    q = p\<lparr>up_buf := up_buf q, up_tail_size := up_tail_size p + length tl\<rparr>"
proof -
  obtain r d where t: "trim_back (rev (up_buf p)) = Some (r, length d)" "rev (up_buf p) = d @ r" "r \<noteq> []"
    "\<not> is_ending_char (hd r)"
    using trim_back_facts [of "rev (up_buf p)"] assms by (auto simp: has_core_def)
  have b: "up_buf p = rev r @ rev d" by (metis rev_append rev_rev_ident t(2))
  have l: "last (rev r) = hd r" using t(3) by (simp add: last_rev)
  then have "last (rev r) \<noteq> 41" using t(4) by (auto simp: is_ending_char_def)
  then have "trim_buf p = Some (p\<lparr>up_buf := rev r, up_tail_size := up_tail_size p + length (rev d)\<rparr>)"
    using t(1) by (simp add: trim_buf_def)
  then show ?thesis
    using b t(3,4) l by (intro exI [of _ "rev d"] exI) auto
qed

text \<open>What the parser reports, with \<open>tl\<close> for the punctuation that was cut off.\<close>

definition reported :: "url_parser \<Rightarrow> url_parser \<Rightarrow> bool" where
  "reported p q \<longleftrightarrow> has_url q \<and> u_original (up_url q) = up_buf q \<and>
     (\<exists>tl. up_buf p = up_buf q @ tl \<and> up_tail_size q = up_tail_size p + length tl)"

definition same_setup :: "url_parser \<Rightarrow> url_parser \<Rightarrow> bool" where
  "same_setup p q \<longleftrightarrow> up_char_buf q = up_char_buf p \<and> up_fixed_urls q = up_fixed_urls p \<and>
     up_compare_set q = up_compare_set p \<and> up_clears q = up_clears p"

lemma make_url_facts: "ty \<noteq> ut_undefined \<Longrightarrow> u_type (make_url ty p) = ty \<and> u_original (make_url ty p) = up_buf p"
  by (simp add: make_url_def)

lemma site_type_defined: "site_type p \<noteq> ut_undefined" by (simp add: site_type_def)

lemma found_url_facts:
  "fst (found_url env p) \<Longrightarrow> snd (found_url env p) = p\<lparr>up_url := up_url (snd (found_url env p))\<rparr> \<and>
     has_url (snd (found_url env p)) \<and> u_original (up_url (snd (found_url env p))) = up_buf p"
  "\<not> fst (found_url env p) \<Longrightarrow> snd (found_url env p) = p"
  by (auto simp: found_url_def has_url_def make_url_facts site_type_defined)

lemma save_url_facts:
  assumes "has_core (up_buf p) \<or> waiting p \<and> up_protocol p = pr_undefined \<and> up_domain_segments p = 1"
    and "\<not> has_url p" and "\<not> char_is nbsp p"
  shows "\<exists>b q. save_url env p = Some (b, q) \<and> same_setup p q \<and>
    (if b then reported p q \<and> up_state q = up_state p else \<not> has_url q)"
proof -
  consider (refused) "is_refused p \<or> up_domain_segments p = 1 \<and> up_state p \<noteq> s_filesharing_id \<and>
      up_state p \<noteq> s_compare_safe \<and> up_state p \<noteq> s_profile_id \<and> up_protocol p = pr_undefined"
    | (safe) "\<not> is_refused p" "up_state p = s_compare_safe" | (profile) "\<not> is_refused p" "up_state p = s_profile_id"
    | (site) "\<not> is_refused p" "up_state p \<noteq> s_compare_safe" "up_state p \<noteq> s_profile_id"
      "\<not> (up_domain_segments p = 1 \<and> up_state p \<noteq> s_filesharing_id \<and> up_protocol p = pr_undefined)"
    by blast
  then show ?thesis
  proof cases
    case refused
    then have "save_url env p = Some (False, p)"
      unfolding save_url_def by (elim disjE conjE) (simp_all only: if_True if_False simp_thms if_cancel)
    then show ?thesis using assms(2) by (intro exI [of _ False] exI [of _ p]) (simp add: same_setup_def)
  next
    case safe
    then show ?thesis
      by (intro exI [of _ True])
        (simp add: save_url_def same_setup_def reported_def has_url_def make_url_facts site_type_defined)
  next
    case profile
    then show ?thesis
      by (intro exI [of _ True]) (simp add: save_url_def same_setup_def reported_def has_url_def make_url_facts)
  next
    case site
    then have core: "has_core (up_buf p)" using assms(1) by (auto simp: waiting_def)
    obtain tl q where q: "trim_buf p = Some q" "up_buf p = up_buf q @ tl"
      "q = p\<lparr>up_buf := up_buf q, up_tail_size := up_tail_size p + length tl\<rparr>"
      using trim_buf_facts [OF core] by blast
    have "\<not> char_is nbsp q" using assms(3) by (subst q(3)) (simp add: char_is_def)
    then have s: "save_url env p = Some (found_url env q)"
      using site(4) q(1) unfolding save_url_def if_not_P [OF site(1)] if_not_P [OF site(2)] if_not_P [OF site(3)] if_not_P [OF site(4)]
      by simp
    have qf: "up_char_buf q = up_char_buf p" "up_fixed_urls q = up_fixed_urls p" "up_compare_set q = up_compare_set p"
      "up_clears q = up_clears p" "up_url q = up_url p" "up_state q = up_state p"
      "up_tail_size q = up_tail_size p + length tl"
      by (subst q(3), simp)+
    obtain b r where br: "found_url env q = (b, r)" by (metis surj_pair)
    show ?thesis
    proof (cases b)
      case True
      then have r: "r = q\<lparr>up_url := up_url r\<rparr>" "has_url r" "u_original (up_url r) = up_buf q"
        using found_url_facts(1) [of env q] br by simp_all
      have rf: "up_buf r = up_buf q" "up_tail_size r = up_tail_size q" "up_char_buf r = up_char_buf q"
        "up_fixed_urls r = up_fixed_urls q" "up_compare_set r = up_compare_set q" "up_clears r = up_clears q"
        "up_state r = up_state q"
        by (subst r(1), simp)+
      show ?thesis
        unfolding s br using True r(2,3) rf qf q(2)
        by (intro exI [of _ True] exI [of _ r]) (auto simp: reported_def same_setup_def)
    next
      case False
      then have "r = q" using found_url_facts(2) [of env q] br by simp
      then show ?thesis
        unfolding s br using False qf assms(2)
        by (intro exI [of _ False] exI [of _ r]) (simp add: same_setup_def has_url_def)
    qed
  qed
qed

subsection \<open>The invariant\<close>

definition fresh_link :: "url_parser \<Rightarrow> bool" where
  "fresh_link p \<longleftrightarrow> up_protocol p = pr_undefined \<and> up_domain_segments p = 1 \<and> \<not> up_is_email p"

definition compare_ok :: "url_parser \<Rightarrow> bool" where
  "compare_ok p \<longleftrightarrow>
     up_compare_pos p = length (up_compare_buf p) \<and> list_all host_char (up_compare_buf p) \<and>
     up_compare_buf p \<noteq> [] \<and> \<not> is_ending_char (hd (up_compare_buf p)) \<and>
     (\<exists>b. up_buf p = b @ up_compare_buf p \<and>
        (up_fallback_state p = s_lookup_without_fixed_urls \<and> b = [] \<and> fresh_link p \<or>
         up_fallback_state p = s_host \<and> has_core b))"

definition parser_inv :: "url_parser \<Rightarrow> bool" where
  "parser_inv p \<longleftrightarrow>
     length (up_char_buf p) = 6 \<and> up_char_pos p = 0 \<and> \<not> up_is_utf8 p \<and> up_char_size p \<le> 1 \<and> \<not> has_url p \<and>
     up_tail_size p = 0 \<and> fixed_ok p \<and>
     (waiting p \<longrightarrow> up_buf p = [] \<and> fresh_link p) \<and> (inside p \<longrightarrow> has_core (up_buf p)) \<and>
     (comparing p \<longrightarrow> compare_ok p)"

definition ended :: "url_parser \<Rightarrow> url_parser \<Rightarrow> bool" where
  "ended p q \<longleftrightarrow> reported p q \<and> fixed_ok q \<and> length (up_char_buf q) = 6"

lemma fixed_ok_same:
  "up_fixed_urls q = up_fixed_urls p \<Longrightarrow> up_compare_set q = up_compare_set p \<Longrightarrow> fixed_ok q = fixed_ok p"
  by (simp add: fixed_ok_def)

lemma state_irrelevant [simp]:
  "fresh_link (p\<lparr>up_state := s\<rparr>) = fresh_link p" "fixed_ok (p\<lparr>up_state := s\<rparr>) = fixed_ok p"
  "compare_ok (p\<lparr>up_state := s\<rparr>) = compare_ok p" "has_url (p\<lparr>up_state := s\<rparr>) = has_url p"
  "cur (p\<lparr>up_state := s\<rparr>) = cur p" "one_byte (p\<lparr>up_state := s\<rparr>) = one_byte p"
  by (simp_all add: fresh_link_def fixed_ok_def compare_ok_def has_url_def cur_def one_byte_def char_bytes_def)

lemma fixed_ok_unmatched: "fixed_ok (p\<lparr>up_fixed_urls := map (\<lambda>i. i\<lparr>ci_match := False\<rparr>) (up_fixed_urls p)\<rparr>) = fixed_ok p"
  by (simp add: fixed_ok_def image_image)

lemma reset_inv:
  assumes "fixed_ok p" and "length (up_char_buf p) = 6"
  shows "parser_inv (reset p)" and "up_buf (reset p) = []" and "\<not> comparing (reset p)"
    and "up_clears (reset p) = up_clears p"
  using assms fixed_ok_same [of "reset p" p]
  by (simp_all add: parser_inv_def reset_def waiting_def inside_def comparing_def has_url_def fresh_link_def)

lemma in_compare_set_matches:
  assumes "fixed_ok p" and "one_byte p" and "in_compare_set p"
  shows "\<exists>i \<in> set (up_fixed_urls p). \<not> is_skipped 0 i \<and> is_equal (ci_str i) p \<and> hd (ci_str i) = cur p \<and> cur p \<noteq> 46 \<and> host_char (cur p)"
proof -
  obtain i where i: "i \<in> set (up_fixed_urls p)" "hd (ci_str i) = cur p"
    using assms(1,3) by (auto simp: fixed_ok_def in_compare_set_def)
  then have s: "ci_str i \<noteq> []" "hd (ci_str i) \<noteq> 46" "list_all host_char (ci_str i)"
    using assms(1) by (auto simp: fixed_ok_def)
  moreover have "host_char (cur p)" using s(1,3) i(2) by (cases "ci_str i") auto
  moreover have "is_equal (ci_str i) p" using s(1) i(2) assms(2) by (simp add: is_equal_def one_byte_def)
  ultimately show ?thesis using i by (auto simp: is_skipped_def)
qed

lemma start_inv:
  assumes "fixed_ok p" and "one_byte p" and "in_compare_set p" and "length (up_char_buf p) = 6"
    and "up_char_pos p = 0" and "\<not> has_url p" and "up_tail_size p = 0"
    and "s = s_lookup_without_fixed_urls \<and> up_buf p = [] \<and> fresh_link p \<or> s = s_host \<and> has_core (up_buf p)"
  shows "parser_inv (start_fixed_urls_compare s p)" and "up_buf (start_fixed_urls_compare s p) = up_buf p @ [cur p]"
    and "up_clears (start_fixed_urls_compare s p) = Suc (up_clears p)"
proof -
  define p1 where "p1 = p\<lparr>up_compare_pos := 0, up_safe_position := 0, up_compare_buf := [],
    up_clears := Suc (up_clears p), up_fallback_state := s,
    up_fixed_urls := map (\<lambda>item. item\<lparr>ci_match := False\<rparr>) (up_fixed_urls p)\<rparr>"
  obtain r q where c: "compare_fixed_urls 0 p1 = (r, q)" by (metis surj_pair)
  have st: "start_fixed_urls_compare s p =
      q\<lparr>up_state := (case r of cr_match \<Rightarrow> up_ok_state q | cr_no_match \<Rightarrow> up_fallback_state q | cr_in_progress \<Rightarrow> s_compare)\<rparr>"
    using c by (simp add: start_fixed_urls_compare_def p1_def)
  have ok1: "fixed_ok p1" using assms(1) by (simp add: p1_def fixed_ok_def image_image)
  have one1: "one_byte p1" using assms(2) by (auto simp: p1_def one_byte_def char_bytes_def cur_def)
  have pos1: "up_compare_pos p1 = length (up_compare_buf p1)" by (simp add: p1_def)
  note cmp = compare_fixed_urls_cases [OF ok1 one1 pos1 c]
  have cur1: "cur p1 = cur p" by (simp add: p1_def cur_def)
  have "in_compare_set p1" using assms(3) by (simp add: p1_def in_compare_set_def cur_def)
  from in_compare_set_matches [OF ok1 one1 this] have nm: "r \<noteq> cr_no_match" and dot: "cur p \<noteq> 46" "host_char (cur p)"
    using cmp(5) by (auto simp: cur1)
  note q = conjunct2 [OF cmp(3) [OF nm]]
  have f: "up_buf q = up_buf p @ [cur p]" "up_compare_buf q = [cur p]" "up_compare_pos q = 1"
    "up_fallback_state q = s" "up_clears q = Suc (up_clears p)" "up_char_buf q = up_char_buf p"
    "up_char_pos q = up_char_pos p" "up_is_utf8 q = up_is_utf8 p" "up_char_size q = up_char_size p"
    "up_url q = up_url p" "up_tail_size q = up_tail_size p" "fresh_link q = fresh_link p"
    by (subst q, simp add: p1_def cur_def fresh_link_def)+
  show "up_buf (start_fixed_urls_compare s p) = up_buf p @ [cur p]"
    "up_clears (start_fixed_urls_compare s p) = Suc (up_clears p)"
    by (simp_all add: st f)
  have fin: "\<not> is_ending_char (cur p)" using host_char_facts(2) dot by blast
  show "parser_inv (start_fixed_urls_compare s p)"
    using nm cmp(1) cmp(4) assms(2,4-8) dot fin
    by (cases r)
      (auto simp: st parser_inv_def f waiting_def comparing_def inside_def one_byte_def has_url_def compare_ok_def)
qed

text \<open>
  A character that meets no comparison: the parser goes on with an invariant, and its buffer is empty
  or has the character added to it; or a link has ended in front of the character.
\<close>

definition grows :: "byte \<Rightarrow> url_parser \<Rightarrow> url_parser \<Rightarrow> bool" where
  "grows c p q \<longleftrightarrow> up_buf q = [] \<or> up_buf q = up_buf p @ [c]"

definition step_ok :: "byte \<Rightarrow> url_parser \<Rightarrow> url_parser \<Rightarrow> bool" where
  "step_ok c p q \<longleftrightarrow>
     (if has_url q then ended p q \<and> \<not> host_char c else parser_inv q \<and> grows c p q) \<and>
     (up_clears q = up_clears p \<longrightarrow> \<not> comparing q) \<and>
     (up_clears q \<noteq> up_clears p \<longrightarrow> up_state p \<in> {s_lookup, s_check_www, s_check_filesharing})"

definition step_outcome :: "url_env \<Rightarrow> url_parser \<Rightarrow> url_parser option" where
  "step_outcome env p =
     (case process_switch env p of Return q \<Rightarrow> Some q | Break q \<Rightarrow> Some (save_char_buf q) | _ \<Rightarrow> None)"

lemma parser_invD:
  assumes "parser_inv p"
  shows "length (up_char_buf p) = 6" "up_char_pos p = 0" "\<not> up_is_utf8 p" "up_char_size p \<le> 1" "\<not> has_url p"
    "up_tail_size p = 0" "fixed_ok p" "waiting p \<Longrightarrow> up_buf p = [] \<and> fresh_link p"
    "inside p \<Longrightarrow> has_core (up_buf p)" "comparing p \<Longrightarrow> compare_ok p"
  using assms by (simp_all add: parser_inv_def)

lemma with_char_more [simp]:
  "fresh_link (with_char c p) = fresh_link p" "fixed_ok (with_char c p) = fixed_ok p"
  "has_url (with_char c p) = has_url p"
  by (simp_all add: with_char_def fresh_link_def fixed_ok_def has_url_def)

lemma uri_found_step:
  assumes "parser_inv p" and "same_text (with_char c p) q" and "inside p" and "inside q" and "\<not> host_char c"
  shows "\<exists>r. uri_found env q = Return r \<and> step_ok c p r \<and> up_fixed_urls r = up_fixed_urls p \<and>
    (\<not> has_url r \<longrightarrow> up_state r = s_lookup \<and> \<not> up_is_email r)"
proof -
  note inv = parser_invD [OF assms(1)]
  have ne: "up_char_buf p \<noteq> []" using inv(1) by auto
  have f: "up_buf q = up_buf p" "up_url q = up_url p" "up_tail_size q = up_tail_size p" "up_fixed_urls q = up_fixed_urls p"
    "up_compare_set q = up_compare_set p" "up_clears q = up_clears p" "up_char_size q = 1"
    "length (up_char_buf q) = 6"
    using assms(2) inv(1) by (simp_all add: same_text_def)
  have "has_core (up_buf q)" using inv(9) assms(3) f(1) by simp
  moreover have "\<not> has_url q" using inv(5) f(2) by (simp add: has_url_def)
  moreover have "\<not> char_is nbsp q" using f(7) by (simp add: char_is_def nbsp_def)
  ultimately obtain b r where s: "save_url env q = Some (b, r)" "same_setup q r"
    "if b then reported q r \<and> up_state r = up_state q else \<not> has_url r"
    using save_url_facts [of q env] by blast
  have urls: "up_fixed_urls r = up_fixed_urls p" using s(2) f by (simp add: same_setup_def)
  have fxd: "fixed_ok r" "length (up_char_buf r) = 6" "up_clears r = up_clears p"
    using s(2) f inv(7) fixed_ok_same [of r p] by (simp_all add: same_setup_def)
  show ?thesis
  proof (cases b)
    case True
    then have "ended p r" using s(3) fxd f by (simp add: ended_def reported_def)
    moreover have "\<not> comparing r" using s(3) True assms(4) by (simp add: comparing_def inside_def)
    ultimately show ?thesis
      using s(1) True fxd(3) assms(5) urls by (simp add: uri_found_def step_ok_def ended_def reported_def)
  next
    case False
    note r = reset_inv [OF fxd(1,2)]
    have "\<not> has_url (reset r)" using parser_invD(5) [OF r(1)] .
    then show ?thesis using s(1) False fxd(3) r urls
      by (simp add: uri_found_def step_ok_def grows_def) (simp add: reset_def)
  qed
qed

lemma step_outcome_ok:
  assumes "parser_inv p" and "\<not> comparing p"
  shows "\<exists>q. step_outcome env (with_char c p) = Some q \<and> step_ok c p q"
proof -
  note inv = parser_invD [OF assms(1)]
  have ne: "up_char_buf p \<noteq> []" using inv(1) by auto
  have core: "has_core (up_buf p) \<or> waiting p" using inv(9) assms(2) by (auto simp: inside_def)
  have "switch_effect env (with_char c p) (process_switch env (with_char c p))"
    using assms(2) by (intro process_switch_effect) simp_all
  then show ?thesis
  proof cases
    case (effect_break q)
    have f: "up_buf q = up_buf p" "up_url q = up_url p" "up_tail_size q = 0" "up_fixed_urls q = up_fixed_urls p"
      "up_compare_set q = up_compare_set p" "up_clears q = up_clears p" "up_char_size q = 1" "up_char_pos q = 0"
      "length (up_char_buf q) = 6" "\<not> up_is_utf8 q"
      using effect_break(2) inv ne by (simp_all add: same_text_def)
    have cb: "char_bytes q = [c]"
      using effect_break(2) with_char_simps(16) [OF ne, of c] by (simp add: same_text_def char_bytes_def)
    have "has_core (up_buf p @ [c])"
    proof (cases "waiting p")
      case True
      then have "is_letter_or_digit (with_char c p)" using effect_break(5) by simp
      then show ?thesis using letter_or_digit_ends_nothing [of "with_char c p"] ne by simp
    qed (use core in simp)
    moreover have "fixed_ok (save_char_buf q)"
      using fixed_ok_same [of "save_char_buf q" p] f inv(7) by (simp add: save_char_buf_def)
    moreover have "\<not> waiting (save_char_buf q)" "\<not> comparing (save_char_buf q)"
      using effect_break(3,4) by (simp_all add: save_char_buf_def waiting_def comparing_def)
    ultimately show ?thesis
      using effect_break(1) f cb inv(5)
      by (simp add: step_outcome_def step_ok_def parser_inv_def grows_def save_char_buf_def has_url_def)
  next
    case (effect_reset q)
    have "fixed_ok q" "length (up_char_buf q) = 6" "up_clears q = up_clears p"
      using effect_reset(2) inv(1,7) fixed_ok_same [of q p] by (simp_all add: same_text_def)
    note r = reset_inv [OF this(1,2)] this(3)
    have "\<not> has_url (reset q)" using parser_invD(5) [OF r(1)] .
    then show ?thesis using effect_reset(1) r by (simp add: step_outcome_def step_ok_def grows_def)
  next
    case effect_skip
    then have "parser_inv (with_char c p)" using assms by (simp add: parser_inv_def inside_def)
    then show ?thesis
      using effect_skip inv(5,8) assms(2) by (simp add: step_outcome_def step_ok_def grows_def)
  next
    case effect_start_lookup
    have w: "up_buf p = [] \<and> fresh_link p" using effect_start_lookup(2) inv(8) by (simp add: waiting_def)
    have "one_byte (with_char c p)" "fixed_ok (with_char c p)" "up_char_pos (with_char c p) = 0"
      using ne inv(2,7) by simp_all
    note st = start_inv [OF this(2,1) effect_start_lookup(3) _ this(3), of s_lookup_without_fixed_urls]
    have "parser_inv (start_fixed_urls_compare s_lookup_without_fixed_urls (with_char c p))"
      using st(1) inv(1,5,6) w by simp
    moreover have "\<not> has_url (start_fixed_urls_compare s_lookup_without_fixed_urls (with_char c p))"
      using parser_invD(5) [OF calculation] .
    ultimately show ?thesis
      using effect_start_lookup(1,2) st(2,3) inv(1,5,6) w ne by (simp add: step_outcome_def step_ok_def grows_def)
  next
    case effect_start_host
    have w: "has_core (up_buf p)" using effect_start_host(2) core by (auto simp: waiting_def)
    have "one_byte (with_char c p)" "fixed_ok (with_char c p)" "up_char_pos (with_char c p) = 0"
      using ne inv(2,7) by simp_all
    note st = start_inv [OF this(2,1) effect_start_host(3) _ this(3), of s_host]
    have "parser_inv (start_fixed_urls_compare s_host (with_char c p))"
      using st(1) inv(1,5,6) w by simp
    moreover have "\<not> has_url (start_fixed_urls_compare s_host (with_char c p))"
      using parser_invD(5) [OF calculation] .
    ultimately show ?thesis
      using effect_start_host(1,2) st(2,3) inv(1,5,6) w ne by (auto simp add: step_outcome_def step_ok_def grows_def)
  next
    case (effect_found q)
    have "inside p" "inside q" "\<not> host_char c"
      using effect_found(3-6) assms(2) ne by (simp_all add: inside_def)
    from uri_found_step [OF assms(1) effect_found(2) this, of env] show ?thesis
      using effect_found(1) by (auto simp: step_outcome_def)
  qed
qed

lemma host_char_ascii: "host_char c \<Longrightarrow> ascii_byte c"
  using host_char_facts(4) [of c] by (auto simp: ascii_byte_def byte_le is_digit_def)

lemma process_within_ascii:
  assumes "parser_inv p" and "ascii_byte c"
  shows "process_within env (Suc n) c p =
    (case process_switch env (with_char c p) of
       Return q \<Rightarrow> Some q | Break q \<Rightarrow> Some (save_char_buf q)
     | Fallback q \<Rightarrow> fallback (process_within env n) (cur q) q | Undefined \<Rightarrow> None)"
  using collect_ascii [OF assms(2)] parser_invD(1,2) [OF assms(1)] by simp

declare process_within.simps(2) [simp del]

lemma process_within_step:
  assumes "parser_inv p" and "\<not> comparing p" and "ascii_byte c"
  shows "\<exists>q. process_within env (Suc n) c p = Some q \<and> step_ok c p q"
proof -
  obtain q where q: "step_outcome env (with_char c p) = Some q" "step_ok c p q"
    using step_outcome_ok [OF assms(1,2)] by blast
  then have "process_within env (Suc n) c p = Some q"
    unfolding process_within_ascii [OF assms(1,3)] step_outcome_def
    by (cases "process_switch env (with_char c p)") simp_all
  then show ?thesis using q(2) by blast
qed

lemma grows_suffix: "grows c p q \<Longrightarrow> suffix (up_buf p) t \<Longrightarrow> suffix (up_buf q) (t @ [c])"
  by (auto simp: grows_def suffix_def)

lemma replay_ok:
  assumes "parser_inv p" and "\<not> comparing p" and "list_all host_char cs"
    and "replay (process_within env (Suc n)) cs p = Some q"
  shows "parser_inv q \<and> \<not> comparing q \<and> up_clears q = up_clears p \<and>
    (\<forall>t. suffix (up_buf p) t \<longrightarrow> suffix (up_buf q) (t @ cs))"
  using assms
proof (induction cs arbitrary: p)
  case (Cons c cs)
  obtain r where r: "process_within env (Suc n) c p = Some r" "step_ok c p r"
    using process_within_step [OF Cons.prems(1,2) host_char_ascii, of c env n] Cons.prems(3) by auto
  then have clears: "up_clears r = up_clears p" and rest: "replay (process_within env (Suc n)) cs r = Some q"
    using Cons.prems(4) by (auto split: if_splits)
  have ok: "parser_inv r" "grows c p r" "\<not> comparing r"
    using r(2) clears Cons.prems(3) by (auto simp: step_ok_def split: if_splits)
  have "parser_inv q \<and> \<not> comparing q \<and> up_clears q = up_clears r \<and>
      (\<forall>t. suffix (up_buf r) t \<longrightarrow> suffix (up_buf q) (t @ cs))"
    using Cons.IH [OF ok(1,3) _ rest] Cons.prems(3) by simp
  moreover have "suffix (up_buf q) (t @ c # cs)" if "suffix (up_buf p) t" for t
    using calculation grows_suffix [OF ok(2) that] by fastforce
  ultimately show ?case using clears by simp
qed simp

text \<open>What a byte does to the parser, in terms of the text \<open>t\<close> in front of it.\<close>

definition text_step :: "bytes \<Rightarrow> byte \<Rightarrow> url_parser \<Rightarrow> bool" where
  "text_step t c q \<longleftrightarrow>
     (if has_url q
      then (\<exists>tl. suffix (up_buf q @ tl) t \<and> up_tail_size q = length tl) \<and>
        u_original (up_url q) = up_buf q \<and> fixed_ok q \<and> length (up_char_buf q) = 6
      else parser_inv q \<and> suffix (up_buf q) (t @ [c]))"

lemma step_ok_text:
  assumes "step_ok c p q" and "parser_inv p" and "suffix (up_buf p) t"
  shows "text_step t c q"
proof (cases "has_url q")
  case True
  then obtain tl where "up_buf p = up_buf q @ tl" "up_tail_size q = length tl"
    using assms(1) parser_invD(6) [OF assms(2)] by (auto simp: step_ok_def ended_def reported_def)
  then have "suffix (up_buf q @ tl) t \<and> up_tail_size q = length tl" using assms(3) by simp
  then show ?thesis
    using True assms(1) by (auto simp: step_ok_def text_step_def ended_def reported_def)
next
  case False
  then show ?thesis
    using assms(1,3) grows_suffix [of c p q t] by (simp add: step_ok_def text_step_def)
qed

text \<open>The parser at the start of the loop of \<open>fallback\<close>.\<close>

definition rewound :: "url_parser \<Rightarrow> url_parser" where
  "rewound p = p\<lparr>up_state := up_fallback_state p,
     up_buf := take (length (up_buf p) - up_compare_pos p) (up_buf p)\<rparr>"

lemma fallback_rewound:
  "up_compare_pos p \<le> length (up_buf p) \<Longrightarrow>
     fallback f c p = Option.bind (replay f (up_compare_buf p) (rewound p)) (f c)"
  by (simp add: fallback_def rewound_def Let_def not_less)

lemma compare_switch:
  assumes "comparing p"
  shows "\<exists>s. (s = s_compare \<or> s = s_compare_safe) \<and> process_switch env p = compare_case (p\<lparr>up_state := s\<rparr>)"
proof -
  from assms consider "up_state p = s_compare" | "up_state p = s_compare_safe" by (auto simp: comparing_def)
  then show ?thesis
  proof cases
    case 1
    then have same: "compare_case (p\<lparr>up_state := s_compare\<rparr>) = compare_case p"
      by (intro arg_cong [where f = compare_case]) simp
    then have "process_switch env p = compare_case (p\<lparr>up_state :=
        (if up_safe_position p \<noteq> 0 \<and> up_safe_position p \<le> int (up_compare_pos p) then s_compare_safe else s_compare)\<rparr>)"
      using 1 same by (simp add: process_switch_def Let_def)
    then show ?thesis by (intro exI conjI) auto
  next
    case 2
    then have "compare_case (p\<lparr>up_state := s_compare_safe\<rparr>) = compare_case p"
      by (intro arg_cong [where f = compare_case]) simp
    then show ?thesis using 2 by (intro exI [of _ s_compare_safe]) (simp add: process_switch_def Let_def)
  qed
qed

lemma rewound_inv:
  assumes "compare_ok p" and "fixed_ok p" and "length (up_char_buf p) = 6" and "up_char_pos p = 0"
    and "\<not> up_is_utf8 p" and "up_char_size p \<le> 1" and "\<not> has_url p" and "up_tail_size p = 0"
  shows "parser_inv (rewound p)" and "\<not> comparing (rewound p)" and "up_buf p = up_buf (rewound p) @ up_compare_buf p"
    and "up_compare_pos p \<le> length (up_buf p)" and "up_clears (rewound p) = up_clears p"
proof -
  obtain b where b: "up_buf p = b @ up_compare_buf p"
    "up_fallback_state p = s_lookup_without_fixed_urls \<and> b = [] \<and> fresh_link p \<or> up_fallback_state p = s_host \<and> has_core b"
    and pos: "up_compare_pos p = length (up_compare_buf p)"
    using assms(1) by (auto simp: compare_ok_def)
  have buf: "up_buf (rewound p) = b" using b(1) pos by (simp add: rewound_def)
  show "up_buf p = up_buf (rewound p) @ up_compare_buf p" "up_compare_pos p \<le> length (up_buf p)"
    "up_clears (rewound p) = up_clears p"
    using b(1) buf pos by (simp_all add: rewound_def)
  have st: "up_state (rewound p) = up_fallback_state p" by (simp add: rewound_def)
  then show "\<not> comparing (rewound p)" using b(2) by (auto simp: comparing_def)
  have "fresh_link (rewound p) = fresh_link p" "fixed_ok (rewound p) = fixed_ok p" "has_url (rewound p) = has_url p"
    by (simp_all add: rewound_def fresh_link_def fixed_ok_def has_url_def)
  then show "parser_inv (rewound p)"
    using b(2) buf st assms(2-8)
    by (auto simp: parser_inv_def waiting_def comparing_def inside_def) (simp_all add: rewound_def)
qed

end
