(* ===== verification/Url_Total.thy ===== *)
theory Url_Total
  imports Url_Steps
begin

section \<open>The link parser processes every text\<close>

text \<open>
  A comparison with a fixed link that fails is undone by processing its bytes again. For fixed links
  that are hosts with a path and do not start with \<open>w\<close> this meets no other comparison, so a text of single bytes below 128 is
  processed to its end, and every link that is reported is a part of it.
\<close>

subsection \<open>Undoing a comparison\<close>

text \<open>
  The fixed links considered are hosts with a path: labels of letters, digits and dashes, the one in
  front of the path a top level domain, then a path without a dot; and they do not start with \<open>w\<close>, for
  the bytes \<open>www.\<close> would start another comparison (\<open>wf_fixed\<close>, below). Over the bytes of such a link the parser goes through the phases
  below, whatever it was comparing for, and meets no other comparison.
\<close>

datatype phase = ph_host | ph_dot | ph_label bytes | ph_path

definition alnum :: "byte \<Rightarrow> bool" where
  "alnum c \<longleftrightarrow> 0x41 \<le> c \<and> c \<le> 0x5A \<or> 0x61 \<le> c \<and> c \<le> 0x7A \<or> is_digit c"

definition valid_tld :: "url_env \<Rightarrow> bytes \<Rightarrow> bool" where
  "valid_tld env l \<longleftrightarrow> (\<forall>s. map to_lower s = map to_lower l \<longrightarrow> is_valid_domain env s)"

fun next_phase :: "phase \<Rightarrow> byte \<Rightarrow> phase option" where
  "next_phase ph_host c =
     (if alnum c \<or> c = 45 then Some ph_host else if c = 46 then Some ph_dot else None)"
| "next_phase ph_dot c = (if alnum c then Some (ph_label [c]) else None)"
| "next_phase (ph_label l) c =
     (if alnum c \<or> c = 45 then Some (ph_label (l @ [c])) else if c = 46 then Some ph_dot
      else if c = 47 then Some ph_path else None)"
| "next_phase ph_path c = (if alnum c \<or> c = 45 \<or> c = 47 then Some ph_path else None)"

definition phase_ok :: "url_env \<Rightarrow> phase \<Rightarrow> byte \<Rightarrow> bool" where
  "phase_ok env ph c \<longleftrightarrow> next_phase ph c \<noteq> None \<and> (case ph of ph_label l \<Rightarrow> c = 47 \<longrightarrow> valid_tld env l | _ \<Rightarrow> True)"

primrec phases_ok :: "url_env \<Rightarrow> phase \<Rightarrow> bytes \<Rightarrow> bool" where
  "phases_ok env ph [] = True"
| "phases_ok env ph (c # cs) = (phase_ok env ph c \<and> phases_ok env (the (next_phase ph c)) cs)"

definition in_phase :: "phase \<Rightarrow> url_parser \<Rightarrow> bool" where
  "in_phase ph p \<longleftrightarrow> \<not> up_is_email p \<and> (case ph of
     ph_host \<Rightarrow> (\<exists>s. up_state p = s_scheme s) \<or> up_state p = s_host \<or> up_state p = s_delimeter_colon
   | ph_dot \<Rightarrow> up_state p = s_host_dot
   | ph_label l \<Rightarrow> up_state p = s_host_n \<and> l \<noteq> [] \<and> map to_lower (up_domain p) = map to_lower l
   | ph_path \<Rightarrow> up_state p \<in> {s_host_slash, s_path, s_path_slash})"

definition same_letter :: "byte \<Rightarrow> byte \<Rightarrow> bool" where
  "same_letter c d \<longleftrightarrow> c = d \<or> to_lower c = d"

lemma same_letter_classes:
  assumes "same_letter c d"
  shows "alnum d = alnum c" and "d = 45 \<longleftrightarrow> c = 45" and "d = 46 \<longleftrightarrow> c = 46" and "d = 47 \<longleftrightarrow> c = 47"
    and "to_lower d = to_lower c"
proof -
  have n: "unat (c + 32) = unat c + 32" if "unat c \<le> 90" for c :: byte
    using that by (simp add: unat_word_ariths)
  have "(alnum d = alnum c \<and> (d = 45 \<longleftrightarrow> c = 45) \<and> (d = 46 \<longleftrightarrow> c = 46) \<and> (d = 47 \<longleftrightarrow> c = 47)) \<and> to_lower d = to_lower c"
  proof (cases "d = c")
    case False
    then have "65 \<le> unat c" "unat c \<le> 90" "d = c + 32"
      using assms by (auto simp: same_letter_def to_lower_def byte_le(1) split: if_splits)
    then show ?thesis using n [of c] by (auto simp: alnum_def is_digit_def byte_le to_lower_def)
  qed simp
  then show "alnum d = alnum c" "d = 45 \<longleftrightarrow> c = 45" "d = 46 \<longleftrightarrow> c = 46" "d = 47 \<longleftrightarrow> c = 47" "to_lower d = to_lower c"
    by blast+
qed

lemma alnum_facts:
  assumes "alnum c \<or> c = 45" and "one_byte p" and "cur p = c"
  shows "c \<notin> {46, 47, 58, 64, 63, 35, 62}" and "is_allowable_char p" and "\<not> is_space p" and "\<not> is_ending_char c"
    and "alnum c \<Longrightarrow> is_letter_or_digit p"
proof -
  have h: "host_char c" using assms(1) by (auto simp: alnum_def host_char_def)
  have n: "65 \<le> unat c \<and> unat c \<le> 90 \<or> 97 \<le> unat c \<and> unat c \<le> 122 \<or> 48 \<le> unat c \<and> unat c \<le> 57 \<or> unat c = 45"
    using assms(1) by (auto simp: alnum_def is_digit_def byte_le)
  show d: "c \<notin> {46, 47, 58, 64, 63, 35, 62}" using n by (simp add: byte_le) linarith
  show "is_allowable_char p" "\<not> is_space p"
    using host_char_allowable [of p] host_char_no_space [of p] assms(2,3) h by (simp_all add: one_byte_def)
  show "\<not> is_ending_char c" using host_char_facts(2) [OF h] d by simp
  show "alnum c \<Longrightarrow> is_letter_or_digit p"
    using assms(3) by (auto simp: alnum_def is_letter_or_digit_def is_letter_def)
qed

lemma one_of_numbers:
  "one_of c ''.'' = (c = 46)" "one_of c '':'' = (c = 58)" "one_of c ''@'' = (c = 64)" "one_of c ''/'' = (c = 47)"
  "one_of c ''?'' = (c = 63)" "one_of c ''#'' = (c = 35)" "one_of c ''-'' = (c = 45)"
  by simp_all

text \<open>What a break leaves behind, in the phases.\<close>

definition breaks_into :: "phase \<Rightarrow> outcome \<Rightarrow> bool" where
  "breaks_into ph out \<longleftrightarrow> (\<exists>q. out = Break q \<and> in_phase ph q)"

lemma in_phase_save [simp]: "in_phase ph (save_char_buf p) = in_phase ph p"
  by (cases ph) (simp_all add: in_phase_def save_char_buf_def)

lemma breaks_to_state: "breaks_into ph (to_state s q) = in_phase ph (q\<lparr>up_state := s\<rparr>)"
  by (simp add: breaks_into_def to_state_def)

lemma in_phase_simps [simp]:
  "in_phase ph_host (q\<lparr>up_state := s\<rparr>) = (\<not> up_is_email q \<and> ((\<exists>t. s = s_scheme t) \<or> s = s_host \<or> s = s_delimeter_colon))"
  "in_phase ph_dot (q\<lparr>up_state := s\<rparr>) = (\<not> up_is_email q \<and> s = s_host_dot)"
  "in_phase ph_path (q\<lparr>up_state := s\<rparr>) = (\<not> up_is_email q \<and> s \<in> {s_host_slash, s_path, s_path_slash})"
  "up_is_email (save_to_domain q) = up_is_email q"
  by (auto simp: in_phase_def save_to_domain_def)

lemma host_case_host:
  assumes "one_byte q" and "alnum (cur q) \<or> cur q = 45" and "\<not> up_is_email q" and "up_state q = s_host"
  shows "breaks_into ph_host (host_case env q)"
  using alnum_facts [OF assms(2,1) refl] assms(3,4)
  by (simp add: host_case_def Let_def one_of_numbers breaks_into_def in_phase_def)

lemma host_case_dot:
  "cur q = 46 \<Longrightarrow> \<not> up_is_email q \<Longrightarrow> breaks_into ph_dot (host_case env q)"
  by (simp add: host_case_def Let_def breaks_to_state)

lemma one_byte_upd [simp]:
  "one_byte (p\<lparr>up_protocol := pr\<rparr>) = one_byte p" "cur (p\<lparr>up_protocol := pr\<rparr>) = cur p"
  "is_allowable_char (p\<lparr>up_state := s\<rparr>) = is_allowable_char p"
  by (simp_all add: one_byte_def char_bytes_def cur_def is_allowable_char_def is_letter_or_digit_def is_letter_def)

lemma no_scheme_host:
  assumes "one_byte p" and "alnum (cur p) \<or> cur p = 45" and "\<not> up_is_email p"
  shows "breaks_into ph_host (no_scheme env p)"
  unfolding no_scheme_def reprocess_host_def using assms by (intro host_case_host) simp_all

lemma no_scheme_dot: "cur p = 46 \<Longrightarrow> \<not> up_is_email p \<Longrightarrow> breaks_into ph_dot (no_scheme env p)"
  unfolding no_scheme_def reprocess_host_def by (intro host_case_dot) simp_all

lemma breaks_if: "breaks_into ph (if b then x else y) = (if b then breaks_into ph x else breaks_into ph y)"
  by simp

lemma scheme_case_host:
  assumes "one_byte p" and "alnum (cur p) \<or> cur p = 45" and "\<not> up_is_email p"
  shows "breaks_into ph_host (scheme_case env s p)"
proof -
  note f = alnum_facts [OF assms(2,1) refl]
  note n = no_scheme_host [OF assms, of env]
  have b: "breaks_into ph_host (blank_or_no_scheme env p)"
    using n f(3) by (simp add: blank_or_no_scheme_def)
  show ?thesis
    using f(1,2) n b assms(3)
    by (cases s) (simp_all only: scheme_case_def Let_def scheme_state.case breaks_if breaks_to_state in_phase_simps
        one_of_numbers split: if_split, simp_all)
qed

lemma dot_facts:
  assumes "one_byte p" and "cur p = 46"
  shows "is_allowable_char p" and "\<not> is_space p" and "\<not> is_letter_or_digit p"
  using assms by (simp_all add: is_allowable_char_def is_space_def char_is_def nbsp_def one_byte_def isspace_def
      is_letter_or_digit_def is_letter_def is_digit_def byte_le)

lemma scheme_case_dot:
  assumes "one_byte p" and "cur p = 46" and "\<not> up_is_email p"
  shows "breaks_into ph_dot (scheme_case env s p)"
proof -
  note f = dot_facts [OF assms(1,2)]
  note n = no_scheme_dot [OF assms(2,3), of env]
  have b: "breaks_into ph_dot (blank_or_no_scheme env p)"
    using n f(2) by (simp add: blank_or_no_scheme_def)
  show ?thesis
    using f(1) n b assms(2,3)
    by (cases s) (simp_all add: scheme_case_def Let_def breaks_to_state)
qed

lemma phase_step:
  assumes "in_phase ph p" and "phase_ok env ph d" and "same_letter (cur p) d" and "one_byte p"
  shows "breaks_into (the (next_phase ph d)) (process_switch env p)"
proof -
  note cl = same_letter_classes [OF assms(3)]
  note al = alnum_facts [OF _ assms(4) refl]
  note dot = dot_facts [OF assms(4)]
  show ?thesis
  proof (cases ph)
    case ph_host
    then have e: "\<not> up_is_email p" and s: "(\<exists>s. up_state p = s_scheme s) \<or> up_state p = s_host \<or> up_state p = s_delimeter_colon"
      using assms(1) by (simp_all add: in_phase_def)
    have c: "alnum (cur p) \<or> cur p = 45 \<or> cur p = 46"
      using assms(2) cl by (auto simp: ph_host phase_ok_def split: if_splits)
    show ?thesis
    proof (cases "cur p = 46")
      case True
      then have "the (next_phase ph d) = ph_dot" using cl(3) by (simp add: ph_host alnum_def is_digit_def byte_le)
      then have g: "breaks_into (the (next_phase ph d)) (process_switch env p) = breaks_into ph_dot (process_switch env p)"
        by simp
      from s show ?thesis
        unfolding g
        using scheme_case_dot [OF assms(4) True e] host_case_dot [OF True e] True e
        by (elim disjE exE) (simp_all add: process_switch_def Let_def breaks_to_state)
    next
      case False
      then have a: "alnum (cur p) \<or> cur p = 45" and n: "the (next_phase ph d) = ph_host"
        using c cl by (auto simp: ph_host)
      have h: "up_state p = s_host \<Longrightarrow> breaks_into ph_host (host_case env p)"
        using host_case_host [OF assms(4) a e] .
      from s show ?thesis
        unfolding n
        using scheme_case_host [OF assms(4) a e] h al(1,2) [OF a] e
        by (elim disjE exE) (simp_all add: process_switch_def Let_def breaks_to_state)
    qed
  next
    case ph_dot
    then have e: "\<not> up_is_email p" and s: "up_state p = s_host_dot" using assms(1) by (simp_all add: in_phase_def)
    have a: "alnum (cur p)" and n: "the (next_phase ph d) = ph_label [d]"
      using assms(2) cl(1) by (auto simp: ph_dot phase_ok_def split: if_splits)
    have "char_bytes p = [cur p]" using assms(4) by (simp add: one_byte_def)
    then show ?thesis
      using al(5) a e n cl(5)
      by (simp add: s process_switch_def Let_def host_dot_case_def breaks_into_def to_state_def in_phase_def
          save_to_domain_def char_bytes_def)
  next
    case (ph_label l)
    then have e: "\<not> up_is_email p" and s: "up_state p = s_host_n"
      and l: "l \<noteq> []" "map to_lower (up_domain p) = map to_lower l"
      using assms(1) by (simp_all add: in_phase_def)
    have c: "alnum (cur p) \<or> cur p = 45 \<or> cur p = 46 \<or> cur p = 47"
      using assms(2) cl by (auto simp: ph_label phase_ok_def split: if_splits)
    consider (dot) "cur p = 46" | (slash) "cur p = 47" | (letter) "alnum (cur p) \<or> cur p = 45" "cur p \<noteq> 46" "cur p \<noteq> 47"
      using c by (auto simp: alnum_def is_digit_def byte_le)
    then show ?thesis
    proof cases
      case dot
      then have "the (next_phase ph d) = ph_dot" using cl(3) by (simp add: ph_label alnum_def is_digit_def byte_le)
      then show ?thesis using dot e by (simp add: s process_switch_def Let_def host_n_case_def breaks_to_state)
    next
      case slash
      then have n: "the (next_phase ph d) = ph_path" using cl(4) by (simp add: ph_label alnum_def is_digit_def byte_le)
      have "valid_tld env l" using assms(2) slash cl(4) by (simp add: ph_label phase_ok_def)
      then have "is_valid_top_level_domain env p"
        using l by (auto simp: is_valid_top_level_domain_def valid_tld_def)
      then show ?thesis
        using slash e n by (simp add: s process_switch_def Let_def host_n_case_def breaks_to_state state_if_domain_def)
    next
      case letter
      then have n: "the (next_phase ph d) = ph_label (l @ [d])" using cl by (auto simp: ph_label)
      have "char_bytes p = [cur p]" using assms(4) by (simp add: one_byte_def)
      moreover have "\<not> char_is right_double_quote p" "\<not> char_is right_quote p"
        using assms(4) by (simp_all add: one_byte_def char_is_def right_double_quote_def right_quote_def)
      moreover have "is_letter_or_digit p \<or> cur p = 45" using al(5) letter(1) by blast
      ultimately have "host_n_case env p = Break (save_to_domain p)"
        using al(1,3,4) [OF letter(1)]
        by (cases "is_letter_or_digit p") (simp_all add: host_n_case_def Let_def one_of_numbers)
      then show ?thesis
        using e n l cl(5) s \<open>char_bytes p = [cur p]\<close>
        by (simp add: process_switch_def Let_def breaks_into_def in_phase_def save_to_domain_def)
    qed
  next
    case ph_path
    then have e: "\<not> up_is_email p" and s: "up_state p \<in> {s_host_slash, s_path, s_path_slash}"
      using assms(1) by (simp_all add: in_phase_def)
    have c: "alnum (cur p) \<or> cur p = 45 \<or> cur p = 47" and n: "the (next_phase ph d) = ph_path"
      using assms(2) cl by (auto simp: ph_path phase_ok_def split: if_splits)
    have sp: "\<not> is_space p"
      using c al(3) assms(4) by (auto simp: is_space_def char_is_def nbsp_def one_byte_def isspace_def byte_le)
    have aw: "is_allowable_char p" using c al(2) by (auto simp: is_allowable_char_def)
    have q: "\<not> char_is right_double_quote p" "\<not> char_is right_quote p"
      using assms(4) by (simp_all add: one_byte_def char_is_def right_double_quote_def right_quote_def)
    have sl: "cur p = 47 \<or> cur p \<noteq> 47 \<and> cur p \<noteq> 46 \<and> cur p \<noteq> 63"
      using c al(1) by auto
    have path: "breaks_into ph_path (path_case env p)" if "up_state p = s_path"
      using sl q sp aw e that
      by (elim disjE) (simp_all add: path_case_def Let_def breaks_to_state, simp add: breaks_into_def in_phase_def)
    have slash: "breaks_into ph_path (Break p)" using e s by (simp add: breaks_into_def in_phase_def)
    from s consider "up_state p = s_host_slash" | "up_state p = s_path" | "up_state p = s_path_slash" by blast
    then show ?thesis
    proof cases
      case 1
      then show ?thesis
        using slash aw e n by (simp add: process_switch_def Let_def breaks_to_state)
    next
      case 2
      then show ?thesis using path n by (simp add: process_switch_def Let_def)
    next
      case 3
      then show ?thesis
        using sl sp aw e n by (elim disjE) (simp_all add: process_switch_def Let_def breaks_to_state path_or_reset_def)
    qed
  qed
qed

lemma in_phase_inside: "in_phase ph p \<Longrightarrow> inside p \<and> up_state p \<notin> {s_lookup, s_check_www, s_check_filesharing}"
  by (cases ph) (auto simp: in_phase_def inside_def waiting_def comparing_def)

lemma process_phase:
  assumes "parser_inv p" and "host_char c" and "\<not> comparing p" and "up_state p \<notin> {s_lookup, s_check_www, s_check_filesharing}"
    and "breaks_into ph (process_switch env (with_char c p))"
  shows "\<exists>q. process_within env (Suc n) c p = Some q \<and> parser_inv q \<and> up_clears q = up_clears p \<and> in_phase ph q"
proof -
  obtain r where r: "process_switch env (with_char c p) = Break r" "in_phase ph r"
    using assms(5) by (auto simp: breaks_into_def)
  obtain q where q: "process_within env (Suc n) c p = Some q" "step_ok c p q"
    using process_within_step [OF assms(1,3) host_char_ascii [OF assms(2)]] by blast
  then have "q = save_char_buf r"
    using r(1) process_within_ascii [OF assms(1) host_char_ascii [OF assms(2)], of env n] by simp
  then show ?thesis
    using q r(2) assms(2,4) by (auto simp: step_ok_def split: if_splits)
qed

lemma replay_phases:
  assumes "parser_inv p" and "in_phase ph p" and "phases_ok env ph ds" and "list_all2 same_letter cs ds"
    and "list_all host_char cs"
  shows "\<exists>q. replay (process_within env (Suc n)) cs p = Some q"
  using assms
proof (induction cs arbitrary: p ph ds)
  case (Cons c cs)
  obtain d ds' where ds: "ds = d # ds'" "same_letter c d" "list_all2 same_letter cs ds'"
    using Cons.prems(4) by (auto simp: list_all2_Cons1)
  have ne: "up_char_buf p \<noteq> []" using parser_invD(1) [OF Cons.prems(1)] by auto
  have ph: "phase_ok env ph d" "phases_ok env (the (next_phase ph d)) ds'" using Cons.prems(3) ds(1) by simp_all
  have "in_phase ph (with_char c p)" using Cons.prems(2) by (cases ph) (simp_all add: in_phase_def with_char_def)
  from phase_step [OF this ph(1)] ds(2) ne
  have b: "breaks_into (the (next_phase ph d)) (process_switch env (with_char c p))" by simp
  have i: "\<not> comparing p" "up_state p \<notin> {s_lookup, s_check_www, s_check_filesharing}"
    using in_phase_inside [OF Cons.prems(2)] by (auto simp: inside_def)
  have c: "host_char c" "list_all host_char cs" using Cons.prems(5) by simp_all
  obtain q where q: "process_within env (Suc n) c p = Some q" "parser_inv q" "up_clears q = up_clears p"
    "in_phase (the (next_phase ph d)) q"
    using process_phase [OF Cons.prems(1) c(1) i b, of n] by blast
  then show ?case using Cons.IH [OF q(2,4) ph(2) ds(3) c(2)] by simp
qed simp

lemma lookup_case_phase:
  assumes "one_byte p" and "alnum (cur p)" and "cur p \<noteq> 119" and "cur p \<noteq> 87" and "\<not> up_is_email p"
  shows "breaks_into ph_host (lookup_case env p)"
proof -
  have "\<not> char_is left_double_quote p" "\<not> char_is left_quote p"
    using assms(1) by (simp_all add: one_byte_def char_is_def left_double_quote_def left_quote_def)
  then show ?thesis
    using alnum_facts(5) [OF _ assms(1) refl] assms(2-5)
    by (simp add: lookup_case_def Let_def breaks_to_state) (simp add: breaks_into_def in_phase_def)
qed

definition wf_fixed :: "url_env \<Rightarrow> bytes \<Rightarrow> bool" where
  "wf_fixed env s \<longleftrightarrow> s \<noteq> [] \<and> alnum (hd s) \<and> hd s \<notin> {119, 87} \<and> phases_ok env ph_host s"

definition spelled :: "bytes \<Rightarrow> bytes \<Rightarrow> bool" where
  "spelled cb s \<longleftrightarrow> length cb \<le> length s \<and> list_all2 same_letter cb (take (length cb) s)"

lemma phases_ok_take: "phases_ok env ph s \<Longrightarrow> phases_ok env ph (take n s)"
  by (induction s arbitrary: ph n) (auto simp: take_Cons split: nat.split)

lemma replay_spelled:
  assumes "parser_inv p" and "wf_fixed env s" and "spelled cs s" and "list_all host_char cs"
    and "up_state p = s_lookup_without_fixed_urls \<and> fresh_link p \<or> up_state p = s_host \<and> \<not> up_is_email p"
  shows "\<exists>q. replay (process_within env (Suc n)) cs p = Some q"
proof (cases cs)
  case Nil
  then show ?thesis by simp
next
  case (Cons c cs')
  let ?ds = "take (length cs) s"
  have ds: "list_all2 same_letter cs ?ds" "phases_ok env ph_host ?ds"
    using assms(2,3) phases_ok_take by (auto simp: spelled_def wf_fixed_def)
  from assms(5) show ?thesis
  proof
    assume "up_state p = s_host \<and> \<not> up_is_email p"
    then have "in_phase ph_host p" by (simp add: in_phase_def)
    from replay_phases [OF assms(1) this ds(2,1) assms(4)] show ?thesis .
  next
    assume w: "up_state p = s_lookup_without_fixed_urls \<and> fresh_link p"
    obtain d ds' where d: "?ds = d # ds'" "same_letter c d" "list_all2 same_letter cs' ds'"
      using ds(1) Cons by (auto simp: list_all2_Cons1)
    have hd: "alnum d" "d \<noteq> 119" "d \<noteq> 87" using assms(2) d(1) Cons by (cases s; auto simp: wf_fixed_def)+
    have c: "alnum c" "c \<noteq> 119" "c \<noteq> 87"
      using hd same_letter_classes(1) [OF d(2)] d(2) by (auto simp: same_letter_def to_lower_def)
    have ne: "up_char_buf p \<noteq> []" using parser_invD(1) [OF assms(1)] by auto
    have "breaks_into ph_host (process_switch env (with_char c p))"
      using lookup_case_phase [of "with_char c p" env] c w ne
      by (simp add: process_switch_def Let_def fresh_link_def) (simp add: with_char_def)
    then obtain q where q: "process_within env (Suc n) c p = Some q" "parser_inv q" "up_clears q = up_clears p"
      "in_phase ph_host q"
      using process_phase [of p c ph_host env n] assms(1,4) w Cons by (auto simp: comparing_def)
    have "next_phase ph_host d = Some ph_host" using hd(1) by simp
    then have "phases_ok env ph_host ds'" using ds(2) d(1) by simp
    from replay_phases [OF q(2,4) this d(3), of n] q(1,3) assms(4) show ?thesis by (simp add: Cons)
  qed
qed

subsection \<open>Every byte is processed\<close>

text \<open>Only behind a host can a link be an address of a mailbox.\<close>

definition early :: "parser_state \<Rightarrow> bool" where
  "early s = (case s of
     s_lookup \<Rightarrow> True | s_lookup_without_fixed_urls \<Rightarrow> True | s_scheme _ \<Rightarrow> True | s_check_www \<Rightarrow> True
   | s_www_2 \<Rightarrow> True | s_www_3 \<Rightarrow> True | s_www_4 \<Rightarrow> True | s_delimeter_colon \<Rightarrow> True
   | s_delimeter_slash1 \<Rightarrow> True | s_delimeter_slash2 \<Rightarrow> True | s_check_filesharing \<Rightarrow> True | _ \<Rightarrow> False)"

definition keeps_early :: "url_parser \<Rightarrow> outcome \<Rightarrow> bool" where
  "keeps_early p out = (case out of
     Break q \<Rightarrow> early (up_state q) \<longrightarrow> early (up_state p) \<and> up_is_email q = up_is_email p | _ \<Rightarrow> True)"

lemma keeps_early_simps [simp]:
  "keeps_early p (if b then x else y) = (if b then keeps_early p x else keeps_early p y)"
  "keeps_early p (to_state s q) = (early s \<longrightarrow> early (up_state p) \<and> up_is_email q = up_is_email p)"
  "keeps_early p (Break q) = (early (up_state q) \<longrightarrow> early (up_state p) \<and> up_is_email q = up_is_email p)"
  "keeps_early p (reset_parser q)" "keeps_early p (Return q)"
  "keeps_early p (uri_found env q)" "keeps_early p (found_if_domain env q)"
  "keeps_early p (path_or_reset q)" "keeps_early p (host_or_reset q)"
  "keeps_early p (save_host_or_reset q)" "keeps_early p (path_dot_case env q)"
  "up_state q = s_ext e \<Longrightarrow> keeps_early p (extension_case e q)"
  by (auto simp: keeps_early_def to_state_def reset_parser_def uri_found_def found_if_domain_def
      path_or_reset_def host_or_reset_def save_host_or_reset_def extension_case_def path_dot_case_def early_def
      split: option.splits bool.splits)

lemma keeps_early_host: "up_state q = s_host \<Longrightarrow> keeps_early p (host_case env q)"
  by (simp add: host_case_def Let_def early_def)

lemma keeps_early_no_scheme: "keeps_early p (no_scheme env q)" "keeps_early p (blank_or_no_scheme env q)"
  "keeps_early p (reprocess_host env q)"
  by (simp_all add: no_scheme_def blank_or_no_scheme_def reprocess_host_def keeps_early_host)

lemma keeps_early_domain: "\<not> early s \<Longrightarrow> keeps_early p (state_if_domain env s q)"
  by (simp add: state_if_domain_def)

lemma process_switch_early: "keeps_early p (process_switch env p)"
proof (cases "up_state p")
  case (s_scheme s)
  then have "early (up_state p)" by (simp add: early_def)
  then show ?thesis
    by (cases s) (simp_all add: s_scheme process_switch_def Let_def scheme_case_def keeps_early_no_scheme)
next
  case s_compare
  then show ?thesis
    by (simp add: process_switch_def Let_def compare_case_def keeps_early_def split: prod.split compare_result.split)
next
  case s_compare_safe
  then show ?thesis
    by (simp add: process_switch_def Let_def compare_case_def keeps_early_def split: prod.split compare_result.split)
qed (simp_all add: process_switch_def Let_def lookup_case_def early_def keeps_early_host keeps_early_no_scheme
  keeps_early_domain host_n_case_def host_dot_case_def path_case_def id_case_def)

lemma scan_items_match:
  "i' \<in> set (fst (scan_items p pos items s)) \<Longrightarrow> \<exists>i \<in> set items. ci_str i' = ci_str i \<and>
     (ci_match i' \<longrightarrow> is_skipped pos i \<and> ci_match i \<or> \<not> is_skipped pos i \<and> is_equal (drop pos (ci_str i)) p)"
proof (induction items arbitrary: s)
  case (Cons i items)
  then consider "i' = fst (scan_item p pos i s)"
    | "i' \<in> set (fst (scan_items p pos items (snd (scan_item p pos i s))))"
    by (auto simp: scan_items_Cons)
  then show ?case
  proof cases
    case 1
    then show ?thesis by (intro bexI [of _ i]) (auto simp: scan_item_def Let_def)
  next
    case 2
    then show ?thesis using Cons.IH by fastforce
  qed
qed simp

text \<open>The items that still match are those that begin with what was compared.\<close>

definition matched :: "url_parser \<Rightarrow> bool" where
  "matched p \<longleftrightarrow> (\<exists>i \<in> set (up_fixed_urls p). spelled (up_compare_buf p) (ci_str i)) \<and>
     (\<forall>i \<in> set (up_fixed_urls p). ci_match i \<longrightarrow> length (up_compare_buf p) \<le> length (ci_str i) \<longrightarrow>
        spelled (up_compare_buf p) (ci_str i))"

lemma spelled_snoc:
  assumes "spelled cb s" and "one_byte p" and "is_equal (drop (length cb) s) p" and "length cb < length s"
  shows "spelled (cb @ [cur p]) s"
proof -
  have "hd (drop (length cb) s @ [0]) = s ! length cb" using assms(4) by (simp add: hd_append hd_drop_conv_nth)
  then have "same_letter (cur p) (s ! length cb)"
    using assms(2,3) by (auto simp: is_equal_def one_byte_def same_letter_def)
  then show ?thesis
    using assms(1,4) by (simp add: spelled_def take_Suc_conv_app_nth list_all2_append)
qed

lemma compare_matched:
  assumes "fixed_ok p" and "one_byte p" and "up_compare_pos p = length (up_compare_buf p)"
    and "up_compare_buf p = [] \<or> matched p" and "compare_fixed_urls (up_compare_pos p) p = (r, q)" and "r \<noteq> cr_no_match"
  shows "matched q"
proof -
  let ?pos = "up_compare_pos p"
  define items s where "items = fst (scanned ?pos p)" and "s = snd (scanned ?pos p)"
  have scan: "scan_items p ?pos (up_fixed_urls p)
      \<lparr>cs_partial = False, cs_end = True, cs_min_safe = -1, cs_ok = up_ok_state p\<rparr> = (items, s)"
    by (simp add: items_def s_def scanned_def)
  have partial: "cs_partial s" and q: "up_fixed_urls q = items" "up_compare_buf q = up_compare_buf p @ [cur p]"
    using assms(2,5,6) scan by (auto simp: compare_fixed_urls_def Let_def one_byte_def char_bytes_def split: if_splits)
  have grow: "spelled (up_compare_buf p @ [cur p]) (ci_str i)"
    if i: "i \<in> set (up_fixed_urls p)" "\<not> is_skipped ?pos i" "is_equal (drop ?pos (ci_str i)) p" for i
  proof (rule spelled_snoc [OF _ assms(2)])
    have "ci_str i \<noteq> []" using assms(1) i(1) by (auto simp: fixed_ok_def)
    then show len: "length (up_compare_buf p) < length (ci_str i)"
      using i(2) assms(3) by (cases "ci_str i") (auto simp: is_skipped_def)
    show "is_equal (drop (length (up_compare_buf p)) (ci_str i)) p" using i(3) assms(3) by simp
    show "spelled (up_compare_buf p) (ci_str i)"
      using assms(3,4) i(1,2) len by (auto simp: matched_def is_skipped_def spelled_def)
  qed
  have "\<exists>i \<in> set (up_fixed_urls p). \<not> is_skipped ?pos i \<and> is_equal (drop ?pos (ci_str i)) p"
    using partial by (simp add: s_def scanned_def scan_items_partial)
  then obtain i where i: "i \<in> set (up_fixed_urls p)" "spelled (up_compare_buf q) (ci_str i)"
    using grow q(2) by auto
  have "map ci_str items = map ci_str (up_fixed_urls p)"
    by (simp add: items_def scanned_def scan_items_same)
  then have "ci_str i \<in> ci_str ` set items" using i(1) by (metis imageI list.set_map)
  moreover have "spelled (up_compare_buf q) (ci_str i')"
    if i': "i' \<in> set items" "ci_match i'" "length (up_compare_buf q) \<le> length (ci_str i')" for i'
  proof -
    obtain j where j: "j \<in> set (up_fixed_urls p)" "ci_str i' = ci_str j"
      "is_skipped ?pos j \<and> ci_match j \<or> \<not> is_skipped ?pos j \<and> is_equal (drop ?pos (ci_str j)) p"
      using scan_items_match [of i' p ?pos "up_fixed_urls p"] i'(1,2) by (auto simp: items_def scanned_def)
    have "\<not> (is_skipped ?pos j \<and> ci_match j)"
      using i'(3) j(2) q(2) assms(3) by (auto simp: is_skipped_def)
    then have "spelled (up_compare_buf p @ [cur p]) (ci_str j)" using j(1,3) by (intro grow) blast+
    then show ?thesis by (simp add: j(2) q(2))
  qed
  ultimately show ?thesis using i(2) q(1) by (auto simp: matched_def)
qed

definition total_inv :: "url_env \<Rightarrow> url_parser \<Rightarrow> bool" where
  "total_inv env p \<longleftrightarrow>
     (\<forall>s \<in> ci_str ` set (up_fixed_urls p). wf_fixed env s) \<and> (early (up_state p) \<longrightarrow> \<not> up_is_email p) \<and>
     (comparing p \<longrightarrow> matched p \<and> \<not> up_is_email p)"

lemma compare_strings:
  "compare_fixed_urls pos p = (r, q) \<Longrightarrow> ci_str ` set (up_fixed_urls q) = ci_str ` set (up_fixed_urls p) \<and>
     up_is_email q = up_is_email p"
proof -
  assume c: "compare_fixed_urls pos p = (r, q)"
  have "up_fixed_urls q = fst (scanned pos p)"
    using c by (auto simp: compare_fixed_urls_def Let_def scanned_def split: prod.splits if_splits)
  then have "map ci_str (up_fixed_urls q) = map ci_str (up_fixed_urls p)" by (simp add: scanned_def scan_items_same)
  then have "ci_str ` set (up_fixed_urls q) = ci_str ` set (up_fixed_urls p)" by (metis list.set_map)
  then show ?thesis
    using c by (auto simp: compare_fixed_urls_def Let_def split: prod.splits if_splits)
qed

lemma total_inv_step:
  assumes "total_inv env p" and "parser_inv p" and "\<not> comparing p" and "ascii_byte c"
    and "process_within env (Suc n) c p = Some q"
  shows "(\<forall>s \<in> ci_str ` set (up_fixed_urls q). wf_fixed env s) \<and> (\<not> has_url q \<longrightarrow> total_inv env q)"
proof -
  note inv = parser_invD [OF assms(2)]
  have ne: "up_char_buf p \<noteq> []" using inv(1) by auto
  let ?p = "with_char c p"
  have e: "up_is_email ?p = up_is_email p" by (simp add: with_char_def)
  have wf: "\<forall>s \<in> ci_str ` set (up_fixed_urls p). wf_fixed env s" and em: "early (up_state p) \<longrightarrow> \<not> up_is_email p"
    using assms(1) by (simp_all add: total_inv_def)
  have run: "(case process_switch env ?p of Return q \<Rightarrow> Some q | Break q \<Rightarrow> Some (save_char_buf q)
      | Fallback q \<Rightarrow> fallback (process_within env n) (cur q) q | Undefined \<Rightarrow> None) = Some q"
    using process_within_ascii [OF assms(2,4), of env n] assms(5) by simp
  have start: "(\<forall>s \<in> ci_str ` set (up_fixed_urls q). wf_fixed env s) \<and> total_inv env q"
    if s: "q = start_fixed_urls_compare s ?p" "in_compare_set ?p" "early (up_state p)" for s
  proof -
    define p1 where "p1 = ?p\<lparr>up_compare_pos := 0, up_safe_position := 0, up_compare_buf := [],
      up_clears := Suc (up_clears ?p), up_fallback_state := s,
      up_fixed_urls := map (\<lambda>item. item\<lparr>ci_match := False\<rparr>) (up_fixed_urls ?p)\<rparr>"
    obtain r q1 where c: "compare_fixed_urls (up_compare_pos p1) p1 = (r, q1)" by (metis surj_pair)
    have q: "q = q1\<lparr>up_state := (case r of cr_match \<Rightarrow> up_ok_state q1 | cr_no_match \<Rightarrow> up_fallback_state q1
        | cr_in_progress \<Rightarrow> s_compare)\<rparr>"
      using c s(1) by (simp add: start_fixed_urls_compare_def p1_def)
    have one1: "one_byte p1" using ne one_byte_with_char [of p c] by (auto simp: p1_def one_byte_def char_bytes_def cur_def)
    have ok1: "fixed_ok p1" using inv(7) by (simp add: p1_def fixed_ok_def image_image)
    have "in_compare_set p1" using s(2) by (simp add: p1_def in_compare_set_def cur_def)
    then obtain i where "i \<in> set (up_fixed_urls p1)" "\<not> is_skipped 0 i" "is_equal (ci_str i) p1"
      using in_compare_set_matches [OF ok1 one1] by blast
    moreover have pos: "up_compare_pos p1 = 0" "up_compare_buf p1 = []" by (simp_all add: p1_def)
    ultimately have nm: "r \<noteq> cr_no_match"
      using compare_fixed_urls_cases(5) [OF ok1 one1 _ c] by auto
    have m: "matched q1" using compare_matched [OF ok1 one1 _ _ c nm] pos by simp
    have "ci_str ` set (up_fixed_urls p1) = ci_str ` set (up_fixed_urls p)" by (simp add: p1_def image_image)
    then have str: "\<forall>s \<in> ci_str ` set (up_fixed_urls q1). wf_fixed env s" and eq: "up_is_email q1 = up_is_email p"
      using compare_strings [OF c] wf e by (simp_all add: p1_def)
    have "\<not> early (up_ok_state q1) \<or> r \<noteq> cr_match"
      using compare_fixed_urls_cases(4) [OF ok1 one1 _ c] pos by (auto simp: early_def)
    then show ?thesis
      using str eq em s(3) m nm by (cases r) (auto simp: q total_inv_def matched_def early_def)
  qed
  have "switch_effect env ?p (process_switch env ?p)"
    using assms(3) by (intro process_switch_effect) simp_all
  then show ?thesis
  proof cases
    case (effect_break r)
    have "keeps_early ?p (Break r)" using process_switch_early [of ?p env] effect_break(1) by simp
    then show ?thesis
      using effect_break run wf em e
      by (auto simp: total_inv_def save_char_buf_def same_text_def comparing_def)
  next
    case (effect_reset r)
    then show ?thesis
      using run wf by (auto simp: total_inv_def reset_def same_text_def comparing_def)
  next
    case effect_skip
    then show ?thesis using run assms(1,3) e by (auto simp: total_inv_def)
  next
    case effect_start_lookup
    then show ?thesis using run start [of s_lookup_without_fixed_urls] by (auto simp: early_def)
  next
    case effect_start_host
    then show ?thesis using run start [of s_host] by (auto simp: early_def)
  next
    case (effect_found r)
    have "inside p" "inside r" "\<not> host_char c"
      using effect_found(3-6) assms(3) ne by (simp_all add: inside_def)
    from uri_found_step [OF assms(2) effect_found(2) this, of env] obtain x where
      "uri_found env r = Return x" "up_fixed_urls x = up_fixed_urls p"
      "\<not> has_url x \<longrightarrow> up_state x = s_lookup \<and> \<not> up_is_email x" by blast
    then show ?thesis using run effect_found(1) wf by (auto simp: total_inv_def comparing_def)
  qed
qed

lemma replay_total_inv:
  assumes "total_inv env p" and "parser_inv p" and "\<not> comparing p" and "list_all host_char cs"
    and "replay (process_within env (Suc n)) cs p = Some q"
  shows "total_inv env q"
  using assms
proof (induction cs arbitrary: p)
  case (Cons c cs)
  have a: "ascii_byte c" "host_char c" "list_all host_char cs" using Cons.prems(4) host_char_ascii by simp_all
  obtain r where r: "process_within env (Suc n) c p = Some r" "step_ok c p r"
    using process_within_step [OF Cons.prems(2,3) a(1), of env n] by blast
  have rest: "up_clears r = up_clears p" "replay (process_within env (Suc n)) cs r = Some q"
    using Cons.prems(5) r(1) by (auto split: if_splits)
  have ok: "\<not> has_url r" "parser_inv r" "\<not> comparing r" using r(2) a(2) rest(1) by (auto simp: step_ok_def split: if_splits)
  have "total_inv env r" using total_inv_step [OF Cons.prems(1-3) a(1) r(1)] ok(1) by blast
  then show ?case using Cons.IH [OF _ ok(2,3) a(3) rest(2)] by blast
qed simp

text \<open>A character that is compared: it is accepted, or the comparison is undone.\<close>

lemma process_compare:
  assumes "parser_inv p" and "total_inv env p" and "comparing p" and "ascii_byte c" and "suffix (up_buf p) t"
  shows "(\<exists>q. process_within env (Suc n) c p = Some q \<and> text_step t c q \<and> \<not> has_url q \<and> total_inv env q) \<or>
    (\<exists>q. process_within env (Suc n) c p = fallback (process_within env n) c q \<and> compare_ok q \<and> fixed_ok q \<and>
       length (up_char_buf q) = 6 \<and> up_char_pos q = 0 \<and> \<not> up_is_utf8 q \<and> up_char_size q \<le> 1 \<and> \<not> has_url q \<and>
       up_tail_size q = 0 \<and> up_buf q = up_buf p \<and> up_compare_buf q = up_compare_buf p \<and> up_clears q = up_clears p \<and>
       ci_str ` set (up_fixed_urls q) = ci_str ` set (up_fixed_urls p) \<and> \<not> up_is_email q)"
proof -
  note inv = parser_invD [OF assms(1)]
  have ne: "up_char_buf p \<noteq> []" using inv(1) by auto
  obtain s where s: "s = s_compare \<or> s = s_compare_safe"
    "process_switch env (with_char c p) = compare_case ((with_char c p)\<lparr>up_state := s\<rparr>)"
    using compare_switch [of "with_char c p" env] assms(3) by auto
  define p1 where "p1 = (with_char c p)\<lparr>up_state := s\<rparr>"
  obtain r q where c: "compare_fixed_urls (up_compare_pos p1) p1 = (r, q)" by (metis surj_pair)
  have cok: "compare_ok p" using inv(10) assms(3) by simp
  have one1: "one_byte p1" and cur1: "cur p1 = c"
    using ne by (simp_all add: p1_def)
  have ok1: "fixed_ok p1" and pos1: "up_compare_pos p1 = length (up_compare_buf p1)"
    using inv(7) cok by (simp_all add: p1_def compare_ok_def)
  note cmp = compare_fixed_urls_cases [OF ok1 one1 pos1 c]
  have m1: "matched p1" using assms(2,3) by (simp add: p1_def total_inv_def matched_def)
  have str: "ci_str ` set (up_fixed_urls q) = ci_str ` set (up_fixed_urls p)" "\<not> up_is_email q"
    using compare_strings [OF c] assms(2,3) by (simp_all add: p1_def total_inv_def) (simp add: with_char_def)
  show ?thesis
  proof (cases "r = cr_no_match")
    case True
    note q = cmp(2) [OF True]
    have f: "up_buf q = up_buf p" "up_compare_buf q = up_compare_buf p" "up_compare_pos q = up_compare_pos p"
      "up_fallback_state q = up_fallback_state p" "up_clears q = up_clears p" "length (up_char_buf q) = 6"
      "up_char_pos q = 0" "up_is_utf8 q = False" "up_char_size q = 1" "up_url q = up_url p" "up_tail_size q = 0"
      "fresh_link q = fresh_link p" "cur q = c"
      by (subst q, use inv(1,2,6) ne in \<open>simp add: p1_def with_char_def fresh_link_def cur_def\<close>)+
    have "process_within env (Suc n) c p = fallback (process_within env n) c q"
      unfolding process_within_ascii [OF assms(1,4)] s(2)
      using c True f(13) by (simp add: compare_case_def p1_def [symmetric])
    moreover have "compare_ok q" using cok by (simp add: compare_ok_def f)
    ultimately show ?thesis using cmp(1) f inv(5) str by (auto simp: has_url_def)
  next
    case False
    note q = conjunct2 [OF cmp(3) [OF False]]
    have f: "up_buf q = up_buf p @ [c]" "up_compare_buf q = up_compare_buf p @ [c]"
      "up_compare_pos q = Suc (up_compare_pos p)" "up_state q = s"
      "up_fallback_state q = up_fallback_state p" "up_clears q = up_clears p" "length (up_char_buf q) = 6"
      "up_char_pos q = 0" "up_is_utf8 q = False" "up_char_size q = 1" "up_url q = up_url p" "up_tail_size q = 0"
      "fresh_link q = fresh_link p"
      by (subst q, use inv(1,2,6) ne cur1 in \<open>simp add: p1_def with_char_def fresh_link_def cur_def\<close>)+
    have hc: "host_char c" using cmp(3) [OF False] cur1 by simp
    have cokq: "compare_ok q" using cok hc by (auto simp: compare_ok_def f)
    have core: "has_core (up_buf p)"
      using cok by (cases "up_compare_buf p") (auto simp: compare_ok_def has_core_def)
    define q' where "q' = (if r = cr_match then q\<lparr>up_state := up_ok_state q\<rparr> else q)"
    have "process_within env (Suc n) c p = Some q'"
      unfolding process_within_ascii [OF assms(1,4)] s(2)
      using c False by (cases r) (simp_all add: compare_case_def p1_def [symmetric] q'_def)
    moreover have "parser_inv q'"
      using cmp(1,4) s(1) cokq core f inv(5)
      by (auto simp: q'_def parser_inv_def waiting_def comparing_def inside_def has_url_def)
    moreover have tot: "total_inv env q'"
    proof -
      have "matched q" using compare_matched [OF ok1 one1 pos1 _ c False] m1 by blast
      moreover have "\<forall>s \<in> ci_str ` set (up_fixed_urls q). wf_fixed env s"
        using assms(2) str by (simp add: total_inv_def)
      moreover have "up_fixed_urls q' = up_fixed_urls q" "up_is_email q' = up_is_email q" "matched q' = matched q"
        by (simp_all add: q'_def matched_def)
      ultimately show ?thesis using str(2) by (simp only: total_inv_def simp_thms)
    qed
    moreover have "up_buf q' = up_buf p @ [c]" "up_clears q' = up_clears p" by (simp_all add: q'_def f)
    ultimately show ?thesis
      using parser_invD(5) [of q'] assms(5) tot by (auto simp: text_step_def)
  qed
qed

text \<open>One byte of a text: it is processed, and the invariants go on.\<close>

lemma process_char_total:
  assumes "parser_inv p" and "total_inv env p" and "ascii_byte c" and "suffix (up_buf p) t"
  shows "\<exists>q. process_char env c p = Some q \<and> text_step t c q \<and>
    (\<forall>s \<in> ci_str ` set (up_fixed_urls q). wf_fixed env s) \<and> (\<not> has_url q \<longrightarrow> total_inv env q)"
proof (cases "comparing p")
  case False
  obtain q where q: "process_within env (Suc 1) c p = Some q" "step_ok c p q"
    using process_within_step [OF assms(1) False assms(3)] by blast
  then show ?thesis
    using total_inv_step [OF assms(2,1) False assms(3) q(1)] step_ok_text [OF q(2) assms(1,4)]
    unfolding process_char_def numeral_2_eq_2 by auto
next
  case True
  from process_compare [OF assms(1,2) True assms(3,4), of 1] show ?thesis
  proof
    assume "\<exists>q. process_within env (Suc 1) c p = Some q \<and> text_step t c q \<and> \<not> has_url q \<and> total_inv env q"
    then show ?thesis unfolding process_char_def numeral_2_eq_2 by (auto simp: total_inv_def)
  next
    assume "\<exists>q. process_within env (Suc 1) c p = fallback (process_within env 1) c q \<and> compare_ok q \<and> fixed_ok q \<and>
       length (up_char_buf q) = 6 \<and> up_char_pos q = 0 \<and> \<not> up_is_utf8 q \<and> up_char_size q \<le> 1 \<and> \<not> has_url q \<and>
       up_tail_size q = 0 \<and> up_buf q = up_buf p \<and> up_compare_buf q = up_compare_buf p \<and> up_clears q = up_clears p \<and>
       ci_str ` set (up_fixed_urls q) = ci_str ` set (up_fixed_urls p) \<and> \<not> up_is_email q"
    then obtain q where q: "process_within env (Suc 1) c p = fallback (process_within env 1) c q" "compare_ok q" "fixed_ok q"
      "length (up_char_buf q) = 6" "up_char_pos q = 0" "\<not> up_is_utf8 q" "up_char_size q \<le> 1" "\<not> has_url q"
      "up_tail_size q = 0" "up_buf q = up_buf p" "up_compare_buf q = up_compare_buf p"
      "ci_str ` set (up_fixed_urls q) = ci_str ` set (up_fixed_urls p)" "\<not> up_is_email q" by blast
    note r = rewound_inv [OF q(2-9)]
    let ?r = "rewound q" and ?cb = "up_compare_buf q"
    have hc: "list_all host_char ?cb" using q(2) by (simp add: compare_ok_def)
    have st: "up_state ?r = s_lookup_without_fixed_urls \<and> fresh_link ?r \<or> up_state ?r = s_host \<and> \<not> up_is_email ?r"
      using q(2,13) by (auto simp: compare_ok_def rewound_def fresh_link_def)
    have tot: "total_inv env ?r"
    proof -
      have "\<forall>s \<in> ci_str ` set (up_fixed_urls q). wf_fixed env s" using assms(2) unfolding total_inv_def q(12) by blast
      moreover have "up_fixed_urls ?r = up_fixed_urls q" "up_is_email ?r = up_is_email q" by (simp_all add: rewound_def)
      ultimately show ?thesis using q(13) r(2) by (simp only: total_inv_def simp_thms)
    qed
    obtain i where "i \<in> set (up_fixed_urls p)" "spelled ?cb (ci_str i)" "wf_fixed env (ci_str i)"
      using assms(2) True q(11) by (auto simp: total_inv_def matched_def)
    from replay_spelled [OF r(1) this(3,2) hc st, of 0] obtain x where
      x: "replay (process_within env (Suc 0)) ?cb ?r = Some x" by blast
    note rep = replay_ok [OF r(1,2) hc x]
    have tx: "total_inv env x" by (rule replay_total_inv [OF tot r(1,2) hc x])
    obtain t' where t': "t = t' @ ?cb" "suffix (up_buf ?r) t'"
      using assms(4) r(3) q(10) by (metis append_assoc suffix_def)
    then have sx: "suffix (up_buf x) t" using rep by blast
    obtain y where y: "process_within env (Suc 0) c x = Some y" "step_ok c x y"
      using process_within_step [of x c env 0] rep assms(3) by blast
    have "process_char env c p = Some y"
      unfolding process_char_def numeral_2_eq_2
      using q(1) fallback_rewound [OF r(4), of "process_within env 1" c] x y(1) by simp
    moreover have "text_step t c y" using step_ok_text [OF y(2) _ sx] rep by blast
    ultimately show ?thesis using total_inv_step [OF tx _ _ assms(3) y(1)] rep by blast
  qed
qed

end
