(* ===== verification/Message_Tokenizer.thy ===== *)
theory Message_Tokenizer
  imports Url_Parser
begin

section \<open>A message as texts and links: common.shared/message_processing\<close>

text \<open>
  The tokenizer runs the link parser over a message and cuts the message where links are found. What
  is between \<open>@[\<close> and \<open>]\<close>, a mention, is hidden from the parser. Sizes are 64-bit words, as the
  subtractions of the code need not stay above zero; \<open>None\<close> is an exception of \<open>substr\<close> or what is
  undefined in the parser.
\<close>

datatype message_token = tk_undefined | tk_text str | tk_url url

text \<open>The end of a mention that starts at \<open>i\<close>, or \<open>i\<close>. A string has a zero byte behind its end.\<close>

definition char_at :: "str \<Rightarrow> nat \<Rightarrow> byte" where
  "char_at s i = (if i < length s then s ! i else 0)"

definition skip_mention :: "str \<Rightarrow> nat \<Rightarrow> nat" where
  "skip_mention s i =
     (if char_at s i = 64 \<and> char_at s (i + 1) = 91 \<and> i + 2 < length s
      then (case find (\<lambda>j. char_at s j = 93) [i + 2..<length s] of Some j \<Rightarrow> j | None \<Rightarrow> i)
      else i)"

record token_state =
  ts_prev :: u64w
  ts_parser :: url_parser
  ts_tokens :: "message_token list"

definition substr :: "str \<Rightarrow> u64w \<Rightarrow> u64w \<Rightarrow> str option" where
  "substr s pos n = (if length s < unat pos then None else Some (take (unat n) (drop (unat pos) s)))"

definition append_tokens :: "str \<Rightarrow> nat \<Rightarrow> token_state \<Rightarrow> token_state option" where
  "append_tokens s i t =
     (let p = ts_parser t;
          url_size = of_nat (raw_url_length p);
          text_size = of_nat i - ts_prev t - url_size - of_nat (up_tail_size p)
      in map_option (\<lambda>texts.
           \<lparr>ts_prev = ts_prev t + (text_size + url_size), ts_parser = reset p,
            ts_tokens = ts_tokens t @ texts @ [tk_url (up_url p)]\<rparr>)
         (if 0 < text_size then map_option (\<lambda>x. [tk_text x]) (substr s (ts_prev t) text_size) else Some []))"

lemma skip_mention_ge: "i \<le> skip_mention s i"
proof -
  have "j \<in> set [i + 2..<length s]" if "find (\<lambda>j. char_at s j = 93) [i + 2..<length s] = Some j" for j
    using that by (metis find_Some_iff nth_mem)
  then show ?thesis by (force simp: skip_mention_def split: option.split)
qed

function tokenize_from :: "url_env \<Rightarrow> str \<Rightarrow> nat \<Rightarrow> token_state \<Rightarrow> token_state option" where
  "tokenize_from env s i0 t =
     (if length s \<le> i0 then Some t
      else
        let i = skip_mention s i0
        in Option.bind (process_char env (char_at s i) (ts_parser t)) (\<lambda>p.
             Option.bind
               (if has_url p then append_tokens s i (t\<lparr>ts_parser := p\<rparr>) else Some (t\<lparr>ts_parser := p\<rparr>))
               (tokenize_from env s (Suc i))))"
  by pat_completeness auto
termination
  by (relation "measure (\<lambda>(env, s, i, t). length s - i)")
    (use skip_mention_ge in \<open>auto simp: less_diff_conv2 not_le le_less_trans less_Suc_eq_le diff_less_mono2\<close>)

definition message_tokenizer :: "url_env \<Rightarrow> str \<Rightarrow> str \<Rightarrow> compare_item list \<Rightarrow> message_token list option" where
  "message_tokenizer env s files_url items =
     Option.bind
       (tokenize_from env s 0
          \<lparr>ts_prev = 0, ts_parser = add_fixed_urls items (url_parser_new env files_url), ts_tokens = []\<rparr>)
       (\<lambda>t. Option.bind (finish env (ts_parser t)) (\<lambda>p.
          if has_url p then
            Option.bind (append_tokens s (length s) (t\<lparr>ts_parser := p\<rparr>)) (\<lambda>u.
              if ts_prev u < of_nat (length s)
              then map_option (\<lambda>x. ts_tokens u @ [tk_text x, tk_undefined])
                (substr s (ts_prev u) (of_nat (length s) - ts_prev u))
              else Some (ts_tokens u @ [tk_undefined]))
          else if 0 < of_nat (length s) - ts_prev t
          then map_option (\<lambda>x. ts_tokens t @ [tk_text x, tk_undefined])
            (substr s (ts_prev t) (of_nat (length s) - ts_prev t))
          else Some (ts_tokens t @ [tk_undefined])))"

definition has_token :: "message_token list \<Rightarrow> bool" where "has_token ts \<longleftrightarrow> 1 < length ts"
definition current :: "message_token list \<Rightarrow> message_token" where "current ts = hd ts"
definition next_token :: "message_token list \<Rightarrow> message_token list" where
  "next_token ts = (if has_token ts then tl ts else ts)"

end
