(* ===== verification/Url_Properties.thy ===== *)
theory Url_Properties
  imports Url_Total Message_Tokenizer
begin

section \<open>Properties of the link parser and the tokenizer\<close>

text \<open>
  The parser as it is constructed with its fixed links is in the invariants of \<open>Url_Steps\<close> and
  \<open>Url_Total\<close>; with them the tokenizer keeps every byte of a message.
\<close>

subsection \<open>The fixed links\<close>

text \<open>
  The fixed links the tokenizer is shown to work with. \<open>wf_fixed\<close> asks of the text of a link that it
  starts with a letter or a digit other than \<open>w\<close> and \<open>W\<close>, consists of a host, labels of letters, digits
  and dashes with dots between them, each label behind a dot starting with a letter or a digit, and
  then possibly of a path of letters, digits, dashes and slashes, the label in front of the first
  slash being a top level domain. The links are the ones built into the parser, the configured file
  hosts with their suffix, and the items that are added, which are file sharing or profile links.
\<close>

definition wf_items :: "url_env \<Rightarrow> str \<Rightarrow> compare_item list \<Rightarrow> bool" where
  "wf_items env files_url items \<longleftrightarrow>
     valid_tld env (ascii ''com'') \<and>
     (\<forall>u \<in> set (up_files_urls (url_parser_new env files_url)). wf_fixed env (u @ get_suffix)) \<and>
     (\<forall>i \<in> set items. wf_fixed env (ci_str i) \<and> ci_ok_state i \<in> {s_filesharing_id, s_profile_id})"

lemma wf_fixed_com: "valid_tld env (ascii ''com'') \<Longrightarrow> wf_fixed env icq_com \<and> wf_fixed env chat_my_com"
  by (simp add: wf_fixed_def icq_com_def chat_my_com_def ascii_def phase_ok_def alnum_def is_digit_def byte_le)

lemma phases_host_chars: "phases_ok env ph s \<Longrightarrow> list_all host_char s"
proof (induction s arbitrary: ph)
  case (Cons c s)
  have "alnum c \<or> c = 45 \<or> c = 46 \<or> c = 47"
    using Cons.prems by (cases ph) (auto simp: phase_ok_def split: if_splits)
  then have "host_char c" by (auto simp: alnum_def host_char_def)
  then show ?case using Cons by auto
qed simp

lemma wf_fixed_host: "wf_fixed env s \<Longrightarrow> s \<noteq> [] \<and> list_all host_char s \<and> hd s \<noteq> 46"
  using phases_host_chars by (auto simp: wf_fixed_def alnum_def is_digit_def byte_le)

lemma add_fixed_urls_facts:
  "\<forall>i \<in> set items. ci_str i \<noteq> [] \<Longrightarrow>
     add_fixed_urls items p = p\<lparr>up_compare_set := up_compare_set p @ map (\<lambda>i. hd (ci_str i)) items,
       up_fixed_urls := up_fixed_urls p @ items\<rparr>"
proof (induction items arbitrary: p)
  case (Cons i items)
  then show ?case by (simp add: add_fixed_urls_def)
qed (simp add: add_fixed_urls_def)

lemma start_inv_new:
  assumes "wf_items env files_url items"
  shows "parser_inv (add_fixed_urls items (url_parser_new env files_url))"
    and "total_inv env (add_fixed_urls items (url_parser_new env files_url))"
    and "up_buf (add_fixed_urls items (url_parser_new env files_url)) = []"
proof -
  let ?n = "url_parser_new env files_url"
  have wf: "\<forall>i \<in> set (up_fixed_urls ?n @ items). wf_fixed env (ci_str i) \<and> ci_ok_state i \<in> {s_filesharing_id, s_profile_id}"
    using assms wf_fixed_com
    by (auto simp: wf_items_def url_parser_new_def init_fixed_urls_compare_def reset_def fixed_item_def Let_def)
  have set: "set (up_compare_set ?n) = (\<lambda>i. hd (ci_str i)) ` {i \<in> set (up_fixed_urls ?n). ci_str i \<noteq> []}"
    by (auto simp: url_parser_new_def init_fixed_urls_compare_def reset_def Let_def)
  have add: "add_fixed_urls items ?n = ?n\<lparr>up_compare_set := up_compare_set ?n @ map (\<lambda>i. hd (ci_str i)) items,
       up_fixed_urls := up_fixed_urls ?n @ items\<rparr>"
    using wf wf_fixed_host by (intro add_fixed_urls_facts) auto
  have "fixed_ok (add_fixed_urls items ?n)"
    using wf wf_fixed_host set unfolding add by (fastforce simp: fixed_ok_def)
  moreover have n: "up_state ?n = s_lookup" "up_buf ?n = []" "up_char_buf ?n = replicate 6 0" "up_char_pos ?n = 0"
    "\<not> up_is_utf8 ?n" "up_char_size ?n = 0" "\<not> has_url ?n" "up_tail_size ?n = 0" "fresh_link ?n"
    by (simp_all add: url_parser_new_def init_fixed_urls_compare_def reset_def Let_def has_url_def fresh_link_def)
  ultimately show "parser_inv (add_fixed_urls items ?n)"
    unfolding add by (simp add: parser_inv_def waiting_def inside_def comparing_def has_url_def fresh_link_def)
  show "total_inv env (add_fixed_urls items ?n)"
    using wf n unfolding add by (auto simp: total_inv_def comparing_def early_def fresh_link_def)
  show "up_buf (add_fixed_urls items ?n) = []" using n unfolding add by simp
qed

subsection \<open>The tokenizer\<close>

definition token_text :: "message_token \<Rightarrow> str" where
  "token_text t = (case t of tk_undefined \<Rightarrow> [] | tk_text s \<Rightarrow> s | tk_url u \<Rightarrow> u_original u)"

definition tokens_text :: "message_token list \<Rightarrow> str" where
  "tokens_text ts = concat (map token_text ts)"

lemma tokens_text_simps [simp]:
  "tokens_text [] = []" "tokens_text (t # ts) = token_text t @ tokens_text ts"
  "tokens_text (ts @ us) = tokens_text ts @ tokens_text us"
  "token_text tk_undefined = []" "token_text (tk_text s) = s" "token_text (tk_url u) = u_original u"
  by (simp_all add: tokens_text_def token_text_def)

text \<open>Up to \<open>k\<close> the message is in the tokens, from there to \<open>i\<close> it is in the parser.\<close>

definition cut_at :: "str \<Rightarrow> nat \<Rightarrow> nat \<Rightarrow> token_state \<Rightarrow> bool" where
  "cut_at s k i t \<longleftrightarrow> k \<le> i \<and> i \<le> length s \<and> ts_prev t = of_nat k \<and> tokens_text (ts_tokens t) = take k s"

lemma append_tokens_cut:
  assumes "cut_at s k i t" and "length s < 2 ^ 31"
    and "suffix (up_buf (ts_parser t) @ d) (take (i - k) (drop k s))"
    and "up_tail_size (ts_parser t) = length d" and "u_original (up_url (ts_parser t)) = up_buf (ts_parser t)"
  shows "\<exists>u j. append_tokens s i t = Some u \<and> cut_at s j i u \<and> ts_parser u = reset (ts_parser t)"
proof -
  let ?p = "ts_parser t"
  let ?b = "up_buf ?p"
  obtain g where g: "take (i - k) (drop k s) = g @ ?b @ d" using assms(3) by (auto simp: suffix_def)
  have k: "k \<le> i" "i \<le> length s" using assms(1) by (simp_all add: cut_at_def)
  have "length (take (i - k) (drop k s)) = i - k" using k by simp
  then have len: "i = k + length g + length ?b + length d" using g k by simp
  have small: "length g < 2 ^ 64" "k + length g + length ?b < 2 ^ 64" using len k assms(2) by simp_all
  have ts: "of_nat i - ts_prev t - of_nat (length ?b) - of_nat (length d) = (of_nat (length g) :: u64w)"
    using assms(1) len by (simp add: cut_at_def)
  have un: "unat (of_nat (length g) :: u64w) = length g" "unat (of_nat k :: u64w) = k"
    using small by (simp_all add: unsigned_of_nat take_bit_nat_eq_self_iff)
  have gs: "take (length g) (drop k s) = g"
  proof -
    have "take (length g) (take (i - k) (drop k s)) = g" using g by simp
    then show ?thesis using len by (simp add: min_def split: if_splits)
  qed
  have gb: "take (length g + length ?b) (drop k s) = g @ ?b"
  proof -
    have "take (length g + length ?b) (take (i - k) (drop k s)) = g @ ?b" using g by simp
    then show ?thesis using len by (simp add: min_def split: if_splits)
  qed
  have whole: "take (k + length g + length ?b) s = take k s @ g @ ?b"
    using gb by (simp add: take_add add.assoc)
  have pos: "0 < (of_nat (length g) :: u64w) \<longleftrightarrow> g \<noteq> []"
    using un(1) by (simp add: word_less_nat_alt)
  have sub: "substr s (ts_prev t) (of_nat (length g)) = Some g"
    using assms(1) un gs k by (simp add: substr_def cut_at_def)
  define u where "u = \<lparr>ts_prev = ts_prev t + (of_nat (length g) + of_nat (length ?b)), ts_parser = reset ?p,
    ts_tokens = ts_tokens t @ (if g = [] then [] else [tk_text g]) @ [tk_url (up_url ?p)]\<rparr>"
  have "append_tokens s i t = Some u"
    unfolding append_tokens_def Let_def raw_url_length_def assms(4) ts pos
    using sub by (simp add: u_def)
  moreover have "cut_at s (k + length g + length ?b) i u"
    using assms(1,5) len k whole by (auto simp: cut_at_def u_def)
  ultimately show ?thesis by (auto simp: u_def)
qed


lemma reset_facts:
  assumes "fixed_ok p" and "length (up_char_buf p) = 6" and "\<forall>s \<in> ci_str ` set (up_fixed_urls p). wf_fixed env s"
  shows "parser_inv (reset p)" and "total_inv env (reset p)" and "up_buf (reset p) = []"
proof -
  note r = reset_inv [OF assms(1,2)]
  show "parser_inv (reset p)" by (rule r)
  show "up_buf (reset p) = []" by (simp add: reset_def)
  show "total_inv env (reset p)"
    using assms(3) by (auto simp: total_inv_def reset_def early_def comparing_def)
qed

text \<open>Between two bytes of the message.\<close>

definition tokenizing :: "url_env \<Rightarrow> str \<Rightarrow> nat \<Rightarrow> token_state \<Rightarrow> bool" where
  "tokenizing env s i t \<longleftrightarrow>
     parser_inv (ts_parser t) \<and> total_inv env (ts_parser t) \<and>
     (\<exists>k. cut_at s k i t \<and> suffix (up_buf (ts_parser t)) (take (i - k) (drop k s)))"

lemma tokenize_byte:
  assumes "tokenizing env s i t" and "i < length s" and "list_all ascii_byte s" and "length s < 2 ^ 31"
  shows "\<exists>p u. process_char env (s ! i) (ts_parser t) = Some p \<and>
    (if has_url p then append_tokens s i (t\<lparr>ts_parser := p\<rparr>) else Some (t\<lparr>ts_parser := p\<rparr>)) = Some u \<and>
    tokenizing env s (Suc i) u"
proof -
  obtain k where inv: "parser_inv (ts_parser t)" "total_inv env (ts_parser t)" and cut: "cut_at s k i t"
    and suf: "suffix (up_buf (ts_parser t)) (take (i - k) (drop k s))"
    using assms(1) by (auto simp: tokenizing_def)
  have k: "k \<le> i" using cut by (simp add: cut_at_def)
  have "ascii_byte (s ! i)" using assms(2,3) by (simp add: list_all_length)
  then obtain p where p: "process_char env (s ! i) (ts_parser t) = Some p"
    "text_step (take (i - k) (drop k s)) (s ! i) p"
    "\<forall>s \<in> ci_str ` set (up_fixed_urls p). wf_fixed env s" "\<not> has_url p \<longrightarrow> total_inv env p"
    using process_char_total [OF inv _ suf] by blast
  have more: "take (Suc i - k) (drop k s) = take (i - k) (drop k s) @ [s ! i]"
    using assms(2) k by (simp add: Suc_diff_le take_Suc_conv_app_nth)
  have step: "cut_at s j (Suc i) u" if "cut_at s j i u" for j u
    using that assms(2) by (simp add: cut_at_def)
  show ?thesis
  proof (cases "has_url p")
    case True
    then obtain d where d: "suffix (up_buf p @ d) (take (i - k) (drop k s))" "up_tail_size p = length d"
      and q: "u_original (up_url p) = up_buf p" "fixed_ok p" "length (up_char_buf p) = 6"
      using p(2) by (auto simp: text_step_def)
    have "cut_at s k i (t\<lparr>ts_parser := p\<rparr>)" using cut by (simp add: cut_at_def)
    from append_tokens_cut [OF this assms(4), of d] d q(1) obtain u j where u:
      "append_tokens s i (t\<lparr>ts_parser := p\<rparr>) = Some u" "cut_at s j i u" "ts_parser u = reset p"
      by auto
    have "tokenizing env s (Suc i) u"
      unfolding tokenizing_def u(3)
      using reset_facts [OF q(2,3) p(3)] step [OF u(2)] by auto
    then show ?thesis using p(1) u(1) True by auto
  next
    case False
    then have q: "parser_inv p" "suffix (up_buf p) (take (Suc i - k) (drop k s))"
      using p(2) more by (simp_all add: text_step_def)
    have "cut_at s k (Suc i) (t\<lparr>ts_parser := p\<rparr>)" using cut assms(2) by (simp add: cut_at_def)
    then have "tokenizing env s (Suc i) (t\<lparr>ts_parser := p\<rparr>)"
      using q False p(4) by (auto simp: tokenizing_def)
    then show ?thesis using p(1) False by auto
  qed
qed

text \<open>A message that holds no mention.\<close>

definition no_mention :: "str \<Rightarrow> bool" where
  "no_mention s \<longleftrightarrow> \<not> sublist (ascii ''@['') s"

lemma no_mention_skips: "no_mention s \<Longrightarrow> skip_mention s i = i"
proof -
  assume a: "no_mention s"
  have "\<not> (char_at s i = 64 \<and> char_at s (i + 1) = 91)"
  proof
    assume c: "char_at s i = 64 \<and> char_at s (i + 1) = 91"
    then have l: "Suc i < length s" by (auto simp: char_at_def split: if_splits)
    then have "drop i s = ascii ''@['' @ drop (Suc (Suc i)) s"
      using c by (simp add: char_at_def ascii_def Cons_nth_drop_Suc [symmetric])
    then have "s = take i s @ ascii ''@['' @ drop (Suc (Suc i)) s" by (metis append_take_drop_id)
    then show False using a unfolding no_mention_def sublist_def by blast
  qed
  then show ?thesis by (auto simp: skip_mention_def)
qed

lemma tokenize_from_inv:
  assumes "tokenizing env s i t" and "list_all ascii_byte s" and "length s < 2 ^ 31" and "no_mention s"
    and "i \<le> length s"
  shows "\<exists>u. tokenize_from env s i t = Some u \<and> tokenizing env s (length s) u"
  using assms(1,5)
proof (induction "length s - i" arbitrary: i t)
  case 0
  then show ?case by (simp add: tokenize_from.simps [of env s i t])
next
  case (Suc n)
  then have i: "i < length s" by simp
  obtain p u where u: "process_char env (s ! i) (ts_parser t) = Some p"
    "(if has_url p then append_tokens s i (t\<lparr>ts_parser := p\<rparr>) else Some (t\<lparr>ts_parser := p\<rparr>)) = Some u"
    "tokenizing env s (Suc i) u"
    using tokenize_byte [OF Suc.prems(1) i assms(2,3)] by blast
  have "tokenize_from env s i t = tokenize_from env s (Suc i) u"
    using u(1,2) i by (simp add: tokenize_from.simps [of env s i t] no_mention_skips [OF assms(4)] char_at_def)
  then show ?case using Suc.hyps(1) [of "Suc i" u] Suc.hyps(2) u(3) i by simp
qed


lemma cut_rest:
  assumes "cut_at s k (length s) t" and "length s < 2 ^ 31"
  shows "substr s (ts_prev t) (of_nat (length s) - ts_prev t) = Some (drop k s)"
    and "0 < of_nat (length s) - ts_prev t \<longleftrightarrow> k < length s" and "ts_prev t < of_nat (length s) \<longleftrightarrow> k < length s"
proof -
  have k: "k \<le> length s" "ts_prev t = of_nat k" using assms(1) by (simp_all add: cut_at_def)
  have small: "k < 2 ^ 64" "length s < 2 ^ 64" "length s - k < 2 ^ 64" using k(1) assms(2) by simp_all
  have sub: "of_nat (length s) - ts_prev t = (of_nat (length s - k) :: u64w)" using k by (simp add: of_nat_diff)
  have un: "unat (ts_prev t) = k" "unat (of_nat (length s) :: u64w) = length s"
    "unat (of_nat (length s) - ts_prev t) = length s - k"
    unfolding sub using small k(2) by (simp_all add: unsigned_of_nat take_bit_nat_eq_self_iff del: of_nat_diff)
  show "substr s (ts_prev t) (of_nat (length s) - ts_prev t) = Some (drop k s)"
    unfolding substr_def un using k(1) by simp
  show "0 < of_nat (length s) - ts_prev t \<longleftrightarrow> k < length s" "ts_prev t < of_nat (length s) \<longleftrightarrow> k < length s"
    unfolding word_less_nat_alt un by simp_all
qed

lemma finish_facts:
  assumes "parser_inv p"
  shows "\<exists>q. finish env p = Some q \<and> (has_url q \<longrightarrow> reported p q)"
proof -
  note inv = parser_invD [OF assms]
  have core: "has_core (up_buf p) \<or> waiting p \<and> up_protocol p = pr_undefined \<and> up_domain_segments p = 1"
  proof -
    consider "waiting p" | "inside p" | "comparing p" by (auto simp: inside_def)
    then show ?thesis
    proof cases
      case 1
      then show ?thesis using inv(8) by (auto simp: fresh_link_def)
    next
      case 2
      then show ?thesis using inv(9) by simp
    next
      case 3
      then have "compare_ok p" by (rule inv(10))
      then show ?thesis unfolding compare_ok_def has_core_def by (metis Un_iff hd_in_set set_append)
    qed
  qed
  have "\<not> char_is nbsp p" using inv(4) by (simp add: char_is_def nbsp_def)
  from save_url_facts [OF core inv(5) this, of env] show ?thesis
    by (auto simp: finish_def split: if_splits)
qed

text \<open>C4: A message of single-byte characters that holds no mention is cut into tokens without loss: the
  tokenizer returns a list of tokens (nothing in it throws or writes out of bounds, no subtraction
  of sizes goes below zero), the list ends with the undefined token, and the texts and the links as
  they were written, one after the other, are the message. This is shown for fixed links (the
  configured file hosts with their suffix, and the file sharing and profile links added to the
  parser) of a plain form, wf_items: com is a top level domain, and a link starts with a letter or
  digit other than w and W, is a host of labels of letters, digits and dashes whose labels behind a
  dot start with a letter or digit, and may go on behind a top level domain with a slash and a path
  of letters, digits, dashes and slashes, without dots. It does not hold for every host: with the
  file host www.wx.com the parser clears the buffer it is iterating over.\<close>

theorem tokenizer_keeps_the_message:
  assumes "list_all ascii_byte s" and "length s < 2 ^ 31" and "no_mention s" and "wf_items env files_url items"
  shows "\<exists>ts. message_tokenizer env s files_url items = Some (ts @ [tk_undefined]) \<and> tokens_text ts = s"
proof -
  let ?t = "\<lparr>ts_prev = 0, ts_parser = add_fixed_urls items (url_parser_new env files_url), ts_tokens = []\<rparr>"
  have "tokenizing env s 0 ?t" using start_inv_new [OF assms(4)] by (simp add: tokenizing_def cut_at_def)
  from tokenize_from_inv [OF this assms(1-3)] obtain t
    where t: "tokenize_from env s 0 ?t = Some t" "tokenizing env s (length s) t" by auto
  then obtain k where inv: "parser_inv (ts_parser t)" and cut: "cut_at s k (length s) t"
    and suf: "suffix (up_buf (ts_parser t)) (drop k s)" by (auto simp: tokenizing_def)
  obtain p where p: "finish env (ts_parser t) = Some p" "has_url p \<longrightarrow> reported (ts_parser t) p"
    using finish_facts [OF inv] by blast
  show ?thesis
  proof (cases "has_url p")
    case False
    have "tokens_text (ts_tokens t) = take k s" using cut by (simp add: cut_at_def)
    then show ?thesis
      using t(1) p(1) False cut_rest [OF cut assms(2)] by (auto simp: message_tokenizer_def)
  next
    case True
    then obtain d where "up_buf (ts_parser t) = up_buf p @ d" "up_tail_size p = length d" "u_original (up_url p) = up_buf p"
      using p(2) parser_invD(6) [OF inv] by (auto simp: reported_def)
    moreover have "cut_at s k (length s) (t\<lparr>ts_parser := p\<rparr>)" using cut by (simp add: cut_at_def)
    ultimately obtain u j where u: "append_tokens s (length s) (t\<lparr>ts_parser := p\<rparr>) = Some u" "cut_at s j (length s) u"
      using append_tokens_cut [of s k "length s" "t\<lparr>ts_parser := p\<rparr>" d] suf assms(2) by auto
    have "tokens_text (ts_tokens u) = take j s" using u(2) by (simp add: cut_at_def)
    then show ?thesis
      using t(1) p(1) True u(1) cut_rest [OF u(2) assms(2)] by (auto simp: message_tokenizer_def)
  qed
qed

subsection \<open>A sample message\<close>

definition link_env :: url_env where
  "link_env = \<lparr>is_biz = False, is_dit = False, is_valid_domain = (\<lambda>s. map to_lower s \<in> {ascii ''com'', ascii ''net''})\<rparr>"

definition link_message :: str where
  "link_message = ascii ''see http://a.com/x, or write to b@c.net. ok''"

lemma link_message_fine:
  "list_all ascii_byte link_message" "length link_message < 2 ^ 31" "no_mention link_message"
proof -
  show "list_all ascii_byte link_message" by (simp add: link_message_def ascii_def ascii_byte_def byte_le)
  show "length link_message < 2 ^ 31" by (simp add: link_message_def ascii_def)
  show "no_mention link_message" by code_simp
qed

lemma link_items_fine: "wf_items link_env files_icq_net []"
  by (simp add: wf_items_def valid_tld_def link_env_def url_parser_new_def init_fixed_urls_compare_def reset_def Let_def
      wf_fixed_def files_icq_net_def get_suffix_def ascii_def phase_ok_def alnum_def is_digit_def byte_le to_lower_def)

theorem tokenizer_keeps_the_message_witness:
  "(\<exists>ts. message_tokenizer link_env link_message files_icq_net [] = Some (ts @ [tk_undefined]) \<and>
      tokens_text ts = link_message) \<and>
   map_option (map token_text) (message_tokenizer link_env link_message files_icq_net []) =
     Some [ascii ''see '', ascii ''http://a.com/x'', ascii '', or write to '', ascii ''b@c.net'', ascii ''. ok'', []]"
proof
  show "\<exists>ts. message_tokenizer link_env link_message files_icq_net [] = Some (ts @ [tk_undefined]) \<and>
      tokens_text ts = link_message"
    by (rule tokenizer_keeps_the_message [OF link_message_fine link_items_fine])
  show "map_option (map token_text) (message_tokenizer link_env link_message files_icq_net []) =
     Some [ascii ''see '', ascii ''http://a.com/x'', ascii '', or write to '', ascii ''b@c.net'', ascii ''. ok'', []]"
    by code_simp
qed

text \<open>
  Why a fixed link must not start with \<open>www.\<close>: the bytes \<open>www.\<close> of a text that does not go on like the
  link are processed again, start the comparison anew while \<open>fallback\<close> still iterates over
  \<open>compare_buf_\<close>, and that clears \<open>compare_buf_\<close>. The model has no result there.
\<close>

lemma www_host_breaks_parser: "message_tokenizer link_env (ascii ''www.wz'') (ascii ''www.wx.com'') [] = None"
  by code_simp

end
