(* ===== verification/Gallery_Properties.thy ===== *)
theory Gallery_Properties
  imports Samples Gallery "HOL-Library.Product_Lexorder"
begin

section \<open>Properties of the gallery\<close>

text \<open>
  An answer of the server is merged as the ordered union of what is cached and what came, and a
  complete answer to the request for a gap closes the gap.
\<close>

subsection \<open>A sample gallery\<close>

text \<open>Three entries with two gaps: 20 and 40 are missing.\<close>

definition sample_item :: "i64w \<Rightarrow> i64w \<Rightarrow> gallery_item" where
  "sample_item i n = gallery_item_new\<lparr>gi_id := entry_id i 0, gi_next := entry_id n 0, gi_type := ascii ''image''\<rparr>"

definition sample_gallery :: gallery_storage where
  "sample_gallery = (gallery_new 0 sample_storage sample_storage)
     \<lparr>gs_items := [sample_item 10 20, sample_item 30 40, sample_item 60 0],
      gs_state := gallery_state_new\<lparr>gt_first_entry := entry_id 10 0, gt_last_entry := entry_id 60 0\<rparr>\<rparr>"

definition sample_answer :: gallery_storage where
  "sample_answer = (gallery_of_server 0 [])\<lparr>gs_items := [sample_item 30 0, sample_item 20 0, sample_item 10 0]\<rparr>"

lemma sample_item_simps [simp]:
  "gi_id (sample_item i n) = entry_id i 0" "gi_next (sample_item i n) = entry_id n 0"
  "gi_type (sample_item i n) = ascii ''image''"
  "entry_id i m = entry_id j n \<longleftrightarrow> i = j \<and> m = n"
  "entry_less (entry_id i 0) (entry_id j 0) \<longleftrightarrow> sint i < sint j" "entry_empty (entry_id i 0) \<longleftrightarrow> i = 0"
  "ge_msg_id (entry_id i m) = i"
  by (auto simp: sample_item_def entry_id_def entry_less_def entry_empty_def)

lemma sample_gallery_simps [simp]:
  "gs_items sample_gallery = [sample_item 10 20, sample_item 30 40, sample_item 60 0]"
  "gs_items sample_answer = [sample_item 30 0, sample_item 20 0, sample_item 10 0]"
  "gs_del_up_to sample_answer = -1" "gs_patches sample_answer = []" "gs_older_entry_id sample_answer = no_entry"
  "gs_cache_storage sample_gallery = sample_storage" "gs_state_storage sample_gallery = sample_storage"
  "gs_state sample_gallery = gallery_state_new\<lparr>gt_first_entry := entry_id 10 0, gt_last_entry := entry_id 60 0\<rparr>"
  by (simp_all add: sample_gallery_def sample_answer_def gallery_of_server_def gallery_new_def)

subsection \<open>The order of the entries\<close>

definition entry_key :: "gallery_entry_id \<Rightarrow> int \<times> int" where
  "entry_key e = (sint (ge_msg_id e), sint (ge_seq e))"

lemma sint_inject: "sint a = sint b \<longleftrightarrow> a = b" for a b :: i64w
  by (metis signed_word_eqI)

lemma entry_key_eq [simp]: "entry_key a = entry_key b \<longleftrightarrow> a = b"
  by (cases a; cases b) (simp add: entry_key_def sint_inject)

lemma entry_less_key: "entry_less a b \<longleftrightarrow> entry_key a < entry_key b"
  by (auto simp: entry_less_def entry_key_def less_prod_def sint_inject order.order_iff_strict)

lemma entry_greater_key: "entry_greater a b \<longleftrightarrow> entry_key b < entry_key a"
  by (auto simp: entry_greater_def entry_key_def less_prod_def sint_inject order.order_iff_strict)

definition in_order :: "gallery_item list \<Rightarrow> bool" where
  "in_order xs \<longleftrightarrow> sorted_wrt entry_less (map gi_id xs)"

definition ids :: "gallery_item list \<Rightarrow> gallery_entry_id set" where
  "ids xs = gi_id ` set xs"

lemma ids_simps [simp]: "ids [] = {}" "ids (x # xs) = insert (gi_id x) (ids xs)" "ids (xs @ ys) = ids xs \<union> ids ys"
  by (auto simp: ids_def)

lemma in_order_simps [simp]:
  "in_order []"
  "in_order (x # xs) \<longleftrightarrow> (\<forall>b \<in> ids xs. entry_less (gi_id x) b) \<and> in_order xs"
  "in_order (xs @ ys) \<longleftrightarrow> in_order xs \<and> in_order ys \<and> (\<forall>a \<in> ids xs. \<forall>b \<in> ids ys. entry_less a b)"
  by (auto simp: in_order_def sorted_wrt_append ids_def)

lemma in_order_cong: "map gi_id xs = map gi_id ys \<Longrightarrow> in_order xs = in_order ys"
  by (simp add: in_order_def)

lemma ids_cong: "map gi_id xs = map gi_id ys \<Longrightarrow> ids xs = ids ys"
  unfolding ids_def by (metis list.set_map)

lemma has_entry_ids: "has_entry e xs \<longleftrightarrow> e \<in> ids xs"
  by (auto simp: has_entry_def ids_def)

lemma link_last_ids [simp]: "map gi_id (link_last e xs) = map gi_id xs" "length (link_last e xs) = length xs"
  "link_last e xs = [] \<longleftrightarrow> xs = []"
  by (cases xs rule: rev_cases; simp add: link_last_def)+

lemma link_last_order [simp]: "in_order (link_last e xs) = in_order xs" "ids (link_last e xs) = ids xs"
  using in_order_cong [OF link_last_ids(1)] ids_cong [OF link_last_ids(1)] by blast+

lemma order_split:
  assumes "in_order items" and "e \<notin> ids items"
  defines "before \<equiv> takeWhile (\<lambda>x. entry_less (gi_id x) e) items"
    and "after \<equiv> dropWhile (\<lambda>x. entry_less (gi_id x) e) items"
  shows "items = before @ after" and "\<forall>a \<in> ids before. entry_less a e" and "\<forall>a \<in> ids after. entry_less e a"
proof -
  show items: "items = before @ after" by (simp add: before_def after_def)
  show "\<forall>a \<in> ids before. entry_less a e" unfolding before_def ids_def by (auto dest: set_takeWhileD)
  show "\<forall>a \<in> ids after. entry_less e a"
  proof (cases after)
    case (Cons a as)
    have "\<not> entry_less (gi_id a) e" using Cons hd_dropWhile [of "\<lambda>x. entry_less (gi_id x) e" items]
      by (simp add: after_def)
    moreover have "gi_id a \<noteq> e" using assms(2) items Cons by auto
    ultimately have a: "entry_less e (gi_id a)" by (simp add: entry_less_key) (metis entry_key_eq linorder_neqE)
    have "\<forall>b \<in> ids as. entry_less (gi_id a) b" using assms(1) items Cons by (metis in_order_simps(2,3))
    then show ?thesis using a Cons by (auto simp: entry_less_key)
  qed simp
qed

lemma insert_item_facts:
  assumes "in_order items" and "gi_id i \<notin> ids items" and "length items < max_items_size"
    and "insert_item hole i items = (items1, full)"
  shows "in_order items1" and "ids items1 = insert (gi_id i) (ids items)" and "length items1 = Suc (length items)"
    and "\<not> full"
proof -
  have "in_order items1 \<and> ids items1 = insert (gi_id i) (ids items) \<and> length items1 = Suc (length items) \<and> \<not> full"
  proof (cases items)
    case Nil
    then show ?thesis using assms(4) by (auto simp: insert_item_def)
  next
    case (Cons f fs)
    show ?thesis
    proof (cases "entry_less (gi_id i) (gi_id f)")
      case True
      then have "items1 = i\<lparr>gi_next := gi_id f\<rparr> # items" "\<not> full"
        using assms(4) Cons by (simp_all add: insert_item_def)
      then show ?thesis using assms(1) True Cons by (auto simp: entry_less_key)
    next
      case False
      define before where "before = takeWhile (\<lambda>x. entry_less (gi_id x) (gi_id i)) items"
      define after where "after = dropWhile (\<lambda>x. entry_less (gi_id x) (gi_id i)) items"
      note sp = order_split [OF assms(1,2), folded before_def after_def]
      let ?L = "(if hole then before else link_last (gi_id i) before) @ i\<lparr>gi_next := first_id after\<rparr> # after"
      have "insert_item hole i items = (drop (length ?L - max_items_size) ?L, max_items_size < length ?L)"
        unfolding before_def after_def using Cons False by (simp add: insert_item_def Let_def)
      moreover have "length ?L = Suc (length items)" by (subst sp(1)) simp
      ultimately have "items1 = ?L" "\<not> full" "length items1 = Suc (length items)"
        using assms(3,4) by simp_all
      then show ?thesis
        using assms(1) sp
        by (auto simp: entry_less_key)
    qed
  qed
  then show "in_order items1" "ids items1 = insert (gi_id i) (ids items)" "length items1 = Suc (length items)" "\<not> full"
    by blast+
qed

lemma merge_items_facts:
  "in_order items \<Longrightarrow> length items + length is \<le> max_items_size \<Longrightarrow> merge_items hole is items = (items1, changes, full) \<Longrightarrow>
     in_order items1 \<and> ids items1 = ids items \<union> ids is \<and> ids changes = ids is - ids items \<and> \<not> full \<and>
     (\<forall>c \<in> set changes. gi_action c = ascii ''add'')"
proof (induction "is" arbitrary: items items1 changes full)
  case Nil
  then show ?case by simp
next
  case (Cons i "is")
  show ?case
  proof (cases "has_entry (gi_id i) items")
    case True
    then show ?thesis using Cons.IH [of items] Cons.prems by (auto simp: has_entry_ids)
  next
    case False
    obtain items2 full2 where i: "insert_item hole i items = (items2, full2)" by fastforce
    have new: "gi_id i \<notin> ids items" using False by (simp add: has_entry_ids)
    have "length items < max_items_size" using Cons.prems(2) by simp
    note f = insert_item_facts [OF Cons.prems(1) new this i]
    obtain items3 changes3 full3 where m: "merge_items hole is items2 = (items3, changes3, full3)" by (cases "merge_items hole is items2")
    have r: "items1 = items3" "changes = added i # changes3" "full = (full2 \<or> full3)"
      using Cons.prems(3) i m False by simp_all
    have "length items2 + length is \<le> max_items_size" using f(3) Cons.prems(2) by simp
    from Cons.IH [OF f(1) this m] show ?thesis using f r new by (auto simp: added_def)
  qed
qed

lemma in_order_distinct: "in_order xs \<Longrightarrow> distinct (map gi_id xs)"
  by (induction xs) (auto simp: entry_less_key ids_def)

lemma erase_up_to_ids:
  "in_order xs \<Longrightarrow> in_order (dropWhile (\<lambda>x. \<not> sint (ge_msg_id (gi_id x)) > sint d) xs) \<and>
     ids (dropWhile (\<lambda>x. \<not> sint (ge_msg_id (gi_id x)) > sint d) xs) = {e \<in> ids xs. sint (ge_msg_id e) > sint d}"
proof (induction xs)
  case (Cons x xs)
  have "\<forall>e \<in> ids xs. sint (ge_msg_id (gi_id x)) \<le> sint (ge_msg_id e)"
    using Cons.prems by (auto simp: entry_less_key entry_key_def less_prod_def)
  then show ?case
    using Cons by (cases "sint d < sint (ge_msg_id (gi_id x))") (auto intro: order.strict_trans2)
qed simp

lemma save_keeps [simp]:
  "gs_items (snd (save_state env g)) = gs_items g" "gs_state (snd (save_state env g)) = gs_state g"
  "gs_items (snd (save_cache env g)) = gs_items g" "gs_state (snd (save_cache env g)) = gs_state g"
  by (simp_all add: save_state_def save_cache_def split: prod.split bool.split)

lemma erase_up_to_items:
  "gs_items (erase_up_to env d g) =
     (if d = -1 then gs_items g else dropWhile (\<lambda>x. \<not> sint (ge_msg_id (gi_id x)) > sint d) (gs_items g))"
  by (simp add: erase_up_to_def Let_def)

lemma merge_first_entry_items [simp]: "gs_items (merge_first_entry env other full g) = gs_items g"
  by (simp add: merge_first_entry_def Let_def)

lemma patch_items_ids: "map gi_id (patch_items p kept xs) =
    map gi_id kept @ filter (\<lambda>e. ge_msg_id e \<noteq> gp_msg_id p) (map gi_id xs)"
  by (induction xs arbitrary: kept) simp_all

lemma patches_ids: "map gi_id (fold (\<lambda>p xs. patch_items p [] xs) ps xs) =
    filter (\<lambda>e. ge_msg_id e \<notin> gp_msg_id ` set ps) (map gi_id xs)"
  by (induction ps arbitrary: xs) (auto simp: patch_items_ids intro!: filter_cong)

lemma sorted_wrt_filter_list: "sorted_wrt P xs \<Longrightarrow> sorted_wrt P (filter Q xs)"
  by (induction xs) auto

lemma patches_order:
  assumes "in_order xs"
  shows "in_order (fold (\<lambda>p xs. patch_items p [] xs) ps xs)"
    and "ids (fold (\<lambda>p xs. patch_items p [] xs) ps xs) = {e \<in> ids xs. ge_msg_id e \<notin> gp_msg_id ` set ps}"
proof -
  show "in_order (fold (\<lambda>p xs. patch_items p [] xs) ps xs)"
    using assms unfolding in_order_def patches_ids by (rule sorted_wrt_filter_list)
  have ids: "ids ys = set (map gi_id ys)" for ys by (simp add: ids_def)
  show "ids (fold (\<lambda>p xs. patch_items p [] xs) ps xs) = {e \<in> ids xs. ge_msg_id e \<notin> gp_msg_id ` set ps}"
    unfolding ids patches_ids by (simp only: set_filter)
qed

lemma erase_item_facts:
  assumes "in_order (gs_items g)"
  shows "in_order (gs_items (erase_item env e g))" and "ids (gs_items (erase_item env e g)) = ids (gs_items g) - {e}"
proof -
  have "in_order (gs_items (erase_item env e g)) \<and> ids (gs_items (erase_item env e g)) = ids (gs_items g) - {e}"
  proof (cases "has_entry e (gs_items g)")
    case False
    then show ?thesis using assms by (simp add: erase_item_def has_entry_ids)
  next
    case True
    define kept where "kept = takeWhile (\<lambda>x. \<not> same_entry e x) (gs_items g)"
    define rest where "rest = tl (dropWhile (\<lambda>x. \<not> same_entry e x) (gs_items g))"
    have ne: "dropWhile (\<lambda>x. \<not> same_entry e x) (gs_items g) \<noteq> []"
      using True by (auto simp: dropWhile_eq_Nil_conv has_entry_def same_entry_def)
    then obtain x where x: "dropWhile (\<lambda>x. \<not> same_entry e x) (gs_items g) = x # rest"
      unfolding rest_def by (metis list.exhaust_sel)
    have "gi_id x = e" using hd_dropWhile [OF ne] x by (simp add: same_entry_def)
    moreover have items: "gs_items g = kept @ x # rest" unfolding kept_def using x by (metis takeWhile_dropWhile_id)
    ultimately have o: "in_order (kept @ rest)" "ids (kept @ rest) = ids (gs_items g) - {e}"
      using assms by (auto simp: entry_less_key)
    have "map gi_id (gs_items (erase_item env e g)) = map gi_id (kept @ rest)"
      using True by (simp add: erase_item_def Let_def flip: kept_def rest_def)
    then show ?thesis using o in_order_cong ids_cong by metis
  qed
  then show "in_order (gs_items (erase_item env e g))" "ids (gs_items (erase_item env e g)) = ids (gs_items g) - {e}"
    by blast+
qed

lemma chain_between_ids [simp]: "map gi_id (chain_between f t r kept xs) = map gi_id (kept @ xs)"
  by (induction xs arbitrary: r kept) (simp_all add: Let_def)

lemma chain_between_order [simp]:
  "in_order (chain_between f t r [] xs) = in_order xs" "ids (chain_between f t r [] xs) = ids xs"
  using in_order_cong [OF chain_between_ids [of f t r "[]" xs]] ids_cong [OF chain_between_ids [of f t r "[]" xs]]
  by simp_all

text \<open>C5: An answer of the server is merged as an ordered union: in a gallery whose entries are in order the
  entries afterwards are in order again and none is twice, and they are exactly those that were
  cached and not deleted by the server plus those of the answer, without the entries of patched messages
  and without an end of the requested range that the answer does not have any more. Exactly the entries
  that are new are reported as added, in front of the changes of the patches.\<close>

theorem merge_is_ordered_union:
  assumes "in_order (gs_items g)" and "length (gs_items g) + length (gs_items other) \<le> max_items_size"
    and "merge_from_server env other from till g = (changes, g')"
  defines "cached \<equiv> {e \<in> ids (gs_items g). gs_del_up_to other = -1 \<or> sint (gs_del_up_to other) < sint (ge_msg_id e)}"
    and "patched \<equiv> gp_msg_id ` set (gs_patches other)"
    and "gone \<equiv> (if entry_empty from then {} else {from}) \<union>
      (if entry_empty till \<or> answer_page \<le> length (gs_items other) then {} else {till})"
  shows "in_order (gs_items g') \<and> distinct (map gi_id (gs_items g')) \<and>
    ids (gs_items g') = {e \<in> cached \<union> ids (gs_items other). ge_msg_id e \<notin> patched} - (gone - ids (gs_items other)) \<and>
    (\<exists>new. changes = new @ map patch_change (gs_patches other) \<and> ids new = ids (gs_items other) - cached \<and>
      (\<forall>c \<in> set new. gi_action c = ascii ''add''))"
proof -
  define g1 where "g1 = erase_up_to env (gs_del_up_to other) g"
  define hole where "hole = merge_hole other till (gs_items g1)"
  obtain items new full where m: "merge_items hole (gs_items other) (gs_items g1) = (items, new, full)"
    by (metis prod_cases3)
  define xs where "xs = fold (\<lambda>p xs. patch_items p [] xs) (gs_patches other) items"
  define g3 where "g3 = (merge_first_entry env other full (g1\<lparr>gs_items := items\<rparr>))\<lparr>gs_items := xs\<rparr>"
  define g4 where "g4 = (if \<not> entry_empty from \<and> \<not> has_entry from (gs_items other) then erase_item env from g3 else g3)"
  define g5 where "g5 = (if length (gs_items other) < answer_page \<and> \<not> entry_empty till \<and> \<not> has_entry till (gs_items other)
            then erase_item env till g4 else g4)"
  have g1: "in_order (gs_items g1)" "ids (gs_items g1) = cached" "length (gs_items g1) \<le> length (gs_items g)"
    using assms(1) erase_up_to_ids [OF assms(1), of "gs_del_up_to other"] length_dropWhile_le
    by (auto simp: g1_def erase_up_to_items cached_def)
  have i: "in_order items" "ids items = cached \<union> ids (gs_items other)" "ids new = ids (gs_items other) - cached"
    "\<forall>c \<in> set new. gi_action c = ascii ''add''"
    using merge_items_facts [OF g1(1) _ m] g1(2,3) assms(2) by auto
  have g3: "in_order (gs_items g3)" "ids (gs_items g3) = {e \<in> cached \<union> ids (gs_items other). ge_msg_id e \<notin> patched}"
    using patches_order [OF i(1)] i(2) by (simp_all add: g3_def xs_def patched_def)
  have g4: "in_order (gs_items g4)"
    "ids (gs_items g4) = ids (gs_items g3) - ((if entry_empty from then {} else {from}) - ids (gs_items other))"
    using g3(1) erase_item_facts [OF g3(1)] by (auto simp: g4_def has_entry_ids)
  have g5: "in_order (gs_items g5)" "ids (gs_items g5) = ids (gs_items g3) - (gone - ids (gs_items other))"
    using g4 erase_item_facts [OF g4(1)] by (auto simp: g5_def has_entry_ids gone_def)
  have r: "changes = new @ map patch_change (gs_patches other)"
    "gs_items g' = (if length (gs_items other) < answer_page \<and> \<not> entry_empty from \<and> \<not> entry_empty till
      then chain_between from till False [] (gs_items g5) else gs_items g5)"
    using assms(3) m
    by (auto simp: merge_from_server_def Let_def g5_def g4_def g3_def xs_def hole_def g1_def split: if_splits)
  have "in_order (gs_items g')" "ids (gs_items g') = ids (gs_items g5)" using g5(1) by (auto simp: r(2))
  then show ?thesis using g5(2) g3(2) i(3,4) r(1) in_order_distinct by auto
qed

theorem merge_is_ordered_union_witness:
  "in_order (gs_items (snd (merge_from_server sample_env sample_answer (entry_id 30 0) (entry_id 10 0) sample_gallery))) \<and>
   ids (gs_items (snd (merge_from_server sample_env sample_answer (entry_id 30 0) (entry_id 10 0) sample_gallery))) =
     {entry_id 10 0, entry_id 20 0, entry_id 30 0, entry_id 60 0}"
proof -
  obtain changes g where m: "merge_from_server sample_env sample_answer (entry_id 30 0) (entry_id 10 0) sample_gallery = (changes, g)"
    by fastforce
  have "in_order (gs_items sample_gallery)" by simp
  moreover have "length (gs_items sample_gallery) + length (gs_items sample_answer) \<le> max_items_size"
    by (simp add: max_items_size_def)
  ultimately show ?thesis
    using merge_is_ordered_union [OF _ _ m] m by auto
qed

subsection \<open>Gaps\<close>

text \<open>The number of entries that are not followed by the entry they announce.\<close>

fun breaks :: "gallery_item list \<Rightarrow> nat" where
  "breaks (x # y # xs) = (if gi_next x \<noteq> gi_id y then 1 else 0) + breaks (y # xs)"
| "breaks [x] = 0"
| "breaks [] = 0"

definition broken_pair :: "gallery_item \<Rightarrow> gallery_item \<Rightarrow> nat" where
  "broken_pair x y = (if gi_next x \<noteq> gi_id y then 1 else 0)"

lemma breaks_append:
  "xs \<noteq> [] \<Longrightarrow> ys \<noteq> [] \<Longrightarrow> breaks (xs @ ys) = breaks xs + broken_pair (last xs) (hd ys) + breaks ys"
proof (induction xs rule: breaks.induct)
  case (1 x y xs)
  then show ?case by simp
next
  case (2 x)
  then show ?case by (cases ys) (simp_all add: broken_pair_def)
qed simp

lemma breaks_no_broken_link: "broken_link xs = None \<longleftrightarrow> breaks xs = 0"
  by (induction xs rule: breaks.induct) auto

lemma broken_link_split:
  "broken_link xs = Some (f, t) \<Longrightarrow>
     \<exists>A x y B. xs = A @ x # y # B \<and> gi_id y = f \<and> gi_id x = t \<and> gi_next x \<noteq> f \<and> breaks (A @ [x]) = 0"
proof (induction xs rule: breaks.induct)
  case (1 x y xs)
  show ?case
  proof (cases "gi_next x \<noteq> gi_id y")
    case True
    then show ?thesis using 1(2) by (intro exI [of _ "[]"]) auto
  next
    case False
    then obtain A x' y' B where a: "y # xs = A @ x' # y' # B" "gi_id y' = f" "gi_id x' = t" "gi_next x' \<noteq> f"
      "breaks (A @ [x']) = 0"
      using 1 by auto
    have "breaks ((x # A) @ [x']) = 0"
      using a(1,5) False by (cases A) auto
    then show ?thesis using a by (intro exI [of _ "x # A"]) auto
  qed
qed simp_all

lemma last_link_last [simp]: "xs \<noteq> [] \<Longrightarrow> gi_next (last (link_last e xs)) = e"
  "xs \<noteq> [] \<Longrightarrow> gi_id (last (link_last e xs)) = gi_id (last xs)"
  by (simp_all add: link_last_def)

lemma breaks_same_ids:
  "length xs = length ys \<Longrightarrow> map gi_id xs = map gi_id ys \<Longrightarrow> map gi_next (butlast xs) = map gi_next (butlast ys) \<Longrightarrow>
     breaks xs = breaks ys"
proof (induction xs arbitrary: ys rule: breaks.induct)
  case (1 x y xs)
  then obtain x' y' ys' where "ys = x' # y' # ys'" by (metis length_Suc_conv)
  then show ?case using 1 by auto
next
  case 3
  then show ?case by simp
next
  case (2 x)
  then obtain x' where "ys = [x']" by (metis length_Suc_conv length_0_conv)
  then show ?case by simp
qed

lemma breaks_link_last [simp]: "breaks (link_last e xs) = breaks xs"
  by (rule breaks_same_ids) (simp_all, simp add: link_last_def)

lemma breaks_relink:
  assumes "ys \<noteq> []"
  shows "breaks (link_last (gi_id (hd ys)) xs @ ys) \<le> breaks (xs @ ys)"
  using assms by (cases "xs = []") (simp_all add: breaks_append broken_pair_def link_last_def [of _ "[]"])

lemma insert_item_chained:
  assumes "in_order items" and "items = A @ x # B" and "entry_less (gi_id x) (gi_id i)"
    and "gi_id i \<notin> ids items" and "length items < max_items_size"
  obtains before after where "insert_item False i items = (link_last (gi_id i) before @ i\<lparr>gi_next := first_id after\<rparr> # after, False)"
    and "items = before @ after" and "before \<noteq> []" and "\<forall>a \<in> ids before. entry_less a (gi_id i)"
    and "\<forall>a \<in> ids after. entry_less (gi_id i) a"
    and "breaks (fst (insert_item False i items)) + (if after = [] then 0 else broken_pair (last before) (hd after)) = breaks items"
proof -
  define before where "before = takeWhile (\<lambda>x. entry_less (gi_id x) (gi_id i)) items"
  define after where "after = dropWhile (\<lambda>x. entry_less (gi_id x) (gi_id i)) items"
  note sp = order_split [OF assms(1,4), folded before_def after_def]
  obtain z zs where z: "items = z # zs" "entry_less (gi_id z) (gi_id i)"
    using assms(1-3) by (cases A) (auto simp: entry_less_key)
  have ne: "before \<noteq> []" using z by (simp add: before_def)
  let ?L = "link_last (gi_id i) before @ i\<lparr>gi_next := first_id after\<rparr> # after"
  have "\<not> entry_less (gi_id i) (gi_id z)" using z(2) by (simp add: entry_less_key)
  then have "insert_item False i items = (drop (length ?L - max_items_size) ?L, max_items_size < length ?L)"
    unfolding before_def after_def using z(1) by (simp add: insert_item_def Let_def)
  moreover have "length ?L = Suc (length items)" by (subst sp(1)) simp
  ultimately have ins: "insert_item False i items = (?L, False)" using assms(5) by simp
  have "breaks ?L = breaks before + breaks (i\<lparr>gi_next := first_id after\<rparr> # after)"
    using ne by (simp add: breaks_append broken_pair_def)
  also have "breaks (i\<lparr>gi_next := first_id after\<rparr> # after) = breaks after"
    by (cases after) (simp_all add: first_id_def)
  finally have "breaks ?L = breaks before + breaks after" .
  moreover have "breaks items = breaks before + (if after = [] then 0 else broken_pair (last before) (hd after)) + breaks after"
    using ne by (subst sp(1)) (simp add: breaks_append)
  ultimately have "breaks (fst (insert_item False i items)) +
      (if after = [] then 0 else broken_pair (last before) (hd after)) = breaks items"
    using ins by simp
  then show thesis using that ins sp ne by blast
qed

lemma merge_items_chained:
  "in_order items \<Longrightarrow> t \<in> ids items \<Longrightarrow> length items + length is \<le> max_items_size \<Longrightarrow>
     (\<forall>e \<in> ids is. e \<in> ids items \<or> entry_less t e) \<Longrightarrow> merge_items False is items = (items1, changes, full) \<Longrightarrow>
     breaks items1 \<le> breaks items"
proof (induction "is" arbitrary: items items1 changes full)
  case Nil
  then show ?case by simp
next
  case (Cons i "is")
  show ?case
  proof (cases "has_entry (gi_id i) items")
    case True
    then show ?thesis using Cons.IH [of items] Cons.prems by simp
  next
    case False
    then have new: "gi_id i \<notin> ids items" by (simp add: has_entry_ids)
    then have less: "entry_less t (gi_id i)" using Cons.prems(4) by auto
    obtain A x B where x: "items = A @ x # B" "gi_id x = t"
      using Cons.prems(2) unfolding ids_def by (metis imageE split_list)
    have len: "length items < max_items_size" using Cons.prems(3) by simp
    obtain items2 where i: "insert_item False i items = (items2, False)" "breaks items2 \<le> breaks items"
      using insert_item_chained [OF Cons.prems(1) x(1) _ new len] less x(2) by (metis fst_conv le_add1)
    note f = insert_item_facts [OF Cons.prems(1) new len i(1)]
    obtain items3 changes3 full3 where m: "merge_items False is items2 = (items3, changes3, full3)" by (cases "merge_items False is items2")
    have r: "items1 = items3" using Cons.prems(5) i(1) m False by simp
    have "breaks items3 \<le> breaks items2"
      using Cons.prems(2,3,4) f by (intro Cons.IH [OF f(1) _ _ _ m]) auto
    then show ?thesis using r i(2) by simp
  qed
qed

lemma merge_items_fills:
  "in_order items \<Longrightarrow> items = A @ x # y # B \<Longrightarrow> gi_next x \<noteq> gi_id y \<Longrightarrow> length items + length is \<le> max_items_size \<Longrightarrow>
     (\<forall>e \<in> ids is. e \<in> ids items \<or> entry_less (gi_id x) e \<and> entry_less e (gi_id y)) \<Longrightarrow> \<not> ids is \<subseteq> ids items \<Longrightarrow>
     merge_items False is items = (items1, changes, full) \<Longrightarrow> breaks items1 < breaks items"
proof (induction "is" arbitrary: items1 changes full)
  case Nil
  then show ?case by simp
next
  case (Cons i "is")
  show ?case
  proof (cases "has_entry (gi_id i) items")
    case True
    then show ?thesis using Cons.IH Cons.prems by (simp add: has_entry_ids)
  next
    case False
    then have new: "gi_id i \<notin> ids items" by (simp add: has_entry_ids)
    then have between: "entry_less (gi_id x) (gi_id i)" "entry_less (gi_id i) (gi_id y)" using Cons.prems(5) by auto
    have len: "length items < max_items_size" using Cons.prems(4) by simp
    obtain before after where ba: "insert_item False i items = (link_last (gi_id i) before @ i\<lparr>gi_next := first_id after\<rparr> # after, False)"
        "items = before @ after" "before \<noteq> []" "\<forall>a \<in> ids before. entry_less a (gi_id i)"
        "\<forall>a \<in> ids after. entry_less (gi_id i) a"
      and br: "breaks (fst (insert_item False i items)) + (if after = [] then 0 else broken_pair (last before) (hd after)) = breaks items"
      using insert_item_chained [OF Cons.prems(1,2) between(1) new len] by blast
    have "\<forall>a \<in> ids (A @ [x]). entry_less a (gi_id i)"
      using Cons.prems(1,2) between(1) by (auto simp: entry_less_key)
    then have "takeWhile (\<lambda>x. entry_less (gi_id x) (gi_id i)) items = A @ [x]"
      using between(2) unfolding Cons.prems(2) by (auto simp: ids_def entry_less_key)
    moreover have "takeWhile (\<lambda>x. entry_less (gi_id x) (gi_id i)) items = before"
    proof -
      have "takeWhile (\<lambda>x. entry_less (gi_id x) (gi_id i)) after = []"
        using ba(5) by (cases after) (auto simp: entry_less_key)
      then show ?thesis unfolding ba(2) using ba(4) by (subst takeWhile_append2) (auto simp: ids_def)
    qed
    ultimately have b: "before = A @ [x]" "after = y # B" using ba(2) Cons.prems(2) by auto
    obtain items2 where i: "insert_item False i items = (items2, False)" using ba(1) by blast
    have br2: "breaks items2 < breaks items"
      using br i b Cons.prems(3) by (simp add: broken_pair_def)
    note f = insert_item_facts [OF Cons.prems(1) new len i]
    obtain items3 changes3 full3 where m: "merge_items False is items2 = (items3, changes3, full3)" by (cases "merge_items False is items2")
    have r: "items1 = items3" using Cons.prems(7) i m False by simp
    have "gi_id x \<in> ids items2" using f(2) Cons.prems(2) by simp
    moreover have "length items2 + length is \<le> max_items_size" using f(3) Cons.prems(4) by simp
    moreover have "\<forall>e \<in> ids is. e \<in> ids items2 \<or> entry_less (gi_id x) e" using Cons.prems(5) f(2) by auto
    ultimately have "breaks items3 \<le> breaks items2" by (rule merge_items_chained [OF f(1) _ _ _ m])
    then show ?thesis using r br2 by simp
  qed
qed

lemma merge_items_nothing: "ids is \<subseteq> ids items \<Longrightarrow> merge_items hole is items = (items, [], False)"
  by (induction "is") (simp_all add: has_entry_ids)

lemma chain_between_breaks: "breaks (chain_between f t r kept xs) \<le> breaks (kept @ xs)"
proof (induction xs arbitrary: r kept)
  case (Cons x xs)
  have "breaks ((if entry_less (gi_id x) t then kept else link_last (gi_id x) kept) @ x # xs) \<le> breaks (kept @ x # xs)"
    using breaks_relink [of "x # xs" kept] by simp
  then show ?case
    using Cons.IH [of "r \<or> entry_greater (gi_id x) f" "(if entry_less (gi_id x) t then kept else link_last (gi_id x) kept) @ [x]"]
    by (auto simp: Let_def intro: order_trans)
qed simp

lemma chain_between_closes:
  assumes "gi_next x \<noteq> gi_id y" and "gi_id x = t" and "gi_id y = f" and "entry_less t f"
  shows "in_order (A @ x # y # B) \<Longrightarrow> breaks (chain_between f t False kept (A @ x # y # B)) < breaks (kept @ A @ x # y # B)"
proof (induction A arbitrary: kept)
  case Nil
  have "\<not> entry_greater t f" "\<not> entry_greater f f" "\<not> entry_less t t" "\<not> entry_less f t"
    using assms(4) by (simp_all add: entry_less_key entry_greater_key)
  then have "chain_between f t False kept (x # y # B) =
      chain_between f t False (link_last t kept @ [x\<lparr>gi_next := f\<rparr>, y]) B"
    using assms(2,3) by (simp add: link_last_def [of _ "_ @ [_]"])
  also have "breaks \<dots> \<le> breaks ((link_last t kept @ [x\<lparr>gi_next := f\<rparr>]) @ y # B)"
    using chain_between_breaks [of f t False "link_last t kept @ [x\<lparr>gi_next := f\<rparr>, y]" B] by simp
  also have "\<dots> = breaks (link_last t kept @ [x\<lparr>gi_next := f\<rparr>]) + breaks (y # B)"
    using assms(3) breaks_append [of "link_last t kept @ [x\<lparr>gi_next := f\<rparr>]" "y # B"] by (simp add: broken_pair_def)
  also have "breaks (link_last t kept @ [x\<lparr>gi_next := f\<rparr>]) \<le> breaks (kept @ [x])"
    using assms(2) by (cases "kept = []") (simp_all add: breaks_append broken_pair_def link_last_def [of _ "[]"])
  also have "breaks (kept @ [x]) + breaks (y # B) < breaks ((kept @ [x]) @ y # B)"
    using assms(1) by (subst (2) breaks_append) (simp_all add: broken_pair_def)
  finally show ?case by simp
next
  case (Cons a A)
  have "entry_less (gi_id a) f" using Cons.prems assms(3) by simp
  then have "\<not> entry_greater (gi_id a) f" by (simp add: entry_less_key entry_greater_key)
  then have step: "chain_between f t False kept ((a # A) @ x # y # B) =
      chain_between f t False ((if entry_less (gi_id a) t then kept else link_last (gi_id a) kept) @ [a]) (A @ x # y # B)"
    by simp
  have "in_order (A @ x # y # B)" using Cons.prems by simp
  from Cons.IH [OF this, of "(if entry_less (gi_id a) t then kept else link_last (gi_id a) kept) @ [a]"]
  show ?case
    unfolding step using breaks_relink [of "a # A @ x # y # B" kept]
    by (auto split: if_splits)
qed

text \<open>C13: A complete answer to the request for a gap is progress. When the oldest gap of the cache was asked
  for, and the answer has both ends of the requested range, nothing outside of it, fewer entries than a page
  and no older entry to go on with, then after the merge the cache is still in order, has the entries
  of both, and has fewer gaps than before; so asking and answering ends.\<close>

theorem answered_gap_is_closed:
  assumes "in_order (gs_items g)" and "broken_link (gs_items g) = Some (from, till)"
    and "gs_del_up_to other = -1" and "gs_patches other = []" and "entry_empty (gs_older_entry_id other)"
    and "\<not> entry_empty from" and "\<not> entry_empty till"
    and "{from, till} \<subseteq> ids (gs_items other)"
    and "\<forall>e \<in> ids (gs_items other). \<not> entry_less e till \<and> \<not> entry_less from e"
    and "length (gs_items other) < answer_page" and "length (gs_items g) + length (gs_items other) \<le> max_items_size"
    and "merge_from_server env other from till g = (changes, g')"
  shows "breaks (gs_items g') < breaks (gs_items g) \<and> in_order (gs_items g') \<and>
    ids (gs_items g') = ids (gs_items g) \<union> ids (gs_items other)"
proof -
  let ?xs = "gs_items g" and ?os = "gs_items other"
  obtain A x y B where xy: "?xs = A @ x # y # B" "gi_id y = from" "gi_id x = till" "gi_next x \<noteq> from"
    using broken_link_split [OF assms(2)] by blast
  have less: "entry_less till from" using assms(1) xy by simp
  have hole: "merge_hole other till ?xs = False"
    using assms(5,7) xy(1,3) by (simp add: merge_hole_def has_entry_ids)
  obtain items new full where m: "merge_items False ?os ?xs = (items, new, full)" by (cases "merge_items False ?os ?xs")
  have r: "gs_items g' = chain_between from till False [] items"
    using assms(3-8,10,12) m hole
    by (auto simp: merge_from_server_def Let_def erase_up_to_def has_entry_ids split: if_splits)
  have i: "in_order items" "ids items = ids ?xs \<union> ids ?os"
    using merge_items_facts [OF assms(1,11) m] by auto
  have "breaks (gs_items g') < breaks ?xs"
  proof (cases "ids ?os \<subseteq> ids ?xs")
    case True
    then have "items = ?xs" using merge_items_nothing [OF True, of False] m by simp
    then show ?thesis
      unfolding r using chain_between_closes [of x y till "from" A B "[]"] xy less assms(1) by simp
  next
    case False
    have "e \<in> ids ?xs \<or> entry_less (gi_id x) e \<and> entry_less e (gi_id y)" if "e \<in> ids ?os" for e
      using assms(9) that xy(1-3) by (auto simp: entry_less_key) (metis entry_key_eq linorder_neqE)+
    then have "breaks items < breaks ?xs"
      using xy(2,4) by (intro merge_items_fills [OF assms(1) xy(1) _ assms(11) _ False m]) auto
    then show ?thesis unfolding r using chain_between_breaks [of "from" till False "[]" items] by simp
  qed
  then show ?thesis using i by (simp add: r)
qed

theorem answered_gap_is_closed_witness:
  "breaks (gs_items sample_gallery) = 2 \<and>
   breaks (gs_items (snd (merge_from_server sample_env sample_answer (entry_id 30 0) (entry_id 10 0) sample_gallery))) < 2"
proof -
  obtain changes g where m: "merge_from_server sample_env sample_answer (entry_id 30 0) (entry_id 10 0) sample_gallery = (changes, g)"
    by fastforce
  have "in_order (gs_items sample_gallery)" "broken_link (gs_items sample_gallery) = Some (entry_id 30 0, entry_id 10 0)"
    "breaks (gs_items sample_gallery) = 2"
    by simp_all
  moreover have "entry_empty (gs_older_entry_id sample_answer)" by (simp add: no_entry_def)
  moreover have "length (gs_items sample_answer) < answer_page"
    "length (gs_items sample_gallery) + length (gs_items sample_answer) \<le> max_items_size"
    by (simp_all add: max_items_size_def answer_page_def)
  ultimately show ?thesis
    using answered_gap_is_closed [OF _ _ _ _ _ _ _ _ _ _ _ m] m by simp
qed

subsection \<open>The files of a gallery\<close>

definition item_items :: "gallery_item \<Rightarrow> item list" where
  "item_items g =
     [(gf_msg_id, mem_of 8 (ge_msg_id (gi_id g))), (gf_seq, mem_of 8 (ge_seq (gi_id g))),
      (gf_next_msg_id, mem_of 8 (ge_msg_id (gi_next g))), (gf_next_seq, mem_of 8 (ge_seq (gi_next g))),
      (gf_url, gi_url g), (gf_type, gi_type g), (gf_sender, gi_sender g),
      (gf_outgoing, mem_of_bool (gi_outgoing g)), (gf_time, mem_of 4 (ucast (gi_time g) :: i32w)),
      (gf_caption, gi_caption g)]"

definition item_data :: "gallery_item \<Rightarrow> bytes" where
  "item_data g = pack_bytes (item_items g)"

definition items_data :: "gallery_item list \<Rightarrow> bytes" where
  "items_data xs = pack_bytes (map (\<lambda>g. (gf_item_pack, item_data g)) xs)"

definition state_items :: "gallery_state \<Rightarrow> item list" where
  "state_items s =
     [(gs_patch_version, gt_patch_version s),
      (gs_last_entry_msg, mem_of 8 (ge_msg_id (gt_last_entry s))), (gs_last_entry_seq, mem_of 8 (ge_seq (gt_last_entry s))),
      (gs_first_entry_msg, mem_of 8 (ge_msg_id (gt_first_entry s))), (gs_first_entry_seq, mem_of 8 (ge_seq (gt_first_entry s))),
      (gs_images, mem_of 4 (gt_images s)), (gs_videos, mem_of 4 (gt_videos s)), (gs_files, mem_of 4 (gt_files s)),
      (gs_links, mem_of 4 (gt_links s)), (gs_ptt, mem_of 4 (gt_ptt s)), (gs_audio, mem_of 4 (gt_audio s)),
      (gs_patch_version_changed, mem_of_bool (gt_patch_version_changed s))]"

definition state_data :: "gallery_state \<Rightarrow> bytes" where
  "state_data s = pack_bytes (state_items s)"

text \<open>What comes back of an entry: 32 bits of its time, and no action.\<close>

definition item_stored :: "gallery_item \<Rightarrow> gallery_item" where
  "item_stored g = g\<lparr>gi_time := scast (ucast (gi_time g) :: i32w), gi_action := []\<rparr>"

lemma emits_item_fields: "emits (item_push_fields g) (item_items g)"
  unfolding item_push_fields_def item_items_def
  by (rule emits_fold_push) (simp add: emits_one)

lemma emits_state_fields: "emits (state_push_fields s) (state_items s)"
  unfolding state_push_fields_def state_items_def
  by (rule emits_fold_push) (simp add: emits_one)

lemma serialize_emitted:
  assumes "emits f is" and "length (pack_bytes is) \<le> 2 ^ 32 - 2"
  shows "bs_wf (snd (tlvpack_serialize (f empty_pack) empty_stream))"
    and "content (snd (tlvpack_serialize (f empty_pack) empty_stream)) = pack_bytes is"
    and "output_cursor (snd (tlvpack_serialize (f empty_pack) empty_stream)) = 0"
proof -
  have p: "pack_wf (f empty_pack)" "items_of (f empty_pack) = is"
    using assms(1) small_pack_bytes [OF assms(2)] by (simp_all add: emits_def)
  then have "length (pack_bytes (items_of (f empty_pack))) \<le> room empty_stream" using assms(2) by simp
  note t = tlvpack_serialize_facts [OF bs_wf_empty p(1) this]
  show "bs_wf (snd (tlvpack_serialize (f empty_pack) empty_stream))"
    "content (snd (tlvpack_serialize (f empty_pack) empty_stream)) = pack_bytes is"
    "output_cursor (snd (tlvpack_serialize (f empty_pack) empty_stream)) = 0"
    using t p(2) by simp_all
qed

lemma emits_items: "emits (\<lambda>p. fold (\<lambda>g p. push_child p (tlv_stream gf_item_pack (gallery_item_serialize g empty_stream))) xs p)
    (map (\<lambda>g. (gf_item_pack, item_data g)) xs)"
proof (induction xs)
  case Nil
  then show ?case by (simp add: emits_id)
next
  case (Cons g xs)
  have "emits (\<lambda>p. push_child p (tlv_stream gf_item_pack (gallery_item_serialize g empty_stream))) [(gf_item_pack, item_data g)]"
    unfolding emits_def
  proof (intro impI allI)
    fix p assume s: "small [(gf_item_pack, item_data g)]" and p: "pack_wf p"
    then have len: "length (pack_bytes (item_items g)) \<le> 2 ^ 32 - 2" by (simp add: item_data_def)
    note t = serialize_emitted [OF emits_item_fields len]
    show "pack_wf (push_child p (tlv_stream gf_item_pack (gallery_item_serialize g empty_stream))) \<and>
      items_of (push_child p (tlv_stream gf_item_pack (gallery_item_serialize g empty_stream))) =
        items_of p @ [(gf_item_pack, item_data g)]"
      unfolding gallery_item_serialize_def
      using p t tlv_wf_stream [OF t(1,3)] by (simp add: item_of_stream item_data_def)
  qed
  from emits_comp [OF this Cons.IH] show ?case by simp
qed

lemma set_item_fields:
  assumes "small (item_items g)"
  shows "fold set_item_field (tlvlist (pack_of (item_items g))) gallery_item_new = item_stored g"
  using assms
  by (simp add: pack_of_def item_items_def set_item_field_def gf_defs gallery_item_new_def item_stored_def
      no_entry_def entry_id_def i64_value_def i32_value_def bool_value_def str_value_def codec_simps)

lemma set_state_fields:
  assumes "small (state_items s)"
  shows "fold set_state_field (tlvlist (pack_of (state_items s))) gallery_state_new = s"
  using assms
  by (simp add: pack_of_def state_items_def set_state_field_def gs_defs gallery_state_new_def
      no_entry_def entry_id_def i64_value_def i32_value_def bool_value_def str_value_def codec_simps)

lemma gallery_item_unserialize_data:
  assumes "bs_wf data" and "content data = item_data g" and "length (item_data g) \<le> 2 ^ 32 - 2"
  shows "gallery_item_unserialize gallery_item_new data = (True, item_stored g)"
  using tlvpack_unserialize_pack_bytes [OF assms [unfolded item_data_def]]
    set_item_fields [OF small_pack_bytes [OF assms(3) [unfolded item_data_def]]]
  by (auto simp: gallery_item_unserialize_def)

lemma load_items_data:
  "(\<forall>g \<in> set xs. length (item_data g) \<le> 2 ^ 32 - 2) \<Longrightarrow>
     load_items (map tlv_make (map (\<lambda>g. (gf_item_pack, item_data g)) xs)) items = (True, items @ map item_stored xs)"
proof (induction xs arbitrary: items)
  case (Cons g xs)
  have "gallery_item_unserialize gallery_item_new (get_stream (tlv_make (gf_item_pack, item_data g))) = (True, item_stored g)"
    using Cons.prems by (intro gallery_item_unserialize_data) (simp_all add: get_stream_make)
  then show ?case using Cons by simp
qed simp

lemma load_cache_block_data:
  assumes "holds_block (items_data xs) data" and "block_ok (items_data xs)"
  shows "load_cache_block data items = (True, items @ map item_stored xs)"
proof -
  have len: "length (items_data xs) \<le> 2 ^ 32 - 2" using assms(2) by (simp add: block_ok_def max_data_block_size_def)
  have each: "\<forall>g \<in> set xs. length (item_data g) \<le> 2 ^ 32 - 2"
    using pack_items_ok [OF len [unfolded items_data_def]] by force
  have d: "bs_wf data" "content data = items_data xs" using assms(1) by (simp_all add: holds_block_def)
  obtain s where s: "tlvpack_unserialize empty_pack data = (True, pack_of (map (\<lambda>g. (gf_item_pack, item_data g)) xs), s)"
    using tlvpack_unserialize_pack_bytes [OF d [unfolded items_data_def] len [unfolded items_data_def]] by blast
  show ?thesis
  proof (cases "available data = 0")
    case True
    then have "items_data xs = []" using d available_content by fastforce
    then have "xs = []" by (cases xs) (simp_all add: items_data_def item_bytes_def)
    then show ?thesis using True by (simp add: load_cache_block_def)
  next
    case False
    then show ?thesis
      using s load_items_data [OF each, of items] by (simp add: load_cache_block_def) (simp add: pack_of_def)
  qed
qed

text \<open>The blocks in which the entries are written.\<close>

primrec item_blocks :: "gallery_item list \<Rightarrow> gallery_item list \<Rightarrow> gallery_item list list" where
  "item_blocks acc [] = (if acc \<noteq> [] then [acc] else [])"
| "item_blocks acc (x # xs) =
     (if max_block_size \<le> length (acc @ [x]) then (acc @ [x]) # item_blocks [] xs else item_blocks (acc @ [x]) xs)"

definition cache_file :: "gallery_item list \<Rightarrow> bytes" where
  "cache_file xs = concat (map (block_bytes \<circ> items_data) (item_blocks [] xs))"

definition gallery_fits :: "gallery_storage \<Rightarrow> bool" where
  "gallery_fits g \<longleftrightarrow>
     (\<forall>b \<in> set (item_blocks [] (gs_items g)). block_ok (items_data b)) \<and>
     length (cache_file (gs_items g)) \<le> capacity (gs_cache_storage g) \<and>
     block_ok (state_data (gs_state g)) \<and>
     length (state_data (gs_state g)) + 16 \<le> capacity (gs_state_storage g)"

lemma concat_item_blocks: "concat (item_blocks acc xs) = acc @ xs"
  by (induction xs arbitrary: acc) simp_all

lemma item_blocks_not_empty: "b \<in> set (item_blocks acc xs) \<Longrightarrow> b \<noteq> []"
  by (induction xs arbitrary: acc) (auto split: if_splits)

lemma serialize_items_block:
  assumes "at_end st" and "xs \<noteq> []" and "block_ok (items_data xs)"
    and "length (logical st) + length (block_bytes (items_data xs)) \<le> capacity st"
  shows "\<exists>st'. serialize_items env xs st = (True, st') \<and> at_end st' \<and> capacity st' = capacity st \<and>
    logical st' = logical st @ block_bytes (items_data xs)"
proof -
  have len: "length (pack_bytes (map (\<lambda>g. (gf_item_pack, item_data g)) xs)) \<le> 2 ^ 32 - 2"
    using assms(3) by (simp add: block_ok_def max_data_block_size_def items_data_def)
  note d = serialize_emitted [OF emits_items len, folded items_pack_def items_data_def]
  have ne: "content (snd (tlvpack_serialize (items_pack xs) empty_stream)) \<noteq> []"
    using assms(2) unfolding d(2) by (cases xs) (simp_all add: items_data_def item_bytes_def)
  obtain r off st1 data1 where w: "write_data_block env st (snd (tlvpack_serialize (items_pack xs) empty_stream)) 0 = (r, off, st1, data1)"
    by (metis prod_cases4)
  show ?thesis
    using write_data_block_at_end(6) [OF assms(1) d(1) ne w] assms(4) w by (simp add: serialize_items_def d(2))
qed

lemma save_items_blocks:
  "at_end st \<Longrightarrow> (\<forall>b \<in> set (item_blocks acc xs). block_ok (items_data b)) \<Longrightarrow>
     length (logical st) + length (concat (map (block_bytes \<circ> items_data) (item_blocks acc xs))) \<le> capacity st \<Longrightarrow>
     \<exists>st'. save_items env acc xs st = (True, st') \<and> at_end st' \<and> capacity st' = capacity st \<and>
       logical st' = logical st @ concat (map (block_bytes \<circ> items_data) (item_blocks acc xs))"
proof (induction xs arbitrary: acc st)
  case Nil
  then show ?case using serialize_items_block [of st acc env] by (cases "acc = []") simp_all
next
  case (Cons x xs)
  show ?case
  proof (cases "max_block_size \<le> length (acc @ [x])")
    case False
    then show ?thesis using Cons.IH [OF Cons.prems(1), of "acc @ [x]"] Cons.prems(2,3) by (simp add: Let_def)
  next
    case True
    let ?b = "block_bytes (items_data (acc @ [x]))"
    let ?bs = "concat (map (block_bytes \<circ> items_data) (item_blocks [] xs))"
    have prems: "block_ok (items_data (acc @ [x]))" "\<forall>b \<in> set (item_blocks [] xs). block_ok (items_data b)"
      "length (logical st) + length ?b + length ?bs \<le> capacity st"
      using Cons.prems(2,3) True by (simp_all add: comp_def)
    obtain st1 where s: "serialize_items env (acc @ [x]) st = (True, st1)" "at_end st1" "capacity st1 = capacity st"
      "logical st1 = logical st @ ?b"
      using serialize_items_block [OF Cons.prems(1) _ prems(1)] prems(3) by auto
    obtain st2 where "save_items env [] xs st1 = (True, st2)" "at_end st2" "capacity st2 = capacity st1"
      "logical st2 = logical st1 @ ?bs"
      using Cons.IH [OF s(2) prems(2)] prems(3) s(3,4) by (auto simp: comp_def)
    then show ?thesis using True s by (simp add: Let_def comp_def)
  qed
qed

definition gallery_closed :: "fs_env \<Rightarrow> gallery_storage \<Rightarrow> bool" where
  "gallery_closed env g \<longleftrightarrow> can_open env \<and> file_stream (gs_cache_storage g) = None \<and> file_stream (gs_state_storage g) = None"

lemma save_cache_file:
  assumes "gallery_closed env g" and "gallery_fits g"
  shows "\<exists>st. save_cache env g = (True, g\<lparr>gs_cache_storage := st\<rparr>) \<and> file_stream st = None \<and>
    file_data st = Some (cache_file (gs_items g))"
proof -
  have c: "can_open env" "file_stream (gs_cache_storage g) = None" using assms(1) by (simp_all add: gallery_closed_def)
  note o = open_truncate [OF c]
  let ?st = "opened truncate_mode [] (gs_cache_storage g)"
  have "\<forall>b \<in> set (item_blocks [] (gs_items g)). block_ok (items_data b)"
    and fit: "length (cache_file (gs_items g)) \<le> capacity (gs_cache_storage g)"
    using assms(2) by (simp_all add: gallery_fits_def)
  then obtain st where st: "save_items env [] (gs_items g) ?st = (True, st)" "at_end st"
    "capacity st = capacity ?st" "logical st = logical ?st @ cache_file (gs_items g)"
    using save_items_blocks [OF o(2), of "[]" "gs_items g" env] by (auto simp: cache_file_def)
  have "file_data (storage_close st) = Some (cache_file (gs_items g))"
    using close_at_end(1,3) [OF st(2)] st(3,4) fit by simp
  moreover have "save_cache env g = (True, g\<lparr>gs_cache_storage := storage_close st\<rparr>)"
    using o(1) st(1) by (simp add: save_cache_def truncate_mode_def)
  ultimately show ?thesis by auto
qed

lemma save_state_file:
  assumes "gallery_closed env g" and "gallery_fits g"
  shows "\<exists>st. save_state env g = (True, g\<lparr>gs_state_storage := st\<rparr>) \<and> file_stream st = None \<and>
    file_data st = Some (block_bytes (state_data (gs_state g)))"
proof -
  have c: "can_open env" "file_stream (gs_state_storage g) = None" using assms(1) by (simp_all add: gallery_closed_def)
  have len: "length (pack_bytes (state_items (gs_state g))) \<le> 2 ^ 32 - 2"
    using assms(2) by (simp add: gallery_fits_def block_ok_def max_data_block_size_def state_data_def)
  note d = serialize_emitted [OF emits_state_fields len]
  have ne: "pack_bytes (state_items (gs_state g)) \<noteq> []" by (simp add: state_items_def item_bytes_def)
  obtain st1 st2 off data where w: "storage_open env truncate_mode (gs_state_storage g) = (True, st1)"
    "write_data_block env st1 (snd (tlvpack_serialize (state_push_fields (gs_state g) empty_pack) empty_stream)) 0 =
      (\<lparr>result = True, error_code = 0\<rparr>, off, st2, data)"
    "file_data (storage_close st2) = Some (block_bytes (state_data (gs_state g)))"
    using rewrite_file [OF c d(1)] d(2) ne assms(2) by (auto simp: gallery_fits_def state_data_def)
  then have "save_state env g = (True, g\<lparr>gs_state_storage := storage_close st2\<rparr>)"
    by (simp add: save_state_def truncate_mode_def)
  then show ?thesis using w(3) by (intro exI [of _ "storage_close st2"]) simp
qed

lemma load_cache_file:
  assumes "can_open env" and "file_stream (gs_cache_storage g) = None"
    and "file_data (gs_cache_storage g) = Some (cache_file xs)"
    and "\<forall>b \<in> set (item_blocks [] xs). block_ok (items_data b)"
  shows "\<exists>st. load_cache_from_local env g =
    (True, g\<lparr>gs_cache_storage := st, gs_items := gs_items g @ map item_stored xs\<rparr>) \<and> file_stream st = None"
proof -
  note o = open_read [OF assms(1-3)]
  let ?st = "opened read_mode (cache_file xs) (gs_cache_storage g)"
  obtain s where s: "file_stream ?st = Some s" "ready s" "fs_pos s = 0" using o(2) by blast
  let ?ds = "map items_data (item_blocks [] xs)"
  define gf where "gf d items = load_cache_block (bs_write empty_stream d) items" for d items
  have hold: "holds_block d (bs_write empty_stream d)" if "d \<in> set ?ds" for d
    using that assms(4) write_facts [OF bs_wf_empty, of d]
    by (auto simp: holds_block_def block_ok_def max_data_block_size_def)
  have gf: "gf d items = (True, items @ map item_stored b)" if "b \<in> set (item_blocks [] xs)" "d = items_data b" for d b items
    unfolding gf_def using load_cache_block_data [of b] hold that assms(4) by simp
  have step: "load_cache_block data items = gf d items" if "d \<in> set ?ds" "holds_block d data" for data d items
    using that gf load_cache_block_data assms(4) by auto
  have run: "run_blocks gf (map items_data bs) items = (True, items @ map item_stored (concat bs))"
    if "set bs \<subseteq> set (item_blocks [] xs)" for bs items
    using that by (induction bs arbitrary: items) (simp_all add: gf [OF _ refl])
  have "drop (fs_pos s) (file_bytes ?st) = concat (map block_bytes ?ds) @ []"
    using s(3) by (simp add: cache_file_def comp_def)
  moreover have "block_ok d" if "d \<in> set ?ds" for d using that assms(4) by auto
  moreover have "dec_block [] = None" by (simp add: dec_block_def)
  ultimately obtain st' where "read_loop load_cache_block ?st empty_stream (gs_items g) = (True, st', gs_items g @ map item_stored xs)"
    "last_error st' = end_of_file"
    using read_loop_blocks [where step = load_cache_block and g = gf and ds = ?ds and a = "gs_items g", OF _ step s(1,2) _ _ fresh_data_empty]
      run [of "item_blocks [] xs" "gs_items g"] concat_item_blocks [of "[]" xs] by fastforce
  then show ?thesis
    using o(1) by (intro exI [of _ "storage_close st'"]) (simp add: load_cache_from_local_def read_mode_def)
qed

lemma load_state_file:
  assumes "can_open env" and "file_stream (gs_state_storage g) = None"
    and "file_data (gs_state_storage g) = Some (block_bytes (state_data s))" and "block_ok (state_data s)"
    and "gs_state g = gallery_state_new"
  shows "\<exists>st. load_state_from_local env g = (True, g\<lparr>gs_state_storage := st, gs_state := s\<rparr>) \<and> file_stream st = None"
proof -
  note o = open_read [OF assms(1-3)]
  let ?st = "opened read_mode (block_bytes (state_data s)) (gs_state_storage g)"
  obtain fs where fs: "file_stream ?st = Some fs" "ready fs" "fs_pos fs = 0" using o(2) by blast
  have len: "length (state_data s) \<le> 2 ^ 32 - 2" using assms(4) by (simp add: block_ok_def max_data_block_size_def)
  have step: "load_state_block data x = (True, fold set_state_field (tlvlist (pack_of (state_items s))) x)"
    if "d \<in> set [state_data s]" "holds_block d data" for data d x
  proof -
    have d: "bs_wf data" "content data = state_data s" using that by (simp_all add: holds_block_def)
    have "state_data s \<noteq> []" by (simp add: state_data_def state_items_def item_bytes_def)
    then have "available data \<noteq> 0" using d available_content by fastforce
    moreover obtain r where "tlvpack_unserialize empty_pack data = (True, pack_of (state_items s), r)"
      using tlvpack_unserialize_pack_bytes [OF d [unfolded state_data_def] len [unfolded state_data_def]] by blast
    ultimately show ?thesis by (simp add: load_state_block_def)
  qed
  have "drop (fs_pos fs) (file_bytes ?st) = concat (map block_bytes [state_data s]) @ []" using fs(3) by simp
  moreover have "block_ok d" if "d \<in> set [state_data s]" for d using that assms(4) by simp
  moreover have "dec_block [] = None" by (simp add: dec_block_def)
  ultimately obtain st' where "read_loop load_state_block ?st empty_stream (gs_state g) = (True, st', s)"
    "last_error st' = end_of_file"
    using read_loop_blocks [where step = load_state_block and ds = "[state_data s]" and a = "gs_state g"
          and g = "\<lambda>_ x. (True, fold set_state_field (tlvlist (pack_of (state_items s))) x)", OF _ step fs(1,2) _ _ fresh_data_empty]
      set_state_fields [OF small_pack_bytes [OF len [unfolded state_data_def]]] assms(5) by fastforce
  then show ?thesis
    using o(1) by (intro exI [of _ "storage_close st'"]) (simp add: load_state_from_local_def read_mode_def)
qed

text \<open>C11: What a gallery saved is what the next start loads: when the entries and the state were written and
  fit on the disk and into the blocks the reader accepts, a new gallery over the same two files has every entry in
  the same order and the same state. Only the action of an entry, which is not stored, is gone, and its time is
  that of 32 bits.\<close>

theorem gallery_survives_restart:
  assumes "gallery_closed env g" and "gallery_fits g"
    and "save_state env (snd (save_cache env g)) = (saved, g1)"
    and "g2 = gallery_load_from_local env (gallery_new now (gs_cache_storage g1) (gs_state_storage g1))"
  shows "saved \<and> fst (save_cache env g) \<and> gs_items g2 = map item_stored (gs_items g) \<and> gs_state g2 = gs_state g \<and> gs_loaded g2"
proof -
  obtain c where c: "save_cache env g = (True, g\<lparr>gs_cache_storage := c\<rparr>)" "file_stream c = None"
    "file_data c = Some (cache_file (gs_items g))" using save_cache_file [OF assms(1,2)] by blast
  have "gallery_closed env (g\<lparr>gs_cache_storage := c\<rparr>)" using assms(1) c(2) by (simp add: gallery_closed_def)
  obtain t where t: "save_state env g = (True, g\<lparr>gs_state_storage := t\<rparr>)" "file_stream t = None"
    "file_data t = Some (block_bytes (state_data (gs_state g)))" using save_state_file [OF assms(1,2)] by blast
  have st: "save_state env (g\<lparr>gs_cache_storage := c\<rparr>) = (True, g\<lparr>gs_cache_storage := c, gs_state_storage := t\<rparr>)"
    using t(1) by (cases g) (auto simp: save_state_def split: prod.splits bool.splits)
  have env: "can_open env" using assms(1) by (simp add: gallery_closed_def)
  have ok: "\<forall>b \<in> set (item_blocks [] (gs_items g)). block_ok (items_data b)" "block_ok (state_data (gs_state g))"
    using assms(2) by (simp_all add: gallery_fits_def)
  let ?n = "gallery_new now c t"
  obtain u where u: "load_state_from_local env ?n = (True, ?n\<lparr>gs_state_storage := u, gs_state := gs_state g\<rparr>)"
    using load_state_file [OF env, of ?n "gs_state g"] t(2,3) ok(2) by (auto simp: gallery_new_def)
  obtain v where "load_cache_from_local env (?n\<lparr>gs_state_storage := u, gs_state := gs_state g\<rparr>) =
      (True, ?n\<lparr>gs_state_storage := u, gs_state := gs_state g, gs_cache_storage := v, gs_items := map item_stored (gs_items g)\<rparr>)"
    using load_cache_file [OF env, of "?n\<lparr>gs_state_storage := u, gs_state := gs_state g\<rparr>" "gs_items g"] c(2,3) ok(1)
    by (auto simp: gallery_new_def)
  moreover have "saved" "g1 = g\<lparr>gs_cache_storage := c, gs_state_storage := t\<rparr>" using assms(3) c(1) st by simp_all
  moreover have "\<not> gs_loaded ?n" by (simp add: gallery_new_def)
  ultimately have "g2 = ?n\<lparr>gs_state_storage := u, gs_state := gs_state g, gs_cache_storage := v,
      gs_items := map item_stored (gs_items g), gs_first_load := True, gs_loaded := True\<rparr>"
    using assms(4) u by (simp add: gallery_load_from_local_def)
  then show ?thesis using \<open>saved\<close> c(1) by simp
qed

lemma sample_gallery_fits: "gallery_fits sample_gallery"
  by (simp add: gallery_fits_def cache_file_def max_block_size_def items_data_def item_data_def item_items_def
      sample_item_def gallery_item_new_def ascii_def state_data_def state_items_def gallery_state_new_def
      block_ok_def max_data_block_size_def)

theorem gallery_survives_restart_witness:
  "gs_items (gallery_load_from_local sample_env (gallery_new 5
     (gs_cache_storage (snd (save_state sample_env (snd (save_cache sample_env sample_gallery)))))
     (gs_state_storage (snd (save_state sample_env (snd (save_cache sample_env sample_gallery))))))) =
   [sample_item 10 20, sample_item 30 40, sample_item 60 0]"
proof -
  obtain saved g1 where s: "save_state sample_env (snd (save_cache sample_env sample_gallery)) = (saved, g1)" by fastforce
  have "gallery_closed sample_env sample_gallery" by (simp add: gallery_closed_def)
  moreover have "item_stored (sample_item i n) = sample_item i n" for i n
    by (simp add: item_stored_def sample_item_def gallery_item_new_def)
  ultimately show ?thesis
    using gallery_survives_restart [OF _ sample_gallery_fits s refl, of 5] s by simp
qed


subsection \<open>Pages\<close>

definition of_types :: "str list \<Rightarrow> gallery_item list \<Rightarrow> gallery_item list" where
  "of_types types xs = filter (\<lambda>x. gi_type x \<in> set types) xs"

lemma newest_entries_eq:
  "count \<le> page \<Longrightarrow> newest_entries types page xs count res =
     (let n = min (length (of_types types xs)) (nat (page - count))
      in (res @ take n (of_types types xs), count + int n,
          xs = [] \<or> int (length (of_types types (butlast xs))) < page - count))"
proof (induction types page xs count res rule: newest_entries.induct)
  case (2 types page x xs count res)
  show ?case
  proof (cases "count = page")
    case True
    then show ?thesis by simp
  next
    case False
    then have "count + 1 \<le> page" "nat (page - count) = Suc (nat (page - (count + 1)))" using 2(3) by simp_all
    then show ?thesis
      using 2 False by (cases "gi_type x \<in> set types"; cases "xs = []") (auto simp: of_types_def Let_def min_def)
  qed
qed (simp add: of_types_def)

lemma entries_from_eq:
  "count \<le> \<bar>page\<bar> \<Longrightarrow> \<exists>flag. entries_from types page xs count res =
     (let n = min (length (of_types types xs)) (nat (\<bar>page\<bar> - count))
      in (res @ take n (of_types types xs), count + int n, flag))"
proof (induction types page xs count res rule: entries_from.induct)
  case (2 types page x xs count res)
  show ?case
  proof (cases "count = \<bar>page\<bar>")
    case True
    then show ?thesis by (intro exI [of _ False]) simp
  next
    case False
    then have c: "count + 1 \<le> \<bar>page\<bar>" "nat (\<bar>page\<bar> - count) = Suc (nat (\<bar>page\<bar> - (count + 1)))" using 2(2) by simp_all
    show ?thesis
    proof (cases "gi_type x \<in> set types")
      case True
      then show ?thesis
        using 2(1) [OF False refl, of "res @ [x]" "count + 1"] False c by (auto simp: of_types_def Let_def)
    next
      case False': False
      then show ?thesis
        using 2(1) [OF False refl, of res count] 2(2) False by (simp add: of_types_def Let_def)
    qed
  qed
qed (simp add: of_types_def)

text \<open>One entry more than the page is looked for, and taken off when it was found.\<close>

lemma newest_entries_page:
  "\<exists>count. newest_entries types (int k) xs (-1) [] =
     (take (Suc k) (of_types types xs), count, xs = [] \<or> length (of_types types (butlast xs)) \<le> k) \<and>
     (count = int k \<longleftrightarrow> k < length (of_types types xs))"
  using newest_entries_eq [of "-1" "int k" types xs "[]"] by (auto simp: Let_def nat_add_distrib min_def)

lemma entries_from_page:
  "\<bar>page\<bar> = int k \<Longrightarrow> \<exists>count flag. entries_from types page xs (-1) [] = (take (Suc k) (of_types types xs), count, flag) \<and>
     (count = int k \<longleftrightarrow> k < length (of_types types xs))"
  using entries_from_eq [of "-1" page types xs "[]"] by (auto simp: Let_def nat_add_distrib min_def)

lemma cut_page: "(b \<longleftrightarrow> k < length xs) \<Longrightarrow> (if b then butlast (take (Suc k) xs) else take (Suc k) xs) = take k xs"
  by (auto simp: butlast_take)

text \<open>C29: The pages of the gallery. The first page has the newest entries of the wanted types, newest first; the page
  from an entry has the next older ones, so paging on from the last entry of a page leaves nothing out and
  repeats nothing, and with a negative size the next newer ones. The first page is reported to be the last
  one when the first entry of the gallery is known and, apart from the oldest entry of the cache, no more
  entries are of the wanted types than the page has.\<close>

theorem gallery_pages:
  assumes "in_order (gs_items g)" and "0 < page" and "\<forall>x \<in> set (gs_items g). \<not> entry_empty (gi_id x)"
  shows "fst (get_items no_entry types page g) = take (nat page) (of_types types (rev (gs_items g))) \<and>
    (gs_items g \<noteq> [] \<longrightarrow> snd (get_items no_entry types page g) =
      (if int (length (of_types types (tl (gs_items g)))) \<le> page then Some (\<not> entry_empty (gt_first_entry (gs_state g))) else None)) \<and>
    (\<forall>older x newer. gs_items g = older @ x # newer \<longrightarrow>
      fst (get_items (gi_id x) types page g) = take (nat page) (of_types types (rev older)) \<and>
      fst (get_items (gi_id x) types (- page) g) = take (nat page) (of_types types newer))"
proof -
  let ?items = "gs_items g"
  obtain k where page: "page = int k" "0 < k" using assms(2) by (metis int_eq_iff of_nat_0_less_iff order_less_imp_le)
  have e: "entry_empty no_entry" by (simp add: entry_empty_def no_entry_def entry_id_def)
  obtain count where new: "newest_entries types (int k) (rev ?items) (-1) [] =
      (take (Suc k) (of_types types (rev ?items)), count, rev ?items = [] \<or> length (of_types types (butlast (rev ?items))) \<le> k)"
    "count = int k \<longleftrightarrow> k < length (of_types types (rev ?items))"
    using newest_entries_page [of types k "rev ?items"] by blast
  have "fst (get_items no_entry types page g) = take (nat page) (of_types types (rev ?items))"
    using e new cut_page [OF new(2)] page
    by (cases "?items = []") (simp_all add: get_items_def Let_def of_types_def [of _ "[]"])
  moreover have "of_types types (butlast (rev ?items)) = rev (of_types types (tl ?items))"
    by (simp add: of_types_def butlast_rev rev_filter)
  then have "snd (get_items no_entry types page g) =
      (if int (length (of_types types (tl ?items))) \<le> page then Some (\<not> entry_empty (gt_first_entry (gs_state g))) else None)"
    if "?items \<noteq> []"
    using e new that page by (simp add: get_items_def Let_def)
  moreover have "fst (get_items (gi_id x) types page g) = take (nat page) (of_types types (rev older)) \<and>
      fst (get_items (gi_id x) types (- page) g) = take (nat page) (of_types types newer)"
    if split: "?items = older @ x # newer" for older x newer
  proof -
    have "\<forall>y \<in> set older. gi_id y \<noteq> gi_id x" using assms(1) split by (auto simp: entry_less_key ids_def)
    then have tw: "takeWhile (\<lambda>y. \<not> same_entry (gi_id x) y) ?items = older"
      "dropWhile (\<lambda>y. \<not> same_entry (gi_id x) y) ?items = x # newer"
      unfolding split by (simp_all add: same_entry_def takeWhile_append2 dropWhile_append2)
    have x: "\<not> entry_empty (gi_id x)" "has_entry (gi_id x) ?items" "?items \<noteq> []"
      using assms(3) split by (auto simp: has_entry_def)
    obtain c1 f1 where o: "entries_from types page (rev older) (-1) [] = (take (Suc k) (of_types types (rev older)), c1, f1)"
      "c1 = int k \<longleftrightarrow> k < length (of_types types (rev older))"
      using entries_from_page [of page k types "rev older"] page by auto
    obtain c2 f2 where n: "entries_from types (- page) newer (-1) [] = (take (Suc k) (of_types types newer), c2, f2)"
      "c2 = int k \<longleftrightarrow> k < length (of_types types newer)"
      using entries_from_page [of "- page" k types newer] page by auto
    show ?thesis
      using x o(1) n(1) cut_page [OF o(2)] cut_page [OF n(2)] page
      by (cases "older = []") (simp_all add: get_items_def Let_def tw of_types_def [of _ "[]"])
  qed
  ultimately show ?thesis by blast
qed

theorem gallery_pages_witness:
  "get_items no_entry [ascii ''image''] 2 sample_gallery = ([sample_item 60 0, sample_item 30 40], Some True) \<and>
   fst (get_items (entry_id 30 0) [ascii ''image''] 2 sample_gallery) = [sample_item 10 20]"
proof -
  have "in_order (gs_items sample_gallery)" "\<forall>x \<in> set (gs_items sample_gallery). \<not> entry_empty (gi_id x)" by simp_all
  then have page: "\<lbrakk>fst (get_items no_entry [ascii ''image''] 2 sample_gallery) = xs; snd (get_items no_entry [ascii ''image''] 2 sample_gallery) = n;
      fst (get_items (gi_id (sample_item 30 40)) [ascii ''image''] 2 sample_gallery) = ys\<rbrakk>
      \<Longrightarrow> xs = [sample_item 60 0, sample_item 30 40] \<and> n = Some True \<and> ys = [sample_item 10 20]" for xs n ys
    using gallery_pages [of sample_gallery 2 "[ascii ''image'']"]
      gallery_pages [of sample_gallery 2 "[ascii ''image'']", THEN conjunct2, THEN conjunct2,
        THEN spec [where x = "[sample_item 10 20]"], THEN spec [where x = "sample_item 30 40"], THEN spec [where x = "[sample_item 60 0]"]]
    by (simp_all add: of_types_def del: sample_item_simps(1))
  show ?thesis using page [OF refl refl refl] by (simp add: prod_eq_iff)
qed


end
