(* ===== verification/Contact_List.thy ===== *)
theory Contact_List
  imports Message_Parts Json "HOL-Library.List_Lexorder"
begin

section \<open>The contact list: core/connections/wim/wim_contactlist_cache\<close>

text \<open>
  The groups of the user with their contacts, an index of the contacts by their identifier, the
  ignored ones, and what is known of the persons. A contact is an object that the groups, the index
  and the list of an answer share, so contacts live in a store and are named by their address in
  it. A group and the maps are values: no operation changes them through a list that shares them.
  The search in the list is not modelled; the fields it works on are part of the record.
\<close>

subsection \<open>Contacts\<close>

text \<open>What a contact is searched by, in upper case; the words are views of the two names.\<close>

record search_cache =
  sc_aimid :: str
  sc_friendly :: str
  sc_nick :: str
  sc_ab :: str
  sc_sms_number :: str
  sc_friendly_words :: "str list"
  sc_ab_words :: "str list"

definition search_cache_new :: search_cache where
  "search_cache_new = \<lparr>sc_aimid = [], sc_friendly = [], sc_nick = [], sc_ab = [], sc_sms_number = [],
     sc_friendly_words = [], sc_ab_words = []\<rparr>"

definition search_cache_is_empty :: "search_cache \<Rightarrow> bool" where
  "search_cache_is_empty c \<longleftrightarrow> sc_aimid c = []"

text \<open>The capabilities are a set, kept in order.\<close>

record cl_presence =
  cp_state :: str
  cp_usertype :: str
  cp_status_msg :: str
  cp_other_number :: str
  cp_sms_number :: str
  cp_capabilities :: "str list"
  cp_ab_contact_name :: str
  cp_friendly :: str
  cp_nick :: str
  cp_lastseen :: i32w
  cp_outgoing_msg_count :: i32w
  cp_is_chat :: bool
  cp_muted :: bool
  cp_is_live_chat :: bool
  cp_official :: bool
  cp_public :: bool
  cp_is_channel :: bool
  cp_auto_added :: bool
  cp_deleted :: bool
  cp_icon_id :: str
  cp_big_icon_id :: str
  cp_large_icon_id :: str
  cp_search_cache :: search_cache

definition cl_presence_new :: cl_presence where
  "cl_presence_new = \<lparr>cp_state = [], cp_usertype = [], cp_status_msg = [], cp_other_number = [], cp_sms_number = [],
     cp_capabilities = [], cp_ab_contact_name = [], cp_friendly = [], cp_nick = [], cp_lastseen = -1,
     cp_outgoing_msg_count = 0, cp_is_chat = False, cp_muted = False, cp_is_live_chat = False, cp_official = False,
     cp_public = False, cp_is_channel = False, cp_auto_added = False, cp_deleted = False, cp_icon_id = [],
     cp_big_icon_id = [], cp_large_icon_id = [], cp_search_cache = search_cache_new\<rparr>"

definition js_flag :: "bool \<Rightarrow> json" where
  "js_flag b = js_int (if b then 1 else 0)"

definition presence_serialize :: "cl_presence \<Rightarrow> members \<Rightarrow> members" where
  "presence_serialize p ms0 =
     (let ms1 = fold (\<lambda>(k, j) ms. add_member k j ms)
        [(''state'', js_string (cp_state p)),
         (''userType'', js_string (cp_usertype p)),
         (''statusMsg'', js_string (cp_status_msg p)),
         (''otherNumber'', js_string (cp_other_number p)),
         (''smsNumber'', js_string (cp_sms_number p)),
         (''friendly'', js_string (cp_friendly p)),
         (''abContactName'', js_string (cp_ab_contact_name p)),
         (''lastseen'', js_int (sint (cp_lastseen p))),
         (''outgoingCount'', js_int (sint (cp_outgoing_msg_count p))),
         (''mute'', js_bool (cp_muted p)),
         (''livechat'', js_flag (cp_is_live_chat p)),
         (''official'', js_flag (cp_official p)),
         (''iconId'', js_string (cp_icon_id p)),
         (''bigIconId'', js_string (cp_big_icon_id p)),
         (''largeIconId'', js_string (cp_large_icon_id p))] ms0;
          ms2 = (if cp_is_chat p
            then add_member ''readonly'' (js_flag (cp_is_channel p)) (add_member ''public'' (js_flag (cp_public p)) ms1)
            else ms1);
          ms3 = (if cp_nick p \<noteq> [] then add_member ''nick'' (js_string (cp_nick p)) ms2 else ms2);
          ms4 = add_member ''deleted'' (js_bool (cp_deleted p)) ms3;
          ms5 = (if cp_auto_added p then add_member ''autoAddition'' (js_string (ascii ''autoAddSaved'')) ms4 else ms4)
      in if cp_capabilities p \<noteq> []
         then add_member ''capabilities'' (js_array (map js_string (cp_capabilities p))) ms5 else ms5)"

text \<open>\<open>None\<close> is a failed assertion of the JSON library: a capability that is no string.\<close>

primrec insert_capabilities :: "json list \<Rightarrow> str list \<Rightarrow> str list option" where
  "insert_capabilities [] cs = Some cs"
| "insert_capabilities (j # js) cs =
     (case j of js_string s \<Rightarrow> insert_capabilities js (insort_insert s cs) | _ \<Rightarrow> None)"

definition presence_unserialize :: "members \<Rightarrow> cl_presence \<Rightarrow> cl_presence option" where
  "presence_unserialize ms p =
     map_option (\<lambda>caps. p\<lparr>
         cp_search_cache := search_cache_new,
         cp_state := or_old (unserialize_string ms ''state'') (cp_state p),
         cp_usertype := or_old (unserialize_string ms ''userType'') (cp_usertype p),
         cp_status_msg := or_old (unserialize_string ms ''statusMsg'') (cp_status_msg p),
         cp_other_number := or_old (unserialize_string ms ''otherNumber'') (cp_other_number p),
         cp_sms_number := or_old (unserialize_string ms ''smsNumber'') (cp_sms_number p),
         cp_friendly := or_old (unserialize_string ms ''friendly'') (cp_friendly p),
         cp_nick := or_old (unserialize_string ms ''nick'') (cp_nick p),
         cp_ab_contact_name := or_old (unserialize_string ms ''abContactName'') (cp_ab_contact_name p),
         cp_icon_id := or_old (unserialize_string ms ''iconId'') (cp_icon_id p),
         cp_big_icon_id := or_old (unserialize_string ms ''bigIconId'') (cp_big_icon_id p),
         cp_large_icon_id := or_old (unserialize_string ms ''largeIconId'') (cp_large_icon_id p),
         cp_official := or_old (unserialize_bool ms ''official'') (cp_official p),
         cp_is_live_chat := or_old (unserialize_bool ms ''livechat'') (cp_is_live_chat p),
         cp_public := or_old (unserialize_bool ms ''public'') (cp_public p),
         cp_is_channel := or_old (unserialize_bool ms ''readonly'') (cp_is_channel p),
         cp_deleted := or_old (unserialize_bool ms ''deleted'') (cp_deleted p),
         cp_muted := or_old (unserialize_bool ms ''mute'') (cp_muted p),
         cp_lastseen := or_old (unserialize_int ms ''lastseen'') (cp_lastseen p),
         cp_outgoing_msg_count := or_old (unserialize_int ms ''outgoingCount'') (cp_outgoing_msg_count p),
         cp_capabilities := caps,
         cp_auto_added := (case unserialize_string ms ''autoAddition'' of Some s \<Rightarrow> s \<noteq> [] | None \<Rightarrow> False)\<rparr>)
       (case array_member ms ''capabilities'' of
          Some js \<Rightarrow> insert_capabilities js (cp_capabilities p)
        | None \<Rightarrow> Some (cp_capabilities p))"

definition are_icons_equal :: "cl_presence \<Rightarrow> cl_presence \<Rightarrow> bool" where
  "are_icons_equal p q \<longleftrightarrow>
     cp_large_icon_id p = cp_large_icon_id q \<and> cp_big_icon_id p = cp_big_icon_id q \<and> cp_icon_id p = cp_icon_id q"

record cl_buddy =
  cb_id :: u32w
  cb_aimid :: str
  cb_presence :: cl_presence

type_synonym addr = nat

text \<open>The store, and the counters of the two parsers.\<close>

record cl_store =
  cs_buddies :: "cl_buddy list"
  cs_buddy_id :: int
  cs_diff_buddy_id :: int

definition buddy_at :: "cl_store \<Rightarrow> addr \<Rightarrow> cl_buddy" where
  "buddy_at h a = cs_buddies h ! a"

definition presence_at :: "cl_store \<Rightarrow> addr \<Rightarrow> cl_presence" where
  "presence_at h a = cb_presence (buddy_at h a)"

definition set_presence :: "addr \<Rightarrow> cl_presence \<Rightarrow> cl_store \<Rightarrow> cl_store" where
  "set_presence a p h = h\<lparr>cs_buddies := (cs_buddies h)[a := (buddy_at h a)\<lparr>cb_presence := p\<rparr>]\<rparr>"

definition alloc :: "cl_buddy \<Rightarrow> cl_store \<Rightarrow> addr \<times> cl_store" where
  "alloc b h = (length (cs_buddies h), h\<lparr>cs_buddies := cs_buddies h @ [b]\<rparr>)"

subsection \<open>The list\<close>

record cl_group =
  cg_id :: u32w
  cg_name :: str
  cg_buddies :: "addr list"
  cg_added :: bool
  cg_removed :: bool

definition cl_group_new :: cl_group where
  "cl_group_new = \<lparr>cg_id = 0, cg_name = [], cg_buddies = [], cg_added = False, cg_removed = False\<rparr>"

datatype changed_status = changed_full | changed_presence | changed_none

record search_result =
  sr_aimid :: str
  sr_highlights :: "str list"

type_synonym buddies_map = "(str \<times> addr) list"

text \<open>The ignored contacts are a hash set, here in the order of their insertion.\<close>

record contactlist =
  cl_changed_status :: changed_status
  cl_need_update_search_cache :: bool
  cl_need_update_avatar :: bool
  cl_groups :: "cl_group list"
  cl_ignorelist :: "str list"
  cl_persons :: persons_map
  cl_contacts_index :: buddies_map
  cl_trusted_contacts :: buddies_map
  cl_search_priority :: "(str \<times> int) list"
  cl_search_cache :: buddies_map
  cl_tmp_cache :: buddies_map
  cl_last_search_pattern :: str
  cl_search_results :: "search_result list"

definition contactlist_new :: contactlist where
  "contactlist_new = \<lparr>cl_changed_status = changed_none, cl_need_update_search_cache = False,
     cl_need_update_avatar = False, cl_groups = [], cl_ignorelist = [], cl_persons = Map.empty,
     cl_contacts_index = [], cl_trusted_contacts = [], cl_search_priority = [], cl_search_cache = [],
     cl_tmp_cache = [], cl_last_search_pattern = [], cl_search_results = []\<rparr>"

definition set_need_update_cache :: "bool \<Rightarrow> contactlist \<Rightarrow> contactlist" where
  "set_need_update_cache b cl = cl\<lparr>cl_need_update_search_cache := b\<rparr>"

definition set_changed_status :: "changed_status \<Rightarrow> contactlist \<Rightarrow> contactlist" where
  "set_changed_status s cl =
     (if cl_changed_status cl = changed_full \<and> s = changed_presence then cl else cl\<lparr>cl_changed_status := s\<rparr>)"

text \<open>The flag is the one that is returned; it may be dropped by asking for it.\<close>

definition get_need_update_avatar :: "bool \<Rightarrow> contactlist \<Rightarrow> bool \<times> contactlist" where
  "get_need_update_avatar clear cl =
     (cl_need_update_avatar cl, if clear then cl\<lparr>cl_need_update_avatar := False\<rparr> else cl)"

definition cl_exist :: "contactlist \<Rightarrow> str \<Rightarrow> bool" where
  "cl_exist cl aimid \<longleftrightarrow> map_find (cl_contacts_index cl) aimid \<noteq> None"

definition is_ignored :: "contactlist \<Rightarrow> str \<Rightarrow> bool" where
  "is_ignored cl aimid \<longleftrightarrow> aimid \<in> set (cl_ignorelist cl)"

text \<open>The address stands for the pointer to the presence of the contact there.\<close>

definition get_presence :: "contactlist \<Rightarrow> str \<Rightarrow> addr option" where
  "get_presence cl aimid = map_find (cl_contacts_index cl) aimid"

definition get_contact_friendly_name :: "cl_store \<Rightarrow> contactlist \<Rightarrow> str \<Rightarrow> str" where
  "get_contact_friendly_name h cl aimid =
     (case get_presence cl aimid of Some a \<Rightarrow> cp_friendly (presence_at h a) | None \<Rightarrow> [])"

definition get_first_group :: "contactlist \<Rightarrow> cl_group option" where
  "get_first_group cl = (case cl_groups cl of [] \<Rightarrow> None | g # _ \<Rightarrow> Some g)"

definition cl_is_empty :: "contactlist \<Rightarrow> bool" where
  "cl_is_empty cl \<longleftrightarrow> cl_contacts_index cl = []"

definition get_aimids :: "contactlist \<Rightarrow> str list" where
  "get_aimids cl = map fst (cl_contacts_index cl)"

definition get_contacts_count :: "contactlist \<Rightarrow> nat" where
  "get_contacts_count cl = length (cl_contacts_index cl)"

definition contains_text :: "str \<Rightarrow> str \<Rightarrow> bool" where
  "contains_text s text \<longleftrightarrow> (\<exists>i \<in> set [0..<Suc (length text)]. take (length s) (drop i text) = s)"

definition get_phone_contacts_count :: "cl_store \<Rightarrow> contactlist \<Rightarrow> nat" where
  "get_phone_contacts_count h cl =
     length (filter (\<lambda>e. contains_text (ascii ''+'') (cb_aimid (buddy_at h (snd e)))) (cl_contacts_index cl))"

definition chat_domain :: str where "chat_domain = ascii ''@chat.agent''"

definition get_groupchat_contacts_count :: "cl_store \<Rightarrow> contactlist \<Rightarrow> nat" where
  "get_groupchat_contacts_count h cl =
     length (filter (\<lambda>e. contains_text chat_domain (cb_aimid (buddy_at h (snd e)))) (cl_contacts_index cl))"

definition person_of_buddy :: "cl_buddy \<Rightarrow> person" where
  "person_of_buddy b = (let p = cb_presence b
     in \<lparr>friendly = cp_friendly p, nick = cp_nick p, official = Some (cp_official p),
         official_payload = (if cp_official p then 1 else 0)\<rparr>)"

text \<open>A person that is known already stays as it is.\<close>

definition add_to_persons :: "cl_buddy \<Rightarrow> contactlist \<Rightarrow> contactlist" where
  "add_to_persons b cl =
     (case cl_persons cl (cb_aimid b) of
        Some _ \<Rightarrow> cl
      | None \<Rightarrow> cl\<lparr>cl_persons := (cl_persons cl)(cb_aimid b \<mapsto> person_of_buddy b)\<rparr>)"

definition index_buddy :: "str \<Rightarrow> addr \<Rightarrow> contactlist \<Rightarrow> contactlist" where
  "index_buddy aimid a cl = cl\<lparr>cl_contacts_index := map_put aimid a (cl_contacts_index cl)\<rparr>"

subsection \<open>Reading and writing\<close>

definition is_chat_aimid :: "str \<Rightarrow> bool" where
  "is_chat_aimid aimid \<longleftrightarrow> length chat_domain < length aimid \<and>
     drop (length aimid - length chat_domain) aimid = chat_domain"

text \<open>
  A contact of the list that the server sent or the file holds. The outer \<open>None\<close> is a failed
  assertion of the JSON library, the inner one a contact without an identifier, which is left out.
\<close>

definition parse_buddy :: "u32w \<Rightarrow> json \<Rightarrow> cl_buddy option option" where
  "parse_buddy i j =
     (case members_of_object j of
        None \<Rightarrow> None
      | Some ms \<Rightarrow>
          (case unserialize_string ms ''aimId'' of
             None \<Rightarrow> Some None
           | Some aimid \<Rightarrow>
               map_option (\<lambda>p. Some \<lparr>cb_id = i, cb_aimid = aimid,
                   cb_presence = (if is_chat_aimid aimid then p\<lparr>cp_is_chat := True\<rparr> else p)\<rparr>)
                 (presence_unserialize ms cl_presence_new)))"

text \<open>
  The two parsers differ in the counter; that of a difference counts a contact before it looks for
  its identifier.
\<close>

definition next_buddy_id :: "bool \<Rightarrow> cl_store \<Rightarrow> u32w" where
  "next_buddy_id diff h = word_of_int ((if diff then cs_diff_buddy_id h else cs_buddy_id h) + 1)"

definition count_buddy :: "bool \<Rightarrow> bool \<Rightarrow> cl_store \<Rightarrow> cl_store" where
  "count_buddy diff named h =
     (if diff then h\<lparr>cs_diff_buddy_id := cs_diff_buddy_id h + 1\<rparr>
      else if named then h\<lparr>cs_buddy_id := cs_buddy_id h + 1\<rparr> else h)"

definition enter_buddy :: "cl_buddy \<Rightarrow> cl_store \<times> contactlist \<Rightarrow> addr \<times> cl_store \<times> contactlist" where
  "enter_buddy b = (\<lambda>(h, cl).
     let (a, h1) = alloc b h
     in (a, h1, index_buddy (cb_aimid b) a (add_to_persons b cl)))"

primrec read_buddies ::
    "bool \<Rightarrow> json list \<Rightarrow> addr list \<Rightarrow> cl_store \<Rightarrow> contactlist \<Rightarrow> (addr list \<times> cl_store \<times> contactlist) option" where
  "read_buddies diff [] as h cl = Some (as, h, cl)"
| "read_buddies diff (j # js) as h cl =
     (case parse_buddy (next_buddy_id diff h) j of
        None \<Rightarrow> None
      | Some None \<Rightarrow> read_buddies diff js as (count_buddy diff False h) cl
      | Some (Some b) \<Rightarrow>
          let (a, h1, cl1) = enter_buddy b (count_buddy diff True h, cl)
          in read_buddies diff js (as @ [a]) h1 cl1)"

text \<open>A group without an identifier is left out, with its contacts.\<close>

primrec read_groups ::
    "bool \<Rightarrow> json list \<Rightarrow> cl_store \<Rightarrow> contactlist \<Rightarrow> (cl_store \<times> contactlist) option" where
  "read_groups diff [] h cl = Some (h, cl)"
| "read_groups diff (j # js) h cl =
     (case members_of_object j of
        None \<Rightarrow> None
      | Some ms \<Rightarrow>
          (case unserialize_uint ms ''id'' of
             None \<Rightarrow> read_groups diff js h cl
           | Some i \<Rightarrow>
               (case read_buddies diff (case array_member ms ''buddies'' of Some bs \<Rightarrow> bs | None \<Rightarrow> []) [] h cl of
                  None \<Rightarrow> None
                | Some (as, h1, cl1) \<Rightarrow>
                    let g = \<lparr>cg_id = i, cg_name = or_old (unserialize_string ms ''name'') [], cg_buddies = as,
                      cg_added = (diff \<and> member ms ''added'' \<noteq> None), cg_removed = (diff \<and> member ms ''removed'' \<noteq> None)\<rparr>
                    in read_groups diff js h1 (cl1\<lparr>cl_groups := cl_groups cl1 @ [g]\<rparr>))))"

primrec read_ignored :: "json list \<Rightarrow> str list \<Rightarrow> str list option" where
  "read_ignored [] is = Some is"
| "read_ignored (j # js) is =
     (case members_of_object j of
        None \<Rightarrow> None
      | Some ms \<Rightarrow>
          (case unserialize_string ms ''aimId'' of
             Some aimid \<Rightarrow> read_ignored js (if aimid \<in> set is then is else is @ [aimid])
           | None \<Rightarrow> read_ignored js is))"

definition cl_unserialize :: "json \<Rightarrow> cl_store \<Rightarrow> contactlist \<Rightarrow> (cl_store \<times> contactlist) option" where
  "cl_unserialize j h cl =
     (case members_of_object j of
        None \<Rightarrow> None
      | Some ms \<Rightarrow>
          (case array_member ms ''groups'' of
             None \<Rightarrow> Some (h, cl)
           | Some gs \<Rightarrow>
               (case read_groups False gs h cl of
                  None \<Rightarrow> None
                | Some (h1, cl1) \<Rightarrow>
                    (case array_member ms ''ignorelist'' of
                       None \<Rightarrow> Some (h1, cl1)
                     | Some is \<Rightarrow>
                         map_option (\<lambda>ignored. (h1, cl1\<lparr>cl_ignorelist := ignored\<rparr>))
                           (read_ignored is (cl_ignorelist cl1))))))"

definition unserialize_from_diff :: "json \<Rightarrow> cl_store \<Rightarrow> contactlist \<Rightarrow> (cl_store \<times> contactlist) option" where
  "unserialize_from_diff j h cl =
     (case j of js_array gs \<Rightarrow> read_groups True gs h cl | _ \<Rightarrow> None)"

definition buddy_json :: "cl_store \<Rightarrow> addr \<Rightarrow> json" where
  "buddy_json h a =
     js_object (presence_serialize (presence_at h a) (add_member ''aimId'' (js_string (cb_aimid (buddy_at h a))) []))"

definition group_json :: "cl_store \<Rightarrow> cl_group \<Rightarrow> json" where
  "group_json h g =
     js_object (add_member ''buddies'' (js_array (map (buddy_json h) (cg_buddies g)))
       (add_member ''id'' (js_int (uint (cg_id g))) (add_member ''name'' (js_string (cg_name g)) [])))"

definition cl_serialize :: "cl_store \<Rightarrow> contactlist \<Rightarrow> members \<Rightarrow> members" where
  "cl_serialize h cl ms =
     add_member ''ignorelist''
       (js_array (map (\<lambda>aimid. js_object (add_member ''aimId'' (js_string aimid) [])) (cl_ignorelist cl)))
     (add_member ''groups'' (js_array (map (group_json h) (cl_groups cl))) ms)"

subsection \<open>Changes\<close>

definition out_counts :: "cl_store \<Rightarrow> contactlist \<Rightarrow> str \<Rightarrow> i32w option" where
  "out_counts h cl aimid =
     map_option (\<lambda>a. cp_outgoing_msg_count (presence_at h a)) (map_find (cl_contacts_index cl) aimid)"

definition avatar_updates :: "cl_store \<Rightarrow> contactlist \<Rightarrow> contactlist \<Rightarrow> str list" where
  "avatar_updates h new old =
     (if cl_contacts_index old = [] then map fst (cl_contacts_index new)
      else map fst (filter (\<lambda>(aimid, a).
        case map_find (cl_contacts_index new) aimid of
          Some b \<Rightarrow> \<not> are_icons_equal (presence_at h a) (presence_at h b)
        | None \<Rightarrow> True) (cl_contacts_index old)))"

definition keep_out_count :: "(str \<Rightarrow> i32w option) \<Rightarrow> str \<times> addr \<Rightarrow> cl_store \<Rightarrow> cl_store" where
  "keep_out_count counts = (\<lambda>(aimid, a) h.
     case counts aimid of
       Some n \<Rightarrow> set_presence a ((presence_at h a)\<lparr>cp_outgoing_msg_count := n\<rparr>) h
     | None \<Rightarrow> h)"

definition update_cl :: "contactlist \<Rightarrow> cl_store \<Rightarrow> contactlist \<Rightarrow> str list \<times> cl_store \<times> contactlist" where
  "update_cl new h cl =
     (avatar_updates h new cl,
      fold (keep_out_count (out_counts h cl)) (cl_contacts_index new) h,
      set_need_update_cache True (set_changed_status changed_full
        (cl\<lparr>cl_groups := cl_groups new, cl_contacts_index := cl_contacts_index new\<rparr>)))"

definition update_ignorelist :: "str list \<Rightarrow> contactlist \<Rightarrow> contactlist" where
  "update_ignorelist ignored cl =
     set_need_update_cache True (set_changed_status changed_full (cl\<lparr>cl_ignorelist := ignored\<rparr>))"

definition update_trusted ::
    "str \<Rightarrow> str \<Rightarrow> str \<Rightarrow> bool \<Rightarrow> cl_store \<Rightarrow> contactlist \<Rightarrow> cl_store \<times> contactlist" where
  "update_trusted aimid name alias is_trusted h cl =
     (if cl_exist cl aimid then (h, cl)
      else
        (case map_find (cl_trusted_contacts cl) aimid of
           Some _ \<Rightarrow>
             if is_trusted then (h, cl)
             else (h, cl\<lparr>cl_trusted_contacts := map_erase aimid (cl_trusted_contacts cl)\<rparr>)
         | None \<Rightarrow>
             if is_trusted then
               let (a, h1) = alloc \<lparr>cb_id = 0, cb_aimid = aimid,
                     cb_presence = cl_presence_new\<lparr>cp_friendly := name, cp_nick := alias\<rparr>\<rparr> h
               in (h1, cl\<lparr>cl_trusted_contacts := map_put aimid a (cl_trusted_contacts cl)\<rparr>)
             else (h, cl)))"

text \<open>The name in the address book and the counter of outgoing messages are not taken over.\<close>

definition presence_updated :: "cl_presence \<Rightarrow> cl_presence \<Rightarrow> cl_presence" where
  "presence_updated new p =
     p\<lparr>cp_search_cache := (if cp_friendly new \<noteq> cp_friendly p \<or> cp_ab_contact_name new \<noteq> cp_ab_contact_name p \<or>
           cp_nick new \<noteq> cp_nick p then search_cache_new else cp_search_cache p),
       cp_state := cp_state new, cp_usertype := cp_usertype new, cp_status_msg := cp_status_msg new,
       cp_other_number := cp_other_number new, cp_sms_number := cp_sms_number new,
       cp_capabilities := cp_capabilities new, cp_friendly := cp_friendly new, cp_nick := cp_nick new,
       cp_lastseen := cp_lastseen new, cp_is_chat := cp_is_chat new, cp_muted := cp_muted new,
       cp_is_live_chat := cp_is_live_chat new, cp_official := cp_official new, cp_public := cp_public new,
       cp_is_channel := cp_is_channel new, cp_auto_added := cp_auto_added new, cp_deleted := cp_deleted new,
       cp_icon_id := cp_icon_id new, cp_big_icon_id := cp_big_icon_id new, cp_large_icon_id := cp_large_icon_id new\<rparr>"

definition update_presence :: "str \<Rightarrow> cl_presence \<Rightarrow> cl_store \<Rightarrow> contactlist \<Rightarrow> cl_store \<times> contactlist" where
  "update_presence aimid new h cl =
     (case get_presence cl aimid of
        None \<Rightarrow> (h, cl)
      | Some a \<Rightarrow>
          (set_presence a (presence_updated new (presence_at h a)) h,
           set_changed_status changed_presence
             (cl\<lparr>cl_need_update_avatar := (\<not> are_icons_equal (presence_at h a) new)\<rparr>)))"

definition set_outgoing_msg_count :: "str \<Rightarrow> i32w \<Rightarrow> cl_store \<Rightarrow> contactlist \<Rightarrow> cl_store \<times> contactlist" where
  "set_outgoing_msg_count aimid n h cl =
     (if n = -1 then (h, cl)
      else
        (case get_presence cl aimid of
           None \<Rightarrow> (h, cl)
         | Some a \<Rightarrow>
             (set_presence a ((presence_at h a)\<lparr>cp_outgoing_msg_count := n\<rparr>) h,
              set_changed_status changed_presence cl)))"

definition reset_outgoing_counters :: "cl_store \<Rightarrow> contactlist \<Rightarrow> cl_store" where
  "reset_outgoing_counters h cl =
     fold (\<lambda>(_, a) h. set_presence a ((presence_at h a)\<lparr>cp_outgoing_msg_count := 0\<rparr>) h) (cl_contacts_index cl) h"

definition add_to_ignorelist :: "str \<Rightarrow> contactlist \<Rightarrow> contactlist" where
  "add_to_ignorelist aimid cl =
     (if is_ignored cl aimid then cl
      else set_changed_status changed_full (cl\<lparr>cl_ignorelist := cl_ignorelist cl @ [aimid]\<rparr>))"

definition remove_from_ignorelist :: "str \<Rightarrow> contactlist \<Rightarrow> contactlist" where
  "remove_from_ignorelist aimid cl =
     (if is_ignored cl aimid
      then set_changed_status changed_full (cl\<lparr>cl_ignorelist := remove1 aimid (cl_ignorelist cl)\<rparr>) else cl)"

subsection \<open>Differences sent by the server\<close>

text \<open>Contacts that are new: they go to every group with the identifier of the group of the difference.\<close>

definition enter_diff_buddy :: "cl_store \<Rightarrow> addr \<Rightarrow> contactlist \<Rightarrow> contactlist" where
  "enter_diff_buddy h a cl = index_buddy (cb_aimid (buddy_at h a)) a (add_to_persons (buddy_at h a) cl)"

primrec extend_groups ::
    "cl_store \<Rightarrow> cl_group \<Rightarrow> cl_group list \<Rightarrow> contactlist \<Rightarrow> cl_group list \<times> contactlist" where
  "extend_groups h d [] cl = ([], cl)"
| "extend_groups h d (g # gs) cl =
     (if cg_id g \<noteq> cg_id d then
        let (gs1, cl1) = extend_groups h d gs cl in (g # gs1, cl1)
      else
        let (gs1, cl1) = extend_groups h d gs (fold (enter_diff_buddy h) (cg_buddies d) cl)
        in (g\<lparr>cg_buddies := cg_buddies g @ cg_buddies d\<rparr> # gs1, cl1))"

definition create_in_group :: "cl_store \<Rightarrow> cl_group \<Rightarrow> contactlist \<Rightarrow> contactlist" where
  "create_in_group h d cl =
     (let groups = cl_groups cl @ (if cg_added d then [cl_group_new\<lparr>cg_id := cg_id d, cg_name := cg_name d\<rparr>] else []);
          (groups1, cl1) = extend_groups h d groups cl
      in cl1\<lparr>cl_groups := groups1\<rparr>)"

definition update_from_buddy :: "addr \<Rightarrow> cl_store \<times> contactlist \<Rightarrow> cl_store \<times> contactlist" where
  "update_from_buddy a = (\<lambda>(h, cl).
     update_presence (cb_aimid (buddy_at h a)) (presence_at h a) h (add_to_persons (buddy_at h a) cl))"

text \<open>How often the contacts of the difference were met.\<close>

definition bump :: "str \<Rightarrow> (str \<times> nat) list \<Rightarrow> (str \<times> nat) list" where
  "bump k m = map_put k (case map_find m k of Some n \<Rightarrow> n + 1 | None \<Rightarrow> 1) m"

definition in_group :: "cl_store \<Rightarrow> str \<Rightarrow> addr list \<Rightarrow> bool" where
  "in_group h aimid as \<longleftrightarrow> (\<exists>a \<in> set as. cb_aimid (buddy_at h a) = aimid)"

definition count_elsewhere :: "cl_store \<Rightarrow> addr list \<Rightarrow> addr \<Rightarrow> (str \<times> nat) list \<Rightarrow> (str \<times> nat) list" where
  "count_elsewhere h as d counts =
     (let aimid = cb_aimid (buddy_at h d) in if in_group h aimid as then bump aimid counts else counts)"

primrec remove_buddy ::
    "cl_store \<Rightarrow> str \<Rightarrow> addr list \<Rightarrow> (str \<times> nat) list \<Rightarrow> addr list \<times> (str \<times> nat) list" where
  "remove_buddy h aimid [] counts = ([], counts)"
| "remove_buddy h aimid (a # as) counts =
     (if cb_aimid (buddy_at h a) = aimid then remove_buddy h aimid as (bump aimid counts)
      else let (as1, counts1) = remove_buddy h aimid as counts in (a # as1, counts1))"

primrec remove_buddies ::
    "cl_store \<Rightarrow> addr list \<Rightarrow> addr list \<Rightarrow> (str \<times> nat) list \<Rightarrow> addr list \<times> (str \<times> nat) list" where
  "remove_buddies h [] as counts = (as, counts)"
| "remove_buddies h (d # ds) as counts =
     (let (as1, counts1) = remove_buddy h (cb_aimid (buddy_at h d)) as counts in remove_buddies h ds as1 counts1)"

primrec delete_from_groups ::
    "cl_store \<Rightarrow> cl_group \<Rightarrow> cl_group list \<Rightarrow> (str \<times> nat) list \<Rightarrow> cl_group list \<times> (str \<times> nat) list" where
  "delete_from_groups h d [] counts = ([], counts)"
| "delete_from_groups h d (g # gs) counts =
     (if cg_id g \<noteq> cg_id d then
        let (gs1, counts1) = delete_from_groups h d gs (fold (count_elsewhere h (cg_buddies g)) (cg_buddies d) counts)
        in (g # gs1, counts1)
      else
        let (as, counts1) = remove_buddies h (cg_buddies d) (cg_buddies g) counts;
            (gs1, counts2) = delete_from_groups h d gs counts1
        in (if cg_removed d then gs1 else g\<lparr>cg_buddies := as\<rparr> # gs1, counts2))"

text \<open>A contact that was met once has left the list.\<close>

definition forget_contact :: "str \<times> nat \<Rightarrow> contactlist \<times> str list \<Rightarrow> contactlist \<times> str list" where
  "forget_contact = (\<lambda>(k, n) (cl, removed).
     if n = 1 then
       (cl\<lparr>cl_contacts_index := map_erase k (cl_contacts_index cl),
           cl_trusted_contacts := map_erase k (cl_trusted_contacts cl)\<rparr>, removed @ [k])
     else (cl, removed))"

definition delete_groups_of :: "cl_store \<Rightarrow> cl_group list \<Rightarrow> cl_group list \<Rightarrow> cl_group list \<times> (str \<times> nat) list" where
  "delete_groups_of h ds gs = fold (\<lambda>d (gs, counts). delete_from_groups h d gs counts) ds (gs, [])"

text \<open>The contacts that left the list are appended to \<open>removed\<close>.\<close>

definition merge_from_diff ::
    "str \<Rightarrow> contactlist \<Rightarrow> str list \<Rightarrow> cl_store \<Rightarrow> contactlist \<Rightarrow> str list \<times> cl_store \<times> contactlist" where
  "merge_from_diff ty diff removed h cl =
     (let done = (\<lambda>status cl. set_need_update_cache True (set_changed_status status cl))
      in if ty = ascii ''created'' then
           (removed, h, done changed_full (fold (create_in_group h) (cl_groups diff) cl))
         else if ty = ascii ''updated'' then
           let (h1, cl1) = fold update_from_buddy (concat (map cg_buddies (cl_groups diff))) (h, cl)
           in (removed, h1, done changed_presence cl1)
         else if ty = ascii ''deleted'' then
           let (gs, counts) = delete_groups_of h (cl_groups diff) (cl_groups cl);
               (cl1, removed1) = fold forget_contact counts (cl\<lparr>cl_groups := gs\<rparr>, removed)
           in (removed1, h, done changed_full cl1)
         else (removed, h, cl))"

end
