(* ===== verification/Contact_List_Properties.thy ===== *)
theory Contact_List_Properties
  imports Contact_List
begin

section \<open>Properties of the contact list\<close>

text \<open>
  Every reachable list refers to contacts of the store under their own names; a list that was
  written is read back; a difference of the server adds and deletes what it lists.
\<close>

subsection \<open>The store\<close>

lemma length_set_presence [simp]: "length (cs_buddies (set_presence a p h)) = length (cs_buddies h)"
  by (simp add: set_presence_def)

lemma aimid_set_presence [simp]: "cb_aimid (buddy_at (set_presence a p h) b) = cb_aimid (buddy_at h b)"
  by (cases "a < length (cs_buddies h)") (auto simp: set_presence_def buddy_at_def nth_list_update list_update_beyond)

lemma presence_set_presence:
  "b < length (cs_buddies h) \<Longrightarrow> presence_at (set_presence a p h) b = (if a = b then p else presence_at h b)"
  by (auto simp: set_presence_def presence_at_def buddy_at_def nth_list_update)

text \<open>A store grows: contacts keep their address and their name.\<close>

definition extends :: "cl_store \<Rightarrow> cl_store \<Rightarrow> bool" where
  "extends h h' \<longleftrightarrow> length (cs_buddies h) \<le> length (cs_buddies h') \<and>
     (\<forall>a < length (cs_buddies h). cb_aimid (buddy_at h' a) = cb_aimid (buddy_at h a))"

lemma extends_refl [simp]: "extends h h"
  by (simp add: extends_def)

lemma extends_trans: "extends h h1 \<Longrightarrow> extends h1 h2 \<Longrightarrow> extends h h2"
  unfolding extends_def by fastforce

lemma extends_set_presence [simp]: "extends h (set_presence a p h)"
  by (simp add: extends_def)

lemma alloc_simps:
  assumes "alloc b h = (a, h')"
  shows "a = length (cs_buddies h)" "length (cs_buddies h') = Suc a" "buddy_at h' a = b"
    "c < a \<Longrightarrow> buddy_at h' c = buddy_at h c" "extends h h'"
  using assms by (auto simp: alloc_def buddy_at_def nth_append extends_def)

lemma count_buddy_store [simp]: "cs_buddies (count_buddy diff named h) = cs_buddies h"
  "buddy_at (count_buddy diff named h) = buddy_at h"
  by (simp_all add: count_buddy_def buddy_at_def fun_eq_iff)

subsection \<open>Well-formed lists\<close>

text \<open>The entries of a map are the contacts of that name.\<close>

definition map_ok :: "cl_store \<Rightarrow> buddies_map \<Rightarrow> bool" where
  "map_ok h m \<longleftrightarrow> ordered m \<and> (\<forall>(k, a) \<in> set m. a < length (cs_buddies h) \<and> cb_aimid (buddy_at h a) = k)"

definition group_ok :: "cl_store \<Rightarrow> contactlist \<Rightarrow> cl_group \<Rightarrow> bool" where
  "group_ok h cl g \<longleftrightarrow> (\<forall>a \<in> set (cg_buddies g). a < length (cs_buddies h) \<and> cl_exist cl (cb_aimid (buddy_at h a)))"

definition cl_wf :: "cl_store \<Rightarrow> contactlist \<Rightarrow> bool" where
  "cl_wf h cl \<longleftrightarrow> map_ok h (cl_contacts_index cl) \<and> map_ok h (cl_trusted_contacts cl) \<and>
     (\<forall>g \<in> set (cl_groups cl). group_ok h cl g) \<and> distinct (cl_ignorelist cl)"

lemma map_ok_Nil [simp]: "map_ok h []"
  by (simp add: map_ok_def)

lemma map_ok_extends: "map_ok h m \<Longrightarrow> extends h h' \<Longrightarrow> map_ok h' m"
  unfolding map_ok_def extends_def by fastforce

lemma map_ok_put:
  "map_ok h m \<Longrightarrow> a < length (cs_buddies h) \<Longrightarrow> cb_aimid (buddy_at h a) = k \<Longrightarrow> map_ok h (map_put k a m)"
  by (auto simp: map_ok_def ordered_put dest: set_put_subset [THEN subsetD])

lemma map_ok_erase: "map_ok h m \<Longrightarrow> map_ok h (map_erase k m)"
  unfolding map_ok_def using set_erase_subset ordered_erase by fast

lemma map_ok_find: "map_ok h m \<Longrightarrow> map_find m k = Some a \<Longrightarrow> a < length (cs_buddies h) \<and> cb_aimid (buddy_at h a) = k"
  by (auto simp: map_ok_def map_find_Some_iff)

lemma group_ok_mono:
  "group_ok h cl g \<Longrightarrow> extends h h' \<Longrightarrow> (\<And>k. cl_exist cl k \<Longrightarrow> cl_exist cl' k) \<Longrightarrow> group_ok h' cl' g"
  unfolding group_ok_def extends_def by fastforce

lemma cl_wf_new [simp]: "cl_wf h contactlist_new"
  by (simp add: cl_wf_def contactlist_new_def)

text \<open>What matters for a list to be well formed.\<close>

lemma cl_wf_cong:
  "cl_contacts_index cl' = cl_contacts_index cl \<Longrightarrow> cl_trusted_contacts cl' = cl_trusted_contacts cl \<Longrightarrow>
   cl_groups cl' = cl_groups cl \<Longrightarrow> cl_ignorelist cl' = cl_ignorelist cl \<Longrightarrow> cl_wf h cl' = cl_wf h cl"
  by (simp add: cl_wf_def group_ok_def cl_exist_def)

lemma cl_wf_extends: "cl_wf h cl \<Longrightarrow> extends h h' \<Longrightarrow> cl_wf h' cl"
  unfolding cl_wf_def using map_ok_extends group_ok_mono by blast

lemma set_status_fields [simp]:
  "cl_contacts_index (set_changed_status s cl) = cl_contacts_index cl"
  "cl_trusted_contacts (set_changed_status s cl) = cl_trusted_contacts cl"
  "cl_groups (set_changed_status s cl) = cl_groups cl" "cl_ignorelist (set_changed_status s cl) = cl_ignorelist cl"
  "cl_persons (set_changed_status s cl) = cl_persons cl"
  "cl_contacts_index (set_need_update_cache b cl) = cl_contacts_index cl"
  "cl_trusted_contacts (set_need_update_cache b cl) = cl_trusted_contacts cl"
  "cl_groups (set_need_update_cache b cl) = cl_groups cl" "cl_ignorelist (set_need_update_cache b cl) = cl_ignorelist cl"
  "cl_persons (set_need_update_cache b cl) = cl_persons cl"
  by (simp_all add: set_changed_status_def set_need_update_cache_def)

lemma add_to_persons_fields [simp]:
  "cl_contacts_index (add_to_persons b cl) = cl_contacts_index cl"
  "cl_trusted_contacts (add_to_persons b cl) = cl_trusted_contacts cl"
  "cl_groups (add_to_persons b cl) = cl_groups cl" "cl_ignorelist (add_to_persons b cl) = cl_ignorelist cl"
  by (simp_all add: add_to_persons_def split: option.splits)

lemma index_buddy_fields [simp]:
  "cl_contacts_index (index_buddy k a cl) = map_put k a (cl_contacts_index cl)"
  "cl_trusted_contacts (index_buddy k a cl) = cl_trusted_contacts cl"
  "cl_groups (index_buddy k a cl) = cl_groups cl" "cl_ignorelist (index_buddy k a cl) = cl_ignorelist cl"
  by (simp_all add: index_buddy_def)

lemma exist_put: "ordered (cl_contacts_index cl) \<Longrightarrow> cl_contacts_index cl' = map_put k a (cl_contacts_index cl) \<Longrightarrow>
    cl_exist cl' x \<longleftrightarrow> x = k \<or> cl_exist cl x"
  by (auto simp: cl_exist_def find_put)

lemma cl_wf_index:
  assumes "cl_wf h cl" and "a < length (cs_buddies h)" and "cb_aimid (buddy_at h a) = k"
  shows "cl_wf h (index_buddy k a cl)"
proof -
  have "ordered (cl_contacts_index cl)" using assms(1) by (simp add: cl_wf_def map_ok_def)
  then have "cl_exist cl x \<Longrightarrow> cl_exist (index_buddy k a cl) x" for x
    by (simp add: exist_put [of cl "index_buddy k a cl" k a])
  then show ?thesis
    using assms group_ok_mono [OF _ extends_refl] map_ok_put unfolding cl_wf_def by fastforce
qed

lemma cl_wf_status [simp]:
  "cl_wf h (set_changed_status s cl) = cl_wf h cl" "cl_wf h (set_need_update_cache b cl) = cl_wf h cl"
  by (rule cl_wf_cong; simp)+

lemma cl_wf_persons [simp]: "cl_wf h (add_to_persons b cl) = cl_wf h cl"
  by (rule cl_wf_cong) simp_all

subsection \<open>Reading keeps a list well formed\<close>

definition grown :: "cl_store \<Rightarrow> contactlist \<Rightarrow> cl_store \<Rightarrow> contactlist \<Rightarrow> bool" where
  "grown h cl h' cl' \<longleftrightarrow> extends h h' \<and> (\<forall>k. cl_exist cl k \<longrightarrow> cl_exist cl' k)"

lemma grown_trans: "grown h cl h1 cl1 \<Longrightarrow> grown h1 cl1 h2 cl2 \<Longrightarrow> grown h cl h2 cl2"
  unfolding grown_def using extends_trans by blast

lemma enter_buddy_ok:
  assumes "enter_buddy b (h, cl) = (a, h1, cl1)" and "cl_wf h cl"
  shows "cl_wf h1 cl1" "grown h cl h1 cl1" "a < length (cs_buddies h1)" "cb_aimid (buddy_at h1 a) = cb_aimid b"
    "cl_exist cl1 (cb_aimid b)" "cl_groups cl1 = cl_groups cl"
proof -
  obtain a1 h2 where al: "alloc b h = (a1, h2)" by fastforce
  with assms(1) have e: "a1 = a" "h2 = h1" "cl1 = index_buddy (cb_aimid b) a (add_to_persons b cl)"
    by (auto simp: enter_buddy_def)
  note al = alloc_simps [OF al [unfolded e]]
  have "cl_wf h1 (add_to_persons b cl)" using cl_wf_extends [OF assms(2) al(5)] by simp
  with al e show "cl_wf h1 cl1" by (simp add: cl_wf_index)
  have "ordered (cl_contacts_index (add_to_persons b cl))" using assms(2) by (simp add: cl_wf_def map_ok_def)
  from exist_put [OF this, of cl1] e have x: "cl_exist cl1 k \<longleftrightarrow> k = cb_aimid b \<or> cl_exist (add_to_persons b cl) k" for k
    by simp
  show "grown h cl h1 cl1" using al x by (simp add: grown_def cl_exist_def)
  show "a < length (cs_buddies h1)" "cb_aimid (buddy_at h1 a) = cb_aimid b" "cl_exist cl1 (cb_aimid b)"
    "cl_groups cl1 = cl_groups cl" using al x e by simp_all
qed

text \<open>The contacts of a group that is being read.\<close>

definition addrs_ok :: "cl_store \<Rightarrow> contactlist \<Rightarrow> addr list \<Rightarrow> bool" where
  "addrs_ok h cl as \<longleftrightarrow> (\<forall>a \<in> set as. a < length (cs_buddies h) \<and> cl_exist cl (cb_aimid (buddy_at h a)))"

lemma addrs_ok_grown: "addrs_ok h cl as \<Longrightarrow> grown h cl h' cl' \<Longrightarrow> addrs_ok h' cl' as"
  unfolding addrs_ok_def grown_def extends_def by fastforce

lemma count_buddy_wf [simp]: "cl_wf (count_buddy diff named h) cl = cl_wf h cl"
  "grown (count_buddy diff named h) cl h' cl' = grown h cl h' cl'" "addrs_ok (count_buddy diff named h) cl as = addrs_ok h cl as"
  by (simp_all add: cl_wf_def map_ok_def group_ok_def grown_def extends_def addrs_ok_def)

lemma read_buddies_ok:
  assumes "read_buddies diff js as h cl = Some (as', h', cl')" and "cl_wf h cl" and "addrs_ok h cl as"
  shows "cl_wf h' cl' \<and> grown h cl h' cl' \<and> addrs_ok h' cl' as' \<and> cl_groups cl' = cl_groups cl"
  using assms
proof (induction js arbitrary: as h cl)
  case Nil
  then show ?case by (simp add: grown_def)
next
  case (Cons j js)
  then obtain ob where ob: "parse_buddy (next_buddy_id diff h) j = Some ob" by (auto split: option.splits)
  show ?case
  proof (cases ob)
    case None
    with Cons.prems ob have "read_buddies diff js as (count_buddy diff False h) cl = Some (as', h', cl')" by simp
    from Cons.IH [OF this] Cons.prems show ?thesis by simp
  next
    case (Some b)
    obtain a h1 cl1 where e: "enter_buddy b (count_buddy diff True h, cl) = (a, h1, cl1)" by (metis prod_cases3)
    with Cons.prems ob Some have r: "read_buddies diff js (as @ [a]) h1 cl1 = Some (as', h', cl')" by simp
    note e = enter_buddy_ok [OF e, simplified, OF Cons.prems(2)]
    have "addrs_ok h1 cl1 (as @ [a])"
      using addrs_ok_grown [OF Cons.prems(3) e(2)] e(3-5) by (simp add: addrs_ok_def ball_Un)
    from Cons.IH [OF r e(1) this] grown_trans [OF e(2)] e(6) show ?thesis by simp
  qed
qed

lemma read_groups_ok:
  assumes "read_groups diff js h cl = Some (h', cl')" and "cl_wf h cl"
  shows "cl_wf h' cl' \<and> grown h cl h' cl'"
  using assms
proof (induction js arbitrary: h cl)
  case Nil
  then show ?case by (simp add: grown_def)
next
  case (Cons j js)
  then obtain ms where ms: "members_of_object j = Some ms" by (auto split: option.splits)
  show ?case
  proof (cases "unserialize_uint ms ''id''")
    case None
    with Cons ms show ?thesis by simp
  next
    case (Some i)
    define bs where "bs = (case array_member ms ''buddies'' of Some bs \<Rightarrow> bs | None \<Rightarrow> [])"
    obtain as h1 cl1 where r: "read_buddies diff bs [] h cl = Some (as, h1, cl1)"
      using Cons.prems(1) ms Some by (auto simp: bs_def split: option.splits)
    define g where "g = \<lparr>cg_id = i, cg_name = or_old (unserialize_string ms ''name'') [], cg_buddies = as,
      cg_added = (diff \<and> member ms ''added'' \<noteq> None), cg_removed = (diff \<and> member ms ''removed'' \<noteq> None)\<rparr>"
    let ?cl = "cl1\<lparr>cl_groups := cl_groups cl1 @ [g]\<rparr>"
    have rest: "read_groups diff js h1 ?cl = Some (h', cl')"
      using Cons.prems(1) ms Some r by (simp add: g_def bs_def)
    have ok: "cl_wf h1 cl1" "grown h cl h1 cl1" "addrs_ok h1 cl1 as"
      using read_buddies_ok [OF r Cons.prems(2)] by (simp_all add: addrs_ok_def)
    then have "cl_wf h1 ?cl"
      by (auto simp: cl_wf_def group_ok_def addrs_ok_def cl_exist_def g_def)
    from Cons.IH [OF rest this] ok(2) show ?thesis
      using grown_trans [of h cl h1 cl1] by (auto simp: grown_def cl_exist_def extends_trans)
  qed
qed

lemma read_ignored_distinct: "read_ignored js is = Some is' \<Longrightarrow> distinct is \<Longrightarrow> distinct is'"
proof (induction js arbitrary: "is")
  case (Cons j js)
  then show ?case by (auto split: option.splits if_splits)
qed simp

lemma cl_unserialize_ok:
  assumes "cl_unserialize j h cl = Some (h', cl')" and "cl_wf h cl"
  shows "cl_wf h' cl' \<and> grown h cl h' cl'"
proof -
  obtain ms where ms: "members_of_object j = Some ms" using assms(1) by (auto simp: cl_unserialize_def split: option.splits)
  show ?thesis
  proof (cases "array_member ms ''groups''")
    case None
    then show ?thesis using assms ms by (simp add: cl_unserialize_def grown_def)
  next
    case (Some gs)
    then obtain h1 cl1 where r: "read_groups False gs h cl = Some (h1, cl1)"
      using assms(1) ms by (auto simp: cl_unserialize_def split: option.splits)
    from read_groups_ok [OF r assms(2)] have ok: "cl_wf h1 cl1" "grown h cl h1 cl1" by simp_all
    then have "distinct (cl_ignorelist cl1)" by (simp add: cl_wf_def)
    then show ?thesis
      using assms(1) ms Some r ok read_ignored_distinct [of _ "cl_ignorelist cl1"]
      by (auto simp: cl_unserialize_def cl_wf_def group_ok_def grown_def cl_exist_def split: option.splits)
  qed
qed

lemma unserialize_from_diff_ok:
  "unserialize_from_diff j h cl = Some (h', cl') \<Longrightarrow> cl_wf h cl \<Longrightarrow> cl_wf h' cl' \<and> grown h cl h' cl'"
  by (auto simp: unserialize_from_diff_def read_groups_ok split: json.splits)

subsection \<open>Changes keep a list well formed\<close>

lemma fold_set_presence_extends:
  assumes "\<And>e h. \<exists>a p. f e h = set_presence a p h \<or> f e h = h"
  shows "extends h (fold f es h) \<and> length (cs_buddies (fold f es h)) = length (cs_buddies h)"
proof (induction es arbitrary: h)
  case (Cons e es)
  obtain a p where f: "f e h = set_presence a p h \<or> f e h = h" using assms by blast
  then have "extends h (f e h)" "length (cs_buddies (f e h)) = length (cs_buddies h)" by auto
  with Cons [of "f e h"] show ?case using extends_trans by auto
qed simp

lemma keep_out_count_extends: "extends h (fold (keep_out_count counts) es h)"
proof -
  have "\<exists>a p. keep_out_count counts e h = set_presence a p h \<or> keep_out_count counts e h = h" for e h
    by (cases e) (auto simp: keep_out_count_def split: option.splits)
  then show ?thesis using fold_set_presence_extends by blast
qed

lemma reset_outgoing_extends: "extends h (reset_outgoing_counters h cl)"
  unfolding reset_outgoing_counters_def
  by (rule fold_set_presence_extends [THEN conjunct1]) (auto split: prod.splits)

lemma update_cl_ok:
  assumes "update_cl new h cl = (avatars, h', cl')" and "cl_wf h cl" and "cl_wf h new"
  shows "cl_wf h' cl'"
proof -
  have h': "extends h h'" using assms(1) keep_out_count_extends by (auto simp: update_cl_def)
  have "cl_wf h cl'" using assms by (auto simp: update_cl_def cl_wf_def group_ok_def cl_exist_def)
  with h' show ?thesis by (rule cl_wf_extends [rotated])
qed

lemma update_presence_ok:
  assumes "update_presence k p h cl = (h', cl')"
  shows "extends h h'" "cl_wf h cl \<Longrightarrow> cl_wf h' cl'" "cl_contacts_index cl' = cl_contacts_index cl" "cl_groups cl' = cl_groups cl"
proof -
  show e: "extends h h'" using assms by (auto simp: update_presence_def split: option.splits)
  show i: "cl_contacts_index cl' = cl_contacts_index cl" and g: "cl_groups cl' = cl_groups cl"
    using assms by (auto simp: update_presence_def split: option.splits)
  have "cl_trusted_contacts cl' = cl_trusted_contacts cl" "cl_ignorelist cl' = cl_ignorelist cl"
    using assms by (auto simp: update_presence_def split: option.splits)
  with i g have "cl_wf h' cl' = cl_wf h' cl" by (intro cl_wf_cong)
  then show "cl_wf h cl \<Longrightarrow> cl_wf h' cl'" using cl_wf_extends [OF _ e] by simp
qed

lemma update_from_buddies_ok:
  "fold update_from_buddy as (h, cl) = (h', cl') \<Longrightarrow> cl_wf h cl \<Longrightarrow> cl_wf h' cl' \<and> extends h h'"
proof (induction as arbitrary: h cl)
  case (Cons a as)
  obtain h1 cl1 where u: "update_from_buddy a (h, cl) = (h1, cl1)" by fastforce
  then have "cl_wf h1 cl1" "extends h h1"
    using update_presence_ok Cons.prems(2) by (fastforce simp: update_from_buddy_def)+
  with Cons.IH [of h1 cl1] Cons.prems(1) u show ?case using extends_trans by auto
qed simp

lemma update_trusted_ok:
  assumes "update_trusted k name al t h cl = (h', cl')" and "cl_wf h cl"
  shows "cl_wf h' cl'"
proof -
  consider "h' = h" "cl' = cl"
    | "h' = h" "cl' = cl\<lparr>cl_trusted_contacts := map_erase k (cl_trusted_contacts cl)\<rparr>"
    | a b where "alloc b h = (a, h')" "cb_aimid b = k" "cl' = cl\<lparr>cl_trusted_contacts := map_put k a (cl_trusted_contacts cl)\<rparr>"
    using assms(1) by (fastforce simp: update_trusted_def split: if_splits option.splits prod.splits)
  then show ?thesis
  proof cases
    case 1
    then show ?thesis using assms(2) by simp
  next
    case 2
    then show ?thesis using assms(2) by (auto simp: cl_wf_def group_ok_def cl_exist_def map_ok_erase)
  next
    case 3
    note al = alloc_simps [OF 3(1)]
    from cl_wf_extends [OF assms(2) al(5)] have "cl_wf h' cl" .
    then show ?thesis using 3(2,3) al(2,3) by (auto simp: cl_wf_def group_ok_def cl_exist_def map_ok_put)
  qed
qed

lemma enter_diff_buddies:
  assumes "cl_wf h cl" and "\<forall>a \<in> set as. a < length (cs_buddies h)"
  shows "cl_wf h (fold (enter_diff_buddy h) as cl) \<and> cl_groups (fold (enter_diff_buddy h) as cl) = cl_groups cl \<and>
    (\<forall>k. cl_exist (fold (enter_diff_buddy h) as cl) k \<longleftrightarrow> cl_exist cl k \<or> in_group h k as)"
  using assms
proof (induction as arbitrary: cl)
  case Nil
  then show ?case by (simp add: in_group_def)
next
  case (Cons a as)
  let ?cl = "enter_diff_buddy h a cl"
  have wf: "cl_wf h ?cl" using Cons.prems by (simp add: enter_diff_buddy_def cl_wf_index)
  have "ordered (cl_contacts_index cl)" using Cons.prems by (simp add: cl_wf_def map_ok_def)
  then have "cl_exist ?cl k \<longleftrightarrow> k = cb_aimid (buddy_at h a) \<or> cl_exist cl k" for k
    using exist_put [of cl ?cl "cb_aimid (buddy_at h a)" a k] by (simp add: enter_diff_buddy_def)
  with Cons.IH [OF wf] Cons.prems(2) show ?case
    by (auto simp: in_group_def enter_diff_buddy_def)
qed

lemma extend_groups_ok:
  assumes "extend_groups h d gs cl = (gs', cl')" and "cl_wf h cl" and "\<forall>a \<in> set (cg_buddies d). a < length (cs_buddies h)"
  shows "cl_wf h cl' \<and> cl_groups cl' = cl_groups cl \<and>
    gs' = map (\<lambda>g. if cg_id g = cg_id d then g\<lparr>cg_buddies := cg_buddies g @ cg_buddies d\<rparr> else g) gs \<and>
    (\<forall>k. cl_exist cl' k \<longleftrightarrow> cl_exist cl k \<or> cg_id d \<in> cg_id ` set gs \<and> in_group h k (cg_buddies d))"
  using assms(1,2)
proof (induction gs arbitrary: gs' cl)
  case (Cons g gs)
  show ?case
  proof (cases "cg_id g = cg_id d")
    case True
    let ?cl = "fold (enter_diff_buddy h) (cg_buddies d) cl"
    obtain gs1 where e: "extend_groups h d gs ?cl = (gs1, cl')" "gs' = g\<lparr>cg_buddies := cg_buddies g @ cg_buddies d\<rparr> # gs1"
      using Cons.prems(1) True by (auto split: prod.splits)
    note f = enter_diff_buddies [OF Cons.prems(2) assms(3)]
    from Cons.IH [OF e(1)] f show ?thesis using e(2) True by auto
  next
    case False
    then obtain gs1 where e: "extend_groups h d gs cl = (gs1, cl')" "gs' = g # gs1"
      using Cons.prems(1) by (auto split: prod.splits)
    from Cons.IH [OF e(1) Cons.prems(2)] show ?thesis using e(2) False by auto
  qed
qed simp

lemma create_in_group_ok:
  assumes "cl_wf h cl" and "\<forall>a \<in> set (cg_buddies d). a < length (cs_buddies h)"
  shows "cl_wf h (create_in_group h d cl)"
proof -
  define groups where "groups = cl_groups cl @ (if cg_added d then [cl_group_new\<lparr>cg_id := cg_id d, cg_name := cg_name d\<rparr>] else [])"
  obtain gs cl1 where e: "extend_groups h d groups cl = (gs, cl1)" by fastforce
  have c: "create_in_group h d cl = cl1\<lparr>cl_groups := gs\<rparr>" using e by (simp add: create_in_group_def groups_def)
  note x = extend_groups_ok [OF e assms]
  have "\<forall>g \<in> set groups. group_ok h cl g"
    using assms(1) by (auto simp: groups_def cl_wf_def group_ok_def cl_group_new_def)
  moreover have "group_ok h cl1 g'" if g0: "g0 \<in> set groups" "group_ok h cl g0"
    and g': "g' = (if cg_id g0 = cg_id d then g0\<lparr>cg_buddies := cg_buddies g0 @ cg_buddies d\<rparr> else g0)" for g0 g'
  proof -
    have "cl_exist cl k \<Longrightarrow> cl_exist cl1 k" for k using x by blast
    moreover have "cl_exist cl1 (cb_aimid (buddy_at h a))" if "cg_id g0 = cg_id d" "a \<in> set (cg_buddies d)" for a
    proof -
      have "cg_id d \<in> cg_id ` set groups" using g0(1) that(1) by (metis image_eqI)
      moreover have "in_group h (cb_aimid (buddy_at h a)) (cg_buddies d)" using that(2) by (auto simp: in_group_def)
      ultimately show ?thesis using x by blast
    qed
    ultimately show ?thesis using g0(2) assms(2) by (auto simp: g' group_ok_def)
  qed
  ultimately have "\<forall>g \<in> set gs. group_ok h cl1 g" using x by fastforce
  then show ?thesis using x by (auto simp: c cl_wf_def group_ok_def cl_exist_def)
qed

lemma create_in_groups_ok:
  assumes "cl_wf h cl" and "\<forall>d \<in> set ds. \<forall>a \<in> set (cg_buddies d). a < length (cs_buddies h)"
  shows "cl_wf h (fold (create_in_group h) ds cl)"
  using assms by (induction ds arbitrary: cl) (auto simp: create_in_group_ok)

subsection \<open>How often a deleted contact is met\<close>

abbreviation name_at :: "cl_store \<Rightarrow> addr \<Rightarrow> str" where
  "name_at h a \<equiv> cb_aimid (buddy_at h a)"

abbreviation names_of :: "cl_store \<Rightarrow> cl_group \<Rightarrow> str list" where
  "names_of h g \<equiv> map (name_at h) (cg_buddies g)"

lemma in_group_names: "in_group h k (cg_buddies g) \<longleftrightarrow> k \<in> set (names_of h g)"
  by (auto simp: in_group_def)

definition hits :: "(str \<times> nat) list \<Rightarrow> str \<Rightarrow> nat" where
  "hits m k = (case map_find m k of Some n \<Rightarrow> n | None \<Rightarrow> 0)"

lemma hits_Nil [simp]: "hits [] k = 0"
  by (simp add: hits_def map_find_def)

lemma bump_hits [simp]: "ordered m \<Longrightarrow> ordered (bump k m)"
  "ordered m \<Longrightarrow> hits (bump k m) x = hits m x + (if k = x then 1 else 0)"
  by (auto simp: bump_def hits_def ordered_put find_put split: option.splits)

lemma remove_buddy_eq:
  "ordered counts \<Longrightarrow> remove_buddy h k as counts = (as', counts') \<Longrightarrow>
     as' = filter (\<lambda>a. name_at h a \<noteq> k) as \<and> ordered counts' \<and>
     (\<forall>x. hits counts' x = hits counts x + (if x = k then count_list (map (name_at h) as) k else 0))"
proof (induction as arbitrary: counts as')
  case (Cons a as)
  show ?case
  proof (cases "name_at h a = k")
    case True
    then show ?thesis using Cons.IH [of "bump k counts" as'] Cons.prems by simp
  next
    case False
    then obtain as1 where "remove_buddy h k as counts = (as1, counts')" "as' = a # as1"
      using Cons.prems(2) by (auto split: prod.splits)
    then show ?thesis using Cons.IH [of counts as1] Cons.prems(1) False by auto
  qed
qed simp

lemma remove_buddies_eq:
  "ordered counts \<Longrightarrow> remove_buddies h ds as counts = (as', counts') \<Longrightarrow>
     as' = filter (\<lambda>a. name_at h a \<notin> name_at h ` set ds) as \<and> ordered counts' \<and>
     (\<forall>x. hits counts' x = hits counts x + (if x \<in> name_at h ` set ds then count_list (map (name_at h) as) x else 0))"
proof (induction ds arbitrary: as counts)
  case (Cons d ds)
  obtain as1 counts1 where r: "remove_buddy h (name_at h d) as counts = (as1, counts1)" by fastforce
  note e = remove_buddy_eq [OF Cons.prems(1) r]
  have "count_list (map (name_at h) as1) x = (if x = name_at h d then 0 else count_list (map (name_at h) as) x)" for x
    unfolding e [THEN conjunct1] by (induction as) auto
  with e Cons.IH [of counts1 as1] Cons.prems(2) r show ?case by (auto simp: filter_filter conj_commute)
qed simp

lemma count_elsewhere_eq:
  "ordered counts \<Longrightarrow> ordered (fold (count_elsewhere h as) ds counts) \<and>
     hits (fold (count_elsewhere h as) ds counts) x =
       hits counts x + (if in_group h x as then count_list (map (name_at h) ds) x else 0)"
proof (induction ds arbitrary: counts)
  case (Cons d ds)
  have "ordered (count_elsewhere h as d counts)"
    "hits (count_elsewhere h as d counts) x = hits counts x + (if in_group h x as \<and> name_at h d = x then 1 else 0)"
    using Cons.prems by (auto simp: count_elsewhere_def Let_def)
  with Cons.IH [of "count_elsewhere h as d counts"] show ?case by simp
qed simp

text \<open>What a group of the difference leaves of the groups, and what a group adds to the count.\<close>

definition left_by :: "cl_store \<Rightarrow> cl_group \<Rightarrow> cl_group list \<Rightarrow> cl_group list" where
  "left_by h d gs = map (\<lambda>g. if cg_id g = cg_id d
       then g\<lparr>cg_buddies := filter (\<lambda>a. name_at h a \<notin> set (names_of h d)) (cg_buddies g)\<rparr> else g)
     (filter (\<lambda>g. \<not> (cg_id g = cg_id d \<and> cg_removed d)) gs)"

definition met_in :: "cl_store \<Rightarrow> cl_group \<Rightarrow> str \<Rightarrow> cl_group \<Rightarrow> nat" where
  "met_in h d k g =
     (if cg_id g = cg_id d then (if k \<in> set (names_of h d) then count_list (names_of h g) k else 0)
      else if k \<in> set (names_of h g) then count_list (names_of h d) k else 0)"

lemma delete_from_groups_eq:
  "ordered counts \<Longrightarrow> delete_from_groups h d gs counts = (gs', counts') \<Longrightarrow>
     gs' = left_by h d gs \<and> ordered counts' \<and> (\<forall>x. hits counts' x = hits counts x + sum_list (map (met_in h d x) gs))"
proof (induction gs arbitrary: counts gs')
  case Nil
  then show ?case by (simp add: left_by_def)
next
  case (Cons g gs)
  show ?case
  proof (cases "cg_id g = cg_id d")
    case True
    obtain as c1 where r: "remove_buddies h (cg_buddies d) (cg_buddies g) counts = (as, c1)" by fastforce
    obtain gs1 where t: "delete_from_groups h d gs c1 = (gs1, counts')"
      "gs' = (if cg_removed d then gs1 else g\<lparr>cg_buddies := as\<rparr> # gs1)"
      using Cons.prems(2) True r by (auto split: prod.splits)
    note e = remove_buddies_eq [OF Cons.prems(1) r]
    from Cons.IH [OF _ t(1)] e t(2) True show ?thesis by (auto simp: left_by_def met_in_def)
  next
    case False
    let ?c = "fold (count_elsewhere h (cg_buddies g)) (cg_buddies d) counts"
    obtain gs1 where t: "delete_from_groups h d gs ?c = (gs1, counts')" "gs' = g # gs1"
      using Cons.prems(2) False by (auto split: prod.splits)
    note e = count_elsewhere_eq [OF Cons.prems(1), of h "cg_buddies g" "cg_buddies d"]
    from Cons.IH [OF _ t(1)] e t(2) False show ?thesis by (auto simp: left_by_def met_in_def in_group_names)
  qed
qed

primrec met :: "cl_store \<Rightarrow> cl_group list \<Rightarrow> cl_group list \<Rightarrow> str \<Rightarrow> nat" where
  "met h [] gs k = 0"
| "met h (d # ds) gs k = sum_list (map (met_in h d k) gs) + met h ds (left_by h d gs) k"

lemma delete_groups_eq:
  "ordered counts \<Longrightarrow> fold (\<lambda>d (gs, counts). delete_from_groups h d gs counts) ds (gs, counts) = (gs', counts') \<Longrightarrow>
     gs' = fold (left_by h) ds gs \<and> ordered counts' \<and> (\<forall>x. hits counts' x = hits counts x + met h ds gs x)"
proof (induction ds arbitrary: gs counts)
  case (Cons d ds)
  obtain gs1 c1 where d: "delete_from_groups h d gs counts = (gs1, c1)" by fastforce
  note e = delete_from_groups_eq [OF Cons.prems(1) d]
  from Cons.IH [of c1 gs1] Cons.prems(2) d e show ?case by simp
qed simp

lemma forget_contacts_eq:
  "ordered counts \<Longrightarrow> ordered (cl_contacts_index cl) \<Longrightarrow> fold forget_contact counts (cl, removed) = (cl', removed') \<Longrightarrow>
     (\<forall>k. cl_exist cl' k \<longleftrightarrow> cl_exist cl k \<and> hits counts k \<noteq> 1) \<and>
     removed' = removed @ map fst (filter (\<lambda>e. snd e = 1) counts) \<and>
     cl_groups cl' = cl_groups cl \<and> cl_ignorelist cl' = cl_ignorelist cl \<and>
     (map_ok h (cl_contacts_index cl) \<longrightarrow> map_ok h (cl_contacts_index cl')) \<and>
     (map_ok h (cl_trusted_contacts cl) \<longrightarrow> map_ok h (cl_trusted_contacts cl'))"
proof (induction counts arbitrary: cl removed)
  case (Cons e counts)
  obtain k n where e: "e = (k, n)" by fastforce
  obtain cl1 removed1 where f: "forget_contact e (cl, removed) = (cl1, removed1)" by fastforce
  have fields: "cl_exist cl1 x \<longleftrightarrow> cl_exist cl x \<and> \<not> (x = k \<and> n = 1)" "ordered (cl_contacts_index cl1)"
    "removed1 = removed @ (if n = 1 then [k] else [])" "cl_groups cl1 = cl_groups cl" "cl_ignorelist cl1 = cl_ignorelist cl"
    "map_ok h (cl_contacts_index cl) \<longrightarrow> map_ok h (cl_contacts_index cl1)"
    "map_ok h (cl_trusted_contacts cl) \<longrightarrow> map_ok h (cl_trusted_contacts cl1)" for x
    using f Cons.prems(2)
    by (auto simp: forget_contact_def e cl_exist_def find_erase ordered_erase map_ok_erase split: if_splits)
  have "hits (e # counts) x = (if x = k then n else hits counts x)" for x
    by (simp add: hits_def map_find_def e)
  moreover have "hits counts k = 0"
    using Cons.prems(1) map_find_None_if_below [of counts k] by (simp add: hits_def e)
  moreover have "ordered counts" using Cons.prems(1) by (cases e) simp
  ultimately show ?case
    using Cons.IH [of cl1 removed1] Cons.prems(3) f fields by (auto simp: e)
qed simp

definition lists :: "cl_store \<Rightarrow> cl_group list \<Rightarrow> str \<Rightarrow> bool" where
  "lists h ds k \<longleftrightarrow> (\<exists>d \<in> set ds. k \<in> set (names_of h d))"

definition homes :: "cl_store \<Rightarrow> cl_group list \<Rightarrow> str \<Rightarrow> nat" where
  "homes h gs k = length (filter (\<lambda>g. k \<in> set (names_of h g)) gs)"

text \<open>A deletion names each group once, and every contact in a group that has it.\<close>

definition deletable :: "cl_store \<Rightarrow> cl_group list \<Rightarrow> cl_group list \<Rightarrow> bool" where
  "deletable h ds gs \<longleftrightarrow> distinct (map cg_id ds) \<and>
     (\<forall>d \<in> set ds. \<forall>k \<in> set (names_of h d). \<exists>g \<in> set gs. cg_id g = cg_id d \<and> k \<in> set (names_of h g))"

text \<open>A group that goes goes with all its contacts.\<close>

definition removed_completely :: "cl_store \<Rightarrow> cl_group list \<Rightarrow> cl_group list \<Rightarrow> bool" where
  "removed_completely h ds gs \<longleftrightarrow>
     (\<forall>d \<in> set ds. cg_removed d \<longrightarrow> (\<forall>g \<in> set gs. cg_id g = cg_id d \<longrightarrow> set (names_of h g) \<subseteq> set (names_of h d)))"

lemma left_by_group:
  "g \<in> set (left_by h d gs) \<longleftrightarrow>
     (\<exists>g0 \<in> set gs. cg_id g0 = cg_id d \<and> \<not> cg_removed d \<and>
        g = g0\<lparr>cg_buddies := filter (\<lambda>a. name_at h a \<notin> set (names_of h d)) (cg_buddies g0)\<rparr>) \<or>
     g \<in> set gs \<and> cg_id g \<noteq> cg_id d"
  by (auto simp: left_by_def image_iff)

lemma left_by_other: "i \<noteq> cg_id d \<Longrightarrow> g \<in> set (left_by h d gs) \<and> cg_id g = i \<longleftrightarrow> g \<in> set gs \<and> cg_id g = i"
  by (auto simp: left_by_group)

lemma left_by_names:
  "g \<in> set (left_by h d gs) \<Longrightarrow> k \<in> set (names_of h g) \<Longrightarrow>
     (\<exists>g0 \<in> set gs. k \<in> set (names_of h g0)) \<and> (k \<in> set (names_of h d) \<longrightarrow> g \<in> set gs \<and> cg_id g \<noteq> cg_id d)"
  unfolding left_by_group by (elim disjE bexE conjE) (fastforce, blast)

lemma left_by_distinct:
  assumes "\<forall>g \<in> set gs. distinct (names_of h g)"
  shows "\<forall>g \<in> set (left_by h d gs). distinct (names_of h g)"
proof
  fix g
  assume "g \<in> set (left_by h d gs)"
  then consider g0 where "g0 \<in> set gs"
      "g = g0\<lparr>cg_buddies := filter (\<lambda>a. name_at h a \<notin> set (names_of h d)) (cg_buddies g0)\<rparr>" | "g \<in> set gs"
    unfolding left_by_group by blast
  then show "distinct (names_of h g)"
  proof cases
    case 1
    then have "distinct (names_of h g0)" using assms by blast
    then show ?thesis unfolding 1(2) by (simp del: set_map) (rule distinct_map_filter)
  qed (use assms in blast)
qed

lemma deletable_step:
  assumes "deletable h (d # ds) gs"
  shows "deletable h ds (left_by h d gs)"
proof -
  have ids: "distinct (map cg_id (d # ds))" using assms unfolding deletable_def by blast
  then have "\<forall>d' \<in> set ds. cg_id d' \<noteq> cg_id d" by (auto simp: image_iff)
  then have "g \<in> set gs \<and> cg_id g = cg_id d' \<Longrightarrow> g \<in> set (left_by h d gs)" if "d' \<in> set ds" for d' g
    using that left_by_other by blast
  then have "\<exists>g \<in> set (left_by h d gs). cg_id g = cg_id d' \<and> k \<in> set (names_of h g)"
    if "d' \<in> set ds" "k \<in> set (names_of h d')" for d' k
    using assms that unfolding deletable_def by (meson list.set_intros(2))
  then show ?thesis using ids by (simp add: deletable_def del: set_map)
qed

lemma removed_step:
  assumes "removed_completely h (d # ds) gs" and "distinct (map cg_id (d # ds))"
  shows "removed_completely h ds (left_by h d gs)"
proof -
  have "\<forall>d' \<in> set ds. cg_id d' \<noteq> cg_id d" using assms(2) by (auto simp: image_iff)
  then have "g \<in> set (left_by h d gs) \<and> cg_id g = cg_id d' \<Longrightarrow> g \<in> set gs" if "d' \<in> set ds" for d' g
    using that left_by_other by blast
  then show ?thesis using assms(1) unfolding removed_completely_def by (simp del: set_map)
qed

lemma met_skip: "k \<notin> set (names_of h d) \<Longrightarrow> met h (d # ds) gs k = met h ds (left_by h d gs) k"
  by (auto simp: met_in_def count_list_0_iff)

lemma met_unlisted: "\<not> lists h ds k \<Longrightarrow> met h ds gs k = 0"
  by (induction ds arbitrary: gs) (auto simp: lists_def met_in_def count_list_0_iff)

lemma sum_two:
  assumes "x \<in> set xs" and "y \<in> set xs" and "x \<noteq> y" and "1 \<le> f x" and "1 \<le> f y"
  shows "2 \<le> sum_list (map (f :: 'a \<Rightarrow> nat) xs)"
proof -
  obtain as bs where xs: "xs = as @ x # bs" using assms(1) by (meson split_list)
  with assms(2,3) have "y \<in> set (as @ bs)" by auto
  then have "f y \<le> sum_list (map f (as @ bs))" by (metis elem_le_sum_list image_eqI in_set_conv_nth length_map list.set_map member_le_sum_list)
  then show ?thesis using assms(4,5) xs by simp
qed

lemma fold_left_by_origin:
  "g \<in> set (fold (left_by h) ds gs) \<Longrightarrow> \<exists>g0 \<in> set gs. cg_id g0 = cg_id g \<and> set (cg_buddies g) \<subseteq> set (cg_buddies g0)"
proof (induction ds arbitrary: gs)
  case (Cons d ds)
  then have "g \<in> set (fold (left_by h) ds (left_by h d gs))" by simp
  from Cons.IH [OF this]
  obtain g1 where "g1 \<in> set (left_by h d gs)" "cg_id g1 = cg_id g" "set (cg_buddies g) \<subseteq> set (cg_buddies g1)" by blast
  moreover from this(1) obtain g0 where "g0 \<in> set gs" "cg_id g0 = cg_id g1" "set (cg_buddies g1) \<subseteq> set (cg_buddies g0)"
    unfolding left_by_group by auto
  ultimately show ?case by fastforce
qed auto

lemma fold_left_by_names:
  assumes "g \<in> set (fold (left_by h) ds gs)" and "k \<in> set (names_of h g)"
  shows "\<exists>g0 \<in> set gs. cg_id g0 = cg_id g \<and> k \<in> set (names_of h g0)"
proof -
  obtain g0 where "g0 \<in> set gs" "cg_id g0 = cg_id g" "set (cg_buddies g) \<subseteq> set (cg_buddies g0)"
    using fold_left_by_origin [OF assms(1)] by blast
  then show ?thesis using assms(2) by (intro bexI [of _ g0]) auto
qed

text \<open>Whoever is still in a group was not met just once.\<close>

lemma met_remaining:
  "deletable h ds gs \<Longrightarrow> g \<in> set (fold (left_by h) ds gs) \<Longrightarrow> k \<in> set (names_of h g) \<Longrightarrow> met h ds gs k \<noteq> 1"
proof (induction ds arbitrary: gs)
  case (Cons d ds)
  show ?case
  proof (cases "k \<in> set (names_of h d)")
    case False
    then show ?thesis using Cons.IH [OF deletable_step [OF Cons.prems(1)]] Cons.prems(2,3) unfolding met_skip [OF False] by simp
  next
    case True
    then obtain g1 where g1: "g1 \<in> set gs" "cg_id g1 = cg_id d" "k \<in> set (names_of h g1)"
      using Cons.prems(1) by (auto simp: deletable_def)
    obtain g2 where "g2 \<in> set (left_by h d gs)" "k \<in> set (names_of h g2)"
      using fold_left_by_names [of g h ds "left_by h d gs" k] Cons.prems(2,3) by auto
    with True left_by_names have g2: "g2 \<in> set gs" "cg_id g2 \<noteq> cg_id d" "k \<in> set (names_of h g2)" by blast+
    have "1 \<le> met_in h d k g1" "1 \<le> met_in h d k g2"
      using True g1(2,3) g2(2,3) by (auto simp: met_in_def Suc_le_eq count_list_0_iff simp flip: neq0_conv)
    then have "2 \<le> sum_list (map (met_in h d k) gs)" using sum_two [OF g1(1) g2(1)] g1(2) g2(2) by auto
    then show ?thesis by simp
  qed
qed simp

lemma homes_left_by:
  assumes "k \<notin> set (names_of h d)" and "cg_removed d \<longrightarrow> (\<forall>g \<in> set gs. cg_id g = cg_id d \<longrightarrow> set (names_of h g) \<subseteq> set (names_of h d))"
  shows "homes h (left_by h d gs) k = homes h gs k"
proof -
  let ?has = "\<lambda>g. k \<in> set (names_of h g)"
  let ?f = "\<lambda>g. if cg_id g = cg_id d
    then g\<lparr>cg_buddies := filter (\<lambda>a. name_at h a \<notin> set (names_of h d)) (cg_buddies g)\<rparr> else g"
  have f: "?has (?f g) \<longleftrightarrow> ?has g" for g using assms(1) by auto
  have "filter (\<lambda>g. \<not> (cg_id g = cg_id d \<and> cg_removed d) \<and> ?has g) gs = filter ?has gs"
    using assms by (intro filter_cong refl) auto
  then show ?thesis
    unfolding homes_def left_by_def filter_map length_map comp_def f filter_filter by (simp add: conj_commute)
qed

lemma count_list_distinct: "distinct xs \<Longrightarrow> count_list xs x = (if x \<in> set xs then 1 else 0)"
  by (induction xs) auto

lemma met_once_iff:
  assumes "deletable h ds gs" and "removed_completely h ds gs" and "\<forall>g \<in> set gs. distinct (names_of h g)"
  shows "met h ds gs k = 1 \<longleftrightarrow> lists h ds k \<and> homes h gs k = 1"
  using assms
proof (induction ds arbitrary: gs)
  case Nil
  then show ?case by (simp add: lists_def)
next
  case (Cons d ds)
  have ids: "distinct (map cg_id (d # ds))" using Cons.prems(1) by (simp add: deletable_def)
  note step = deletable_step [OF Cons.prems(1)] removed_step [OF Cons.prems(2) ids] left_by_distinct [OF Cons.prems(3)]
  show ?case
  proof (cases "k \<in> set (names_of h d)")
    case False
    then have "homes h (left_by h d gs) k = homes h gs k"
      using homes_left_by Cons.prems(2) by (simp add: removed_completely_def)
    then show ?thesis using Cons.IH [OF step] False unfolding met_skip [OF False] by (simp add: lists_def)
  next
    case True
    then obtain g1 where g1: "g1 \<in> set gs" "cg_id g1 = cg_id d" "k \<in> set (names_of h g1)"
      using Cons.prems(1) by (auto simp: deletable_def)
    let ?at = "filter (\<lambda>g. k \<in> set (names_of h g)) gs"
    have zero: "met_in h d k g = 0" if "k \<notin> set (names_of h g)" for g
      using that by (auto simp: met_in_def count_list_0_iff)
    have sum: "sum_list (map (met_in h d k) gs) = sum_list (map (met_in h d k) ?at)"
      using zero by (induction gs) auto
    have one: "1 \<le> met_in h d k g" if "k \<in> set (names_of h g)" for g
      using that True by (auto simp: met_in_def Suc_le_eq count_list_0_iff simp flip: neq0_conv)
    have ge: "homes h gs k \<le> sum_list (map (met_in h d k) gs)"
    proof (induction gs)
      case (Cons g gs)
      then show ?case using one [of g] by (fastforce simp: homes_def simp del: set_map)
    qed (simp add: homes_def)
    show ?thesis
    proof (cases "homes h gs k = 1")
      case True1: True
      then obtain g0 where at: "?at = [g0]" by (auto simp: homes_def length_Suc_conv)
      have "g1 \<in> set ?at" using g1 by simp
      then have g0: "g0 = g1" unfolding at by simp
      have "met_in h d k g1 = 1"
        using g1 True Cons.prems(3) by (auto simp: met_in_def count_list_distinct)
      then have s: "sum_list (map (met_in h d k) gs) = 1" unfolding sum at g0 by simp
      have "\<not> lists h ds k"
      proof
        assume "lists h ds k"
        then obtain d' g' where "g' \<in> set (left_by h d gs)" "k \<in> set (names_of h g')"
          using step(1) by (fastforce simp: lists_def deletable_def)
        with True left_by_names have "g' \<in> set gs" "cg_id g' \<noteq> cg_id d" "k \<in> set (names_of h g')" by blast+
        then have "g' \<in> set ?at" "g' \<noteq> g1" using g1(2) by auto
        then show False unfolding at g0 by simp
      qed
      then show ?thesis using s met_unlisted True True1 by (auto simp: lists_def)
    next
      case False
      have "g1 \<in> set ?at" using g1 by simp
      then have "homes h gs k \<noteq> 0" by (auto simp: homes_def filter_empty_conv)
      with False ge have "2 \<le> sum_list (map (met_in h d k) gs)" by simp
      then show ?thesis using False by simp
    qed
  qed
qed

text \<open>A contact that the difference names is not in the group any more.\<close>

lemma left_by_gone:
  assumes "g \<in> set (fold (left_by h) ds gs)" and "k \<in> set (names_of h g)" and "d \<in> set ds"
  shows "\<not> (cg_id d = cg_id g \<and> k \<in> set (names_of h d))"
  using assms(1,3)
proof (induction ds arbitrary: gs)
  case (Cons d' ds)
  show ?case
  proof (cases "d = d'")
    case True
    have "g \<in> set (fold (left_by h) ds (left_by h d gs))" using Cons.prems(1) True by simp
    from fold_left_by_names [OF this assms(2)] obtain g0
      where g0: "g0 \<in> set (left_by h d gs)" "cg_id g0 = cg_id g" "k \<in> set (names_of h g0)" by blast
    then show ?thesis using left_by_names [OF g0(1,3)] by metis
  next
    case False
    then show ?thesis using Cons.IH [of "left_by h d' gs"] Cons.prems by simp
  qed
qed simp

subsection \<open>A deletion keeps a list well formed\<close>

lemma merge_deleted:
  assumes "cl_wf h cl" and "merge_from_diff (ascii ''deleted'') diff removed h cl = (removed', h', cl')"
  shows "h' = h" "cl_groups cl' = fold (left_by h) (cl_groups diff) (cl_groups cl)"
    "cl_exist cl' k \<longleftrightarrow> cl_exist cl k \<and> met h (cl_groups diff) (cl_groups cl) k \<noteq> 1"
    "cl_ignorelist cl' = cl_ignorelist cl" "map_ok h (cl_contacts_index cl')" "map_ok h (cl_trusted_contacts cl')"
    "\<exists>left. removed' = removed @ left \<and> sorted_wrt (<) left \<and> set left = {k. met h (cl_groups diff) (cl_groups cl) k = 1}"
proof -
  obtain gs counts where d: "delete_groups_of h (cl_groups diff) (cl_groups cl) = (gs, counts)" by fastforce
  obtain cl1 removed1 where f: "fold forget_contact counts (cl\<lparr>cl_groups := gs\<rparr>, removed) = (cl1, removed1)" by fastforce
  have r: "h' = h" "removed' = removed1" "cl' = set_need_update_cache True (set_changed_status changed_full cl1)"
    using assms(2) d f by (simp_all add: merge_from_diff_def)
  have ord: "ordered (cl_contacts_index (cl\<lparr>cl_groups := gs\<rparr>))" using assms(1) by (simp add: cl_wf_def map_ok_def)
  note e = delete_groups_eq [OF _ d [unfolded delete_groups_of_def], simplified]
  note fc = forget_contacts_eq [OF _ ord f, where h = h]
  show "h' = h" by (rule r(1))
  show "cl_groups cl' = fold (left_by h) (cl_groups diff) (cl_groups cl)" "cl_ignorelist cl' = cl_ignorelist cl"
    "map_ok h (cl_contacts_index cl')" "map_ok h (cl_trusted_contacts cl')"
    using e fc assms(1) by (simp_all add: r(3) cl_wf_def)
  show "cl_exist cl' k \<longleftrightarrow> cl_exist cl k \<and> met h (cl_groups diff) (cl_groups cl) k \<noteq> 1"
    using e fc by (simp add: r(3) cl_exist_def)
  have k: "k \<in> fst ` {e \<in> set counts. snd e = 1} \<longleftrightarrow> hits counts k = 1" for k
    using e map_find_Some_iff [of counts k] by (force simp: hits_def split: option.splits)
  have "sorted_wrt (<) (map fst (filter (\<lambda>e. snd e = 1) counts))"
    using e by (auto simp: ordered_def sorted_wrt_map intro: sorted_wrt_filter)
  then show "\<exists>left. removed' = removed @ left \<and> sorted_wrt (<) left \<and> set left = {k. met h (cl_groups diff) (cl_groups cl) k = 1}"
    using e fc k by (intro exI [of _ "map fst (filter (\<lambda>e. snd e = 1) counts)"]) (auto simp: r(2))
qed

lemma merge_deleted_ok:
  assumes "cl_wf h cl" and "deletable h (cl_groups diff) (cl_groups cl)"
    and "merge_from_diff (ascii ''deleted'') diff removed h cl = (removed', h', cl')"
  shows "cl_wf h' cl'"
proof -
  note m = merge_deleted [OF assms(1,3)]
  have "group_ok h cl' g" if g: "g \<in> set (cl_groups cl')" for g
    unfolding group_ok_def
  proof
    fix a
    assume a: "a \<in> set (cg_buddies g)"
    obtain g0 where "g0 \<in> set (cl_groups cl)" "a \<in> set (cg_buddies g0)"
      using fold_left_by_origin [of g h] g a unfolding m(2) by blast
    then have "a < length (cs_buddies h) \<and> cl_exist cl (name_at h a)"
      using assms(1) by (auto simp: cl_wf_def group_ok_def)
    moreover have "met h (cl_groups diff) (cl_groups cl) (name_at h a) \<noteq> 1"
      using met_remaining [OF assms(2)] g a unfolding m(2) by simp
    ultimately show "a < length (cs_buddies h) \<and> cl_exist cl' (name_at h a)" using m(3) by simp
  qed
  then show ?thesis using m assms(1) by (simp add: cl_wf_def)
qed

subsection \<open>Reachable lists\<close>

text \<open>
  What happens to the list of an account: it is read from the file, replaced by the list of the
  server, changed by differences and events, and by the user.
\<close>

inductive reachable_list :: "cl_store \<Rightarrow> contactlist \<Rightarrow> bool" where
  start: "reachable_list \<lparr>cs_buddies = [], cs_buddy_id = 0, cs_diff_buddy_id = 0\<rparr> contactlist_new"
| load: "reachable_list h cl \<Longrightarrow> cl_unserialize j h cl = Some (h', cl') \<Longrightarrow> reachable_list h' cl'"
| server_list: "reachable_list h cl \<Longrightarrow> cl_unserialize j h contactlist_new = Some (h1, new) \<Longrightarrow>
    update_cl new h1 cl = (avatars, h', cl') \<Longrightarrow> reachable_list h' cl'"
| difference: "reachable_list h cl \<Longrightarrow> unserialize_from_diff j h contactlist_new = Some (h1, diff) \<Longrightarrow>
    (ty = ascii ''deleted'' \<longrightarrow> deletable h1 (cl_groups diff) (cl_groups cl)) \<Longrightarrow>
    merge_from_diff ty diff removed h1 cl = (removed', h', cl') \<Longrightarrow> reachable_list h' cl'"
| presence: "reachable_list h cl \<Longrightarrow> update_presence k p h cl = (h', cl') \<Longrightarrow> reachable_list h' cl'"
| trusted: "reachable_list h cl \<Longrightarrow> update_trusted k name al t h cl = (h', cl') \<Longrightarrow> reachable_list h' cl'"
| outgoing: "reachable_list h cl \<Longrightarrow> set_outgoing_msg_count k n h cl = (h', cl') \<Longrightarrow> reachable_list h' cl'"
| reset_outgoing: "reachable_list h cl \<Longrightarrow> reachable_list (reset_outgoing_counters h cl) cl"
| ignore: "reachable_list h cl \<Longrightarrow> reachable_list h (add_to_ignorelist k cl)"
| unignore: "reachable_list h cl \<Longrightarrow> reachable_list h (remove_from_ignorelist k cl)"
| ignorelist: "reachable_list h cl \<Longrightarrow> distinct ks \<Longrightarrow> reachable_list h (update_ignorelist ks cl)"

lemma merge_from_diff_ok:
  assumes "merge_from_diff ty diff removed h cl = (removed', h', cl')" and "cl_wf h cl" and "cl_wf h diff"
    and "ty = ascii ''deleted'' \<longrightarrow> deletable h (cl_groups diff) (cl_groups cl)"
  shows "cl_wf h' cl'"
proof -
  have addrs: "\<forall>d \<in> set (cl_groups diff). \<forall>a \<in> set (cg_buddies d). a < length (cs_buddies h)"
    using assms(3) by (auto simp: cl_wf_def group_ok_def)
  consider "ty = ascii ''created''" | "ty = ascii ''updated''" | "ty = ascii ''deleted''"
    | "ty \<noteq> ascii ''created''" "ty \<noteq> ascii ''updated''" "ty \<noteq> ascii ''deleted''" by blast
  then show ?thesis
  proof cases
    case 1
    then show ?thesis using assms(1) create_in_groups_ok [OF assms(2) addrs] by (auto simp: merge_from_diff_def)
  next
    case 2
    obtain h1 cl1 where f: "fold update_from_buddy (concat (map cg_buddies (cl_groups diff))) (h, cl) = (h1, cl1)" by fastforce
    then show ?thesis using assms(1) update_from_buddies_ok [OF f assms(2)] 2 by (auto simp: merge_from_diff_def)
  next
    case 3
    then show ?thesis using merge_deleted_ok assms(1,2,4) by simp
  next
    case 4
    then show ?thesis using assms(1,2) by (auto simp: merge_from_diff_def)
  qed
qed

lemma reachable_list_wf: "reachable_list h cl \<Longrightarrow> cl_wf h cl"
proof (induction rule: reachable_list.induct)
  case (load h cl j h' cl')
  then show ?case using cl_unserialize_ok by blast
next
  case (server_list h cl j h1 new avatars h' cl')
  then have "cl_wf h1 new" "cl_wf h1 cl"
    using cl_unserialize_ok cl_wf_new cl_wf_extends unfolding grown_def by blast+
  then show ?case using update_cl_ok server_list.hyps(3) by blast
next
  case (difference h cl j h1 diff ty removed removed' h' cl')
  then have "cl_wf h1 diff" "cl_wf h1 cl"
    using unserialize_from_diff_ok cl_wf_new cl_wf_extends unfolding grown_def by blast+
  then show ?case using merge_from_diff_ok difference.hyps(3,4) by blast
next
  case (presence h cl k p h' cl')
  then show ?case using update_presence_ok by blast
next
  case (trusted h cl k name al t h' cl')
  then show ?case using update_trusted_ok by blast
next
  case (outgoing h cl k n h' cl')
  then have "extends h h'" "cl_wf h' cl' = cl_wf h' cl"
    by (auto simp: set_outgoing_msg_count_def split: if_splits option.splits)
  then show ?case using outgoing.IH cl_wf_extends by blast
next
  case (reset_outgoing h cl)
  then show ?case using cl_wf_extends reset_outgoing_extends by blast
next
  case (ignore h cl k)
  then show ?case by (auto simp: add_to_ignorelist_def is_ignored_def cl_wf_def group_ok_def cl_exist_def)
next
  case (unignore h cl k)
  then show ?case by (auto simp: remove_from_ignorelist_def cl_wf_def group_ok_def cl_exist_def)
next
  case (ignorelist h cl ks)
  then show ?case by (auto simp: update_ignorelist_def cl_wf_def group_ok_def cl_exist_def)
qed simp

subsection \<open>A sample list\<close>

text \<open>Two groups; the first contact is in both.\<close>

definition sample_buddy_json :: "str \<Rightarrow> json" where
  "sample_buddy_json k = js_object [(ascii ''aimId'', js_string k), (ascii ''outgoingCount'', js_int 3)]"

definition sample_list_json :: json where
  "sample_list_json = js_object [(ascii ''groups'', js_array
     [js_object [(ascii ''id'', js_int 1), (ascii ''buddies'', js_array [sample_buddy_json [97], sample_buddy_json [98]])],
      js_object [(ascii ''id'', js_int 2), (ascii ''buddies'', js_array [sample_buddy_json [97]])]])]"

definition sample_buddy :: "u32w \<Rightarrow> str \<Rightarrow> cl_buddy" where
  "sample_buddy i k = \<lparr>cb_id = i, cb_aimid = k, cb_presence = cl_presence_new\<lparr>cp_outgoing_msg_count := 3\<rparr>\<rparr>"

definition start_store :: cl_store where
  "start_store = \<lparr>cs_buddies = [], cs_buddy_id = 0, cs_diff_buddy_id = 0\<rparr>"

definition sample_store :: cl_store where
  "sample_store = \<lparr>cs_buddies = [sample_buddy 1 [97], sample_buddy 2 [98], sample_buddy 3 [97]],
     cs_buddy_id = 3, cs_diff_buddy_id = 0\<rparr>"

definition sample_group :: "u32w \<Rightarrow> addr list \<Rightarrow> cl_group" where
  "sample_group i as = \<lparr>cg_id = i, cg_name = [], cg_buddies = as, cg_added = False, cg_removed = False\<rparr>"

definition sample_list :: contactlist where
  "sample_list = contactlist_new\<lparr>cl_groups := [sample_group 1 [0, 1], sample_group 2 [2]],
     cl_persons := [[97] \<mapsto> person_of_buddy (sample_buddy 1 [97]), [98] \<mapsto> person_of_buddy (sample_buddy 2 [98])],
     cl_contacts_index := [([97], 2), ([98], 1)]\<rparr>"

lemma member_Cons: "member ((ascii k, j) # ms) l = (if l = k then Some j else member ms l)"
  by (simp add: member_def)

lemma length_chat_domain: "length chat_domain = 11"
  by (simp add: chat_domain_def ascii_def)

lemma sample_parse: "k \<in> {[97], [98]} \<Longrightarrow> parse_buddy i (sample_buddy_json k) = Some (Some (sample_buddy i k))"
  by (auto simp: parse_buddy_def sample_buddy_json_def members_of_object_def unserialize_string_def member_Cons
    presence_unserialize_def unserialize_bool_def unserialize_int_def array_member_def or_old_def js_int32_def
    sample_buddy_def cl_presence_new_def is_chat_aimid_def length_chat_domain)

lemma sample_list_read:
  "cl_unserialize sample_list_json start_store contactlist_new = Some (sample_store, sample_list)"
proof -
  have less: "[97 :: byte] < [98]" "\<not> [98 :: byte] < [97]" by (simp_all add: Cons_less_Cons)
  show ?thesis
    using less
    by (simp add: cl_unserialize_def sample_list_json_def members_of_object_def array_member_def member_Cons
      unserialize_uint_def unserialize_string_def js_uint32_def or_old_def sample_parse start_store_def count_buddy_def
      next_buddy_id_def enter_buddy_def alloc_def index_buddy_def add_to_persons_def contactlist_new_def sample_store_def
      sample_list_def sample_group_def)
      (simp add: sample_buddy_def fun_eq_iff)
qed

lemma sample_list_simps [simp]:
  "buddy_at sample_store 0 = sample_buddy 1 [97]" "buddy_at sample_store 1 = sample_buddy 2 [98]"
  "buddy_at sample_store (Suc 0) = sample_buddy 2 [98]" "buddy_at sample_store 2 = sample_buddy 3 [97]"
  "cl_groups sample_list = [sample_group 1 [0, 1], sample_group 2 [2]]"
  "cl_contacts_index sample_list = [([97], 2), ([98], 1)]"
  "cl_ignorelist sample_list = []" "cb_aimid (sample_buddy i k) = k" "cp_capabilities (cb_presence (sample_buddy i k)) = []"
  "cg_buddies (sample_group j as) = as" "cg_id (sample_group j as) = j" "cg_removed (sample_group j as) = False"
  by (simp_all add: buddy_at_def sample_store_def sample_list_def contactlist_new_def sample_buddy_def
    cl_presence_new_def sample_group_def numeral_2_eq_2)

lemma sample_reachable: "reachable_list sample_store sample_list"
  using reachable_list.load [OF reachable_list.start] sample_list_read by (simp add: start_store_def)

text \<open>C7: In every state the contact list can reach, through files, lists and differences of the server
  whatever they hold, and changes by the user, the maps are ordered, an entry leads to the contact
  of that name, every member of a group is a contact that the index knows, and the list of ignored
  contacts has no duplicates; a deletion only has to name each group once and to name contacts
  that are in it.\<close>

theorem reachable_contact_list_valid:
  assumes "reachable_list h cl"
  shows "ordered (cl_contacts_index cl) \<and> ordered (cl_trusted_contacts cl) \<and> distinct (cl_ignorelist cl) \<and>
    (\<forall>k a. map_find (cl_contacts_index cl) k = Some a \<or> map_find (cl_trusted_contacts cl) k = Some a \<longrightarrow>
       a < length (cs_buddies h) \<and> cb_aimid (buddy_at h a) = k) \<and>
    (\<forall>g \<in> set (cl_groups cl). \<forall>a \<in> set (cg_buddies g).
       a < length (cs_buddies h) \<and> cl_exist cl (cb_aimid (buddy_at h a)))"
proof -
  have wf: "map_ok h (cl_contacts_index cl)" "map_ok h (cl_trusted_contacts cl)" "distinct (cl_ignorelist cl)"
    "\<forall>g \<in> set (cl_groups cl). group_ok h cl g"
    using reachable_list_wf [OF assms] by (simp_all add: cl_wf_def)
  then have "ordered (cl_contacts_index cl)" "ordered (cl_trusted_contacts cl)" by (simp_all add: map_ok_def)
  then show ?thesis using wf(3,4) map_ok_find [OF wf(1)] map_ok_find [OF wf(2)] unfolding group_ok_def by blast
qed

theorem reachable_contact_list_valid_witness:
  "distinct (cl_ignorelist sample_list) \<and> cl_exist sample_list [97]"
proof -
  note v = reachable_contact_list_valid [OF sample_reachable]
  have "\<forall>a \<in> set (cg_buddies (sample_group 2 [2])). cl_exist sample_list (cb_aimid (buddy_at sample_store a))"
    using v by (simp del: sample_list_simps(10))
  then show ?thesis using v by simp
qed

text \<open>C12: Who is deleted from the groups leaves the list just when he was in one group only: with members
  that are distinct within a group, and a deletion that names each group once, contacts that are in
  it, and all contacts of a group that goes, a contact is forgotten and reported exactly when it
  was deleted and had a single group; so one that is deleted from all of its several groups at once
  stays in the index, in no group.\<close>

theorem deleted_contact_leaves_iff:
  assumes "reachable_list h cl" and "\<forall>g \<in> set (cl_groups cl). distinct (names_of h g)"
    and "deletable h (cl_groups diff) (cl_groups cl)" and "removed_completely h (cl_groups diff) (cl_groups cl)"
    and "merge_from_diff (ascii ''deleted'') diff [] h cl = (removed, h', cl')"
  shows "(\<forall>k. cl_exist cl' k \<longleftrightarrow> cl_exist cl k \<and> \<not> (lists h (cl_groups diff) k \<and> homes h (cl_groups cl) k = 1)) \<and>
    sorted_wrt (<) removed \<and> set removed = {k. lists h (cl_groups diff) k \<and> homes h (cl_groups cl) k = 1} \<and>
    (\<forall>g \<in> set (cl_groups cl'). \<forall>k \<in> set (names_of h g). cl_exist cl' k \<and>
       \<not> (\<exists>d \<in> set (cl_groups diff). cg_id d = cg_id g \<and> k \<in> set (names_of h d)))"
proof -
  have wf: "cl_wf h cl" by (rule reachable_list_wf [OF assms(1)])
  note m = merge_deleted [OF wf assms(5)] and once = met_once_iff [OF assms(3,4,2)]
  have "cl_wf h cl'" using merge_deleted_ok [OF wf assms(3,5)] m(1) by simp
  then have "\<forall>g \<in> set (cl_groups cl'). \<forall>k \<in> set (names_of h g). cl_exist cl' k"
    by (auto simp: cl_wf_def group_ok_def)
  moreover have "\<not> (cg_id d = cg_id g \<and> k \<in> set (names_of h d))"
    if "g \<in> set (cl_groups cl')" "k \<in> set (names_of h g)" "d \<in> set (cl_groups diff)" for g k d
    using left_by_gone that unfolding m(2) by blast
  ultimately show ?thesis using m(3,7) once by (simp del: set_map)
qed

theorem deleted_contact_leaves_iff_witness:
  "\<exists>removed h' cl'. merge_from_diff (ascii ''deleted'') (contactlist_new\<lparr>cl_groups := cl_groups sample_list\<rparr>) []
       sample_store sample_list = (removed, h', cl') \<and>
     set removed = {[98]} \<and> \<not> cl_exist cl' [98] \<and> cl_exist cl' [97]"
proof -
  let ?diff = "contactlist_new\<lparr>cl_groups := cl_groups sample_list\<rparr>"
  obtain removed h' cl' where m: "merge_from_diff (ascii ''deleted'') ?diff [] sample_store sample_list = (removed, h', cl')"
    by (metis prod_cases3)
  have g: "cl_groups ?diff = [sample_group 1 [0, 1], sample_group 2 [2]]" by simp
  have ok: "\<forall>g \<in> set (cl_groups sample_list). distinct (names_of sample_store g)"
    "deletable sample_store (cl_groups ?diff) (cl_groups sample_list)"
    "removed_completely sample_store (cl_groups ?diff) (cl_groups sample_list)"
    unfolding g by (simp_all add: deletable_def removed_completely_def)
  have h': "h' = sample_store" using merge_deleted(1) [OF reachable_list_wf [OF sample_reachable] m] .
  have listed: "lists sample_store (cl_groups ?diff) k \<and> homes sample_store (cl_groups sample_list) k = 1 \<longleftrightarrow> k = [98]" for k
    unfolding g by (auto simp: lists_def homes_def)
  note d = deleted_contact_leaves_iff [OF sample_reachable ok m, unfolded listed]
  have "cl_exist sample_list [97]" "cl_exist sample_list [98]" by (simp_all add: cl_exist_def map_find_def)
  then show ?thesis using d m by auto
qed

subsection \<open>Writing and reading\<close>

lemma insert_capabilities_sorted:
  "sorted_wrt (<) (acc @ cs) \<Longrightarrow> insert_capabilities (map js_string cs) acc = Some (acc @ cs)"
proof (induction cs arbitrary: acc)
  case (Cons c cs)
  have "\<forall>x \<in> set acc. x < c" "sorted acc" using Cons.prems by (auto simp: sorted_wrt_append strict_sorted_imp_sorted)
  then have "insort_insert c acc = acc @ [c]"
    by (induction acc) (auto simp: insort_insert_key_def sorted_wrt_append)
  then show ?case using Cons.IH [of "acc @ [c]"] Cons.prems by simp
qed simp

definition presence_stored :: "str \<Rightarrow> cl_presence \<Rightarrow> cl_presence" where
  "presence_stored aimid p = p\<lparr>cp_search_cache := search_cache_new, cp_is_chat := is_chat_aimid aimid,
     cp_public := (cp_is_chat p \<and> cp_public p), cp_is_channel := (cp_is_chat p \<and> cp_is_channel p)\<rparr>"

lemma int_range_i32: "- (2 ^ 31) \<le> sint (x :: i32w)" "sint (x :: i32w) < 2 ^ 31"
  using sint_range_size [of x] by (simp_all add: word_size)

lemma js_values [simp]: "js_int32 (js_int (sint x)) = Some x" "js_uint32 (js_int (uint y)) = Some y"
  using int_range_i32 [of x] uint_range_size [of y] by (auto simp: js_int32_def js_uint32_def word_size)

lemma member_if_add:
  "member (if b then add_member k j ms else ms) l =
     (case member ms l of Some x \<Rightarrow> Some x | None \<Rightarrow> if b \<and> k = l then Some j else None)"
  "member (if b then add_member k2 j2 (add_member k j ms) else ms) l =
     (case member ms l of Some x \<Rightarrow> Some x | None \<Rightarrow> if b \<and> k = l then Some j else if b \<and> k2 = l then Some j2 else None)"
  by (simp_all split: option.splits)

lemma presence_members:
  fixes p a
  defines "ms \<equiv> presence_serialize p (add_member ''aimId'' (js_string a) [])"
  shows "member ms ''aimId'' = Some (js_string a)" 
    "member ms ''state'' = Some (js_string (cp_state p))"
    "member ms ''userType'' = Some (js_string (cp_usertype p))"
    "member ms ''statusMsg'' = Some (js_string (cp_status_msg p))"
    "member ms ''otherNumber'' = Some (js_string (cp_other_number p))"
    "member ms ''smsNumber'' = Some (js_string (cp_sms_number p))"
    "member ms ''friendly'' = Some (js_string (cp_friendly p))"
    "member ms ''nick'' = (if cp_nick p = [] then None else Some (js_string (cp_nick p)))"
    "member ms ''abContactName'' = Some (js_string (cp_ab_contact_name p))"
    "member ms ''iconId'' = Some (js_string (cp_icon_id p))"
    "member ms ''bigIconId'' = Some (js_string (cp_big_icon_id p))"
    "member ms ''largeIconId'' = Some (js_string (cp_large_icon_id p))"
    "member ms ''official'' = Some (js_flag (cp_official p))"
    "member ms ''livechat'' = Some (js_flag (cp_is_live_chat p))"
    "member ms ''public'' = (if cp_is_chat p then Some (js_flag (cp_public p)) else None)"
    "member ms ''readonly'' = (if cp_is_chat p then Some (js_flag (cp_is_channel p)) else None)"
    "member ms ''deleted'' = Some (js_bool (cp_deleted p))"
    "member ms ''mute'' = Some (js_bool (cp_muted p))"
    "member ms ''lastseen'' = Some (js_int (sint (cp_lastseen p)))"
    "member ms ''outgoingCount'' = Some (js_int (sint (cp_outgoing_msg_count p)))"
    "member ms ''autoAddition'' = (if cp_auto_added p then Some (js_string (ascii ''autoAddSaved'')) else None)"
    "member ms ''capabilities'' = (if cp_capabilities p = [] then None else Some (js_array (map js_string (cp_capabilities p))))"
  unfolding ms_def presence_serialize_def Let_def by (simp_all add: member_if_add split del: if_split) (simp_all split: if_splits)

lemma unserialize_bool_js:
  "member ms k = Some (js_bool b) \<Longrightarrow> unserialize_bool ms k = Some b"
  "member ms k = Some (js_flag b) \<Longrightarrow> unserialize_bool ms k = Some b"
  "member ms k = None \<Longrightarrow> unserialize_bool ms k = None"
  by (simp_all add: unserialize_bool_def js_flag_def)

lemma presence_round_trip:
  assumes "sorted_wrt (<) (cp_capabilities p)"
  shows "map_option (\<lambda>q. if is_chat_aimid aimid then q\<lparr>cp_is_chat := True\<rparr> else q)
      (presence_unserialize (presence_serialize p (add_member ''aimId'' (js_string a) [])) cl_presence_new) =
    Some (presence_stored aimid p)"
proof -
  define ms where "ms = presence_serialize p (add_member ''aimId'' (js_string a) [])"
  note m = presence_members [of p a, folded ms_def]
  have caps: "(case array_member ms ''capabilities'' of Some js \<Rightarrow> insert_capabilities js [] | None \<Rightarrow> Some []) =
      Some (cp_capabilities p)"
    using insert_capabilities_sorted [of "[]" "cp_capabilities p"] assms by (simp add: array_member_def m)
  have flags: "unserialize_bool ms ''public'' = (if cp_is_chat p then Some (cp_public p) else None)"
    "unserialize_bool ms ''readonly'' = (if cp_is_chat p then Some (cp_is_channel p) else None)"
    using m(15,16) by (simp_all add: unserialize_bool_js split: if_splits)
  have none: "cp_capabilities cl_presence_new = []" by (simp add: cl_presence_new_def)
  have "presence_unserialize ms cl_presence_new = Some (p\<lparr>cp_search_cache := search_cache_new, cp_is_chat := False,
      cp_public := (cp_is_chat p \<and> cp_public p), cp_is_channel := (cp_is_chat p \<and> cp_is_channel p)\<rparr>)"
    unfolding presence_unserialize_def none caps option.map option.inject
    by (intro cl_presence.equality) (simp_all add: m flags unserialize_bool_js unserialize_string_def unserialize_int_def
      or_old_def cl_presence_new_def ascii_def)
  then show ?thesis by (simp add: ms_def presence_stored_def)
qed

text \<open>What is stored of a contact, and how a group is seen through a store.\<close>

definition buddy_view :: "cl_store \<Rightarrow> addr \<Rightarrow> str \<times> cl_presence" where
  "buddy_view h a = (cb_aimid (buddy_at h a), presence_at h a)"

definition stored_view :: "cl_store \<Rightarrow> addr \<Rightarrow> str \<times> cl_presence" where
  "stored_view h a = (cb_aimid (buddy_at h a), presence_stored (cb_aimid (buddy_at h a)) (presence_at h a))"

definition group_view :: "(addr \<Rightarrow> 'a) \<Rightarrow> cl_group \<Rightarrow> u32w \<times> str \<times> 'a list" where
  "group_view f g = (cg_id g, cg_name g, map f (cg_buddies g))"

lemma parse_buddy_json:
  assumes "sorted_wrt (<) (cp_capabilities (presence_at h a))"
  shows "parse_buddy i (buddy_json h a) = Some (Some \<lparr>cb_id = i, cb_aimid = cb_aimid (buddy_at h a),
    cb_presence = presence_stored (cb_aimid (buddy_at h a)) (presence_at h a)\<rparr>)"
proof -
  let ?n = "cb_aimid (buddy_at h a)" and ?p = "presence_at h a"
  obtain q where "presence_unserialize (presence_serialize ?p (add_member ''aimId'' (js_string ?n) [])) cl_presence_new = Some q"
    "(if is_chat_aimid ?n then q\<lparr>cp_is_chat := True\<rparr> else q) = presence_stored ?n ?p"
    using presence_round_trip [OF assms, of ?n ?n] by auto
  then show ?thesis
    by (simp add: parse_buddy_def buddy_json_def members_of_object_def unserialize_string_def presence_members)
qed

text \<open>What the index finds.\<close>

definition index_view :: "cl_store \<Rightarrow> contactlist \<Rightarrow> str \<Rightarrow> cl_presence option" where
  "index_view h cl k = map_option (presence_at h) (get_presence cl k)"

lemma enter_buddy_view:
  assumes "enter_buddy b (h, cl) = (a, h1, cl1)" and "cl_wf h cl"
  shows "a = length (cs_buddies h)" "length (cs_buddies h1) = Suc a" "buddy_at h1 a = b"
    "c < a \<Longrightarrow> buddy_at h1 c = buddy_at h c" "cl_groups cl1 = cl_groups cl" "cl_ignorelist cl1 = cl_ignorelist cl"
    "index_view h1 cl1 = (index_view h cl)(cb_aimid b \<mapsto> cb_presence b)"
proof -
  obtain a1 h2 where al: "alloc b h = (a1, h2)" by fastforce
  with assms(1) have e: "a1 = a" "h2 = h1" "cl1 = index_buddy (cb_aimid b) a (add_to_persons b cl)"
    by (auto simp: enter_buddy_def)
  note al = alloc_simps [OF al [unfolded e]]
  show "a = length (cs_buddies h)" "length (cs_buddies h1) = Suc a" "buddy_at h1 a = b"
    "c < a \<Longrightarrow> buddy_at h1 c = buddy_at h c" "cl_groups cl1 = cl_groups cl" "cl_ignorelist cl1 = cl_ignorelist cl"
    using al e by simp_all
  have ok: "map_ok h (cl_contacts_index cl)" using assms(2) by (simp add: cl_wf_def)
  then have "presence_at h1 c = presence_at h c" if "map_find (cl_contacts_index cl) k = Some c" for k c
    using map_ok_find [OF ok that] al(1,4) by (simp add: presence_at_def)
  moreover have "ordered (cl_contacts_index cl)" using ok by (simp add: map_ok_def)
  ultimately show "index_view h1 cl1 = (index_view h cl)(cb_aimid b \<mapsto> cb_presence b)"
    using al(3) by (auto simp: fun_eq_iff index_view_def get_presence_def e find_put presence_at_def split: option.splits
      intro!: option.map_cong0)
qed

lemma presence_count: "presence_at (count_buddy diff named h) = presence_at h"
  by (simp add: fun_eq_iff presence_at_def)

lemma read_buddies_json:
  assumes "\<forall>a \<in> set as. sorted_wrt (<) (cp_capabilities (presence_at h a))" and "cl_wf h2 cl2" and "addrs_ok h2 cl2 acc"
  shows "\<exists>as' h' cl'. read_buddies False (map (buddy_json h) as) acc h2 cl2 = Some (acc @ as', h', cl') \<and>
    map (buddy_view h') as' = map (stored_view h) as \<and> length (cs_buddies h2) \<le> length (cs_buddies h') \<and>
    (\<forall>a < length (cs_buddies h2). buddy_at h' a = buddy_at h2 a) \<and> cl_groups cl' = cl_groups cl2 \<and>
    cl_ignorelist cl' = cl_ignorelist cl2 \<and> index_view h' cl' = index_view h2 cl2 ++ map_of (rev (map (stored_view h) as))"
  using assms
proof (induction as arbitrary: acc h2 cl2)
  case (Cons a as)
  let ?n = "name_at h a"
  define b where "b = \<lparr>cb_id = next_buddy_id False h2, cb_aimid = ?n, cb_presence = presence_stored ?n (presence_at h a)\<rparr>"
  have p: "parse_buddy (next_buddy_id False h2) (buddy_json h a) = Some (Some b)"
    using parse_buddy_json Cons.prems(1) by (simp add: b_def)
  let ?h2 = "count_buddy False True h2"
  obtain a1 h1 cl1 where e: "enter_buddy b (?h2, cl2) = (a1, h1, cl1)" by (metis prod_cases3)
  have wf2: "cl_wf ?h2 cl2" using Cons.prems(2) by simp
  note ok = enter_buddy_ok [OF e wf2] and v = enter_buddy_view [OF e wf2]
  have iv: "index_view ?h2 cl2 = index_view h2 cl2"
    by (simp add: fun_eq_iff index_view_def presence_count)
  have "addrs_ok ?h2 cl2 acc" using Cons.prems(3) by simp
  from addrs_ok_grown [OF this ok(2)] have "addrs_ok h1 cl1 (acc @ [a1])"
    using ok(3-5) by (simp add: addrs_ok_def ball_Un)
  from Cons.IH [OF _ ok(1) this] Cons.prems(1) obtain as' h' cl' where
    r: "read_buddies False (map (buddy_json h) as) (acc @ [a1]) h1 cl1 = Some ((acc @ [a1]) @ as', h', cl')"
    "map (buddy_view h') as' = map (stored_view h) as" "length (cs_buddies h1) \<le> length (cs_buddies h')"
    "\<forall>a < length (cs_buddies h1). buddy_at h' a = buddy_at h1 a" "cl_groups cl' = cl_groups cl1"
    "cl_ignorelist cl' = cl_ignorelist cl1" "index_view h' cl' = index_view h1 cl1 ++ map_of (rev (map (stored_view h) as))"
    by fastforce
  have "buddy_view h' a1 = stored_view h a"
    using r(4) v(2,3) by (simp add: buddy_view_def stored_view_def presence_at_def b_def)
  moreover have "stored_view h a = (cb_aimid b, cb_presence b)" by (simp add: stored_view_def b_def)
  ultimately show ?case
    using r v iv p e by (intro exI [of _ "a1 # as'"] exI [of _ h'] exI [of _ cl']) simp
qed simp

definition views_of :: "cl_store \<Rightarrow> cl_group list \<Rightarrow> (str \<times> cl_presence) list" where
  "views_of h gs = concat (map (\<lambda>g. map (stored_view h) (cg_buddies g)) gs)"

lemma group_view_kept:
  assumes "\<forall>a < n. buddy_at h' a = buddy_at h1 a" and "\<forall>a \<in> set (cg_buddies g). a < n"
  shows "group_view (buddy_view h') g = group_view (buddy_view h1) g"
  using assms by (simp add: group_view_def buddy_view_def presence_at_def)

lemma read_groups_json:
  assumes "\<forall>g \<in> set gs. \<forall>a \<in> set (cg_buddies g). sorted_wrt (<) (cp_capabilities (presence_at h a))" and "cl_wf h2 cl2"
  shows "\<exists>h' cl'. read_groups False (map (group_json h) gs) h2 cl2 = Some (h', cl') \<and>
    length (cs_buddies h2) \<le> length (cs_buddies h') \<and> (\<forall>a < length (cs_buddies h2). buddy_at h' a = buddy_at h2 a) \<and>
    map (group_view (buddy_view h')) (cl_groups cl') =
      map (group_view (buddy_view h2)) (cl_groups cl2) @ map (group_view (stored_view h)) gs \<and>
    cl_ignorelist cl' = cl_ignorelist cl2 \<and> index_view h' cl' = index_view h2 cl2 ++ map_of (rev (views_of h gs))"
  using assms
proof (induction gs arbitrary: h2 cl2)
  case (Cons g gs)
  obtain as h1 cl1 where r: "read_buddies False (map (buddy_json h) (cg_buddies g)) [] h2 cl2 = Some (as, h1, cl1)"
    "map (buddy_view h1) as = map (stored_view h) (cg_buddies g)" "length (cs_buddies h2) \<le> length (cs_buddies h1)"
    "\<forall>a < length (cs_buddies h2). buddy_at h1 a = buddy_at h2 a" "cl_groups cl1 = cl_groups cl2"
    "cl_ignorelist cl1 = cl_ignorelist cl2"
    "index_view h1 cl1 = index_view h2 cl2 ++ map_of (rev (map (stored_view h) (cg_buddies g)))"
    using read_buddies_json [of "cg_buddies g" h h2 cl2 "[]"] Cons.prems by (auto simp: addrs_ok_def)
  define g' where "g' = \<lparr>cg_id = cg_id g, cg_name = cg_name g, cg_buddies = as, cg_added = False, cg_removed = False\<rparr>"
  let ?cl = "cl1\<lparr>cl_groups := cl_groups cl1 @ [g']\<rparr>"
  have ok: "cl_wf h1 cl1" "grown h2 cl2 h1 cl1" "addrs_ok h1 cl1 as"
    using read_buddies_ok [OF r(1) Cons.prems(2)] by (simp_all add: addrs_ok_def)
  then have wf: "cl_wf h1 ?cl"
    by (auto simp: cl_wf_def group_ok_def addrs_ok_def cl_exist_def g'_def)
  obtain h' cl' where t: "read_groups False (map (group_json h) gs) h1 ?cl = Some (h', cl')"
    "length (cs_buddies h1) \<le> length (cs_buddies h')" "\<forall>a < length (cs_buddies h1). buddy_at h' a = buddy_at h1 a"
    "map (group_view (buddy_view h')) (cl_groups cl') =
      map (group_view (buddy_view h1)) (cl_groups ?cl) @ map (group_view (stored_view h)) gs"
    "cl_ignorelist cl' = cl_ignorelist ?cl" "index_view h' cl' = index_view h1 ?cl ++ map_of (rev (views_of h gs))"
    using Cons.IH [OF _ wf] Cons.prems(1) by fastforce
  have step: "read_groups False (map (group_json h) (g # gs)) h2 cl2 = Some (h', cl')"
    using r(1) t(1)
    by (simp add: group_json_def members_of_object_def unserialize_uint_def unserialize_string_def array_member_def
      or_old_def g'_def)
  have g': "group_view (buddy_view h1) g' = group_view (stored_view h) g"
    using r(2) by (simp add: group_view_def g'_def)
  have old: "map (group_view (buddy_view h1)) (cl_groups cl2) = map (group_view (buddy_view h2)) (cl_groups cl2)"
    using group_view_kept [OF r(4)] Cons.prems(2) by (auto simp: cl_wf_def group_ok_def)
  have iv: "index_view h1 ?cl = index_view h1 cl1" by (simp add: fun_eq_iff index_view_def get_presence_def)
  have "index_view h' cl' = index_view h2 cl2 ++ map_of (rev (views_of h (g # gs)))"
    using t(6) r(7) by (simp add: iv views_of_def map_add_assoc)
  then show ?case
    using step t(2-5) r(3-6) g' old by (intro exI [of _ h'] exI [of _ cl']) simp
qed (simp add: views_of_def)

lemma read_ignored_json:
  "distinct (acc @ ks) \<Longrightarrow>
     read_ignored (map (\<lambda>aimid. js_object (add_member ''aimId'' (js_string aimid) [])) ks) acc = Some (acc @ ks)"
  by (induction ks arbitrary: acc) (auto simp: members_of_object_def unserialize_string_def)

text \<open>C10: The contact list survives a restart: what was written is read back into an empty list with the same
  groups in the same order, every contact with all that is stored of it (the search cache is
  recomputed, whether it is a chat follows from its identifier, and only chats have the public and
  channel flags), the same ignored contacts, and an index that finds for every identifier the last
  of its copies in the groups, and nothing else.\<close>

theorem contact_list_survives_restart:
  assumes "\<forall>g \<in> set (cl_groups cl). \<forall>a \<in> set (cg_buddies g). sorted_wrt (<) (cp_capabilities (presence_at h a))"
    and "distinct (cl_ignorelist cl)"
  shows "\<exists>h' cl'. cl_unserialize (js_object (cl_serialize h cl [])) h2 contactlist_new = Some (h', cl') \<and>
    map (group_view (buddy_view h')) (cl_groups cl') = map (group_view (stored_view h)) (cl_groups cl) \<and>
    cl_ignorelist cl' = cl_ignorelist cl \<and>
    (\<forall>k. index_view h' cl' k = map_of (rev (views_of h (cl_groups cl))) k)"
proof -
  obtain h' cl' where r: "read_groups False (map (group_json h) (cl_groups cl)) h2 contactlist_new = Some (h', cl')"
    "map (group_view (buddy_view h')) (cl_groups cl') =
      map (group_view (buddy_view h2)) (cl_groups contactlist_new) @ map (group_view (stored_view h)) (cl_groups cl)"
    "cl_ignorelist cl' = cl_ignorelist contactlist_new"
    "index_view h' cl' = index_view h2 contactlist_new ++ map_of (rev (views_of h (cl_groups cl)))"
    using read_groups_json [OF assms(1) cl_wf_new] by blast
  have new: "cl_groups contactlist_new = []" "cl_ignorelist contactlist_new = []" "index_view h2 contactlist_new = Map.empty"
    by (simp_all add: contactlist_new_def fun_eq_iff index_view_def get_presence_def map_find_def)
  have "cl_unserialize (js_object (cl_serialize h cl [])) h2 contactlist_new =
      Some (h', cl'\<lparr>cl_ignorelist := cl_ignorelist cl\<rparr>)"
    using r(1,3) read_ignored_json [of "[]" "cl_ignorelist cl"] assms(2)
    by (simp add: cl_unserialize_def cl_serialize_def members_of_object_def array_member_def new)
  then show ?thesis
    using r(2,4) by (intro exI [of _ h'] exI [of _ "cl'\<lparr>cl_ignorelist := cl_ignorelist cl\<rparr>"])
      (simp add: new index_view_def get_presence_def fun_eq_iff)
qed

theorem contact_list_survives_restart_witness:
  "\<exists>h' cl'. cl_unserialize (js_object (cl_serialize sample_store sample_list [])) start_store contactlist_new = Some (h', cl') \<and>
     map (\<lambda>g. map (name_at h') (cg_buddies g)) (cl_groups cl') = [[[97], [98]], [[97]]]"
proof -
  have "\<forall>g \<in> set (cl_groups sample_list). \<forall>a \<in> set (cg_buddies g). sorted_wrt (<) (cp_capabilities (presence_at sample_store a))"
    "distinct (cl_ignorelist sample_list)"
    by (simp_all add: presence_at_def)
  from contact_list_survives_restart [OF this, of start_store] obtain h' cl' where
    r: "cl_unserialize (js_object (cl_serialize sample_store sample_list [])) start_store contactlist_new = Some (h', cl')"
    "map (group_view (buddy_view h')) (cl_groups cl') = map (group_view (stored_view sample_store)) (cl_groups sample_list)"
    by blast
  have names: "map fst (snd (snd (group_view (buddy_view h') g))) = map (name_at h') (cg_buddies g)" for g
    by (simp add: group_view_def buddy_view_def)
  from r(2) have "map (\<lambda>v. map fst (snd (snd v))) (map (group_view (buddy_view h')) (cl_groups cl')) =
      map (\<lambda>v. map fst (snd (snd v))) (map (group_view (stored_view sample_store)) (cl_groups sample_list))" by (rule arg_cong)
  then have "map (\<lambda>g. map (name_at h') (cg_buddies g)) (cl_groups cl') = [[[97], [98]], [[97]]]"
    by (simp add: comp_def names) (simp add: group_view_def stored_view_def)
  with r(1) show ?thesis by (intro exI [of _ h'] exI [of _ cl']) simp
qed

subsection \<open>A list of the server replaces the cached one\<close>

definition with_out_count :: "i32w option \<Rightarrow> cl_presence \<Rightarrow> cl_presence" where
  "with_out_count n p = (case n of Some m \<Rightarrow> p\<lparr>cp_outgoing_msg_count := m\<rparr> | None \<Rightarrow> p)"

lemma fold_keep_out_count:
  assumes "distinct (map snd es)" and "\<forall>e \<in> set es. snd e < length (cs_buddies h)"
  shows "(\<forall>(k, a) \<in> set es. presence_at (fold (keep_out_count counts) es h) a = with_out_count (counts k) (presence_at h a)) \<and>
    (\<forall>a < length (cs_buddies h). a \<notin> snd ` set es \<longrightarrow> presence_at (fold (keep_out_count counts) es h) a = presence_at h a)"
  using assms
proof (induction es arbitrary: h)
  case (Cons e es)
  obtain k a where e: "e = (k, a)" by fastforce
  let ?h = "keep_out_count counts (k, a) h"
  have len: "length (cs_buddies ?h) = length (cs_buddies h)" by (simp add: keep_out_count_def split: option.splits)
  have at: "presence_at ?h b = (if b = a then with_out_count (counts k) (presence_at h a) else presence_at h b)"
    if "b < length (cs_buddies h)" for b
    using that by (auto simp: keep_out_count_def with_out_count_def presence_set_presence split: option.splits)
  have a: "a < length (cs_buddies h)" "a \<notin> snd ` set es" using Cons.prems by (simp_all add: e)
  have d: "distinct (map snd es)" and d2: "\<forall>e \<in> set es. snd e < length (cs_buddies ?h)"
    using Cons.prems by (simp_all add: len)
  note ih = Cons.IH [OF d d2]
  have "presence_at (fold (keep_out_count counts) es ?h) a = presence_at ?h a" using ih a len by simp
  moreover have "presence_at ?h b = presence_at h b" if "(c, b) \<in> set es" for c b
  proof -
    have "b < length (cs_buddies h)" using d2 that len by (metis snd_conv)
    moreover have "b \<noteq> a" using a(2) that by force
    ultimately show ?thesis by (simp add: at)
  qed
  ultimately show ?case using ih at a len by (auto simp: e)
qed simp

text \<open>C23: The list that the server sends replaces the groups and the index of the cached one, and nothing that
  only the client knows is lost: a contact of the new index is as the server sent it, except that
  the counter of outgoing messages is the one it had; and the avatars that are reported are those of
  the contacts that were removed or whose icons changed, or all if nothing was cached.\<close>

theorem server_list_keeps_counters:
  assumes "reachable_list h cl" and "cl_unserialize j h contactlist_new = Some (h1, new)"
    and "update_cl new h1 cl = (avatars, h', cl')"
  shows "cl_groups cl' = cl_groups new \<and>
    (\<forall>k. index_view h' cl' k = map_option (with_out_count (map_option cp_outgoing_msg_count (index_view h1 cl k))) (index_view h1 new k)) \<and>
    set avatars = (if cl_is_empty cl then {k. index_view h1 new k \<noteq> None}
      else {k. \<exists>p. index_view h1 cl k = Some p \<and> (\<forall>q. index_view h1 new k = Some q \<longrightarrow> \<not> are_icons_equal p q)}) \<and>
    cl_persons cl' = cl_persons cl \<and> cl_ignorelist cl' = cl_ignorelist cl"
proof -
  have wf: "cl_wf h1 new" "cl_wf h1 cl"
    using cl_unserialize_ok [OF assms(2) cl_wf_new] cl_wf_extends [OF reachable_list_wf [OF assms(1)]]
    by (simp_all add: grown_def)
  then have ok: "map_ok h1 (cl_contacts_index new)" "map_ok h1 (cl_contacts_index cl)" by (simp_all add: cl_wf_def)
  let ?new = "cl_contacts_index new" and ?old = "cl_contacts_index cl"
  have ord: "ordered ?new" "ordered ?old" using ok by (simp_all add: map_ok_def)
  have "inj_on snd (set ?new)"
  proof (rule inj_onI)
    fix e f
    assume ef: "e \<in> set ?new" "f \<in> set ?new" "snd e = snd f"
    have name: "fst x = name_at h1 (snd x)" if "x \<in> set ?new" for x using ok(1) that by (auto simp: map_ok_def)
    show "e = f" using name [OF ef(1)] name [OF ef(2)] ef(3) by (simp add: prod_eq_iff)
  qed
  moreover have "distinct ?new"
    using ord(1) by (auto simp: ordered_def strict_sorted_iff distinct_map)
  ultimately have "distinct (map snd ?new)" by (simp add: distinct_map)
  moreover have "\<forall>e \<in> set ?new. snd e < length (cs_buddies h1)" using ok(1) by (auto simp: map_ok_def)
  ultimately have fold: "\<forall>(k, a) \<in> set ?new. presence_at h' a = with_out_count (out_counts h1 cl k) (presence_at h1 a)"
    using fold_keep_out_count [of ?new h1 "out_counts h1 cl"] assms(3) by (auto simp: update_cl_def)
  have r: "cl_groups cl' = cl_groups new" "cl_contacts_index cl' = ?new" "cl_persons cl' = cl_persons cl"
    "cl_ignorelist cl' = cl_ignorelist cl" "avatars = avatar_updates h1 new cl"
    using assms(3) by (auto simp: update_cl_def)
  have "index_view h' cl' k =
      map_option (with_out_count (map_option cp_outgoing_msg_count (index_view h1 cl k))) (index_view h1 new k)" for k
    using fold map_find_Some_iff [OF ord(1), of k]
    by (cases "map_find ?new k")
      (auto simp: index_view_def get_presence_def r out_counts_def option.map_comp comp_def)
  moreover have "set avatars = (if cl_is_empty cl then {k. index_view h1 new k \<noteq> None}
      else {k. \<exists>p. index_view h1 cl k = Some p \<and> (\<forall>q. index_view h1 new k = Some q \<longrightarrow> \<not> are_icons_equal p q)})"
  proof (cases "cl_is_empty cl")
    case True
    then show ?thesis using map_find_Some_iff [OF ord(1)]
      by (force simp: r avatar_updates_def cl_is_empty_def index_view_def get_presence_def)
  next
    case False
    have "k \<in> set avatars \<longleftrightarrow> (\<exists>a. (k, a) \<in> set ?old \<and> (case map_find ?new k of
        Some b \<Rightarrow> \<not> are_icons_equal (presence_at h1 a) (presence_at h1 b) | None \<Rightarrow> True))" for k
      using False by (force simp: r avatar_updates_def cl_is_empty_def)
    then show ?thesis using False
      by (auto simp: map_find_Some_iff [OF ord(2), symmetric] index_view_def get_presence_def split: option.splits)
  qed
  ultimately show ?thesis using r by simp
qed

theorem server_list_keeps_counters_witness:
  "\<exists>avatars h' cl'. update_cl sample_list sample_store contactlist_new = (avatars, h', cl') \<and>
     set avatars = {[97], [98]} \<and> map_option cp_outgoing_msg_count (index_view h' cl' [97]) = Some 3"
proof -
  obtain avatars h' cl' where u: "update_cl sample_list sample_store contactlist_new = (avatars, h', cl')"
    by (metis prod_cases3)
  have "reachable_list start_store contactlist_new" using reachable_list.start by (simp add: start_store_def)
  note s = server_list_keeps_counters [OF this sample_list_read u]
  have new: "index_view sample_store contactlist_new k = None" "cl_is_empty contactlist_new" for k
    by (simp_all add: index_view_def get_presence_def contactlist_new_def map_find_def cl_is_empty_def)
  have view: "index_view sample_store sample_list k =
      (if k \<in> {[97], [98]} then Some (cl_presence_new\<lparr>cp_outgoing_msg_count := 3\<rparr>) else None)" for k
    by (auto simp: index_view_def get_presence_def map_find_def presence_at_def sample_buddy_def)
  have "set avatars = {[97], [98]}" using s by (auto simp: new view)
  moreover have "map_option cp_outgoing_msg_count (index_view h' cl' [97]) = Some 3"
    using s by (simp add: new view with_out_count_def)
  ultimately show ?thesis using u by blast
qed

end
