(* ===== verification/Spec2Isabelle.thy ===== *)
theory Spec2Isabelle
  imports Format_Properties Message_Properties Index_Properties Search_Properties State_Properties Contact_Properties
    Pending_Properties Url_Properties Gallery_Properties Contact_List_Properties
begin

text \<open>
  The message archive of the desktop client (\<open>src/core/archive\<close> over \<open>src/core/tools\<close>): the files
  in which the core keeps the history of every dialog, and the operations on them; the contact list of
  an account (\<open>src/core/connections/wim\<close>); and the parser that finds links in a message
  (\<open>src/common.shared\<close>).

  \<^bold>\<open>The parts and how they interact.\<close> A dialog has a data file, to which messages are appended as
  blocks, an index file with a header for every message and every edit, a file with the state of the
  dialog, a file with the messages that mention the user, and the two files of its gallery, a cache of
  the server's list of pictures, files and links. \<open>contact_archive\<close> composes them: a block
  of history is written to the data file first, which gives each message its place, and then to the
  index; a request goes to the index for headers and with their places to the data file. The
  messages that are not delivered yet have a store of their own. The contact list caches the groups
  and contacts of the server and follows its differences; it is written as a JSON document, all other
  files are block files of
  \<open>storage\<close>; a block holds a message or headers as type-length-value fields over a
  \<open>binary_stream\<close>. Core and interface share the link parser, a state machine that is fed the bytes of
  a text one by one; the message tokenizer runs it over a message and cuts the message at the links.

  \<^bold>\<open>Theories and code.\<close>
    \<^item> \<open>Prelude\<close>: bytes, words in memory, ordered maps (\<open>std::map\<close>), and the interfaces of the
      development as locales: a codec whose decoder inverts its encoder, with the replay of
      concatenated encodings, and a finite map.
    \<^item> \<open>Binary_Stream\<close>, \<open>Tlv\<close>: \<open>tools/binary_stream\<close>, \<open>tools/tlv\<close>.
    \<^item> \<open>Storage\<close>: \<open>archive/storage\<close> over a model of \<open>std::fstream\<close> with its position, its
      sticky end-of-file and failure flags, its output buffer, and a medium that may be full.
    \<^item> \<open>Message_Header\<close>: the flags, the patch version, the kinds of patches and \<open>message_header\<close>
      (\<open>archive/history_message.cpp\<close>, \<open>archive/history_patch.cpp\<close>, \<open>common.shared/patch_version.h\<close>).
    \<^item> \<open>Archive_Index\<close>: \<open>archive/archive_index\<close>. \<open>Index_Steps\<close> makes its operations a step relation.
    \<^item> \<open>Message_Parts\<close>, \<open>History_Message\<close>: the parts of a message and \<open>history_message\<close>.
    \<^item> \<open>Messages_Data\<close>: the data file. \<open>Search_Term\<close>, \<open>Archive_Search\<close>: the search in it
      (\<open>archive/messages_data\<close>).
    \<^item> \<open>Dlg_State\<close>, \<open>Mentions_Me\<close>, \<open>Contact_Archive\<close>: \<open>archive/dlg_state\<close>, \<open>archive/mentions_me\<close>,
      \<open>archive/contact_archive\<close>.
    \<^item> \<open>Json\<close>, \<open>Gallery\<close>: parsed JSON values as the code sees them, and \<open>archive/gallery_cache\<close>: the
      answer of the server, its merge into the cache, gaps, pages, the two files.
    \<^item> \<open>Contact_List\<close>: \<open>wim/wim_contactlist_cache\<close>, with the helpers of \<open>tools/json_helper\<close> in \<open>Json\<close>.
      Contacts are shared by the groups, the index and the answers of the server, so they live in a
      store (\<open>cl_store\<close>) and are named by their address; an operation takes and returns the store.
    \<^item> \<open>Not_Sent_Messages\<close>: \<open>archive/not_sent_messages\<close>, with the locale \<open>pending_codec\<close> for what the
      two kinds of entries promise to the two files.
    \<^item> \<open>Url_Parser\<close>, \<open>Message_Tokenizer\<close>: \<open>common.shared/url_parser\<close> and
      \<open>common.shared/message_processing\<close>. A call of \<open>process\<close> for a byte is \<open>process_char\<close>; the switch over
      the states is \<open>process_switch\<close>, with one definition per larger case. \<open>Url_Steps\<close> says what a byte can
      do to the parser and has its invariant, \<open>Url_Total\<close> that every byte is processed.
    \<^item> \<open>Samples\<close>: the concrete states on which the properties are applied.
    \<^item> \<open>Format_Properties\<close>, \<open>Message_Properties\<close>, \<open>Index_Properties\<close>, \<open>Search_Properties\<close>,
      \<open>State_Properties\<close>, \<open>Contact_Properties\<close>, \<open>Pending_Properties\<close>, \<open>Url_Properties\<close>,
      \<open>Gallery_Properties\<close>, \<open>Contact_List_Properties\<close> and this theory: the properties.

  A definition has the name of the method it models where that is free; the state a method changes is
  an argument and a result. An operation that the code leaves through an error returns what it had
  changed until then. Reading through a null pointer, which the code does for some damaged files, is
  a flag of the stream (\<open>ub\<close>) and \<open>None\<close> as the result of the parsers over it.

  \<^bold>\<open>What the lemmas show.\<close> Every format has a reference encoder and decoder on byte lists, with a
  round trip; the code's writers and readers refine them. What a file holds is described together
  with the output that waits in the buffer of its stream (\<open>logical\<close>, \<open>capacity\<close>, \<open>wrote\<close> in \<open>Storage\<close>):
  writing adds to it whatever the buffer does, closing cuts it to what the medium takes. A block that
  was torn off is not read, and everything in front of it is. Over that: a loaded index is the replay of the file, saving and
  loading are inverse where the code intends it, the index keeps its invariant whatever the file
  holds, the messages written are the messages read, also after further updates and with a full
  disk; the range and hole queries meet a description by lists; the matcher finds exactly the
  occurrences; the state, the mentions and what is pending survive a restart; a request that has to
  skip deleted messages ends; whatever is ready to be sent is delivered when the server answers, and
  a message deleted while it waited leaves a request to delete it. An answer of the server is merged
  into the gallery as an ordered union, a gap that was asked for closes when it is answered, and the
  gallery survives a restart. In every reachable contact list the index leads to the contact of the
  name and knows every member of a group; the list survives a restart, and who is deleted from it is
  known exactly. The link parser processes every
  text of single-byte characters without an access out of bounds, also where it compares with the
  configured links and has to go back, provided these links have the plain form \<open>wf_fixed\<close>, and the
  tokens of a message are the message; for a link that starts with \<open>www.\<close> the parser destroys the
  buffer it iterates over (\<open>www_host_breaks_parser\<close>).

  \<^bold>\<open>Bounds.\<close> Machine integers are words; lengths that the code keeps in 32 bits wrap as they do
  there, and the theorems carry the bounds under which they do not: a block is at most
  \<open>max_data_block_size\<close> (1 MiB), a pack below \<open>2 ^ 32 - 2\<close> bytes, a file below \<open>2 ^ 63\<close>, at most 1024 edits
  of one message, at most 20000 entries of a gallery in blocks of 1000. Loops that the code ends by a count or the end of a list are recursive functions
  with a termination proof; the loop of a range request is a partial function, and that it returns is
  a theorem. The only fuel is in the link parser: a failed comparison processes its bytes again by the
  same function, which may be nested once (\<open>process_within env 2\<close>); \<open>Url_Total\<close> proves that for links
  of the form \<open>wf_fixed\<close> (a host that does not start with \<open>w\<close>, and a path without dots) a byte that is
  processed again meets no second comparison, so this is enough.

  \<^bold>\<open>Parameters.\<close> The environment of a file (\<open>fs_env\<close>) says whether its directory exists and whether
  it can be opened, and how much of its output the stream of the standard library keeps in its buffer
  (\<open>buffer_keeps\<close>, an arbitrary function: the standard leaves it to the implementation); the free
  space is part of the storage. The time, the case conversion of the
  platform, the generator of identifiers and the existence of a local file are arguments. The link
  parser takes the flavour of the build and the table of top level domains, which a build step
  generates, from \<open>url_env\<close>.

  \<^bold>\<open>Not modelled.\<close> The parsers of the server's JSON (except those of the gallery and the contact list) and the serialization
  to the collections of the graphical interface, which only copy fields; memory usage and other
  accessors; the search in the contact list; compression and the AES cipher, which are library calls; logging. \<open>local_history\<close> posts these
  operations to a thread and hands the results to callbacks. Beyond the archive, the network protocol
  (\<open>connections\<close>), calls (\<open>Voip\<close>), the interface (\<open>gui\<close>) and the remaining parts of the core are
  drivers of servers, devices and widgets, whose behaviour is in code that is not here.
\<close>

section \<open>Properties that span the components\<close>

subsection \<open>The messages of a dialog on disk\<close>

text \<open>C1: What an update of the data file wrote is what a later request for messages returns: after the
  messages were appended, and any further update went to the same file (even one the disk had no
  room for), reading the headers that carry the recorded places gives every message back, with the
  flags of its header, in the order of the headers, and reports no error.\<close>

theorem archive_returns_stored_messages:
  assumes "can_open env" and "file_stream st = None"
    and "\<forall>m \<in> set ms. message_ok m \<and> parts_ok m"
    and "length (data_blocks ms) \<le> free_space st" and "length (file_bytes st) + length (data_blocks ms) < 2 ^ 63"
    and "data_update env ms st = (r, ms1, st1)"
    and "list_all2 refers_to hs ms1" and "\<forall>h \<in> set hs. \<not> is_modified h"
    and "\<forall>m \<in> set later. length (message_bytes m) \<le> 2 ^ 32 - 2"
    and "data_update env later st1 = (r2, later1, st2)" and "ms \<noteq> []"
  shows "result r \<and> (\<exists>st3. get_messages env hs [] st2 =
    (Some ([], map2 (\<lambda>h m. apply_header_flags h (hm_stored m)) hs ms), st3))"
proof -
  have small: "\<forall>m \<in> set ms. length (message_bytes m) \<le> 2 ^ 32 - 2"
    using assms(3) message_okD by blast
  note u = data_update_file [OF assms(1,2) small, unfolded assms(6)]
  have f1: "file_bytes st1 = file_bytes st @ data_blocks ms @ []" and ms1: "ms1 = placed (length (file_bytes st)) ms"
    and closed1: "file_stream st1 = None"
    using u(2,4) u(3) [OF u(1)] assms(4) by simp_all
  note u2 = data_update_file [OF assms(1) closed1 assms(9), unfolded assms(10)]
  define f where "f = file_bytes st2"
  have f: "f = file_bytes st1 @ take (free_space st1) (data_blocks later)" and closed2: "file_stream st2 = None"
    using u2(2,4) by (simp_all add: f_def)
  have "list_all2 (stored_at (file_bytes st1)) hs ms"
    using placed_stored [OF f1 _ assms(3)] assms(5,7) ms1 by (simp add: f1)
  then have stored: "list_all2 (stored_at f) hs ms"
    unfolding f by (auto intro: stored_at_append list_all2_mono)
  have edits: "list_all2 (\<lambda>h es. list_all2 (stored_at f) (edits_of h) es \<and> length es \<le> 1024)
      hs (map (\<lambda>h. []) hs)"
    using assms(8) by (induction hs) (simp_all add: edits_of_def)
  have "file_bytes st2 \<noteq> []"
    using f f1 assms(11) by (cases ms) (simp_all add: f_def block_bytes_def)
  then have "file_data st2 = Some f" by (simp add: f_def file_data_of_bytes)
  from get_messages_stored [OF assms(1) closed2 this stored edits] show ?thesis
    using map_shown_no_edits [of ms hs] list_all2_lengthD [OF stored] u(1) assms(4) by auto
qed

lemma length_sample_block: "length (data_blocks [sample_message]) \<le> 1016"
  using length_sample_messages(1) by simp

theorem archive_returns_stored_messages_witness:
  "\<exists>r ms1 st1 st3. data_update sample_env [sample_message] sample_storage = (r, ms1, st1) \<and>
     get_messages sample_env [sample_header 5 (-1) 0] [] (snd (snd (data_update sample_env [sample_reply] st1))) =
       (Some ([], [apply_header_flags (sample_header 5 (-1) 0) (hm_stored sample_message)]), st3)"
proof -
  obtain r ms1 st1 where u: "data_update sample_env [sample_message] sample_storage = (r, ms1, st1)"
    by (metis prod_cases3)
  obtain r2 l1 st2 where u2: "data_update sample_env [sample_reply] st1 = (r2, l1, st2)"
    by (metis prod_cases3)
  have fit: "length (data_blocks [sample_message]) \<le> free_space sample_storage"
    using length_sample_block unfolding sample_storage_fields by linarith
  have "\<forall>m \<in> set [sample_message]. length (message_bytes m) \<le> 2 ^ 32 - 2" by simp
  from data_update_file(1,3) [OF sample_env_opens sample_storage_fields(1) this] fit u
  have ms1: "ms1 = placed 0 [sample_message]" by simp
  have refs: "list_all2 refers_to [sample_header 5 (-1) 0] ms1"
    by (simp add: ms1 refers_to_def)
  have "length (file_bytes sample_storage) + length (data_blocks [sample_message]) < 2 ^ 63"
    using length_sample_block by (simp del: length_block_bytes data_blocks_simps)
  from archive_returns_stored_messages [OF sample_env_opens sample_storage_fields(1) _ fit this u refs _ _ u2]
  show ?thesis
    using u u2 by (simp add: is_modified_def flag_def)
qed

text \<open>C20: When the disk fills up during an update, the file keeps all that was in it followed by what fits
  of the new blocks, and what was placed before is still found. The update itself reports failure
  with a library that does not buffer; with one that keeps the output in its buffer it reports
  success, and gives every message its place in the file although the last ones were not written.\<close>

theorem full_disk_keeps_messages:
  assumes "can_open env" and "file_stream st = None" and "free_space st < length (data_blocks ms)"
    and "\<forall>m \<in> set ms. length (message_bytes m) \<le> 2 ^ 32 - 2"
    and "data_update env ms st = (r, ms1, st1)" and "stored_at (file_bytes st) h m"
  shows "file_stream st1 = None \<and> file_bytes st1 = file_bytes st @ take (free_space st) (data_blocks ms) \<and>
    stored_at (file_bytes st1) h m \<and> (unbuffered env \<longrightarrow> \<not> result r) \<and>
    (keeps_all env \<longrightarrow> result r \<and> ms1 = placed (length (file_bytes st)) ms)"
  using data_update_file [OF assms(1,2,4), unfolded assms(5)] assms(3) stored_at_append [OF assms(6)]
  by auto

theorem full_disk_keeps_messages_witness:
  "\<not> result (fst (data_update (sample_env\<lparr>buffer_keeps := (\<lambda>p n. 0)\<rparr>) [sample_message]
     (storage_new\<lparr>file_data := Some (block_bytes (message_bytes sample_message)), free_space := 10\<rparr>)))"
proof -
  let ?st = "storage_new\<lparr>file_data := Some (block_bytes (message_bytes sample_message)), free_space := 10\<rparr>"
  let ?env = "sample_env\<lparr>buffer_keeps := (\<lambda>p n. 0)\<rparr>"
  obtain r ms1 st1 where u: "data_update ?env [sample_message] ?st = (r, ms1, st1)"
    by (metis prod_cases3)
  have e: "can_open ?env" "unbuffered ?env"
    using sample_env_opens by (simp_all add: can_open_def unbuffered_def)
  have st: "file_stream ?st = None" "free_space ?st = 10"
    "file_bytes ?st = block_bytes (message_bytes sample_message)"
    by (simp_all add: storage_new_def file_bytes_def)
  have "dec_block (block_bytes (message_bytes sample_message) @ []) = Some (message_bytes sample_message, [])"
    using sample_messages_ok(1) by (intro dec_block_block_bytes) (simp add: message_ok_def)
  then have s: "stored_at (file_bytes ?st) (sample_header 5 (-1) 0) sample_message"
    unfolding st by (auto simp: stored_at_def header_offset_def)
  have full: "free_space ?st < length (data_blocks [sample_message])"
    using st(2) by simp
  from full_disk_keeps_messages [OF e(1) st(1) full _ u s] e(2) u show ?thesis by simp
qed

subsection \<open>Unreadable messages\<close>

text \<open>C21: A header that points past the end of the data file makes its own message and every later message
  of the same request unreadable, whether they are in the file or not: the messages before it come
  back, the others are placeholders and each is reported.\<close>

theorem offset_past_end_hides_rest:
  assumes "can_open env" and "file_stream st = None" and "file_data st = Some f"
    and "list_all2 (stored_at f) hs ms" and "\<forall>h \<in> set hs. \<not> is_modified h"
    and "int (length f) \<le> header_offset h0"
  shows "\<exists>st'. get_messages env (hs @ h0 # js) [] st =
    (Some (map (\<lambda>h. (get_id h, 1)) (h0 # js),
       map2 (\<lambda>h m. apply_header_flags h (hm_stored m)) hs ms @ map make_fake_message (h0 # js)), st')"
proof -
  obtain s where s: "storage_open env (no_mode\<lparr>sm_read := True, sm_append := True\<rparr>) st =
      (True, set_stream (st\<lparr>last_error := ok\<rparr>) s)" "ready s"
    using open_read_append [OF assms(1-3)] by blast
  have f: "file_bytes (set_stream (st\<lparr>last_error := ok\<rparr>) s) = f"
    using assms(3) by (simp add: file_bytes_def set_stream_def)
  have "length hs = length ms" using assms(4) by (rule list_all2_lengthD)
  then show ?thesis
    using s(1) read_messages_cut_off [OF assms(4,5) f _ s(2) bs_wf_empty assms(6), of js]
    by (auto simp: get_messages_def)
qed

theorem offset_past_end_hides_rest_witness:
  "\<exists>st'. get_messages sample_env
      [sample_header 5 (-1) 0, Message_Header ((sample_fields 6 5 0)\<lparr>hdata_offset := 5000\<rparr>) [], sample_header 5 (-1) 0] []
      (storage_new\<lparr>file_data := Some (block_bytes (message_bytes sample_message))\<rparr>) =
    (Some ([(6, 1), (5, 1)],
       [apply_header_flags (sample_header 5 (-1) 0) (hm_stored sample_message),
        make_fake_message (Message_Header ((sample_fields 6 5 0)\<lparr>hdata_offset := 5000\<rparr>) []),
        make_fake_message (sample_header 5 (-1) 0)]), st')"
proof -
  let ?f = "block_bytes (message_bytes sample_message)"
  let ?st = "storage_new\<lparr>file_data := Some ?f\<rparr>"
  let ?h0 = "Message_Header ((sample_fields 6 5 0)\<lparr>hdata_offset := 5000\<rparr>) []"
  have st: "file_stream ?st = None" "file_data ?st = Some ?f"
    by (simp_all add: storage_new_def)
  have "dec_block (?f @ []) = Some (message_bytes sample_message, [])"
    using sample_messages_ok(1) by (intro dec_block_block_bytes) (simp add: message_ok_def)
  then have s: "list_all2 (stored_at ?f) [sample_header 5 (-1) 0] [sample_message]"
    by (auto simp: stored_at_def header_offset_def)
  have off: "header_offset ?h0 = 5000" by (simp add: header_offset_def)
  have past: "int (length ?f) \<le> header_offset ?h0"
    using length_sample_messages(1) unfolding off length_block_bytes by linarith
  have "\<forall>h \<in> set [sample_header 5 (-1) 0]. \<not> is_modified h"
    by (simp add: is_modified_def flag_def)
  from offset_past_end_hides_rest [OF sample_env_opens st s this past, of "[sample_header 5 (-1) 0]"]
  show ?thesis by (simp add: get_id_def)
qed

end
